(* ===== verification/Prelude.thy ===== *)
theory Prelude
  imports Complex_Main "HOL-Library.AList"
begin

text \<open>
  Shared vocabulary of the development: the JavaScript string operations the sources use, decimal
  numerals as strings, insertion-ordered maps and results that carry an error.
  \<^item> A JavaScript string is a \<^typ>\<open>string\<close>; the model counts code units of one byte, so it is exact
    for the ASCII text the sources manipulate (keys, slugs, model names, headers, decimals).
  \<^item> A \<open>Map\<close> or a plain object used as a dictionary is an association list in insertion order:
    \<open>m.get(k)\<close> is \<^term>\<open>map_of m k\<close> and \<open>m.set(k, v)\<close> is \<^term>\<open>AList.update k v m\<close>, which replaces in
    place or appends at the end, as JavaScript does.
  \<^item> A thrown error is \<^term>\<open>Inl\<close>, a returned value \<^term>\<open>Inr\<close>.
  \<^item> Instants (\<open>Date\<close>, \<open>Date.now()\<close>) are integers, in milliseconds since the epoch.
  The collections \<open>js_simps\<close>, \<open>decimal_simps\<close> and \<open>omap_simps\<close> carry the facts the components'
  proofs share.
\<close>

named_theorems js_simps \<open>facts on JavaScript string operations\<close>
named_theorems decimal_simps \<open>facts on decimal numerals\<close>
named_theorems omap_simps \<open>facts on insertion-ordered maps\<close>

section \<open>Types\<close>

type_synonym ('k, 'v) omap = "('k \<times> 'v) list"

type_synonym millis = int

section \<open>Strings\<close>

definition startsWith :: "string \<Rightarrow> string \<Rightarrow> bool" where
  "startsWith s p \<longleftrightarrow> take (length p) s = p"

definition endsWith :: "string \<Rightarrow> string \<Rightarrow> bool" where
  "endsWith s p \<longleftrightarrow> length p \<le> length s \<and> drop (length s - length p) s = p"

fun indexOf :: "string \<Rightarrow> string \<Rightarrow> nat option" where
  "indexOf [] d = (if d = [] then Some 0 else None)"
| "indexOf (c # s) d = (if startsWith (c # s) d then Some 0 else map_option Suc (indexOf s d))"

definition includesStr :: "string \<Rightarrow> string \<Rightarrow> bool" where
  "includesStr s d \<longleftrightarrow> indexOf s d \<noteq> None"

text \<open>\<open>s.split(c)\<close> for a separator of one character: never empty, one piece more than separators.\<close>

fun splitOn :: "char \<Rightarrow> string \<Rightarrow> string list" where
  "splitOn c [] = [[]]"
| "splitOn c (x # xs) =
     (if x = c then [] # splitOn c xs
      else (case splitOn c xs of [] \<Rightarrow> [[x]] | p # ps \<Rightarrow> (x # p) # ps))"

fun joinWith :: "string \<Rightarrow> string list \<Rightarrow> string" where
  "joinWith sep [] = []"
| "joinWith sep [x] = x"
| "joinWith sep (x # y # xs) = x @ sep @ joinWith sep (y # xs)"

text \<open>White space of \<open>trim\<close>: tab, line feed, vertical tab, form feed, carriage return, space.\<close>

definition isSpace :: "char \<Rightarrow> bool" where
  "isSpace c \<longleftrightarrow> c \<in> {CHR 0x09, CHR 0x0A, CHR 0x0B, CHR 0x0C, CHR 0x0D, CHR 0x20}"

definition trim :: "string \<Rightarrow> string" where
  "trim s = rev (dropWhile isSpace (rev (dropWhile isSpace s)))"

definition lowerChar :: "char \<Rightarrow> char" where
  "lowerChar c = (let n = of_char c :: nat in if 65 \<le> n \<and> n \<le> 90 then char_of (n + 32) else c)"

definition toLowerCase :: "string \<Rightarrow> string" where
  "toLowerCase s = map lowerChar s"

definition padStart :: "nat \<Rightarrow> char \<Rightarrow> string \<Rightarrow> string" where
  "padStart w c s = replicate (w - length s) c @ s"

definition padEnd :: "nat \<Rightarrow> char \<Rightarrow> string \<Rightarrow> string" where
  "padEnd w c s = s @ replicate (w - length s) c"

text \<open>\<open>s.slice(-n)\<close> for positive \<open>n\<close>: the last \<open>n\<close> characters, or all of a shorter string.\<close>

definition sliceLast :: "nat \<Rightarrow> string \<Rightarrow> string" where
  "sliceLast n s = drop (length s - n) s"

section \<open>Decimal numerals\<close>

definition isDigit :: "char \<Rightarrow> bool" where
  "isDigit c \<longleftrightarrow> (let n = of_char c :: nat in 48 \<le> n \<and> n \<le> 57)"

definition digitVal :: "char \<Rightarrow> nat" where
  "digitVal c = of_char c - 48"

definition digitChar :: "nat \<Rightarrow> char" where
  "digitChar d = char_of (48 + d)"

text \<open>\<open>BigInt(s)\<close> on a string of digits; \<open>BigInt("")\<close> is 0.\<close>

definition digitsVal :: "string \<Rightarrow> nat" where
  "digitsVal s = foldl (\<lambda>n c. 10 * n + digitVal c) 0 s"

text \<open>\<open>n.toString()\<close> of a natural number.\<close>

fun showNat :: "nat \<Rightarrow> string" where
  "showNat n = (if n < 10 then [digitChar n] else showNat (n div 10) @ [digitChar (n mod 10)])"

declare showNat.simps [simp del]

definition showInt :: "int \<Rightarrow> string" where
  "showInt i = (if i < 0 then CHR ''-'' # showNat (nat (- i)) else showNat (nat i))"

text \<open>
  The match of the pattern \<open>^(\d+)(?:\.(\d+))?$\<close>: the integer part and, after a point, the fraction.
  Both the price parser and the rollup parser anchor this pattern at both ends.
\<close>

definition matchDecimal :: "string \<Rightarrow> (string \<times> string option) option" where
  "matchDecimal s =
     (let w = takeWhile isDigit s; r = dropWhile isDigit s in
      if w = [] then None
      else (case r of
              [] \<Rightarrow> Some (w, None)
            | c # f \<Rightarrow> (if c = CHR ''.'' \<and> f \<noteq> [] \<and> list_all isDigit f then Some (w, Some f) else None)))"

text \<open>The rational number a decimal string denotes, independently of any scale.\<close>

definition decimalValue :: "string \<Rightarrow> rat option" where
  "decimalValue s =
     (case matchDecimal s of
        None \<Rightarrow> None
      | Some (w, f) \<Rightarrow>
          (let fs = (case f of None \<Rightarrow> [] | Some t \<Rightarrow> t) in
           Some (of_nat (digitsVal w) + of_nat (digitsVal fs) / 10 ^ length fs)))"

text \<open>A JavaScript number, as an exact rational; \<open>Number.isInteger\<close> and \<open>BigInt(n)\<close> on it.\<close>

type_synonym jsnumber = rat

definition isInteger :: "jsnumber \<Rightarrow> bool" where
  "isInteger q \<longleftrightarrow> of_int \<lfloor>q\<rfloor> = q"

section \<open>Facts on lists\<close>

lemma find_SomeD: "find P xs = Some x \<Longrightarrow> x \<in> set xs \<and> P x"
  by (induction xs) (auto split: if_splits)

section \<open>Facts on strings\<close>

lemma startsWith_iff [js_simps]: "startsWith s p \<longleftrightarrow> (\<exists>t. s = p @ t)"
  by (auto simp: startsWith_def) (metis append_take_drop_id)

lemma endsWith_iff [js_simps]: "endsWith s p \<longleftrightarrow> (\<exists>t. s = t @ p)"
  by (auto simp: endsWith_def) (metis append_take_drop_id)

lemma startsWith_append [simp]: "startsWith (p @ t) p"
  by (simp add: startsWith_def)

lemma startsWith_Nil [simp]: "startsWith s []"
  by (simp add: startsWith_def)

lemma indexOf_Some: "indexOf s d = Some i \<Longrightarrow> \<exists>a b. s = a @ d @ b \<and> length a = i"
proof (induction s arbitrary: i)
  case Nil
  then show ?case by (auto split: if_splits)
next
  case (Cons c s)
  show ?case
  proof (cases "startsWith (c # s) d")
    case True
    with Cons.prems show ?thesis by (auto simp: startsWith_iff)
  next
    case False
    with Cons.prems obtain j where j: "indexOf s d = Some j" "i = Suc j" by auto
    from Cons.IH [OF j(1)] obtain a b where "s = a @ d @ b" "length a = j" by blast
    with j(2) have "c # s = (c # a) @ d @ b \<and> length (c # a) = i" by simp
    then show ?thesis by blast
  qed
qed

lemma indexOf_bound: "indexOf s d = Some i \<Longrightarrow> i + length d \<le> length s"
  by (auto dest!: indexOf_Some)

lemma indexOf_slice: "indexOf s d = Some i \<Longrightarrow> s = take i s @ d @ drop (i + length d) s"
  by (auto dest!: indexOf_Some)

lemma indexOf_None_iff: "indexOf s d = None \<longleftrightarrow> (\<nexists>a b. s = a @ d @ b)"
proof
  assume "indexOf s d = None"
  then show "\<nexists>a b. s = a @ d @ b"
  proof (induction s)
    case Nil
    then show ?case by (auto split: if_splits)
  next
    case (Cons c s)
    then have hd: "\<not> startsWith (c # s) d" and tl: "\<nexists>a b. s = a @ d @ b"
      by (auto split: if_splits)
    show ?case
    proof
      assume "\<exists>a b. c # s = a @ d @ b"
      then obtain a b where ab: "c # s = a @ d @ b" by blast
      with hd have "a \<noteq> []" by (auto simp: startsWith_iff)
      with ab have "s = tl a @ d @ b" by (metis list.sel(3) tl_append2)
      with tl show False by blast
    qed
  qed
next
  assume none: "\<nexists>a b. s = a @ d @ b"
  show "indexOf s d = None"
  proof (cases "indexOf s d")
    case (Some i)
    then show ?thesis using indexOf_Some none by blast
  qed simp
qed

lemma splitOn_nonempty [simp]: "splitOn c s \<noteq> []"
  by (cases s) (auto split: list.splits)

lemma splitOn_no_sep: "c \<notin> set s \<Longrightarrow> splitOn c s = [s]"
  by (induction s) auto

lemma splitOn_append_sep: "c \<notin> set p \<Longrightarrow> splitOn c (p @ c # s) = p # splitOn c s"
  by (induction p) auto

lemma splitOn_joinWith:
  "ps \<noteq> [] \<Longrightarrow> (\<And>p. p \<in> set ps \<Longrightarrow> c \<notin> set p) \<Longrightarrow> splitOn c (joinWith [c] ps) = ps"
proof (induction "[c]" ps rule: joinWith.induct)
  case (2 x)
  then show ?case by (simp add: splitOn_no_sep)
next
  case (3 x y xs)
  then show ?case by (simp add: splitOn_append_sep)
qed simp

section \<open>Facts on decimal numerals\<close>

lemma of_char_digitChar: "d < 10 \<Longrightarrow> (of_char (digitChar d) :: nat) = 48 + d"
  by (simp add: digitChar_def)

lemma digitVal_digitChar [simp, decimal_simps]: "d < 10 \<Longrightarrow> digitVal (digitChar d) = d"
  by (simp add: digitVal_def of_char_digitChar)

lemma isDigit_digitChar [simp, decimal_simps]: "d < 10 \<Longrightarrow> isDigit (digitChar d)"
  by (simp add: isDigit_def of_char_digitChar)

lemma digitChar_eval [simp]:
  "digitChar 0 = CHR ''0''" "digitChar 1 = CHR ''1''" "digitChar (Suc 0) = CHR ''1''"
  "digitChar 2 = CHR ''2''" "digitChar 3 = CHR ''3''" "digitChar 4 = CHR ''4''"
  "digitChar 5 = CHR ''5''" "digitChar 6 = CHR ''6''" "digitChar 7 = CHR ''7''"
  "digitChar 8 = CHR ''8''" "digitChar 9 = CHR ''9''"
  by code_simp+

lemma digitVal_bound: "isDigit c \<Longrightarrow> digitVal c < 10"
  by (auto simp: isDigit_def digitVal_def Let_def)

lemma digitChar_digitVal [simp]: "isDigit c \<Longrightarrow> digitChar (digitVal c) = c"
  by (auto simp: isDigit_def digitVal_def digitChar_def Let_def)

lemma digitVal_zero [simp, decimal_simps]: "digitVal CHR ''0'' = 0"
  by (simp add: digitVal_def)

lemma isDigit_zero [simp, decimal_simps]: "isDigit CHR ''0''"
  by (simp add: isDigit_def)

lemma isDigit_dot [simp, decimal_simps]: "\<not> isDigit CHR ''.''"
  by (simp add: isDigit_def)

lemma isDigit_minus [simp, decimal_simps]: "\<not> isDigit CHR ''-''"
  by (simp add: isDigit_def)

lemma digitsVal_Nil [simp, decimal_simps]: "digitsVal [] = 0"
  by (simp add: digitsVal_def)

lemma foldl_digits_shift:
  "foldl (\<lambda>n c. 10 * n + digitVal c) m s = m * 10 ^ length s + digitsVal s"
proof (induction s rule: rev_induct)
  case (snoc c s)
  then show ?case by (simp add: digitsVal_def algebra_simps)
qed (simp add: digitsVal_def)

lemma digitsVal_append [decimal_simps]:
  "digitsVal (s @ t) = digitsVal s * 10 ^ length t + digitsVal t"
proof -
  have "digitsVal (s @ t) = foldl (\<lambda>n c. 10 * n + digitVal c) (digitsVal s) t"
    by (simp add: digitsVal_def)
  then show ?thesis by (simp only: foldl_digits_shift)
qed

lemma digitsVal_single [simp, decimal_simps]: "digitsVal [c] = digitVal c"
  by (simp add: digitsVal_def)

lemma digitsVal_zeros [simp, decimal_simps]: "digitsVal (replicate k CHR ''0'') = 0"
  by (induction k) (simp_all add: digitsVal_append flip: replicate_append_same)

lemma digitsVal_padStart [simp, decimal_simps]: "digitsVal (padStart w CHR ''0'' s) = digitsVal s"
  by (simp add: padStart_def digitsVal_append)

lemma digitsVal_padEnd [decimal_simps]:
  "digitsVal (padEnd w CHR ''0'' s) = digitsVal s * 10 ^ (w - length s)"
  by (simp add: padEnd_def digitsVal_append)

lemma digitsVal_bound: "list_all isDigit s \<Longrightarrow> digitsVal s < 10 ^ length s"
proof (induction s rule: rev_induct)
  case (snoc c s)
  then have "digitsVal s < 10 ^ length s" "digitVal c < 10" by (simp_all add: digitVal_bound)
  then have "digitsVal s * 10 + digitVal c < 10 ^ length s * 10" by linarith
  then show ?case by (simp add: digitsVal_append)
qed simp

lemma showNat_nonempty [simp]: "showNat n \<noteq> []"
  by (subst showNat.simps) simp

lemma showNat_lt: "n < 10 \<Longrightarrow> showNat n = [digitChar n]"
  by (subst showNat.simps) simp

lemma showNat_ge: "10 \<le> n \<Longrightarrow> showNat n = showNat (n div 10) @ [digitChar (n mod 10)]"
  by (subst showNat.simps) simp

lemma showNat_digits [simp, decimal_simps]: "list_all isDigit (showNat n)"
proof (induction n rule: showNat.induct)
  case (1 n)
  then show ?case by (subst showNat.simps) auto
qed

lemma digitsVal_showNat [simp, decimal_simps]: "digitsVal (showNat n) = n"
proof (induction n rule: showNat.induct)
  case (1 n)
  then show ?case by (subst showNat.simps) (auto simp: digitsVal_append)
qed

lemma showNat_inj [simp]: "showNat m = showNat n \<longleftrightarrow> m = n"
  by (metis digitsVal_showNat)

lemma length_showNat: "n < 10 ^ k \<Longrightarrow> 0 < k \<Longrightarrow> length (showNat n) \<le> k"
proof (induction n arbitrary: k rule: showNat.induct)
  case (1 n)
  show ?case
  proof (cases "n < 10")
    case True
    with "1.prems" show ?thesis by (subst showNat.simps) simp
  next
    case False
    with "1.prems" obtain j where k: "k = Suc j" "0 < j" by (cases k; cases "k - 1") auto
    from k "1.prems" have "n div 10 < 10 ^ j" by (simp add: less_mult_imp_div_less mult.commute)
    with False k "1.IH" have "length (showNat (n div 10)) \<le> j" by simp
    with False k show ?thesis by (subst showNat.simps) simp
  qed
qed

lemma length_padStart [simp]: "length s \<le> w \<Longrightarrow> length (padStart w c s) = w"
  by (simp add: padStart_def)

lemma length_padEnd [simp]: "length s \<le> w \<Longrightarrow> length (padEnd w c s) = w"
  by (simp add: padEnd_def)

lemma list_all_replicate [simp]: "P c \<Longrightarrow> list_all P (replicate n c)"
  by (induction n) auto

lemma replicate_numeral_eval: "replicate (numeral k) x = x # replicate (pred_numeral k) x"
  by (simp add: numeral_eq_Suc)

lemma padStart_digits [simp, decimal_simps]:
  "list_all isDigit s \<Longrightarrow> list_all isDigit (padStart w CHR ''0'' s)"
  by (simp add: padStart_def)

text \<open>Two digit strings of the same length with the same value are the same string.\<close>

lemma digits_unique:
  "length s = length t \<Longrightarrow> list_all isDigit s \<Longrightarrow> list_all isDigit t \<Longrightarrow>
   digitsVal s = digitsVal t \<Longrightarrow> s = t"
proof (induction s arbitrary: t rule: rev_induct)
  case (snoc c s)
  from snoc.prems(1) obtain t' d where t: "t = t' @ [d]" by (cases t rule: rev_cases) auto
  from snoc.prems t have eq: "10 * digitsVal s + digitVal c = 10 * digitsVal t' + digitVal d"
    and lt: "digitVal c < 10" "digitVal d < 10" and ds: "isDigit c" "isDigit d"
    by (simp_all add: digitsVal_append digitVal_bound)
  from eq lt have "digitsVal s = digitsVal t'" "digitVal c = digitVal d" by presburger+
  with snoc t ds show ?case by simp (metis digitChar_digitVal)
qed simp

lemma takeWhile_digits: "list_all isDigit w \<Longrightarrow> \<not> isDigit c \<Longrightarrow> takeWhile isDigit (w @ c # r) = w"
  by (induction w) auto

lemma dropWhile_digits: "list_all isDigit w \<Longrightarrow> \<not> isDigit c \<Longrightarrow> dropWhile isDigit (w @ c # r) = c # r"
  by (induction w) auto

lemma matchDecimal_whole [simp, decimal_simps]:
  assumes "list_all isDigit w" "w \<noteq> []"
  shows "matchDecimal w = Some (w, None)"
proof -
  have tw: "takeWhile isDigit w = w" and dw: "dropWhile isDigit w = []"
    using assms(1) by (simp_all add: list_all_iff)
  show ?thesis by (simp add: matchDecimal_def tw dw assms(2))
qed

lemma matchDecimal_point [simp, decimal_simps]:
  "list_all isDigit w \<Longrightarrow> w \<noteq> [] \<Longrightarrow> list_all isDigit f \<Longrightarrow> f \<noteq> [] \<Longrightarrow>
   matchDecimal (w @ CHR ''.'' # f) = Some (w, Some f)"
  by (simp add: matchDecimal_def takeWhile_digits dropWhile_digits)

lemma matchDecimal_digits:
  assumes "matchDecimal s = Some (w, f)"
  shows "list_all isDigit w" "w \<noteq> []" "\<And>t. f = Some t \<Longrightarrow> list_all isDigit t \<and> t \<noteq> []"
  using assms
  by (auto simp: matchDecimal_def Let_def list_all_iff dest: set_takeWhileD
      split: if_splits list.splits)

lemma isInteger_iff: "isInteger q \<longleftrightarrow> (\<exists>i. q = of_int i)"
  by (auto simp: isInteger_def intro: sym)

lemma isInteger_of_int [simp]: "isInteger (of_int i)"
  by (simp add: isInteger_def)

lemma isInteger_of_nat [simp]: "isInteger (of_nat n)"
  by (simp add: isInteger_def)

lemma isInteger_numeral [simp]: "isInteger (numeral n)" "isInteger 0" "isInteger 1"
  by (simp_all add: isInteger_def)

section \<open>Facts on insertion-ordered maps\<close>

lemma map_of_update [simp, omap_simps]:
  "map_of (AList.update k v m) = (map_of m)(k \<mapsto> v)"
  by (rule update_conv')

lemma keys_update [omap_simps]:
  "map fst (AList.update k v m) = (if k \<in> set (map fst m) then map fst m else map fst m @ [k])"
  by (simp add: update_keys)

lemma distinct_keys_update [simp, omap_simps]:
  "distinct (map fst m) \<Longrightarrow> distinct (map fst (AList.update k v m))"
  by (simp add: keys_update)

lemma length_update [omap_simps]:
  "length (AList.update k v m) = (if k \<in> fst ` set m then length m else Suc (length m))"
  by (induction m) auto

section \<open>A contract for fixed-point money\<close>

text \<open>
  Money crosses component boundaries as a decimal string. A component that prints amounts and a
  component that reads them agree when reading what was printed gives the amount back; the
  consequences (printing is injective, sums may be taken on the amounts) are proved here once.
\<close>

locale money_codec =
  fixes render :: "'a \<Rightarrow> string"
    and read :: "string \<Rightarrow> 'e + 'a"
  assumes read_render: "read (render x) = Inr x"
begin

lemma render_inj: "render x = render y \<longleftrightarrow> x = y"
  using read_render by (metis sum.inject(2))

lemma read_all: "map read (map render xs) = map Inr xs"
  by (simp add: read_render)

end

end
