(* ===== verification/Shared.thy ===== *)
theory Shared
  imports Prelude
begin

text \<open>
  The package \<open>packages/shared\<close>: the domain enumerations, the error taxonomy with its HTTP statuses,
  role-based access control and CSV rendering. The role order is made the library's linear order of
  the type; CSV rendering is shown to be inverted by an independent RFC 4180 reader.
\<close>

section \<open>Enumerations (enums.ts)\<close>

datatype provider = ANTHROPIC | OPENAI | GEMINI | MINIMAX | OPENROUTER | DEEPSEEK | OLLAMA

definition PROVIDERS :: "provider list" where
  "PROVIDERS = [ANTHROPIC, OPENAI, GEMINI, MINIMAX, OPENROUTER, DEEPSEEK, OLLAMA]"

fun providerName :: "provider \<Rightarrow> string" where
  "providerName ANTHROPIC = ''ANTHROPIC''"
| "providerName OPENAI = ''OPENAI''"
| "providerName GEMINI = ''GEMINI''"
| "providerName MINIMAX = ''MINIMAX''"
| "providerName OPENROUTER = ''OPENROUTER''"
| "providerName DEEPSEEK = ''DEEPSEEK''"
| "providerName OLLAMA = ''OLLAMA''"

datatype workspace_role = OWNER | ADMIN | MEMBER | VIEWER

datatype team_role = TEAM_LEAD | TEAM_MEMBER

datatype event_status = OK | PROVIDER_ERROR | BLOCKED_BUDGET | BLOCKED_RATELIMIT | AUTH_ERROR

datatype cost_basis = ACTUAL | ESTIMATED | OVERRIDDEN | UNPRICED

definition TOKEN_PREFIX_virtualKey :: string where
  "TOKEN_PREFIX_virtualKey = ''tl_live_''"

definition TOKEN_PREFIX_personalAccessToken :: string where
  "TOKEN_PREFIX_personalAccessToken = ''tlp_''"

definition TOKEN_PREFIX_invite :: string where
  "TOKEN_PREFIX_invite = ''tli_''"

definition LEGACY_TOKEN_PREFIX :: string where
  "LEGACY_TOKEN_PREFIX = ''tt_live_''"

section \<open>Error taxonomy (errors.ts)\<close>

text \<open>One constructor per subclass of \<open>DomainError\<close>, with the arguments its constructor takes.\<close>

datatype domain_error =
    NotFoundError string "string option"
  | ForbiddenError string
  | UnauthorizedError string
  | ValidationError string
  | ConflictError string
  | LicenseRequiredError string
  | BudgetExceededError string string string
  | RateLimitedError int

fun errorCode :: "domain_error \<Rightarrow> string" where
  "errorCode (NotFoundError _ _) = ''not_found''"
| "errorCode (ForbiddenError _) = ''forbidden''"
| "errorCode (UnauthorizedError _) = ''unauthorized''"
| "errorCode (ValidationError _) = ''validation_failed''"
| "errorCode (ConflictError _) = ''conflict''"
| "errorCode (LicenseRequiredError _) = ''license_required''"
| "errorCode (BudgetExceededError _ _ _) = ''budget_exceeded''"
| "errorCode (RateLimitedError _) = ''rate_limited''"

fun httpStatusOf :: "domain_error \<Rightarrow> int" where
  "httpStatusOf (NotFoundError _ _) = 404"
| "httpStatusOf (ForbiddenError _) = 403"
| "httpStatusOf (UnauthorizedError _) = 401"
| "httpStatusOf (ValidationError _) = 400"
| "httpStatusOf (ConflictError _) = 409"
| "httpStatusOf (LicenseRequiredError _) = 402"
| "httpStatusOf (BudgetExceededError _ _ _) = 402"
| "httpStatusOf (RateLimitedError _) = 429"

fun errorMessage :: "domain_error \<Rightarrow> string" where
  "errorMessage (NotFoundError resource i) =
     (case i of
        Some n \<Rightarrow> (if n \<noteq> [] then resource @ '' '' @ [CHR 0x27] @ n @ [CHR 0x27] @ '' not found''
                   else resource @ '' not found'')
      | None \<Rightarrow> resource @ '' not found'')"
| "errorMessage (ForbiddenError m) = m"
| "errorMessage (UnauthorizedError m) = m"
| "errorMessage (ValidationError m) = m"
| "errorMessage (ConflictError m) = m"
| "errorMessage (LicenseRequiredError f) =
     [CHR 0x27] @ f @ [CHR 0x27] @ '' requires an enterprise license''"
| "errorMessage (BudgetExceededError _ _ m) = m"
| "errorMessage (RateLimitedError _) = ''Rate limit exceeded''"

section \<open>Role-based access control (rbac.ts)\<close>

fun ROLE_RANK :: "workspace_role \<Rightarrow> nat" where
  "ROLE_RANK OWNER = 3"
| "ROLE_RANK ADMIN = 2"
| "ROLE_RANK MEMBER = 1"
| "ROLE_RANK VIEWER = 0"

definition hasMinimumRole :: "workspace_role \<Rightarrow> workspace_role \<Rightarrow> bool" where
  "hasMinimumRole actual required \<longleftrightarrow> ROLE_RANK required \<le> ROLE_RANK actual"

datatype capability =
    Workspace_manage | Members_manage | Teams_manage | Projects_manage | Credentials_manage
  | Budgets_manage | Keys_issue | Analytics_view | Audit_view

fun CAPABILITIES :: "capability \<Rightarrow> workspace_role" where
  "CAPABILITIES Workspace_manage = OWNER"
| "CAPABILITIES Members_manage = ADMIN"
| "CAPABILITIES Teams_manage = ADMIN"
| "CAPABILITIES Projects_manage = ADMIN"
| "CAPABILITIES Credentials_manage = ADMIN"
| "CAPABILITIES Budgets_manage = ADMIN"
| "CAPABILITIES Keys_issue = MEMBER"
| "CAPABILITIES Analytics_view = VIEWER"
| "CAPABILITIES Audit_view = ADMIN"

definition can :: "workspace_role \<Rightarrow> capability \<Rightarrow> bool" where
  "can role cap = hasMinimumRole role (CAPABILITIES cap)"

text \<open>The order of the roles, by rank, as the library's linear order.\<close>

instantiation workspace_role :: linorder
begin

definition less_eq_workspace_role :: "workspace_role \<Rightarrow> workspace_role \<Rightarrow> bool" where
  "less_eq_workspace_role a b \<longleftrightarrow> ROLE_RANK a \<le> ROLE_RANK b"

definition less_workspace_role :: "workspace_role \<Rightarrow> workspace_role \<Rightarrow> bool" where
  "less_workspace_role a b \<longleftrightarrow> ROLE_RANK a < ROLE_RANK b"

instance
proof
  fix a b c :: workspace_role
  show "(a < b) = (a \<le> b \<and> \<not> b \<le> a)"
    by (auto simp: less_eq_workspace_role_def less_workspace_role_def)
  show "a \<le> a" and "a \<le> b \<or> b \<le> a"
    by (auto simp: less_eq_workspace_role_def)
  show "a \<le> b \<Longrightarrow> b \<le> c \<Longrightarrow> a \<le> c"
    by (simp add: less_eq_workspace_role_def)
  show "a \<le> b \<Longrightarrow> b \<le> a \<Longrightarrow> a = b"
    by (cases a; cases b) (auto simp: less_eq_workspace_role_def)
qed

end

section \<open>CSV rendering (csv.ts)\<close>

datatype csv_value = CStr string | CNum int | CBool bool | CNull

fun csvText :: "csv_value \<Rightarrow> string" where
  "csvText (CStr s) = s"
| "csvText (CNum n) = showInt n"
| "csvText (CBool b) = (if b then ''true'' else ''false'')"
| "csvText CNull = []"

definition csvSpecial :: "char \<Rightarrow> bool" where
  "csvSpecial c \<longleftrightarrow> c \<in> {CHR 0x22, CHR '','', CHR 0x0D, CHR 0x0A}"

definition escapeQuotes :: "string \<Rightarrow> string" where
  "escapeQuotes s = concat (map (\<lambda>c. if c = CHR 0x22 then [c, c] else [c]) s)"

definition csvCell :: "csv_value \<Rightarrow> string" where
  "csvCell v =
     (case v of CNull \<Rightarrow> []
      | _ \<Rightarrow> (let s = csvText v in
              if list_ex csvSpecial s then CHR 0x22 # escapeQuotes s @ [CHR 0x22] else s))"

definition csvRow :: "csv_value list \<Rightarrow> string" where
  "csvRow cells = joinWith '','' (map csvCell cells)"

text \<open>
  The reader of RFC 4180 documents used to state what rendering means: rows end with a line feed,
  a field that starts with a double quote runs to the matching one, and two double quotes inside it
  stand for one. It rejects (\<^term>\<open>None\<close>) a stray double quote.
\<close>

datatype csv_mode = FieldStart | InPlain | InQuoted | QuoteSeen

fun csvParse :: "csv_mode \<Rightarrow> string \<Rightarrow> string list \<Rightarrow> string \<Rightarrow> string list list option" where
  "csvParse m f row [] =
     (if m = InQuoted then None
      else if m = FieldStart \<and> row = [] then Some []
      else Some [row @ [f]])"
| "csvParse FieldStart f row (c # s) =
     (if c = CHR 0x22 then csvParse InQuoted [] row s
      else if c = CHR '','' then csvParse FieldStart [] (row @ [f]) s
      else if c = CHR 0x0A then map_option ((#) (row @ [f])) (csvParse FieldStart [] [] s)
      else csvParse InPlain [c] row s)"
| "csvParse InPlain f row (c # s) =
     (if c = CHR 0x22 then None
      else if c = CHR '','' then csvParse FieldStart [] (row @ [f]) s
      else if c = CHR 0x0A then map_option ((#) (row @ [f])) (csvParse FieldStart [] [] s)
      else csvParse InPlain (f @ [c]) row s)"
| "csvParse InQuoted f row (c # s) =
     (if c = CHR 0x22 then csvParse QuoteSeen f row s
      else csvParse InQuoted (f @ [c]) row s)"
| "csvParse QuoteSeen f row (c # s) =
     (if c = CHR 0x22 then csvParse InQuoted (f @ [c]) row s
      else if c = CHR '','' then csvParse FieldStart [] (row @ [f]) s
      else if c = CHR 0x0A then map_option ((#) (row @ [f])) (csvParse FieldStart [] [] s)
      else None)"

definition parseCsv :: "string \<Rightarrow> string list list option" where
  "parseCsv s = csvParse FieldStart [] [] s"

section \<open>Facts on roles\<close>

lemma hasMinimumRole_iff: "hasMinimumRole actual required \<longleftrightarrow> required \<le> actual"
  by (simp add: hasMinimumRole_def less_eq_workspace_role_def)

lemma hasMinimumRole_trans: "hasMinimumRole a b \<Longrightarrow> hasMinimumRole b c \<Longrightarrow> hasMinimumRole a c"
  by (simp add: hasMinimumRole_def)

lemma owner_top [simp]: "hasMinimumRole OWNER r"
  by (cases r) (auto simp: hasMinimumRole_def)

lemma viewer_bottom [simp]: "hasMinimumRole r VIEWER"
  by (simp add: hasMinimumRole_def)

lemma providerName_inj [simp]: "providerName p = providerName q \<longleftrightarrow> p = q"
  by (cases p; cases q) simp_all

lemma PROVIDERS_complete [simp]: "p \<in> set PROVIDERS"
  by (cases p) (simp_all add: PROVIDERS_def)

section \<open>Facts on CSV\<close>

lemma escapeQuotes_simps [simp]:
  "escapeQuotes [] = []"
  "escapeQuotes (c # s) = (if c = CHR 0x22 then c # c # escapeQuotes s else c # escapeQuotes s)"
  by (simp_all add: escapeQuotes_def)

lemma csvParse_quoted:
  "csvParse InQuoted f row (escapeQuotes s @ CHR 0x22 # rest) = csvParse QuoteSeen (f @ s) row rest"
  by (induction s arbitrary: f) auto

lemma csvParse_plain:
  "\<not> list_ex csvSpecial s \<Longrightarrow> csvParse InPlain f row (s @ rest) = csvParse InPlain (f @ s) row rest"
  by (induction s arbitrary: f) (auto simp: csvSpecial_def)

text \<open>One cell followed by a separator reads back as its text.\<close>

lemma csvParse_cell_comma:
  "csvParse FieldStart [] row (csvCell v @ CHR '','' # rest) =
   csvParse FieldStart [] (row @ [csvText v]) rest"
proof (cases "list_ex csvSpecial (csvText v)")
  case True
  then have "csvCell v = CHR 0x22 # escapeQuotes (csvText v) @ [CHR 0x22]"
    by (cases v) (auto simp: csvCell_def)
  then show ?thesis by (simp add: csvParse_quoted)
next
  case False
  then have "csvCell v = csvText v" by (cases v) (auto simp: csvCell_def)
  with False show ?thesis
    by (cases "csvText v") (auto simp: csvParse_plain csvSpecial_def)
qed

lemma csvParse_cell_newline:
  "csvParse FieldStart [] row (csvCell v @ CHR 0x0A # rest) =
   map_option ((#) (row @ [csvText v])) (csvParse FieldStart [] [] rest)"
proof (cases "list_ex csvSpecial (csvText v)")
  case True
  then have "csvCell v = CHR 0x22 # escapeQuotes (csvText v) @ [CHR 0x22]"
    by (cases v) (auto simp: csvCell_def)
  then show ?thesis by (simp add: csvParse_quoted)
next
  case False
  then have "csvCell v = csvText v" by (cases v) (auto simp: csvCell_def)
  with False show ?thesis
    by (cases "csvText v") (auto simp: csvParse_plain csvSpecial_def)
qed

lemma csvParse_row:
  "cells \<noteq> [] \<Longrightarrow>
   csvParse FieldStart [] row (csvRow cells @ CHR 0x0A # rest) =
   map_option ((#) (row @ map csvText cells)) (csvParse FieldStart [] [] rest)"
proof (induction cells arbitrary: row)
  case (Cons v cells)
  show ?case
  proof (cases cells)
    case Nil
    then show ?thesis by (simp add: csvRow_def csvParse_cell_newline)
  next
    case (Cons w ws)
    then have "csvRow (v # cells) = csvCell v @ CHR '','' # csvRow cells"
      by (simp add: csvRow_def)
    with Cons.IH [of "row @ [csvText v]"] Cons show ?thesis
      by (simp add: csvParse_cell_comma)
  qed
qed simp

lemma parseCsv_document:
  "(\<And>r. r \<in> set rows \<Longrightarrow> r \<noteq> []) \<Longrightarrow>
   parseCsv (concat (map (\<lambda>r. csvRow r @ [CHR 0x0A]) rows)) = Some (map (map csvText) rows)"
proof (induction rows)
  case (Cons r rows)
  then show ?case by (simp add: parseCsv_def csvParse_row)
qed (simp add: parseCsv_def)

end
