(* ===== verification/Pricing.thy ===== *)
theory Pricing
  imports Shared "HOL-Library.Signed_Division"
begin

text \<open>
  The package \<open>packages/pricing\<close>: price matching (\<open>matcher.ts\<close>) and exact cost calculation
  (\<open>calculator.ts\<close>). Matching is shown equal to choosing the first entry of greatest specificity;
  the calculator is related to the rational number the request really costs.
\<close>

section \<open>Price entries and matching (matcher.ts)\<close>

datatype price_source = SEED | SYNC | MANUAL | OVERRIDE

record price_entry =
  pe_provider :: provider
  modelPattern :: string
  inputPerMtok :: string
  outputPerMtok :: string
  cacheReadPerMtok :: string
  cacheWritePerMtok :: string
  source :: price_source

definition patternPrefix :: "string \<Rightarrow> string option" where
  "patternPrefix pattern = (if \<not> endsWith pattern ''*'' then None else Some (butlast pattern))"

text \<open>The loop of \<open>findIn\<close>; \<open>best\<close> and \<open>bestLen\<close> are the loop's variables.\<close>

fun findLoop ::
  "provider \<Rightarrow> string \<Rightarrow> price_entry option \<Rightarrow> int \<Rightarrow> price_entry list \<Rightarrow> price_entry option" where
  "findLoop p model best bestLen [] = best"
| "findLoop p model best bestLen (entry # rest) =
     (if pe_provider entry \<noteq> p then findLoop p model best bestLen rest
      else if modelPattern entry = model then Some entry
      else (case patternPrefix (modelPattern entry) of
              None \<Rightarrow> findLoop p model best bestLen rest
            | Some prefix \<Rightarrow>
                (if startsWith model prefix \<and> bestLen < int (length prefix)
                 then findLoop p model (Some entry) (int (length prefix)) rest
                 else findLoop p model best bestLen rest)))"

definition findIn :: "price_entry list \<Rightarrow> provider \<Rightarrow> string \<Rightarrow> price_entry option" where
  "findIn entries p model = findLoop p model None (- 1) entries"

definition matchPrice ::
  "provider \<Rightarrow> string \<Rightarrow> price_entry list \<Rightarrow> price_entry list \<Rightarrow> price_entry option" where
  "matchPrice p model catalog overrides =
     (case findIn overrides p model of
        Some e \<Rightarrow> Some e
      | None \<Rightarrow> findIn catalog p model)"

section \<open>Cost calculation (calculator.ts)\<close>

record token_counts =
  tc_input :: jsnumber
  tc_output :: jsnumber
  tc_cacheRead :: "jsnumber option"
  tc_cacheWrite :: "jsnumber option"

datatype pricing_error = BadTokenCount jsnumber | InvalidPrice string

definition microUsdPerMtok :: "string \<Rightarrow> pricing_error + int" where
  "microUsdPerMtok decimal =
     (case matchDecimal decimal of
        None \<Rightarrow> Inl (InvalidPrice decimal)
      | Some (whole, f) \<Rightarrow>
          (let frac = (case f of None \<Rightarrow> [] | Some t \<Rightarrow> t) in
           if 6 < length frac then Inl (InvalidPrice decimal)
           else Inr (int (digitsVal whole) * 1000000 + int (digitsVal (padEnd 6 CHR ''0'' frac)))))"

definition tokenCostPico :: "jsnumber \<Rightarrow> string \<Rightarrow> pricing_error + int" where
  "tokenCostPico tokens perMtok =
     (if tokens = 0 then Inr 0
      else if \<not> isInteger tokens \<or> tokens < 0 then Inl (BadTokenCount tokens)
      else (case microUsdPerMtok perMtok of
              Inl e \<Rightarrow> Inl e
            | Inr micro \<Rightarrow> Inr (\<lfloor>tokens\<rfloor> * micro)))"

text \<open>\<open>BigInt\<close> division and remainder truncate towards zero, hence \<open>sdiv\<close> and \<open>smod\<close>.\<close>

definition formatPicoUsd :: "int \<Rightarrow> string" where
  "formatPicoUsd pico =
     (let scale = 1000000000000;
          whole = pico sdiv scale;
          fracPico = pico smod scale;
          frac8 = padStart 8 CHR ''0'' (showInt (fracPico sdiv 10000))
      in showInt whole @ ''.'' @ frac8)"

definition addResult :: "'e + int \<Rightarrow> 'e + int \<Rightarrow> 'e + int" where
  "addResult a b =
     (case a of Inl e \<Rightarrow> Inl e | Inr x \<Rightarrow> (case b of Inl e \<Rightarrow> Inl e | Inr y \<Rightarrow> Inr (x + y)))"

definition costPico :: "token_counts \<Rightarrow> price_entry \<Rightarrow> pricing_error + int" where
  "costPico tokens price =
     addResult (addResult (addResult
       (tokenCostPico (tc_input tokens) (inputPerMtok price))
       (tokenCostPico (tc_output tokens) (outputPerMtok price)))
       (tokenCostPico (case tc_cacheRead tokens of None \<Rightarrow> 0 | Some n \<Rightarrow> n) (cacheReadPerMtok price)))
       (tokenCostPico (case tc_cacheWrite tokens of None \<Rightarrow> 0 | Some n \<Rightarrow> n) (cacheWritePerMtok price))"

definition calculateCostUsd :: "token_counts \<Rightarrow> price_entry \<Rightarrow> pricing_error + string" where
  "calculateCostUsd tokens price = map_sum id formatPicoUsd (costPico tokens price)"

section \<open>What matching means\<close>

text \<open>
  How well an entry fits a request: not at all, by a prefix of some length, or exactly. An exact
  match is longer than any prefix of the model, so it beats every prefix match.
\<close>

definition specificity :: "provider \<Rightarrow> string \<Rightarrow> price_entry \<Rightarrow> nat option" where
  "specificity p model e =
     (if pe_provider e \<noteq> p then None
      else if modelPattern e = model then Some (Suc (length model))
      else (case patternPrefix (modelPattern e) of
              None \<Rightarrow> None
            | Some prefix \<Rightarrow> (if startsWith model prefix then Some (length prefix) else None)))"

text \<open>The first element of greatest rank, among those that have one.\<close>

fun firstMax :: "('a \<Rightarrow> nat option) \<Rightarrow> 'a list \<Rightarrow> 'a option" where
  "firstMax rk [] = None"
| "firstMax rk (x # xs) =
     (case rk x of
        None \<Rightarrow> firstMax rk xs
      | Some n \<Rightarrow>
          (case firstMax rk xs of
             None \<Rightarrow> Some x
           | Some y \<Rightarrow> (if n < the (rk y) then Some y else Some x)))"

section \<open>What a request costs\<close>

text \<open>The cost in US dollars, as a rational: each token class times its price per million tokens.\<close>

definition classCost :: "jsnumber \<Rightarrow> string \<Rightarrow> rat" where
  "classCost n price = n * the (decimalValue price) / 1000000"

definition exactCost :: "token_counts \<Rightarrow> price_entry \<Rightarrow> rat" where
  "exactCost t p =
     classCost (tc_input t) (inputPerMtok p) + classCost (tc_output t) (outputPerMtok p)
     + classCost (case tc_cacheRead t of None \<Rightarrow> 0 | Some n \<Rightarrow> n) (cacheReadPerMtok p)
     + classCost (case tc_cacheWrite t of None \<Rightarrow> 0 | Some n \<Rightarrow> n) (cacheWritePerMtok p)"

definition validCount :: "jsnumber \<Rightarrow> bool" where
  "validCount n \<longleftrightarrow> isInteger n \<and> 0 \<le> n"

text \<open>A price string with at most \<open>k\<close> decimal places.\<close>

definition priceWithin :: "nat \<Rightarrow> string \<Rightarrow> bool" where
  "priceWithin k s =
     (case matchDecimal s of
        None \<Rightarrow> False
      | Some (w, f) \<Rightarrow> length (case f of None \<Rightarrow> [] | Some t \<Rightarrow> t) \<le> k)"

definition billable :: "nat \<Rightarrow> token_counts \<Rightarrow> price_entry \<Rightarrow> bool" where
  "billable k t p \<longleftrightarrow>
     validCount (tc_input t) \<and> validCount (tc_output t)
     \<and> validCount (case tc_cacheRead t of None \<Rightarrow> 0 | Some n \<Rightarrow> n)
     \<and> validCount (case tc_cacheWrite t of None \<Rightarrow> 0 | Some n \<Rightarrow> n)
     \<and> priceWithin k (inputPerMtok p) \<and> priceWithin k (outputPerMtok p)
     \<and> priceWithin k (cacheReadPerMtok p) \<and> priceWithin k (cacheWritePerMtok p)"

section \<open>Lemmas: matching\<close>

lemma patternPrefix_Some: "patternPrefix pat = Some q \<longleftrightarrow> pat = q @ ''*''"
  by (auto simp: patternPrefix_def endsWith_iff split: if_splits)

lemma specificity_bound: "specificity p m e = Some n \<Longrightarrow> n \<le> Suc (length m)"
  by (auto simp: specificity_def startsWith_iff split: if_splits option.splits)

lemma specificity_exact:
  "specificity p m e = Some (Suc (length m)) \<longleftrightarrow> pe_provider e = p \<and> modelPattern e = m"
  by (auto simp: specificity_def startsWith_iff split: option.splits)

lemma specificity_cases [case_names other exact prefix]:
  assumes "specificity p m e = None \<Longrightarrow> P"
    and "specificity p m e = Some (Suc (length m)) \<Longrightarrow> P"
    and "\<And>q. specificity p m e = Some (length q) \<Longrightarrow> patternPrefix (modelPattern e) = Some q \<Longrightarrow>
      startsWith m q \<Longrightarrow> pe_provider e = p \<Longrightarrow> modelPattern e \<noteq> m \<Longrightarrow> length q \<le> length m \<Longrightarrow> P"
  shows P
proof (cases "specificity p m e")
  case (Some n)
  with assms(2,3) show ?thesis
    by (auto simp: specificity_def startsWith_iff split: option.splits if_splits)
qed (rule assms(1))

lemma firstMax_None: "firstMax rk xs = None \<longleftrightarrow> (\<forall>x\<in>set xs. rk x = None)"
  by (induction xs) (auto split: option.splits)

lemma firstMax_Some:
  "firstMax rk xs = Some x \<Longrightarrow>
   x \<in> set xs \<and> (\<exists>n. rk x = Some n \<and> (\<forall>y\<in>set xs. \<forall>k. rk y = Some k \<longrightarrow> k \<le> n))"
proof (induction xs arbitrary: x)
  case (Cons a xs)
  show ?case
  proof (cases "rk a")
    case None
    with Cons show ?thesis by auto
  next
    case (Some n)
    show ?thesis
    proof (cases "firstMax rk xs")
      case None
      with Some Cons.prems show ?thesis by (auto simp: firstMax_None)
    next
      case (Some y)
      from Cons.IH [OF Some] obtain k where k: "y \<in> set xs" "rk y = Some k"
        "\<forall>z\<in>set xs. \<forall>j. rk z = Some j \<longrightarrow> j \<le> k" by blast
      with Cons.prems \<open>rk a = Some n\<close> Some show ?thesis
        by (cases "n < k") (force, fastforce)
    qed
  qed
qed simp

lemma firstMax_dominated:
  assumes "\<And>x n. x \<in> set xs \<Longrightarrow> rk x = Some n \<Longrightarrow> n \<le> k" "rk e = Some k"
  shows "firstMax rk (e # xs) = Some e"
proof (cases "firstMax rk xs")
  case (Some y)
  then obtain n where n: "y \<in> set xs" "rk y = Some n" by (auto dest!: firstMax_Some)
  then have "n \<le> k" by (rule assms(1))
  with Some n assms(2) show ?thesis by simp
qed (simp add: assms(2))

text \<open>
  The loop from a state that holds the best entry so far, compared with the reference on the rest:
  a later entry replaces it only when it is strictly more specific.
\<close>

lemma findLoop_reference:
  assumes "(best = None \<and> bestLen = - 1) \<or>
           (\<exists>b n. best = Some b \<and> specificity p m b = Some n \<and> bestLen = int n \<and> n \<le> length m)"
  shows "findLoop p m best bestLen es =
    (case firstMax (specificity p m) es of
       None \<Rightarrow> best
     | Some y \<Rightarrow> (if bestLen < int (the (specificity p m y)) then Some y else best))"
  using assms
proof (induction es arbitrary: best bestLen)
  case (Cons e es)
  show ?case
  proof (cases rule: specificity_cases [of p m e])
    case other
    then have "findLoop p m best bestLen (e # es) = findLoop p m best bestLen es"
      by (auto simp: specificity_def split: option.splits if_splits)
    with other Cons show ?thesis by simp
  next
    case exact
    then have "findLoop p m best bestLen (e # es) = Some e"
      by (simp add: specificity_exact)
    moreover have "firstMax (specificity p m) (e # es) = Some e"
      using exact by (intro firstMax_dominated) (auto dest: specificity_bound)
    moreover have "bestLen < int (Suc (length m))" using Cons.prems by auto
    ultimately show ?thesis using exact by simp
  next
    case (prefix q)
    show ?thesis
    proof (cases "bestLen < int (length q)")
      case True
      with prefix have "findLoop p m best bestLen (e # es) = findLoop p m (Some e) (int (length q)) es"
        by simp
      also have "\<dots> = (case firstMax (specificity p m) es of None \<Rightarrow> Some e
           | Some y \<Rightarrow> (if int (length q) < int (the (specificity p m y)) then Some y else Some e))"
        using prefix by (intro Cons.IH) auto
      finally show ?thesis using True prefix(1) by (auto split: option.splits)
    next
      case False
      with prefix have "findLoop p m best bestLen (e # es) = findLoop p m best bestLen es" by simp
      also note Cons.IH [OF Cons.prems]
      finally show ?thesis using False prefix(1) by (auto split: option.splits)
    qed
  qed
qed simp

lemma findIn_firstMax: "findIn es p m = firstMax (specificity p m) es"
  unfolding findIn_def by (subst findLoop_reference) (auto split: option.splits)

section \<open>Lemmas: cost\<close>

lemma validCount_floor: "validCount n \<Longrightarrow> of_int \<lfloor>n\<rfloor> = n"
  by (simp add: validCount_def isInteger_def)

lemma microUsd_value:
  assumes "priceWithin 6 s"
  obtains m where "microUsdPerMtok s = Inr m" "of_int m = the (decimalValue s) * 1000000" "0 \<le> m"
proof -
  from assms obtain w f where wf: "matchDecimal s = Some (w, f)"
    and len: "length (case f of None \<Rightarrow> [] | Some t \<Rightarrow> t) \<le> 6"
    by (auto simp: priceWithin_def split: option.splits)
  define t where "t = (case f of None \<Rightarrow> [] | Some t \<Rightarrow> t)"
  define m where "m = int (digitsVal w) * 1000000 + int (digitsVal (padEnd 6 CHR ''0'' t))"
  have pow: "(10::rat) ^ (6 - length t) = 1000000 / 10 ^ length t"
    using len by (simp add: t_def power_diff)
  have dv: "decimalValue s = Some (of_nat (digitsVal w) + of_nat (digitsVal t) / 10 ^ length t)"
    by (simp add: decimalValue_def wf t_def Let_def)
  have "of_int m = the (decimalValue s) * (1000000::rat)"
    by (simp add: dv m_def digitsVal_padEnd pow algebra_simps)
  moreover have "microUsdPerMtok s = Inr m"
    using wf len by (simp add: microUsdPerMtok_def m_def t_def)
  moreover have "0 \<le> m" by (simp add: m_def)
  ultimately show ?thesis using that by blast
qed

lemma tokenCostPico_value:
  assumes "validCount n" "priceWithin 6 s"
  obtains c where "tokenCostPico n s = Inr c" "of_int c = classCost n s * 1000000000000" "0 \<le> c"
proof -
  from assms(2) obtain m where m: "microUsdPerMtok s = Inr m"
    "of_int m = the (decimalValue s) * (1000000::rat)" "0 \<le> m" by (rule microUsd_value)
  show ?thesis
  proof (cases "n = 0")
    case True
    then show ?thesis by (intro that [of 0]) (simp_all add: tokenCostPico_def classCost_def)
  next
    case False
    with assms(1) m have "tokenCostPico n s = Inr (\<lfloor>n\<rfloor> * m)"
      by (simp add: tokenCostPico_def validCount_def)
    moreover have "of_int (\<lfloor>n\<rfloor> * m) = classCost n s * 1000000000000"
      using m validCount_floor [OF assms(1)] by (simp add: classCost_def)
    moreover have "0 \<le> \<lfloor>n\<rfloor> * m" using m assms(1) by (simp add: validCount_def)
    ultimately show ?thesis by (rule that)
  qed
qed

lemma costPico_value:
  assumes "billable 6 t p"
  obtains c where "costPico t p = Inr c" "of_int c = exactCost t p * 1000000000000" "0 \<le> c"
proof -
  obtain a where a: "tokenCostPico (tc_input t) (inputPerMtok p) = Inr a"
    "of_int a = classCost (tc_input t) (inputPerMtok p) * 1000000000000" "0 \<le> a"
    using assms by (auto simp: billable_def intro: tokenCostPico_value)
  obtain b where b: "tokenCostPico (tc_output t) (outputPerMtok p) = Inr b"
    "of_int b = classCost (tc_output t) (outputPerMtok p) * 1000000000000" "0 \<le> b"
    using assms by (auto simp: billable_def intro: tokenCostPico_value)
  let ?r = "case tc_cacheRead t of None \<Rightarrow> 0 | Some n \<Rightarrow> n"
  obtain c where c: "tokenCostPico ?r (cacheReadPerMtok p) = Inr c"
    "of_int c = classCost ?r (cacheReadPerMtok p) * 1000000000000" "0 \<le> c"
    using assms unfolding billable_def by (blast intro: tokenCostPico_value)
  let ?w = "case tc_cacheWrite t of None \<Rightarrow> 0 | Some n \<Rightarrow> n"
  obtain d where d: "tokenCostPico ?w (cacheWritePerMtok p) = Inr d"
    "of_int d = classCost ?w (cacheWritePerMtok p) * 1000000000000" "0 \<le> d"
    using assms unfolding billable_def by (blast intro: tokenCostPico_value)
  show ?thesis
  proof (rule that)
    show "costPico t p = Inr (a + b + c + d)"
      by (simp add: costPico_def addResult_def a b c d)
    show "of_int (a + b + c + d) = exactCost t p * 1000000000000"
      by (simp add: exactCost_def a b c d algebra_simps)
    show "0 \<le> a + b + c + d" using a b c d by simp
  qed
qed

lemma sdiv_nonneg: "0 \<le> a \<Longrightarrow> 0 < b \<Longrightarrow> a sdiv b = a div (b :: int)"
  by (cases "a = 0") (simp_all add: signed_divide_int_def)

lemma smod_nonneg: "0 \<le> a \<Longrightarrow> 0 < b \<Longrightarrow> a smod b = a mod (b :: int)"
  by (cases "a = 0") (simp_all add: signed_modulo_int_def)

lemma showInt_nonneg: "0 \<le> i \<Longrightarrow> showInt i = showNat (nat i)"
  by (simp add: showInt_def)

lemma formatPicoUsd_nonneg:
  assumes "0 \<le> c"
  shows "formatPicoUsd c =
    showNat (nat (c div 1000000000000)) @ CHR ''.'' #
    padStart 8 CHR ''0'' (showNat (nat (c mod 1000000000000 div 10000)))"
  using assms
  by (simp add: formatPicoUsd_def sdiv_nonneg smod_nonneg showInt_nonneg pos_imp_zdiv_nonneg_iff)

lemma pico_split:
  fixes c :: int
  shows "c mod 1000000000000 div 10000 = c div 10000 mod 100000000"
    and "c div 1000000000000 = c div 10000 div 100000000"
proof -
  have "c mod (10000 * 100000000) = 10000 * (c div 10000 mod 100000000) + c mod 10000"
    by (rule zmod_zmult2_eq) simp
  then show "c mod 1000000000000 div 10000 = c div 10000 mod 100000000" by simp
  have "c div (10000 * 100000000) = c div 10000 div 100000000"
    by (rule zdiv_zmult2_eq) simp
  then show "c div 1000000000000 = c div 10000 div 100000000" by simp
qed

text \<open>Printing an amount of picodollars drops everything below the eighth decimal place.\<close>

lemma formatPicoUsd_value:
  assumes "0 \<le> c"
  shows "decimalValue (formatPicoUsd c) = Some (of_int (c div 10000) / 100000000)"
proof -
  define m where "m = c div 10000"
  have m: "0 \<le> m" using assms by (simp add: m_def pos_imp_zdiv_nonneg_iff)
  let ?w = "nat (m div 100000000)" and ?f = "nat (m mod 100000000)"
  let ?fs = "padStart 8 CHR ''0'' (showNat ?f)"
  have "length (showNat ?f) \<le> 8" by (rule length_showNat) (simp_all add: nat_less_iff)
  then have len: "length ?fs = 8" by simp
  then have nonempty: "?fs \<noteq> []" by auto
  have "decimalValue (formatPicoUsd c) = Some (of_nat ?w + of_nat ?f / 100000000)"
    using nonempty len
    by (simp add: formatPicoUsd_nonneg [OF assms] pico_split decimalValue_def flip: m_def)
  also have "of_nat ?w + of_nat ?f / 100000000 = (of_int m / 100000000 :: rat)"
  proof -
    have "of_int m = (of_int (m div 100000000 * 100000000 + m mod 100000000) :: rat)" by simp
    also have "\<dots> = of_int (m div 100000000) * 100000000 + of_int (m mod 100000000)"
      by (simp only: of_int_add of_int_mult of_int_numeral)
    finally show ?thesis using m by (simp add: pos_imp_zdiv_nonneg_iff)
  qed
  finally show ?thesis by (simp add: m_def)
qed

lemma calculateCostUsd_value:
  assumes "billable 6 t p"
  obtains s c where "calculateCostUsd t p = Inr s"
    "decimalValue s = Some (of_int (c div 10000) / 100000000)"
    "of_int c = exactCost t p * 1000000000000"
proof -
  from assms obtain c where c: "costPico t p = Inr c"
    "of_int c = exactCost t p * 1000000000000" "0 \<le> c" by (rule costPico_value)
  show ?thesis
    by (rule that [of "formatPicoUsd c" c])
      (simp_all add: calculateCostUsd_def c formatPicoUsd_value)
qed

lemma div_10000_bounds:
  fixes c :: int
  shows "of_int (c div 10000) * 10000 \<le> (of_int c :: rat)"
    and "(of_int c :: rat) < of_int (c div 10000) * 10000 + 10000"
proof -
  have "c div 10000 * 10000 \<le> c" and "c < c div 10000 * 10000 + 10000"
    by linarith+
  then have "(of_int (c div 10000 * 10000) :: rat) \<le> of_int c"
    and "(of_int c :: rat) < of_int (c div 10000 * 10000 + 10000)"
    by (simp_all only: of_int_le_iff of_int_less_iff)
  then show "of_int (c div 10000) * 10000 \<le> (of_int c :: rat)"
    and "(of_int c :: rat) < of_int (c div 10000) * 10000 + 10000" by simp_all
qed

text \<open>A price with at most two decimal places is a whole number of cents per million tokens.\<close>

lemma microUsd_cents:
  assumes "priceWithin 2 s" "microUsdPerMtok s = Inr m"
  shows "10000 dvd m"
proof -
  from assms obtain w f where wf: "matchDecimal s = Some (w, f)"
    and len: "length (case f of None \<Rightarrow> [] | Some t \<Rightarrow> t) \<le> 2"
    by (auto simp: priceWithin_def split: option.splits)
  define t where "t = (case f of None \<Rightarrow> [] | Some t \<Rightarrow> t)"
  from assms(2) wf len have m: "m = int (digitsVal w) * 1000000 + int (digitsVal (padEnd 6 CHR ''0'' t))"
    by (simp add: microUsdPerMtok_def t_def Let_def)
  from len have e: "6 - length t = (2 - length t) + 4" by (simp add: t_def)
  have "digitsVal (padEnd 6 CHR ''0'' t) = digitsVal t * 10 ^ (2 - length t) * 10000"
    unfolding digitsVal_padEnd e power_add by simp
  then have "m = (int (digitsVal w) * 100 + int (digitsVal t * 10 ^ (2 - length t))) * 10000"
    using m by simp
  then show ?thesis by (metis dvd_triv_right)
qed

lemma tokenCostPico_cents: "priceWithin 2 s \<Longrightarrow> tokenCostPico n s = Inr c \<Longrightarrow> 10000 dvd c"
  by (auto simp: tokenCostPico_def microUsd_cents split: if_splits sum.splits)

lemma addResult_Inr: "addResult a b = Inr c \<longleftrightarrow> (\<exists>x y. a = Inr x \<and> b = Inr y \<and> c = x + y)"
  by (auto simp: addResult_def split: sum.splits)

lemma addResult_Inl: "(\<exists>e. addResult a b = Inl e) \<longleftrightarrow> (\<exists>e. a = Inl e) \<or> (\<exists>e. b = Inl e)"
  by (auto simp: addResult_def split: sum.splits)

lemma costPico_cents: "billable 2 t p \<Longrightarrow> costPico t p = Inr c \<Longrightarrow> 10000 dvd c"
  by (auto simp: costPico_def addResult_Inr billable_def
      intro!: dvd_add dest: tokenCostPico_cents)

lemma priceWithin_mono: "priceWithin k s \<Longrightarrow> k \<le> j \<Longrightarrow> priceWithin j s"
  by (auto simp: priceWithin_def split: option.splits)

lemma billable_mono: "billable k t p \<Longrightarrow> k \<le> j \<Longrightarrow> billable j t p"
  by (auto simp: billable_def intro: priceWithin_mono)

lemma microUsd_error: "(\<exists>e. microUsdPerMtok s = Inl e) \<longleftrightarrow> \<not> priceWithin 6 s"
  by (auto simp: microUsdPerMtok_def priceWithin_def Let_def split: option.splits)

lemma tokenCostPico_error:
  "(\<exists>e. tokenCostPico n s = Inl e) \<longleftrightarrow> n \<noteq> 0 \<and> (\<not> validCount n \<or> \<not> priceWithin 6 s)"
  using microUsd_error [of s]
  by (cases "microUsdPerMtok s") (auto simp: tokenCostPico_def validCount_def)

text \<open>The facts that evaluate a calculation on concrete numbers.\<close>

lemmas decimal_eval = matchDecimal_def isDigit_def digitsVal_def digitVal_def
  padEnd_def padStart_def showNat_lt showNat_ge decimalValue_def Let_def
  replicate_numeral_eval

lemmas pricing_eval = calculateCostUsd_def costPico_def addResult_def tokenCostPico_def
  microUsdPerMtok_def formatPicoUsd_nonneg isInteger_def exactCost_def classCost_def

section \<open>Properties\<close>

definition sonnet :: price_entry where
  "sonnet = \<lparr>pe_provider = ANTHROPIC, modelPattern = ''claude-sonnet-5*'', inputPerMtok = ''3'',
     outputPerMtok = ''15'', cacheReadPerMtok = ''0.3'', cacheWritePerMtok = ''3.75'', source = SEED\<rparr>"

definition flash :: price_entry where
  "flash = \<lparr>pe_provider = GEMINI, modelPattern = ''gemini-2.5-flash*'', inputPerMtok = ''0.3'',
     outputPerMtok = ''2.5'', cacheReadPerMtok = ''0.075'', cacheWritePerMtok = ''0'', source = SEED\<rparr>"

text \<open>
  C1. Cost calculation. For integral non-negative token counts and well-formed prices (at most six
  decimal places) the calculator returns a decimal string, and the amount it denotes is the exact
  cost rounded down to eight decimal places: never more than the exact cost, and less than
  one hundred-millionth of a dollar below it.
\<close>

theorem calculateCostUsd_truncates:
  assumes "billable 6 t p"
  shows "\<exists>s v. calculateCostUsd t p = Inr s \<and> decimalValue s = Some v
    \<and> v \<le> exactCost t p \<and> exactCost t p < v + 1 / 100000000"
proof -
  from assms obtain s c where s: "calculateCostUsd t p = Inr s"
    "decimalValue s = Some (of_int (c div 10000) / 100000000)"
    "of_int c = exactCost t p * 1000000000000" by (rule calculateCostUsd_value)
  from div_10000_bounds [of c] s
  have "of_int (c div 10000) / 100000000 \<le> exactCost t p"
    and "exactCost t p < of_int (c div 10000) / 100000000 + 1 / 100000000"
    by (simp_all add: field_simps)
  with s show ?thesis by blast
qed

theorem calculateCostUsd_truncates_witness:
  "\<exists>s v. calculateCostUsd \<lparr>tc_input = 1000, tc_output = 500, tc_cacheRead = None, tc_cacheWrite = None\<rparr> sonnet
      = Inr s \<and> decimalValue s = Some v
    \<and> v \<le> exactCost \<lparr>tc_input = 1000, tc_output = 500, tc_cacheRead = None, tc_cacheWrite = None\<rparr> sonnet
    \<and> exactCost \<lparr>tc_input = 1000, tc_output = 500, tc_cacheRead = None, tc_cacheWrite = None\<rparr> sonnet
      < v + 1 / 100000000"
  by (rule calculateCostUsd_truncates) code_simp

text \<open>
  Exactness. When every price has at most two decimal places (whole cents per million tokens)
  nothing is rounded: the recorded string denotes exactly what the request costs.
\<close>

lemma calculateCostUsd_exact:
  assumes "billable 2 t p"
  shows "\<exists>s. calculateCostUsd t p = Inr s \<and> decimalValue s = Some (exactCost t p)"
proof -
  from assms have "billable 6 t p" by (rule billable_mono) simp
  then obtain c where c: "costPico t p = Inr c"
    "of_int c = exactCost t p * 1000000000000" "0 \<le> c" by (rule costPico_value)
  from costPico_cents [OF assms c(1)] have "of_int (c div 10000) * 10000 = (of_int c :: rat)"
    by (metis dvd_div_mult_self of_int_mult of_int_numeral)
  with c show ?thesis by (simp add: calculateCostUsd_def formatPicoUsd_value field_simps)
qed

theorem calculateCostUsd_exact_witness:
  "\<exists>s. calculateCostUsd \<lparr>tc_input = 0, tc_output = 0, tc_cacheRead = Some 100000, tc_cacheWrite = Some 10000\<rparr> sonnet
      = Inr s \<and> decimalValue s =
     Some (exactCost \<lparr>tc_input = 0, tc_output = 0, tc_cacheRead = Some 100000, tc_cacheWrite = Some 10000\<rparr> sonnet)"
  by (rule calculateCostUsd_exact) code_simp

text \<open>
  Exactness has limits. With a catalog price of three decimal places (0.075 dollars per million
  cached tokens, a price of the bundled seed) one cached token costs 7.5 hundred-millionths of a
  dollar and is recorded as 7: the calculator does not keep the exact cost its description promises.
\<close>

lemma calculateCostUsd_loses_fraction:
  "calculateCostUsd \<lparr>tc_input = 0, tc_output = 0, tc_cacheRead = Some 1, tc_cacheWrite = None\<rparr> flash
     = Inr ''0.00000007''
   \<and> exactCost \<lparr>tc_input = 0, tc_output = 0, tc_cacheRead = Some 1, tc_cacheWrite = None\<rparr> flash
     = 75 / 1000000000
   \<and> decimalValue ''0.00000007'' = Some (70 / 1000000000)"
  by (simp add: pricing_eval decimal_eval flash_def)

text \<open>
  C40. Rejection. The calculator raises exactly when some token class with a non-zero count has a
  count that is not a non-negative integer or a price that is malformed or has more than six
  decimal places; a zero count never looks at its price.
\<close>

theorem calculateCostUsd_rejects:
  "(\<exists>e. calculateCostUsd t p = Inl e) \<longleftrightarrow>
   list_ex (\<lambda>(n, price). n \<noteq> 0 \<and> \<not> (validCount n \<and> priceWithin 6 price))
     [(tc_input t, inputPerMtok p), (tc_output t, outputPerMtok p),
      (case tc_cacheRead t of None \<Rightarrow> 0 | Some n \<Rightarrow> n, cacheReadPerMtok p),
      (case tc_cacheWrite t of None \<Rightarrow> 0 | Some n \<Rightarrow> n, cacheWritePerMtok p)]"
proof -
  have "(\<exists>e. calculateCostUsd t p = Inl e) \<longleftrightarrow> (\<exists>e. costPico t p = Inl e)"
    by (cases "costPico t p") (auto simp: calculateCostUsd_def)
  then show ?thesis unfolding costPico_def addResult_Inl tokenCostPico_error by auto
qed

text \<open>
  C27. Price matching. The match is the workspace override of greatest specificity (an exact model id
  first, then the longest matching prefix, the earliest entry among equals) and, only when no
  override applies, the catalog entry chosen the same way; entries of other providers have no
  specificity, so they are never chosen.
\<close>

theorem matchPrice_most_specific:
  "matchPrice p m catalog overrides =
     (case firstMax (specificity p m) overrides of
        Some e \<Rightarrow> Some e
      | None \<Rightarrow> firstMax (specificity p m) catalog)"
  by (simp add: matchPrice_def findIn_firstMax split: option.split)

end
