(* ===== verification/Dates.thy ===== *)
theory Dates
  imports Prelude "HOL-Library.List_Lexorder" "HOL-Library.Char_ord"
begin

text \<open>
  The JavaScript \<open>Date\<close> operations of the sources, on instants from the epoch on: the UTC calendar,
  \<open>toISOString\<close> and the truncations to the hour and to the day. The calendar walks year by year and
  month by month, so that it has an evident inverse; from the inverse, \<open>toISOString\<close> is injective.
\<close>

section \<open>The calendar\<close>

definition DAY_MS :: int where
  "DAY_MS = 86400000"

definition HOUR_MS :: int where
  "HOUR_MS = 3600000"

definition isLeap :: "nat \<Rightarrow> bool" where
  "isLeap y \<longleftrightarrow> y mod 4 = 0 \<and> (y mod 100 \<noteq> 0 \<or> y mod 400 = 0)"

definition daysInYear :: "nat \<Rightarrow> nat" where
  "daysInYear y = (if isLeap y then 366 else 365)"

definition monthLengths :: "nat \<Rightarrow> nat list" where
  "monthLengths y = [31, if isLeap y then 29 else 28, 31, 30, 31, 30, 31, 31, 30, 31, 30, 31]"

text \<open>The year a day falls in and its number in that year, counting from year \<open>y\<close>.\<close>

function yearOfDay :: "nat \<Rightarrow> nat \<Rightarrow> nat \<times> nat" where
  "yearOfDay d y = (if d < daysInYear y then (y, d) else yearOfDay (d - daysInYear y) (Suc y))"
  by pat_completeness auto
termination
  by (relation "measure fst") (auto simp: daysInYear_def split: if_splits)

declare yearOfDay.simps [simp del]

fun monthOfDay :: "nat \<Rightarrow> nat list \<Rightarrow> nat \<Rightarrow> nat \<times> nat" where
  "monthOfDay d [] m = (m, d)"
| "monthOfDay d (l # ls) m = (if d < l then (m, d) else monthOfDay (d - l) ls (Suc m))"

section \<open>Truncation and printing\<close>

datatype trunc_unit = Hour | Day

text \<open>
  \<open>truncateUtc\<close>: \<open>setUTCMinutes(0, 0, 0)\<close> clears minutes, seconds and milliseconds; \<open>setUTCHours(0)\<close>
  then clears the hour. UTC days have 24 hours, so both are arithmetic on the instant.
\<close>

definition truncateUtc :: "millis \<Rightarrow> trunc_unit \<Rightarrow> millis" where
  "truncateUtc t u =
     (let h = t - t mod HOUR_MS in if u = Day then h - h mod DAY_MS else h)"

definition pad2 :: "nat \<Rightarrow> string" where
  "pad2 n = padStart 2 CHR ''0'' (showNat n)"

definition isoDate :: "nat \<Rightarrow> string" where
  "isoDate d =
     (let (y, dy) = yearOfDay d 1970; (m, dm) = monthOfDay dy (monthLengths y) 1
      in padStart 4 CHR ''0'' (showNat y) @ ''-'' @ pad2 m @ ''-'' @ pad2 (Suc dm))"

definition toISOString :: "millis \<Rightarrow> string" where
  "toISOString t =
     (let ms = nat t; s = ms div 1000; mi = s div 60; h = mi div 60; d = h div 24
      in isoDate d @ ''T'' @ pad2 (h mod 24) @ '':'' @ pad2 (mi mod 60) @ '':'' @ pad2 (s mod 60)
         @ ''.'' @ padStart 3 CHR ''0'' (showNat (ms mod 1000)) @ ''Z'')"

section \<open>Facts: truncation\<close>

lemma truncateUtc_hour: "truncateUtc t Hour = t div HOUR_MS * HOUR_MS"
  by (simp add: truncateUtc_def HOUR_MS_def minus_mod_eq_div_mult)

lemma truncateUtc_day: "truncateUtc t Day = t div DAY_MS * DAY_MS"
proof -
  have "DAY_MS = HOUR_MS * 24" by (simp add: DAY_MS_def HOUR_MS_def)
  then have "t div HOUR_MS * HOUR_MS div DAY_MS = t div DAY_MS"
    by (simp add: HOUR_MS_def DAY_MS_def)
  then show ?thesis
    by (simp add: truncateUtc_def Let_def minus_mod_eq_div_mult)
qed

lemma truncateUtc_le: "truncateUtc t u \<le> t"
proof (cases u)
  case Hour
  then show ?thesis by (simp add: truncateUtc_hour HOUR_MS_def)
next
  case Day
  then show ?thesis by (simp add: truncateUtc_day DAY_MS_def)
qed

lemma truncateUtc_idem [simp]: "truncateUtc (truncateUtc t u) u = truncateUtc t u"
  by (cases u) (simp_all add: truncateUtc_hour truncateUtc_day HOUR_MS_def DAY_MS_def)

lemma truncateUtc_day_of_hour [simp]: "truncateUtc (truncateUtc t Hour) Day = truncateUtc t Day"
  by (simp add: truncateUtc_def HOUR_MS_def DAY_MS_def Let_def)

lemma truncateUtc_mono: "a \<le> b \<Longrightarrow> truncateUtc a u \<le> truncateUtc b u"
  by (cases u) (simp_all add: truncateUtc_hour truncateUtc_day HOUR_MS_def DAY_MS_def zdiv_mono1)

section \<open>Facts: the calendar is invertible\<close>

lemma yearOfDay_inverse:
  "yearOfDay d y = (y', d') \<Longrightarrow> y \<le> y' \<and> d = (\<Sum>k = y..<y'. daysInYear k) + d' \<and> d' < daysInYear y'"
proof (induction d y arbitrary: y' d' rule: yearOfDay.induct)
  case (1 d y)
  show ?case
  proof (cases "d < daysInYear y")
    case True
    with "1.prems" show ?thesis by (simp add: yearOfDay.simps [of d y])
  next
    case False
    with "1.prems" have "yearOfDay (d - daysInYear y) (Suc y) = (y', d')"
      by (simp add: yearOfDay.simps [of d y])
    from "1.IH" [OF False this] False show ?thesis
      by (auto simp: sum.atLeast_Suc_lessThan [of y y'])
  qed
qed

lemma monthOfDay_inverse:
  "monthOfDay d ls m = (m', d') \<Longrightarrow> m \<le> m' \<and> m' \<le> m + length ls \<and> d = sum_list (take (m' - m) ls) + d'"
proof (induction d ls m arbitrary: m' d' rule: monthOfDay.induct)
  case (2 d l ls m)
  show ?case
  proof (cases "d < l")
    case True
    with "2.prems" show ?thesis by simp
  next
    case False
    with 2 have "Suc m \<le> m' \<and> m' \<le> Suc m + length ls \<and> d - l = sum_list (take (m' - Suc m) ls) + d'"
      by simp
    moreover from this have "m' - m = Suc (m' - Suc m)" by linarith
    ultimately show ?thesis using False by auto
  qed
qed simp

lemma sum_monthLengths: "sum_list (monthLengths y) = daysInYear y"
  by (simp add: monthLengths_def daysInYear_def)

lemma padStart_showNat_inj: "padStart w CHR ''0'' (showNat a) = padStart w CHR ''0'' (showNat b) \<longleftrightarrow> a = b"
  by (metis digitsVal_padStart digitsVal_showNat)

lemma pad2_inj [simp]: "pad2 a = pad2 b \<longleftrightarrow> a = b"
  by (simp add: pad2_def padStart_showNat_inj)

lemma pad2_digits: "list_all isDigit (pad2 a)"
  by (simp add: pad2_def)

text \<open>Two digit blocks each followed by a separator agree only when both parts agree.\<close>

lemma digit_block_inj:
  assumes "list_all isDigit a" "list_all isDigit b" "\<not> isDigit c" "\<not> isDigit c'"
  shows "a @ c # r = b @ c' # r' \<longleftrightarrow> a = b \<and> c = c' \<and> r = r'"
proof
  assume eq: "a @ c # r = b @ c' # r'"
  with assms have "a = b"
    by (metis takeWhile_digits)
  with eq show "a = b \<and> c = c' \<and> r = r'" by simp
qed simp

lemma isDigit_separators [simp]:
  "\<not> isDigit CHR '':''" "\<not> isDigit CHR ''T''" "\<not> isDigit CHR ''Z''"
  by (simp_all add: isDigit_def)

lemma isoDate_parts:
  assumes "isoDate d @ CHR ''T'' # r = isoDate e @ CHR ''T'' # r'"
  shows "d = e \<and> r = r'"
proof -
  obtain y dy where y: "yearOfDay d 1970 = (y, dy)" by force
  obtain m dm where m: "monthOfDay dy (monthLengths y) 1 = (m, dm)" by force
  obtain y' dy' where y': "yearOfDay e 1970 = (y', dy')" by force
  obtain m' dm' where m': "monthOfDay dy' (monthLengths y') 1 = (m', dm')" by force
  have d: "isoDate d = padStart 4 CHR ''0'' (showNat y) @ ''-'' @ pad2 m @ ''-'' @ pad2 (Suc dm)"
    unfolding isoDate_def y Let_def prod.case m by (rule refl)
  have e: "isoDate e = padStart 4 CHR ''0'' (showNat y') @ ''-'' @ pad2 m' @ ''-'' @ pad2 (Suc dm')"
    unfolding isoDate_def y' Let_def prod.case m' by (rule refl)
  from assms have eqs: "y = y' \<and> m = m' \<and> dm = dm' \<and> r = r'"
    by (simp add: d e pad2_digits padStart_showNat_inj digit_block_inj)
  with monthOfDay_inverse [OF m] monthOfDay_inverse [OF m'] have "dy = dy'" by simp
  with eqs yearOfDay_inverse [OF y] yearOfDay_inverse [OF y'] show ?thesis by simp
qed

lemma toISOString_inj:
  assumes "0 \<le> a" "0 \<le> b" "toISOString a = toISOString b"
  shows "a = b"
proof -
  from assms(3) have "isoDate (nat a div 1000 div 60 div 60 div 24) @ CHR ''T'' #
        (pad2 (nat a div 1000 div 60 div 60 mod 24) @ CHR '':'' # pad2 (nat a div 1000 div 60 mod 60) @ CHR '':''
         # pad2 (nat a div 1000 mod 60) @ CHR ''.'' # padStart 3 CHR ''0'' (showNat (nat a mod 1000)) @ ''Z'')
      = isoDate (nat b div 1000 div 60 div 60 div 24) @ CHR ''T'' #
        (pad2 (nat b div 1000 div 60 div 60 mod 24) @ CHR '':'' # pad2 (nat b div 1000 div 60 mod 60) @ CHR '':''
         # pad2 (nat b div 1000 mod 60) @ CHR ''.'' # padStart 3 CHR ''0'' (showNat (nat b mod 1000)) @ ''Z'')"
    by (simp add: toISOString_def Let_def)
  from isoDate_parts [OF this]
  have d: "nat a div 1000 div 60 div 60 div 24 = nat b div 1000 div 60 div 60 div 24"
    and "nat a div 1000 div 60 div 60 mod 24 = nat b div 1000 div 60 div 60 mod 24"
    and "nat a div 1000 div 60 mod 60 = nat b div 1000 div 60 mod 60"
    and "nat a div 1000 mod 60 = nat b div 1000 mod 60"
    and "nat a mod 1000 = nat b mod 1000"
    by (simp_all add: pad2_digits digit_block_inj padStart_showNat_inj)
  then have "nat a div 1000 div 60 div 60 = nat b div 1000 div 60 div 60" by (metis div_mult_mod_eq)
  then have "nat a div 1000 div 60 = nat b div 1000 div 60"
    using \<open>nat a div 1000 div 60 mod 60 = nat b div 1000 div 60 mod 60\<close> by (metis div_mult_mod_eq)
  then have "nat a div 1000 = nat b div 1000"
    using \<open>nat a div 1000 mod 60 = nat b div 1000 mod 60\<close> by (metis div_mult_mod_eq)
  then have "nat a = nat b" using \<open>nat a mod 1000 = nat b mod 1000\<close> by (metis div_mult_mod_eq)
  with assms show ?thesis by simp
qed

text \<open>An ISO string never contains the separator of the rollup group key.\<close>

lemma bar_not_digit: "list_all isDigit s \<Longrightarrow> CHR ''|'' \<notin> set s"
  by (auto simp: list_all_iff isDigit_def)

lemma toISOString_no_bar: "CHR ''|'' \<notin> set (toISOString t)"
  by (auto simp: toISOString_def isoDate_def pad2_def Let_def split: prod.splits
      dest!: bar_not_digit [OF padStart_digits [OF showNat_digits], THEN notE, rotated])

end
