(* ===== verification/Rollups.thy ===== *)
theory Rollups
  imports Pricing Dates
begin

text \<open>
  The usage event that travels from the gateway to the worker (\<open>packages/queue\<close>) and the pure rollup
  aggregation of the worker (\<open>apps/worker/src/ingest/rollups.ts\<close>): fixed-point money strings, the
  group key, the grouping loop. Aggregation is shown to conserve every counter and every cent, and
  the money strings to round trip.
\<close>

section \<open>Usage events (queue/src/index.ts)\<close>

record unit_prices =
  up_in :: string
  up_out :: string
  up_cr :: string
  up_cw :: string
  up_source :: price_source

text \<open>The field \<open>occurredAt\<close> is the instant that the ISO 8601 string of the message denotes.\<close>

record usage_event =
  ev_id :: string
  occurredAt :: millis
  workspaceId :: string
  projectId :: string
  teamId :: "string option"
  userId :: string
  virtualKeyId :: string
  credentialId :: "string option"
  poolId :: "string option"
  ev_provider :: provider
  modelRaw :: string
  ev_model :: string
  endpoint :: string
  requestId :: string
  status :: event_status
  httpStatus :: int
  streamed :: bool
  inputTokens :: jsnumber
  outputTokens :: jsnumber
  cacheReadTokens :: jsnumber
  cacheWriteTokens :: jsnumber
  reasoningTokens :: jsnumber
  costUsd :: string
  unitPrices :: "unit_prices option"
  costBasis :: cost_basis
  latencyMs :: int
  ttftMs :: "int option"
  tags :: "string list option"

section \<open>Money strings (rollups.ts)\<close>

datatype rollup_error = InvalidDecimal string | NotAnInteger jsnumber

definition COST_SCALE :: nat where
  "COST_SCALE = 8"

definition parseDecimalScaled :: "string \<Rightarrow> nat \<Rightarrow> rollup_error + int" where
  "parseDecimalScaled decimal scale =
     (let (neg, body) = (case decimal of
                           [] \<Rightarrow> (False, [])
                         | c # r \<Rightarrow> (if c = CHR ''-'' then (True, r) else (False, decimal)))
      in case matchDecimal body of
           None \<Rightarrow> Inl (InvalidDecimal decimal)
         | Some (whole, f) \<Rightarrow>
             (let frac = (case f of None \<Rightarrow> [] | Some t \<Rightarrow> t) in
              if scale < length frac then Inl (InvalidDecimal decimal)
              else Inr ((if neg then - 1 else 1) *
                        (int (digitsVal whole) * 10 ^ scale
                         + int (digitsVal (padEnd scale CHR ''0'' frac))))))"

definition formatScaled :: "int \<Rightarrow> nat \<Rightarrow> string" where
  "formatScaled value scale =
     (let sign = (if value < 0 then ''-'' else []);
          a = (if value < 0 then - value else value);
          divisor = 10 ^ scale
      in sign @ showNat (nat (a div divisor)) @ ''.''
         @ padStart scale CHR ''0'' (showNat (nat (a mod divisor))))"

text \<open>\<open>BigInt(n)\<close> of a number: raises a range error unless it is an integer.\<close>

definition toBigInt :: "jsnumber \<Rightarrow> rollup_error + int" where
  "toBigInt n = (if isInteger n then Inr \<lfloor>n\<rfloor> else Inl (NotAnInteger n))"

section \<open>Counters\<close>

text \<open>
  The ten additive counters of an increment, with \<open>cost8\<close> in integer units of one hundred-millionth
  of a dollar. They form a commutative monoid, so the library's sums apply to them.
\<close>

datatype totals = Totals
  (requests: int) (errors: int) (tInput: int) (tOutput: int) (tCacheRead: int) (tCacheWrite: int)
  (tReasoning: int) (cost8: int) (latencyMsSum: int) (latencyCount: int)

instantiation totals :: comm_monoid_add
begin

definition zero_totals :: totals where
  "zero_totals = Totals 0 0 0 0 0 0 0 0 0 0"

fun plus_totals :: "totals \<Rightarrow> totals \<Rightarrow> totals" where
  "plus_totals (Totals a b c d e f g h i j) (Totals a' b' c' d' e' f' g' h' i' j') =
     Totals (a + a') (b + b') (c + c') (d + d') (e + e') (f + f') (g + g') (h + h') (i + i') (j + j')"

instance
proof
  fix x y z :: totals
  show "x + y + z = x + (y + z)" by (cases x; cases y; cases z) simp
  show "x + y = y + x" by (cases x; cases y) simp
  show "0 + x = x" by (cases x) (simp add: zero_totals_def)
qed

end

section \<open>Grouping (rollups.ts)\<close>

record rollup_group =
  bucketHour :: millis
  bucketDay :: millis
  g_workspaceId :: string
  g_projectId :: string
  g_teamId :: "string option"
  g_userId :: string
  g_provider :: provider
  g_model :: string
  g_totals :: totals

text \<open>An increment as returned: the counters with the cost printed.\<close>

record rollup_increment =
  inc_group :: rollup_group
  inc_costUsd :: string

definition groupKey :: "usage_event \<Rightarrow> string" where
  "groupKey e =
     joinWith ''|''
       [toISOString (truncateUtc (occurredAt e) Hour), workspaceId e, projectId e, userId e,
        providerName (ev_provider e), ev_model e]"

text \<open>The counters one event adds, when its numbers are integers and its cost parses.\<close>

definition eventTotals :: "usage_event \<Rightarrow> rollup_error + totals" where
  "eventTotals e =
     (case toBigInt (inputTokens e) of Inl x \<Rightarrow> Inl x | Inr a \<Rightarrow>
      (case toBigInt (outputTokens e) of Inl x \<Rightarrow> Inl x | Inr b \<Rightarrow>
      (case toBigInt (cacheReadTokens e) of Inl x \<Rightarrow> Inl x | Inr c \<Rightarrow>
      (case toBigInt (cacheWriteTokens e) of Inl x \<Rightarrow> Inl x | Inr d \<Rightarrow>
      (case toBigInt (reasoningTokens e) of Inl x \<Rightarrow> Inl x | Inr r \<Rightarrow>
      (case parseDecimalScaled (costUsd e) COST_SCALE of Inl x \<Rightarrow> Inl x | Inr m \<Rightarrow>
         Inr (Totals 1 (if status e \<noteq> OK then 1 else 0) a b c d r m (latencyMs e) 1)))))))"

definition emptyGroup :: "usage_event \<Rightarrow> rollup_group" where
  "emptyGroup e =
     \<lparr>bucketHour = truncateUtc (occurredAt e) Hour, bucketDay = truncateUtc (occurredAt e) Day,
      g_workspaceId = workspaceId e, g_projectId = projectId e, g_teamId = teamId e,
      g_userId = userId e, g_provider = ev_provider e, g_model = ev_model e, g_totals = 0\<rparr>"

fun groupLoop ::
  "(string, rollup_group) omap \<Rightarrow> usage_event list \<Rightarrow> rollup_error + (string, rollup_group) omap" where
  "groupLoop groups [] = Inr groups"
| "groupLoop groups (e # es) =
     (let k = groupKey e;
          g = (case map_of groups k of None \<Rightarrow> emptyGroup e | Some g \<Rightarrow> g)
      in case eventTotals e of
           Inl x \<Rightarrow> Inl x
         | Inr t \<Rightarrow> groupLoop (AList.update k (g\<lparr>g_totals := g_totals g + t\<rparr>) groups) es)"

definition groupRollups :: "usage_event list \<Rightarrow> rollup_error + rollup_increment list" where
  "groupRollups events =
     (case groupLoop [] events of
        Inl x \<Rightarrow> Inl x
      | Inr groups \<Rightarrow>
          Inr (map (\<lambda>(k, g). \<lparr>inc_group = g, inc_costUsd = formatScaled (cost8 (g_totals g)) COST_SCALE\<rparr>)
                   groups))"

section \<open>What aggregation means\<close>

text \<open>The counters of an event that passes the checks; zero for one that does not.\<close>

definition totalsOf :: "usage_event \<Rightarrow> totals" where
  "totalsOf e = (case eventTotals e of Inl x \<Rightarrow> 0 | Inr t \<Rightarrow> t)"

definition countable :: "usage_event \<Rightarrow> bool" where
  "countable e = (case eventTotals e of Inl x \<Rightarrow> False | Inr t \<Rightarrow> True)"

abbreviation sumTotals :: "usage_event list \<Rightarrow> totals" where
  "sumTotals es \<equiv> sum_list (map totalsOf es)"

text \<open>
  The rollup tables keep money in columns of type \<open>DECIMAL(14,6)\<close>, the events in \<open>DECIMAL(14,8)\<close>: a value that is
  written to a rollup row is rounded to whole millionths of a dollar, halves away from zero.
\<close>

definition columnCost :: "int \<Rightarrow> int" where
  "columnCost c = (if 0 \<le> c then (c + 50) div 100 * 100 else - ((- c + 50) div 100 * 100))"

fun columnTotals :: "totals \<Rightarrow> totals" where
  "columnTotals (Totals a b c d e f g h i j) = Totals a b c d e f g (columnCost h) i j"

fun withoutCost :: "totals \<Rightarrow> totals" where
  "withoutCost (Totals a b c d e f g h i j) = Totals a b c d e f g 0 i j"

text \<open>How many events cost a broken number of millionths of a dollar.\<close>

definition inexact :: "usage_event list \<Rightarrow> int" where
  "inexact es = sum_list (map (\<lambda>e. if 100 dvd cost8 (totalsOf e) then 0 else 1) es)"

text \<open>
  Counters agree with a list of events: all but the cost are the sums over the events, and the cost is off by at most
  half a millionth of a dollar for each event whose cost is not a whole number of millionths.
\<close>

definition agrees :: "totals \<Rightarrow> usage_event list \<Rightarrow> bool" where
  "agrees t es \<longleftrightarrow> withoutCost t = withoutCost (sumTotals es) \<and> \<bar>cost8 t - cost8 (sumTotals es)\<bar> \<le> 50 * inexact es"

text \<open>The dimensions an event is counted under, as the tables' unique key has them.\<close>

type_synonym rollup_key = "millis \<times> string \<times> string \<times> string \<times> provider \<times> string"

definition hourKey :: "usage_event \<Rightarrow> rollup_key" where
  "hourKey e = (truncateUtc (occurredAt e) Hour, workspaceId e, projectId e, userId e, ev_provider e, ev_model e)"

definition dayKey :: "usage_event \<Rightarrow> rollup_key" where
  "dayKey e = (truncateUtc (occurredAt e) Day, workspaceId e, projectId e, userId e, ev_provider e, ev_model e)"

definition groupHourKey :: "rollup_group \<Rightarrow> rollup_key" where
  "groupHourKey g = (bucketHour g, g_workspaceId g, g_projectId g, g_userId g, g_provider g, g_model g)"

definition groupDayKey :: "rollup_group \<Rightarrow> rollup_key" where
  "groupDayKey g = (bucketDay g, g_workspaceId g, g_projectId g, g_userId g, g_provider g, g_model g)"

text \<open>Identifiers without the separator of the group key: UUIDs are.\<close>

definition plainIds :: "usage_event \<Rightarrow> bool" where
  "plainIds e \<longleftrightarrow> 0 \<le> occurredAt e
     \<and> CHR ''|'' \<notin> set (workspaceId e) \<and> CHR ''|'' \<notin> set (projectId e) \<and> CHR ''|'' \<notin> set (userId e)"

section \<open>Lemmas: counters\<close>

lemma totals_plus_sel [simp]:
  "requests (x + y) = requests x + requests y" "errors (x + y) = errors x + errors y"
  "tInput (x + y) = tInput x + tInput y" "tOutput (x + y) = tOutput x + tOutput y"
  "tCacheRead (x + y) = tCacheRead x + tCacheRead y" "tCacheWrite (x + y) = tCacheWrite x + tCacheWrite y"
  "tReasoning (x + y) = tReasoning x + tReasoning y" "cost8 (x + y) = cost8 x + cost8 y"
  "latencyMsSum (x + y) = latencyMsSum x + latencyMsSum y" "latencyCount (x + y) = latencyCount x + latencyCount y"
  by (cases x; cases y; simp)+

lemma totals_zero_sel [simp]:
  "requests 0 = 0" "errors 0 = 0" "tInput 0 = 0" "tOutput 0 = 0" "tCacheRead 0 = 0" "tCacheWrite 0 = 0"
  "tReasoning 0 = 0" "cost8 0 = 0" "latencyMsSum 0 = 0" "latencyCount 0 = 0"
  by (simp_all add: zero_totals_def)

lemma requests_sum_list [simp]: "requests (sum_list (map f xs)) = sum_list (map (\<lambda>x. requests (f x)) xs)"
  by (induction xs) simp_all

lemma cost8_sum_list [simp]: "cost8 (sum_list (map f xs)) = sum_list (map (\<lambda>x. cost8 (f x)) xs)"
  by (induction xs) simp_all

text \<open>Agreement is additive, and an increment written to its row agrees with its events.\<close>

lemma withoutCost_plus [simp]: "withoutCost (x + y) = withoutCost x + withoutCost y"
  by (cases x; cases y) simp

lemma withoutCost_zero [simp]: "withoutCost 0 = 0"
  by (simp add: zero_totals_def)

lemma withoutCost_requests: "withoutCost t = withoutCost u \<Longrightarrow> requests t = requests u"
  by (cases t; cases u) simp

lemma columnTotals_sel [simp]:
  "withoutCost (columnTotals t) = withoutCost t" "cost8 (columnTotals t) = columnCost (cost8 t)"
  "requests (columnTotals t) = requests t"
  by (cases t; simp)+

lemma columnCost_error: "\<bar>columnCost c - c\<bar> \<le> 50"
  using pos_mod_bound [of 100 "c + 50"] pos_mod_sign [of 100 "c + 50"] pos_mod_bound [of 100 "50 - c"] pos_mod_sign [of 100 "50 - c"]
  by (auto simp: columnCost_def abs_le_iff simp flip: minus_mod_eq_div_mult)

lemma columnCost_whole: "100 dvd c \<Longrightarrow> columnCost c = c"
  by (auto simp: columnCost_def elim!: dvdE)

lemma inexact_Cons [simp]: "inexact (e # es) = (if 100 dvd cost8 (totalsOf e) then 0 else 1) + inexact es"
  by (simp add: inexact_def)

lemma inexact_Nil [simp]: "inexact [] = 0"
  by (simp add: inexact_def)

lemma inexact_append [simp]: "inexact (xs @ ys) = inexact xs + inexact ys"
  by (simp add: inexact_def)

lemma inexact_nonneg: "0 \<le> inexact es"
  by (induction es) simp_all

lemma inexact_0: "inexact es = 0 \<longleftrightarrow> (\<forall>e\<in>set es. 100 dvd cost8 (totalsOf e))"
proof (induction es)
  case (Cons e es)
  with inexact_nonneg [of es] show ?case by auto
qed simp

lemma agrees_Nil [simp]: "agrees 0 []"
  by (simp add: agrees_def)

lemma agrees_append: "agrees t xs \<Longrightarrow> agrees u ys \<Longrightarrow> agrees (t + u) (xs @ ys)"
  unfolding agrees_def abs_le_iff by (auto simp: algebra_simps)

lemma sum_list_concat: "sum_list (concat xss) = sum_list (map sum_list (xss :: 'm::comm_monoid_add list list))"
  by (induction xss) simp_all

lemma agrees_concat: "(\<And>x. x \<in> set xs \<Longrightarrow> agrees (g x) (F x)) \<Longrightarrow> agrees (sum_list (map g xs)) (concat (map F xs))"
  by (induction xs) (simp_all add: agrees_append)

lemma agrees_exact: "agrees t es \<Longrightarrow> inexact es = 0 \<Longrightarrow> t = sumTotals es"
  by (cases t; cases "sumTotals es") (simp add: agrees_def)

lemma cost_whole: "inexact es = 0 \<Longrightarrow> 100 dvd cost8 (sumTotals es)"
proof (induction es)
  case (Cons e es)
  then have "100 dvd cost8 (totalsOf e)" "inexact es = 0" unfolding inexact_0 by auto
  with Cons.IH show ?case by simp
qed simp

lemma columnTotals_agrees: "agrees (columnTotals (sumTotals es)) es"
proof (cases "inexact es = 0")
  case True
  then show ?thesis using columnCost_whole [OF cost_whole [OF True]] by (simp add: agrees_def del: cost8_sum_list)
next
  case False
  with inexact_nonneg [of es] columnCost_error [of "cost8 (sumTotals es)"] show ?thesis
    by (simp add: agrees_def del: cost8_sum_list)
qed

lemma countable_eventTotals: "countable e \<Longrightarrow> eventTotals e = Inr (totalsOf e)"
  by (auto simp: countable_def totalsOf_def split: sum.splits)

lemma countable_iff: "countable e \<longleftrightarrow> (\<exists>t. eventTotals e = Inr t)"
  by (auto simp: countable_def split: sum.splits)

lemma requests_totalsOf: "countable e \<Longrightarrow> requests (totalsOf e) = 1"
  by (auto simp: countable_def totalsOf_def eventTotals_def split: sum.splits)

lemma cost_totalsOf: "countable e \<Longrightarrow> parseDecimalScaled (costUsd e) COST_SCALE = Inr (cost8 (totalsOf e))"
  by (auto simp: countable_def totalsOf_def eventTotals_def split: sum.splits)


section \<open>Lemmas: money strings\<close>

lemma digit_not_minus: "isDigit c \<Longrightarrow> c \<noteq> CHR ''-''"
  by auto

lemma parseDecimalScaled_unsigned:
  assumes "list_all isDigit w" "w \<noteq> []" "list_all isDigit f" "f \<noteq> []" "length f = scale"
  shows "parseDecimalScaled (w @ CHR ''.'' # f) scale = Inr (int (digitsVal w) * 10 ^ scale + int (digitsVal f))"
    and "parseDecimalScaled (CHR ''-'' # w @ CHR ''.'' # f) scale
         = Inr (- (int (digitsVal w) * 10 ^ scale + int (digitsVal f)))"
proof -
  from assms(1,2) obtain c r where w: "w = c # r" "c \<noteq> CHR ''-''"
    by (cases w) (auto dest: digit_not_minus)
  have md: "matchDecimal (c # r @ CHR ''.'' # f) = Some (c # r, Some f)"
    using matchDecimal_point [OF assms(1-4)] w(1) by simp
  show "parseDecimalScaled (w @ CHR ''.'' # f) scale
      = Inr (int (digitsVal w) * 10 ^ scale + int (digitsVal f))"
    using w(2) assms(5) by (simp add: parseDecimalScaled_def padEnd_def md w(1))
  from assms show "parseDecimalScaled (CHR ''-'' # w @ CHR ''.'' # f) scale
      = Inr (- (int (digitsVal w) * 10 ^ scale + int (digitsVal f)))"
    by (simp add: parseDecimalScaled_def padEnd_def)
qed

text \<open>A nonnegative amount printed with a fixed number of places, and what reading it gives.\<close>

lemma fixed_point_digits:
  assumes "0 < k" "0 \<le> (m::int)"
  shows "length (padStart k CHR ''0'' (showNat (nat (m mod 10 ^ k)))) = k"
    and "int (digitsVal (showNat (nat (m div 10 ^ k)))) * 10 ^ k
         + int (digitsVal (padStart k CHR ''0'' (showNat (nat (m mod 10 ^ k))))) = m"
proof -
  have "nat (m mod 10 ^ k) < 10 ^ k" by (simp add: nat_less_iff)
  then show "length (padStart k CHR ''0'' (showNat (nat (m mod 10 ^ k)))) = k"
    using assms(1) by (simp add: length_showNat)
  show "int (digitsVal (showNat (nat (m div 10 ^ k)))) * 10 ^ k
         + int (digitsVal (padStart k CHR ''0'' (showNat (nat (m mod 10 ^ k))))) = m"
    using assms(2) by (simp add: pos_imp_zdiv_nonneg_iff div_mult_mod_eq)
qed

lemma parse_fixed_point:
  assumes "0 < k" "0 \<le> (m::int)"
  shows "parseDecimalScaled (showNat (nat (m div 10 ^ k)) @ CHR ''.'' #
           padStart k CHR ''0'' (showNat (nat (m mod 10 ^ k)))) k = Inr m"
    and "parseDecimalScaled (CHR ''-'' # showNat (nat (m div 10 ^ k)) @ CHR ''.'' #
           padStart k CHR ''0'' (showNat (nat (m mod 10 ^ k)))) k = Inr (- m)"
proof -
  have ne: "padStart k CHR ''0'' (showNat (nat (m mod 10 ^ k))) \<noteq> []"
    by (simp add: padStart_def)
  note parts = parseDecimalScaled_unsigned [OF showNat_digits showNat_nonempty
      padStart_digits [OF showNat_digits] ne fixed_point_digits(1) [OF assms]]
  show "parseDecimalScaled (showNat (nat (m div 10 ^ k)) @ CHR ''.'' #
           padStart k CHR ''0'' (showNat (nat (m mod 10 ^ k)))) k = Inr m"
    by (simp only: parts(1) fixed_point_digits(2) [OF assms])
  show "parseDecimalScaled (CHR ''-'' # showNat (nat (m div 10 ^ k)) @ CHR ''.'' #
           padStart k CHR ''0'' (showNat (nat (m mod 10 ^ k)))) k = Inr (- m)"
    by (simp only: parts(2) fixed_point_digits(2) [OF assms])
qed

lemma parse_formatScaled: "0 < k \<Longrightarrow> parseDecimalScaled (formatScaled v k) k = Inr v"
  using parse_fixed_point(1) [of k v] parse_fixed_point(2) [of k "- v"]
  by (cases "v < 0") (simp_all add: formatScaled_def Let_def)

interpretation rollup_money: money_codec "\<lambda>v. formatScaled v COST_SCALE" "\<lambda>s. parseDecimalScaled s COST_SCALE"
  by unfold_locales (simp add: parse_formatScaled COST_SCALE_def)

text \<open>The strings the calculator prints are read by the worker without loss.\<close>

lemma parse_formatPicoUsd: "0 \<le> c \<Longrightarrow> parseDecimalScaled (formatPicoUsd c) COST_SCALE = Inr (c div 10000)"
  using parse_fixed_point(1) [of 8 "c div 10000"]
  by (simp add: formatPicoUsd_nonneg pico_split COST_SCALE_def pos_imp_zdiv_nonneg_iff)

text \<open>
  The two ends of the pipeline agree on money. The string the gateway's calculator produces is
  accepted by the worker's parser, which reads it as the exact cost of the request, rounded down, in
  whole hundred-millionths of a dollar.
\<close>

lemma cost_survives_ingest:
  assumes "billable 6 t p"
  shows "\<exists>s. calculateCostUsd t p = Inr s
    \<and> parseDecimalScaled s COST_SCALE = Inr \<lfloor>exactCost t p * 100000000\<rfloor>"
proof -
  from assms obtain c where c: "costPico t p = Inr c"
    "of_int c = exactCost t p * 1000000000000" "0 \<le> c" by (rule costPico_value)
  have "exactCost t p * 100000000 = of_int c / of_int 10000" using c(2) by simp
  then have "\<lfloor>exactCost t p * 100000000\<rfloor> = c div 10000" by (simp only: floor_divide_of_int_eq)
  with c show ?thesis by (simp add: calculateCostUsd_def parse_formatPicoUsd)
qed

section \<open>Lemmas: the group key\<close>

lemma sep_block_inj:
  assumes "c \<notin> set a" "c \<notin> set b"
  shows "a @ c # r = b @ c # r' \<longleftrightarrow> a = b \<and> r = r'"
proof
  assume eq: "a @ c # r = b @ c # r'"
  from assms have "takeWhile (\<lambda>x. x \<noteq> c) (a @ c # r) = a" "takeWhile (\<lambda>x. x \<noteq> c) (b @ c # r') = b"
    by (auto simp: takeWhile_append takeWhile_eq_all_conv)
  with eq have "a = b" by simp
  with eq show "a = b \<and> r = r'" by simp
qed simp

lemma providerName_no_bar: "CHR ''|'' \<notin> set (providerName p)"
  by (cases p) simp_all

lemma truncateUtc_nonneg: "0 \<le> t \<Longrightarrow> 0 \<le> truncateUtc t u"
  by (cases u) (simp_all add: truncateUtc_hour truncateUtc_day HOUR_MS_def DAY_MS_def pos_imp_zdiv_nonneg_iff)

text \<open>The joined string separates exactly the tuples that the tables' unique key separates.\<close>

lemma groupKey_hourKey:
  assumes "plainIds a" "plainIds b"
  shows "groupKey a = groupKey b \<longleftrightarrow> hourKey a = hourKey b"
proof -
  have "toISOString (truncateUtc (occurredAt a) Hour) = toISOString (truncateUtc (occurredAt b) Hour)
        \<longleftrightarrow> truncateUtc (occurredAt a) Hour = truncateUtc (occurredAt b) Hour"
    using assms by (auto simp: plainIds_def intro: toISOString_inj truncateUtc_nonneg)
  with assms show ?thesis
    by (simp add: groupKey_def hourKey_def plainIds_def sep_block_inj toISOString_no_bar providerName_no_bar)
qed

lemma hourKey_dayKey: "hourKey a = hourKey b \<Longrightarrow> dayKey a = dayKey b"
  by (auto simp: hourKey_def dayKey_def) (metis truncateUtc_day_of_hour)

section \<open>Lemmas: the grouping loop\<close>

lemma groupLoop_append:
  "groupLoop m (xs @ ys) = (case groupLoop m xs of Inl x \<Rightarrow> Inl x | Inr m' \<Rightarrow> groupLoop m' ys)"
  by (induction m xs rule: groupLoop.induct) (auto simp: Let_def split: sum.splits)

lemma groupLoop_fails: "(\<exists>x. groupLoop m es = Inl x) \<longleftrightarrow> list_ex (\<lambda>e. \<not> countable e) es"
  by (induction m es rule: groupLoop.induct) (auto simp: Let_def countable_def split: sum.splits)

text \<open>The first event of every key, in order of appearance.\<close>

fun firstBy :: "('a \<Rightarrow> 'k) \<Rightarrow> 'a list \<Rightarrow> 'a list" where
  "firstBy f [] = []"
| "firstBy f (x # xs) = x # filter (\<lambda>y. f y \<noteq> f x) (firstBy f xs)"

lemma set_firstBy: "set (firstBy f xs) \<subseteq> set xs"
  by (induction xs) auto

lemma keys_firstBy: "f ` set (firstBy f xs) = f ` set xs"
proof (induction xs)
  case (Cons a xs)
  have "f ` set (firstBy f (a # xs)) = insert (f a) (f ` set (firstBy f xs))" by auto
  with Cons show ?case by simp
qed simp

lemma distinct_firstBy: "distinct (map f (firstBy f xs))"
  by (induction xs) (auto simp: distinct_map inj_on_def)

lemma firstBy_snoc:
  "firstBy f (xs @ [x]) = (if f x \<in> f ` set xs then firstBy f xs else firstBy f xs @ [x])"
  by (induction xs) auto

lemma firstBy_cong: "(\<And>x y. x \<in> set xs \<Longrightarrow> y \<in> set xs \<Longrightarrow> (f x = f y) = (g x = g y)) \<Longrightarrow> firstBy f xs = firstBy g xs"
proof (induction xs)
  case (Cons a xs)
  then have "firstBy f xs = firstBy g xs" by simp
  then show ?case using Cons.prems set_firstBy [of g xs] by (auto intro!: filter_cong)
qed simp

text \<open>What the loop should build: one group for each key, with the counters of all its events.\<close>

definition groupOf :: "(usage_event \<Rightarrow> 'k) \<Rightarrow> usage_event list \<Rightarrow> usage_event \<Rightarrow> rollup_group" where
  "groupOf f es e = (emptyGroup e)\<lparr>g_totals := sumTotals (filter (\<lambda>x. f x = f e) es)\<rparr>"

definition refRollups :: "usage_event list \<Rightarrow> rollup_increment list" where
  "refRollups es =
     map (\<lambda>e. \<lparr>inc_group = groupOf hourKey es e,
                inc_costUsd = formatScaled (cost8 (g_totals (groupOf hourKey es e))) COST_SCALE\<rparr>)
         (firstBy hourKey es)"

definition refGroups :: "usage_event list \<Rightarrow> (string, rollup_group) omap" where
  "refGroups es = map (\<lambda>e. (groupKey e, groupOf groupKey es e)) (firstBy groupKey es)"

lemma map_of_keyed:
  "distinct (map f xs) \<Longrightarrow> x \<in> set xs \<Longrightarrow> map_of (map (\<lambda>e. (f e, g e)) xs) (f x) = Some (g x)"
  by (simp add: comp_def)

lemma map_of_keyed_None: "k \<notin> f ` set xs \<Longrightarrow> map_of (map (\<lambda>e. (f e, g e)) xs) k = None"
  by (induction xs) auto

lemma update_keyed:
  assumes "distinct (map f xs)" "x \<in> set xs"
  shows "AList.update (f x) v (map (\<lambda>e. (f e, g e)) xs) = map (\<lambda>e. (f e, if f e = f x then v else g e)) xs"
  using assms
proof (induction xs)
  case (Cons a xs)
  show ?case
  proof (cases "f a = f x")
    case True
    with Cons.prems(1) have "f e \<noteq> f x" if "e \<in> set xs" for e using that by (auto simp: image_iff)
    with True show ?thesis by simp
  next
    case False
    with Cons show ?thesis by auto
  qed
qed simp

lemma update_keyed_new: "k \<notin> f ` set xs \<Longrightarrow> AList.update k v (map (\<lambda>e. (f e, g e)) xs) = map (\<lambda>e. (f e, g e)) xs @ [(k, v)]"
  by (induction xs) auto

lemma groupOf_snoc:
  "groupOf f (es @ [e]) x =
     (if f e = f x then (groupOf f es x)\<lparr>g_totals := g_totals (groupOf f es x) + totalsOf e\<rparr> else groupOf f es x)"
  by (simp add: groupOf_def)

lemma refGroups_snoc:
  "refGroups (es @ [e]) =
    (let g = (case map_of (refGroups es) (groupKey e) of None \<Rightarrow> emptyGroup e | Some g \<Rightarrow> g)
     in AList.update (groupKey e) (g\<lparr>g_totals := g_totals g + totalsOf e\<rparr>) (refGroups es))"
proof (cases "groupKey e \<in> groupKey ` set es")
  case True
  then obtain r where r: "r \<in> set (firstBy groupKey es)" "groupKey r = groupKey e"
    by (metis (no_types, lifting) imageE keys_firstBy)
  have "map_of (refGroups es) (groupKey e) = Some (groupOf groupKey es r)"
    using map_of_keyed [OF distinct_firstBy r(1)] by (simp add: refGroups_def r(2))
  moreover have "refGroups (es @ [e]) = map (\<lambda>x. (groupKey x, if groupKey x = groupKey r
      then (groupOf groupKey es r)\<lparr>g_totals := g_totals (groupOf groupKey es r) + totalsOf e\<rparr>
      else groupOf groupKey es x)) (firstBy groupKey es)"
    using True r distinct_firstBy [of groupKey es]
    by (auto simp: refGroups_def firstBy_snoc groupOf_snoc distinct_map inj_on_def)
  ultimately show ?thesis
    by (simp add: refGroups_def r(2) Let_def update_keyed [OF distinct_firstBy r(1), unfolded r(2)])
next
  case False
  then have new: "groupKey e \<notin> groupKey ` set (firstBy groupKey es)" by (simp add: keys_firstBy)
  then have "map (\<lambda>x. (groupKey x, groupOf groupKey (es @ [e]) x)) (firstBy groupKey es) = refGroups es"
    by (auto simp: refGroups_def groupOf_snoc image_iff)
  moreover have "filter (\<lambda>x. groupKey x = groupKey e) es = []"
    using False by (auto simp: filter_empty_conv image_iff)
  then have "groupOf groupKey (es @ [e]) e = (emptyGroup e)\<lparr>g_totals := 0 + totalsOf e\<rparr>"
    by (simp add: groupOf_def)
  moreover have "g_totals (emptyGroup e) = 0" by (simp add: emptyGroup_def)
  moreover have "map_of (refGroups es) (groupKey e) = None"
    using map_of_keyed_None [OF new] by (simp add: refGroups_def)
  ultimately show ?thesis
    using False by (simp add: refGroups_def firstBy_snoc update_keyed_new [OF new])
qed

lemma groupLoop_refGroups: "list_all countable es \<Longrightarrow> groupLoop [] es = Inr (refGroups es)"
proof (induction es rule: rev_induct)
  case (snoc e es)
  then show ?case
    by (simp add: groupLoop_append countable_eventTotals refGroups_snoc Let_def)
qed (simp add: refGroups_def)

lemma groupRollups_reference:
  assumes "list_all countable es" "list_all plainIds es"
  shows "groupRollups es = Inr (refRollups es)"
proof -
  have same: "(groupKey x = groupKey y) = (hourKey x = hourKey y)" if "x \<in> set es" "y \<in> set es" for x y
    using that assms(2) by (simp add: list_all_iff groupKey_hourKey)
  then have "groupOf groupKey es e = groupOf hourKey es e" if "e \<in> set es" for e
    using that by (simp add: groupOf_def cong: filter_cong)
  moreover have "firstBy groupKey es = firstBy hourKey es" using same by (rule firstBy_cong)
  ultimately show ?thesis
    using assms(1) set_firstBy [of hourKey es]
    by (auto simp: groupRollups_def groupLoop_refGroups refGroups_def refRollups_def)
qed

section \<open>Conservation\<close>

text \<open>
  A view of the increments by some projection of their dimensions, together with the same view of
  the events. Whatever the view, the counters of the increments seen under a value add up to the
  counters of the events seen under it.
\<close>

locale rollup_view =
  fixes viewGroup :: "rollup_group \<Rightarrow> 'k"
    and viewEvent :: "usage_event \<Rightarrow> 'k"
  assumes view_totals: "viewGroup (g\<lparr>g_totals := t\<rparr>) = viewGroup g"
    and view_empty: "viewGroup (emptyGroup e) = viewEvent e"
    and view_hour: "hourKey a = hourKey b \<Longrightarrow> viewEvent a = viewEvent b"
begin

lemma view_groupOf: "viewGroup (groupOf f es e) = viewEvent e"
  by (simp add: groupOf_def view_totals view_empty)

lemma sum_of_firsts:
  fixes f :: "usage_event \<Rightarrow> 'm :: comm_monoid_add"
  shows "sum_list (map (\<lambda>e. sum_list (map f (filter (\<lambda>x. hourKey x = hourKey e) es)))
     (filter (\<lambda>e. viewEvent e = k) (firstBy hourKey es)))
   = sum_list (map f (filter (\<lambda>e. viewEvent e = k) es))"
proof (induction es rule: rev_induct)
  case (snoc a es)
  let ?F = "filter (\<lambda>e. viewEvent e = k) (firstBy hourKey es)"
  let ?S = "\<lambda>es xs. sum_list (map (\<lambda>e. sum_list (map f (filter (\<lambda>x. hourKey x = hourKey e) es))) xs)"
  have split: "?S (es @ [a]) xs = ?S es xs + sum_list (map (\<lambda>e. if hourKey a = hourKey e then f a else 0) xs)" for xs
    by (simp flip: sum_list_addf) (intro arg_cong [of _ _ sum_list] map_cong refl, simp)
  have once: "sum_list (map (\<lambda>e. if hourKey a = hourKey e then f a else 0) xs) =
      (if hourKey a \<in> hourKey ` set xs then f a else 0)" if "distinct (map hourKey xs)" for xs
    using that by (induction xs) (auto simp: image_iff)
  have dist: "distinct (map hourKey ?F)"
    using distinct_firstBy [of hourKey es] by (simp add: distinct_map inj_on_def)
  show ?case
  proof (cases "hourKey a \<in> hourKey ` set es")
    case True
    then obtain r where r: "r \<in> set (firstBy hourKey es)" "hourKey r = hourKey a"
      by (metis (no_types, lifting) imageE keys_firstBy)
    have "hourKey a \<in> hourKey ` set ?F \<longleftrightarrow> viewEvent a = k"
    proof
      assume "viewEvent a = k"
      with r view_hour [OF r(2)] show "hourKey a \<in> hourKey ` set ?F" by (auto simp: image_iff)
    qed (auto dest: view_hour)
    moreover have "firstBy hourKey (es @ [a]) = firstBy hourKey es"
      using True by (simp add: firstBy_snoc)
    ultimately show ?thesis
      unfolding split by (simp only: once [OF dist] snoc.IH) simp
  next
    case False
    then have none: "filter (\<lambda>x. hourKey x = hourKey a) es = []"
      by (auto simp: filter_empty_conv image_iff)
    have "hourKey a \<notin> hourKey ` set ?F"
      using False set_firstBy [of hourKey es] by auto
    then have "?S (es @ [a]) ?F = sum_list (map f (filter (\<lambda>e. viewEvent e = k) es))"
      unfolding split by (simp only: once [OF dist] snoc.IH) simp
    then show ?thesis using False by (simp add: firstBy_snoc none)
  qed
qed simp

lemma increments_conserve:
  "sum_list (map (\<lambda>i. g_totals (inc_group i)) (filter (\<lambda>i. viewGroup (inc_group i) = k) (refRollups es)))
   = sumTotals (filter (\<lambda>e. viewEvent e = k) es)"
  by (simp add: refRollups_def filter_map comp_def view_totals view_empty groupOf_def [of hourKey] flip: sum_of_firsts [of totalsOf])

lemma increments_agree:
  "agrees (sum_list (map (\<lambda>i. columnTotals (g_totals (inc_group i))) (filter (\<lambda>i. viewGroup (inc_group i) = k) (refRollups es))))
     (filter (\<lambda>e. viewEvent e = k) es)"
proof -
  let ?F = "filter (\<lambda>e. viewEvent e = k) (firstBy hourKey es)" and ?E = "\<lambda>e. filter (\<lambda>x. hourKey x = hourKey e) es"
  have "agrees (sum_list (map (\<lambda>e. columnTotals (sumTotals (?E e))) ?F)) (concat (map ?E ?F))"
    by (rule agrees_concat) (rule columnTotals_agrees)
  moreover have "sumTotals (concat (map ?E ?F)) = sumTotals (filter (\<lambda>e. viewEvent e = k) es)"
    by (simp add: map_concat sum_list_concat comp_def sum_of_firsts)
  moreover have "inexact (concat (map ?E ?F)) = inexact (filter (\<lambda>e. viewEvent e = k) es)"
    by (simp add: inexact_def map_concat sum_list_concat comp_def sum_of_firsts)
  ultimately show ?thesis
    by (simp add: agrees_def refRollups_def filter_map comp_def view_totals view_empty groupOf_def [of hourKey])
qed

end

interpretation hour_view: rollup_view groupHourKey hourKey
  by unfold_locales (simp_all add: groupHourKey_def hourKey_def emptyGroup_def)

interpretation day_view: rollup_view groupDayKey dayKey
proof
  show "dayKey a = dayKey b" if "hourKey a = hourKey b" for a b using that by (rule hourKey_dayKey)
qed (simp_all add: groupDayKey_def dayKey_def emptyGroup_def)

interpretation whole_view: rollup_view "\<lambda>g. ()" "\<lambda>e. ()"
  by unfold_locales simp_all

section \<open>Properties\<close>

definition sampleEvent :: "string \<Rightarrow> millis \<Rightarrow> jsnumber \<Rightarrow> string \<Rightarrow> usage_event" where
  "sampleEvent i t n cost =
     \<lparr>ev_id = i, occurredAt = t, workspaceId = ''w1'', projectId = ''p1'', teamId = None, userId = ''u1'',
      virtualKeyId = ''vk1'', credentialId = Some ''c1'', poolId = None, ev_provider = OPENAI,
      modelRaw = ''gpt-5'', ev_model = ''gpt-5'', endpoint = ''/v1/chat/completions'', requestId = ''r1'',
      status = OK, httpStatus = 200, streamed = False, inputTokens = n, outputTokens = 1,
      cacheReadTokens = 0, cacheWriteTokens = 0, reasoningTokens = 0, costUsd = cost, unitPrices = None,
      costBasis = ACTUAL, latencyMs = 12, ttftMs = None, tags = None\<rparr>"

lemmas rollup_eval = sampleEvent_def countable_def eventTotals_def toBigInt_def COST_SCALE_def
  parseDecimalScaled_def isInteger_def plainIds_def

lemma sample_ok:
  "list_all countable [sampleEvent ''a'' 5 10 ''0.5'', sampleEvent ''b'' 3600005 20 ''0.25'']"
  "list_all plainIds [sampleEvent ''a'' 5 10 ''0.5'', sampleEvent ''b'' 3600005 20 ''0.25'']"
  by (simp_all add: rollup_eval decimal_eval)

text \<open>
  Aggregation is exact. For events with whole token counts, a well-formed cost and identifiers
  free of the key separator, the loop over a string-keyed map returns exactly one increment for
  each combination of hour, workspace, project, user, provider and model that occurs, in order of
  first appearance, whose counters are the sums over the events of that combination.
\<close>

lemma groupRollups_partition:
  assumes "list_all countable es" "list_all plainIds es"
  shows "groupRollups es = Inr (refRollups es)
    \<and> map (groupHourKey \<circ> inc_group) (refRollups es) = map hourKey (firstBy hourKey es)
    \<and> distinct (map (groupHourKey \<circ> inc_group) (refRollups es))"
proof -
  have "map (groupHourKey \<circ> inc_group) (refRollups es) = map hourKey (firstBy hourKey es)"
    by (simp add: refRollups_def hour_view.view_groupOf)
  then show ?thesis by (simp add: groupRollups_reference [OF assms] distinct_firstBy)
qed

theorem groupRollups_partition_witness:
  "let es = [sampleEvent ''a'' 5 10 ''0.5'', sampleEvent ''b'' 3600005 20 ''0.25''] in
   groupRollups es = Inr (refRollups es)
   \<and> map (groupHourKey \<circ> inc_group) (refRollups es) = map hourKey (firstBy hourKey es)
   \<and> distinct (map (groupHourKey \<circ> inc_group) (refRollups es))"
  unfolding Let_def by (rule groupRollups_partition [OF sample_ok])

text \<open>
  Nothing is lost or counted twice. The increments' request counts add up to the number of
  events, and their printed costs, read back as money, add up to the sum of the events' costs, to
  the last hundred-millionth of a dollar.
\<close>

lemma groupRollups_conserves:
  assumes "list_all countable es" "list_all plainIds es"
  shows "\<exists>incs costs. groupRollups es = Inr incs
    \<and> sum_list (map (requests \<circ> g_totals \<circ> inc_group) incs) = int (length es)
    \<and> map (\<lambda>i. parseDecimalScaled (inc_costUsd i) COST_SCALE) incs = map Inr costs
    \<and> sum_list costs = sum_list (map (\<lambda>e. case parseDecimalScaled (costUsd e) COST_SCALE of Inl x \<Rightarrow> 0 | Inr c \<Rightarrow> c) es)"
proof (intro exI conjI)
  have tot: "sum_list (map (\<lambda>i. g_totals (inc_group i)) (refRollups es)) = sumTotals es"
    using whole_view.increments_conserve [of "()" es] by simp
  show "groupRollups es = Inr (refRollups es)" using assms by (rule groupRollups_reference)
  have "requests (sumTotals es) = int (length es)"
    using assms(1) by (induction es) (simp_all add: requests_totalsOf)
  then show "sum_list (map (requests \<circ> g_totals \<circ> inc_group) (refRollups es)) = int (length es)"
    by (simp add: comp_def flip: tot)
  show "map (\<lambda>i. parseDecimalScaled (inc_costUsd i) COST_SCALE) (refRollups es)
    = map Inr (map (\<lambda>i. cost8 (g_totals (inc_group i))) (refRollups es))"
    by (simp add: refRollups_def rollup_money.read_render)
  have "cost8 (sumTotals es) = sum_list (map (\<lambda>e. case parseDecimalScaled (costUsd e) COST_SCALE of Inl x \<Rightarrow> 0 | Inr c \<Rightarrow> c) es)"
    using assms(1) by (induction es) (simp_all add: cost_totalsOf)
  then show "sum_list (map (\<lambda>i. cost8 (g_totals (inc_group i))) (refRollups es))
    = sum_list (map (\<lambda>e. case parseDecimalScaled (costUsd e) COST_SCALE of Inl x \<Rightarrow> 0 | Inr c \<Rightarrow> c) es)"
    by (simp flip: tot)
qed

theorem groupRollups_conserves_witness:
  "let es = [sampleEvent ''a'' 5 10 ''0.5'', sampleEvent ''b'' 3600005 20 ''0.25''] in
   \<exists>incs costs. groupRollups es = Inr incs
    \<and> sum_list (map (requests \<circ> g_totals \<circ> inc_group) incs) = int (length es)
    \<and> map (\<lambda>i. parseDecimalScaled (inc_costUsd i) COST_SCALE) incs = map Inr costs
    \<and> sum_list costs = sum_list (map (\<lambda>e. case parseDecimalScaled (costUsd e) COST_SCALE of Inl x \<Rightarrow> 0 | Inr c \<Rightarrow> c) es)"
  unfolding Let_def by (rule groupRollups_conserves [OF sample_ok])

end
