(* ===== verification/Json.thy ===== *)
theory Json
  imports Prelude
begin

text \<open>
  JSON values as the sources see them after \<open>JSON.parse\<close>, and the JavaScript operations applied to
  them: property access, truthiness, the nullish operators, \<open>typeof\<close> tests and \<open>String(v)\<close>. The text
  codec itself (\<open>JSON.parse\<close>, \<open>JSON.stringify\<close>) is an argument of the definitions that use it, so
  what is proved holds for any codec.
  \<^item> An object is an association list in insertion order; \<open>o.k\<close> is \<^term>\<open>None\<close> when the value is
    \<open>undefined\<close>. Reading a property of a value that is not an object also gives \<open>undefined\<close>; only
    \<open>null\<close> raises, and the handlers that can meet it test for it.
  \<^item> Numbers are exact rationals.
\<close>

datatype json =
    JNull
  | JBool bool
  | JNum jsnumber
  | JStr string
  | JArr "json list"
  | JObj "(string \<times> json) list"

text \<open>Property access \<open>v.k\<close>.\<close>

fun jget :: "json \<Rightarrow> string \<Rightarrow> json option" where
  "jget (JObj kvs) k = map_of kvs k"
| "jget _ k = None"

text \<open>Optional chaining \<open>v?.k\<close>: also \<open>undefined\<close> on \<open>undefined\<close> and \<open>null\<close>.\<close>

definition jgetOpt :: "json option \<Rightarrow> string \<Rightarrow> json option" where
  "jgetOpt v k = (case v of None \<Rightarrow> None | Some j \<Rightarrow> jget j k)"

text \<open>Assignment \<open>o.k = v\<close> on an object; other values are left alone.\<close>

fun jset :: "json \<Rightarrow> string \<Rightarrow> json \<Rightarrow> json" where
  "jset (JObj kvs) k v = JObj (AList.update k v kvs)"
| "jset j k v = j"

definition nullish :: "json option \<Rightarrow> bool" where
  "nullish v \<longleftrightarrow> v = None \<or> v = Some JNull"

text \<open>\<open>v ?? d\<close>.\<close>

definition coalesce :: "json option \<Rightarrow> json \<Rightarrow> json" where
  "coalesce v d = (if nullish v then d else the v)"

fun truthy :: "json option \<Rightarrow> bool" where
  "truthy None = False"
| "truthy (Some JNull) = False"
| "truthy (Some (JBool b)) = b"
| "truthy (Some (JNum n)) = (n \<noteq> 0)"
| "truthy (Some (JStr s)) = (s \<noteq> [])"
| "truthy (Some (JArr _)) = True"
| "truthy (Some (JObj _)) = True"

text \<open>\<open>typeof v === "object"\<close>, which holds of \<open>null\<close>, arrays and objects.\<close>

fun isObjectType :: "json option \<Rightarrow> bool" where
  "isObjectType (Some JNull) = True"
| "isObjectType (Some (JArr _)) = True"
| "isObjectType (Some (JObj _)) = True"
| "isObjectType _ = False"

fun asString :: "json option \<Rightarrow> string option" where
  "asString (Some (JStr s)) = Some s"
| "asString _ = None"

fun asNumber :: "json option \<Rightarrow> jsnumber option" where
  "asNumber (Some (JNum n)) = Some n"
| "asNumber _ = None"

text \<open>The entries a spread \<open>{ ...v }\<close> copies.\<close>

fun spread :: "json \<Rightarrow> (string \<times> json) list" where
  "spread (JObj kvs) = kvs"
| "spread _ = []"

text \<open>
  \<open>String(n)\<close>: integers in decimal; other values with their decimal expansion, cut after twenty
  places.
\<close>

fun fracDigits :: "nat \<Rightarrow> jsnumber \<Rightarrow> string" where
  "fracDigits 0 q = []"
| "fracDigits (Suc k) q =
     (if q = 0 then []
      else (let d = \<lfloor>10 * q\<rfloor> in digitChar (nat d) # fracDigits k (10 * q - of_int d)))"

definition showNumber :: "jsnumber \<Rightarrow> string" where
  "showNumber q =
     (if isInteger q then showInt \<lfloor>q\<rfloor>
      else (let a = \<bar>q\<bar> in
            (if q < 0 then ''-'' else []) @ showInt \<lfloor>a\<rfloor> @ ''.'' @ fracDigits 20 (a - of_int \<lfloor>a\<rfloor>)))"

fun jsString :: "json \<Rightarrow> string" where
  "jsString JNull = ''null''"
| "jsString (JBool b) = (if b then ''true'' else ''false'')"
| "jsString (JNum n) = showNumber n"
| "jsString (JStr s) = s"
| "jsString (JArr xs) = joinWith '','' (map (\<lambda>x. case x of JNull \<Rightarrow> [] | _ \<Rightarrow> jsString x) xs)"
| "jsString (JObj _) = ''[object Object]''"

section \<open>Facts\<close>

lemma jget_jset [simp]: "jget (jset (JObj kvs) k v) j = (if j = k then Some v else map_of kvs j)"
  by simp

lemma coalesce_simps [simp]:
  "coalesce None d = d" "coalesce (Some JNull) d = d"
  "coalesce (Some (JStr s)) d = JStr s" "coalesce (Some (JNum n)) d = JNum n"
  "coalesce (Some (JObj kvs)) d = JObj kvs" "coalesce (Some (JBool b)) d = JBool b"
  "coalesce (Some (JArr xs)) d = JArr xs"
  by (simp_all add: coalesce_def nullish_def)

lemma asString_Some [simp]: "asString v = Some s \<longleftrightarrow> v = Some (JStr s)"
  by (cases v rule: asString.cases) auto

lemma asNumber_Some [simp]: "asNumber v = Some n \<longleftrightarrow> v = Some (JNum n)"
  by (cases v rule: asNumber.cases) auto

end
