(* ===== verification/Ingest.thy ===== *)
theory Ingest
  imports Rollups Json "HOL-Library.Sublist"
begin

text \<open>
  The worker's ingestion of usage events (\<open>apps/worker/src/ingest\<close>): the transaction that inserts a
  batch and updates the rollup tables (\<open>persist.ts\<close>) and the consumer loop around it
  (\<open>consumer.ts\<close>). The database is a record of tables and a transaction a function that returns the
  new record or an error; Redis is a log with a delivery position and a list of pending entries. It
  is shown that the rollup tables always equal the aggregate of the event table, that a redelivered
  batch changes nothing, and that an acknowledged entry is in the ledger or in the dead-letter stream.
\<close>

section \<open>Tables\<close>

record rollup_row =
  rr_teamId :: "string option"
  rr_totals :: totals

record ledger =
  usageEvents :: "usage_event list"
  hourly :: "(rollup_key, rollup_row) omap"
  daily :: "(rollup_key, rollup_row) omap"
  lastUsedAt :: "(string, millis option) omap"

datatype persist_error = RollupFailed rollup_error | DatabaseRejected

section \<open>The transaction (persist.ts)\<close>

definition eventKey :: "usage_event \<Rightarrow> string \<times> millis" where
  "eventKey e = (ev_id e, occurredAt e)"

text \<open>
  \<open>INSERT ... ON CONFLICT (id, "occurredAt") DO NOTHING RETURNING id\<close>: a row whose key is already in
  the table, or was inserted earlier by the same statement, is skipped. The result is the list of
  rows inserted.
\<close>

fun insertEvents :: "usage_event list \<Rightarrow> usage_event list \<Rightarrow> usage_event list" where
  "insertEvents table [] = []"
| "insertEvents table (e # es) =
     (if eventKey e \<in> eventKey ` set table then insertEvents table es
      else e # insertEvents (e # table) es)"

text \<open>The latest use of each key in a batch; the messages' ISO strings compare like instants.\<close>

fun latestLoop :: "(string, millis) omap \<Rightarrow> usage_event list \<Rightarrow> (string, millis) omap" where
  "latestLoop latest [] = latest"
| "latestLoop latest (e # es) =
     (case map_of latest (virtualKeyId e) of
        None \<Rightarrow> latestLoop (AList.update (virtualKeyId e) (occurredAt e) latest) es
      | Some seen \<Rightarrow>
          (if seen < occurredAt e then latestLoop (AList.update (virtualKeyId e) (occurredAt e) latest) es
           else latestLoop latest es))"

definition touchVirtualKeys :: "(string, millis option) omap \<Rightarrow> usage_event list \<Rightarrow> (string, millis option) omap" where
  "touchVirtualKeys keys es =
     (let latest = latestLoop [] es in
      if latest = [] then keys
      else map (\<lambda>(k, used).
             (k, case map_of latest k of
                   None \<Rightarrow> used
                 | Some ts \<Rightarrow> (case used of
                                 None \<Rightarrow> Some ts
                               | Some u \<Rightarrow> (if u < ts then Some ts else Some u)))) keys)"

text \<open>
  The row that an increment proposes: its counters, with the cost read back from its decimal string and rounded to the
  scale of the column. The update adds the proposed row (\<open>EXCLUDED\<close>) to the one there is.
\<close>

definition incrementTotals :: "rollup_increment \<Rightarrow> totals" where
  "incrementTotals i =
     (case g_totals (inc_group i) of
        Totals r x a b c d s _ l n \<Rightarrow>
          columnTotals (Totals r x a b c d s
            (case parseDecimalScaled (inc_costUsd i) COST_SCALE of Inl _ \<Rightarrow> 0 | Inr m \<Rightarrow> m) l n))"

definition upsertRollup ::
  "(rollup_key, rollup_row) omap \<Rightarrow> rollup_key \<Rightarrow> rollup_increment \<Rightarrow> (rollup_key, rollup_row) omap" where
  "upsertRollup table k i =
     (case map_of table k of
        None \<Rightarrow> AList.update k \<lparr>rr_teamId = g_teamId (inc_group i), rr_totals = incrementTotals i\<rparr> table
      | Some row \<Rightarrow> AList.update k (row\<lparr>rr_totals := rr_totals row + incrementTotals i\<rparr>) table)"

definition applyIncrement :: "ledger \<Rightarrow> rollup_increment \<Rightarrow> ledger" where
  "applyIncrement l i =
     l\<lparr>hourly := upsertRollup (hourly l) (groupHourKey (inc_group i)) i,
       daily := upsertRollup (daily l) (groupDayKey (inc_group i)) i\<rparr>"

text \<open>
  \<open>persistBatch\<close>. The argument \<open>commitOk\<close> says which database contents the schema's constraints
  (column ranges, foreign keys) admit; a statement that violates them aborts the transaction, so
  nothing of it is kept. The number returned is the size of the set of inserted ids.
\<close>

definition persistBatch ::
  "(ledger \<Rightarrow> bool) \<Rightarrow> ledger \<Rightarrow> usage_event list \<Rightarrow> persist_error + ledger \<times> nat" where
  "persistBatch commitOk l events =
     (if events = [] then Inr (l, 0)
      else (let inserted = insertEvents (usageEvents l) events;
                ids = remdups (map ev_id inserted) in
            if ids = [] then Inr (l, 0)
            else (let fresh = filter (\<lambda>e. ev_id e \<in> set ids) events;
                      l1 = l\<lparr>usageEvents := usageEvents l @ inserted,
                             lastUsedAt := touchVirtualKeys (lastUsedAt l) fresh\<rparr> in
                  case groupRollups fresh of
                    Inl x \<Rightarrow> Inl (RollupFailed x)
                  | Inr incs \<Rightarrow>
                      (let l2 = foldl applyIncrement l1 incs in
                       if commitOk l2 then Inr (l2, length ids) else Inl DatabaseRejected))))"

section \<open>The stream and the consumer loop (consumer.ts)\<close>

type_synonym stream_entry = "string \<times> string list"

text \<open>
  The usage stream with its consumer group: the entries in order, how many the group has delivered,
  the delivered entries not yet acknowledged; the dead-letter stream; the database.
\<close>

record worker_state =
  stream :: "stream_entry list"
  delivered :: nat
  pending :: "stream_entry list"
  groupExists :: bool
  dlq :: "(string \<times> string) list"
  db :: ledger

definition fieldAfter :: "string \<Rightarrow> string list \<Rightarrow> string option" where
  "fieldAfter name flds =
     (case dropWhile (\<lambda>x. x \<noteq> name) flds of
        _ # v # _ \<Rightarrow> Some v
      | _ \<Rightarrow> None)"

definition validMessage :: "json \<Rightarrow> bool" where
  "validMessage j \<longleftrightarrow> truthy (jget j ''id'') \<and> truthy (jget j ''workspaceId'') \<and> truthy (jget j ''occurredAt'')"

text \<open>
  \<open>decodeBatch\<close>: the messages, the ids to acknowledge and the invalid entries. \<open>parse\<close> stands for
  \<open>JSON.parse\<close>; reading a property of \<open>null\<close> raises, which the handler's \<open>catch\<close> turns into an
  invalid entry, as a missing field is. The body of the loop gives the message or the invalid payload.
\<close>

definition decodeEntry :: "(string \<Rightarrow> json option) \<Rightarrow> string list \<Rightarrow> string + json" where
  "decodeEntry parse flds =
     (case fieldAfter ''payload'' flds of
        None \<Rightarrow> Inl []
      | Some payload \<Rightarrow>
          (if payload = [] then Inl []
           else (case parse payload of
                   None \<Rightarrow> Inl payload
                 | Some j \<Rightarrow> (if validMessage j then Inr j else Inl payload))))"

fun decodeBatch ::
  "(string \<Rightarrow> json option) \<Rightarrow> stream_entry list \<Rightarrow> json list \<times> string list \<times> (string \<times> string) list" where
  "decodeBatch parse [] = ([], [], [])"
| "decodeBatch parse ((i, flds) # rest) =
     (let (events, ackIds, invalid) = decodeBatch parse rest in
      case decodeEntry parse flds of
        Inl payload \<Rightarrow> (events, i # ackIds, (i, payload) # invalid)
      | Inr j \<Rightarrow> (j # events, i # ackIds, invalid))"

text \<open>
  What may go wrong in one iteration: reading fails because the group is missing or for another
  reason, adding the \<open>k\<close>-th invalid entry to the dead-letter stream fails, acknowledging fails.
\<close>

datatype fault = NoFault | ReadFails | DlqFails nat | AckFails

text \<open>
  One iteration of the loop. \<open>rowOf\<close> is the row the database makes of a message, \<^term>\<open>None\<close> when a
  cast or a constraint of the insert rejects it. An error leaves the effects that came before it and
  acknowledges nothing; a missing group is recreated at the start of the stream, which delivers
  every entry again.
\<close>

definition persistMessages ::
  "(json \<Rightarrow> usage_event option) \<Rightarrow> (ledger \<Rightarrow> bool) \<Rightarrow> ledger \<Rightarrow> json list \<Rightarrow> persist_error + ledger" where
  "persistMessages rowOf commitOk l events =
     (if events = [] then Inr l
      else if list_ex (\<lambda>j. rowOf j = None) events then Inl DatabaseRejected
      else map_sum id fst (persistBatch commitOk l (map (\<lambda>j. the (rowOf j)) events)))"

definition deliverBatch ::
  "(string \<Rightarrow> json option) \<Rightarrow> (json \<Rightarrow> usage_event option) \<Rightarrow> (ledger \<Rightarrow> bool) \<Rightarrow> fault \<Rightarrow>
   stream_entry list \<Rightarrow> worker_state \<Rightarrow> worker_state" where
  "deliverBatch parse rowOf commitOk f entries s =
     (let (events, ackIds, invalid) = decodeBatch parse entries;
          letters = map (\<lambda>(i, p). (p, i)) invalid;
          sent = (case f of DlqFails k \<Rightarrow> take k letters | _ \<Rightarrow> letters);
          s1 = s\<lparr>dlq := dlq s @ sent\<rparr>
      in if length sent < length letters then s1
         else (case persistMessages rowOf commitOk (db s1) events of
                 Inl _ \<Rightarrow> s1
               | Inr l \<Rightarrow>
                   (let s2 = s1\<lparr>db := l\<rparr> in
                    if f = AckFails then s2
                    else s2\<lparr>pending := filter (\<lambda>(i, _). i \<notin> set ackIds) (pending s2)\<rparr>)))"

definition ingestStep ::
  "(string \<Rightarrow> json option) \<Rightarrow> (json \<Rightarrow> usage_event option) \<Rightarrow> (ledger \<Rightarrow> bool) \<Rightarrow> nat \<Rightarrow> fault \<Rightarrow>
   worker_state \<Rightarrow> worker_state" where
  "ingestStep parse rowOf commitOk batchSize f s =
     (if f = ReadFails then s
      else if \<not> groupExists s then s\<lparr>groupExists := True, delivered := 0, pending := []\<rparr>
      else
        (let entries = take batchSize (drop (delivered s) (stream s)) in
         if entries = [] then s
         else deliverBatch parse rowOf commitOk f entries
                (s\<lparr>delivered := delivered s + length entries, pending := pending s @ entries\<rparr>)))"

text \<open>
  The worker's history: from the empty state, the gateway appends entries with new ids, the group may
  vanish, with or without the stream (a Redis restart without persistence, a manual flush), and the
  loop iterates with any fault.
\<close>

definition emptyLedger :: ledger where
  "emptyLedger = \<lparr>usageEvents = [], hourly = [], daily = [], lastUsedAt = []\<rparr>"

inductive worker_reach ::
  "(string \<Rightarrow> json option) \<Rightarrow> (json \<Rightarrow> usage_event option) \<Rightarrow> (ledger \<Rightarrow> bool) \<Rightarrow> nat \<Rightarrow> worker_state \<Rightarrow> bool"
  for parse rowOf commitOk batchSize where
  start: "worker_reach parse rowOf commitOk batchSize
     \<lparr>stream = [], delivered = 0, pending = [], groupExists = True, dlq = [], db = emptyLedger\<rparr>"
| publish: "worker_reach parse rowOf commitOk batchSize s \<Longrightarrow> i \<notin> fst ` set (stream s) \<Longrightarrow>
     worker_reach parse rowOf commitOk batchSize (s\<lparr>stream := stream s @ [(i, flds)]\<rparr>)"
| lose_group: "worker_reach parse rowOf commitOk batchSize s \<Longrightarrow>
     worker_reach parse rowOf commitOk batchSize
       (s\<lparr>groupExists := False, delivered := 0, pending := [], stream := (if keep then stream s else [])\<rparr>)"
| iterate: "worker_reach parse rowOf commitOk batchSize s \<Longrightarrow>
     worker_reach parse rowOf commitOk batchSize (ingestStep parse rowOf commitOk batchSize f s)"

section \<open>What the tables should contain\<close>

definition rowTotals :: "(rollup_key, rollup_row) omap \<Rightarrow> rollup_key \<Rightarrow> totals" where
  "rowTotals table k = (case map_of table k of None \<Rightarrow> 0 | Some r \<Rightarrow> rr_totals r)"

text \<open>
  Each rollup row agrees with the events of a list that fall under it: exactly, but for the rounding of the cost. The
  tables are consistent when that list is the event table, which has no two rows of one key.
\<close>

definition rollupsCount :: "usage_event list \<Rightarrow> ledger \<Rightarrow> bool" where
  "rollupsCount es l \<longleftrightarrow>
     (\<forall>k. agrees (rowTotals (hourly l) k) (filter (\<lambda>e. hourKey e = k) es))
     \<and> (\<forall>k. agrees (rowTotals (daily l) k) (filter (\<lambda>e. dayKey e = k) es))"

definition consistent :: "ledger \<Rightarrow> bool" where
  "consistent l \<longleftrightarrow> distinct (map eventKey (usageEvents l)) \<and> rollupsCount (usageEvents l) l"

text \<open>The messages of a batch that bear the id of a row it inserted; the rollups are computed from them.\<close>

definition freshEvents :: "ledger \<Rightarrow> usage_event list \<Rightarrow> usage_event list" where
  "freshEvents l es = filter (\<lambda>e. ev_id e \<in> ev_id ` set (insertEvents (usageEvents l) es)) es"

text \<open>An entry has been dealt with: its event is in the ledger, or its payload in the dead-letter stream.\<close>

definition settled :: "(string \<Rightarrow> json option) \<Rightarrow> (json \<Rightarrow> usage_event option) \<Rightarrow> worker_state \<Rightarrow> stream_entry \<Rightarrow> bool" where
  "settled parse rowOf s entry =
     (case decodeEntry parse (snd entry) of
        Inl payload \<Rightarrow> (payload, fst entry) \<in> set (dlq s)
      | Inr j \<Rightarrow> (\<exists>e. rowOf j = Some e \<and> eventKey e \<in> eventKey ` set (usageEvents (db s))))"

section \<open>Lemmas: the insert\<close>

lemma insertEvents_keys:
  "eventKey ` set (insertEvents t es) \<union> eventKey ` set t = eventKey ` set es \<union> eventKey ` set t"
  by (induction t es rule: insertEvents.induct) auto

lemma insertEvents_subset: "set (insertEvents t es) \<subseteq> set es"
  by (induction t es rule: insertEvents.induct) auto

lemma insertEvents_distinct:
  "distinct (map eventKey (insertEvents t es)) \<and> eventKey ` set (insertEvents t es) \<inter> eventKey ` set t = {}"
  by (induction t es rule: insertEvents.induct) auto

lemma insertEvents_filter:
  "distinct (map ev_id es) \<Longrightarrow> insertEvents t es = filter (\<lambda>e. eventKey e \<notin> eventKey ` set t) es"
proof (induction t es rule: insertEvents.induct)
  case (2 t e es)
  have "filter (\<lambda>x. eventKey x \<notin> eventKey ` set (e # t)) es = filter (\<lambda>x. eventKey x \<notin> eventKey ` set t) es"
    using "2.prems" by (intro filter_cong) (auto simp: eventKey_def, metis image_eqI)
  with 2 show ?case by simp
qed simp

lemma insertEvents_all_known: "eventKey ` set es \<subseteq> eventKey ` set t \<Longrightarrow> insertEvents t es = []"
  by (induction t es rule: insertEvents.induct) auto

text \<open>With distinct ids, selecting by inserted id gives back exactly the inserted rows.\<close>

lemma freshEvents_eq:
  assumes "distinct (map ev_id es)"
  shows "freshEvents l es = insertEvents (usageEvents l) es"
  unfolding freshEvents_def insertEvents_filter [OF assms]
proof (intro filter_cong refl)
  fix e assume e: "e \<in> set es"
  show "ev_id e \<in> ev_id ` set (filter (\<lambda>e. eventKey e \<notin> eventKey ` set (usageEvents l)) es)
      \<longleftrightarrow> eventKey e \<notin> eventKey ` set (usageEvents l)"
    using e assms by (auto simp: distinct_map inj_on_def)
qed

lemma insertEvents_subseq: "subseq (insertEvents t es) es"
  by (induction t es rule: insertEvents.induct) auto

lemma freshEvents_subseq: "subseq (insertEvents (usageEvents l) es) (freshEvents l es)"
proof -
  have "filter (\<lambda>e. ev_id e \<in> ev_id ` set (insertEvents (usageEvents l) es)) (insertEvents (usageEvents l) es)
      = insertEvents (usageEvents l) es"
    by (simp add: filter_id_conv)
  then show ?thesis unfolding freshEvents_def by (metis insertEvents_subseq subseq_filter)
qed

section \<open>Lemmas: the upserts\<close>

lemma incrementTotals_ref: "i \<in> set (refRollups es) \<Longrightarrow> incrementTotals i = columnTotals (g_totals (inc_group i))"
  by (auto simp: refRollups_def incrementTotals_def rollup_money.read_render split: totals.split)

lemma rowTotals_upsert: "rowTotals (upsertRollup t k i) j = rowTotals t j + (if j = k then incrementTotals i else 0)"
  by (simp add: upsertRollup_def rowTotals_def split: option.split)

lemma rowTotals_Nil [simp]: "rowTotals [] k = 0"
  by (simp add: rowTotals_def)

lemma hourly_applied:
  "rowTotals (hourly (foldl applyIncrement l incs)) k = rowTotals (hourly l) k
     + sum_list (map incrementTotals (filter (\<lambda>i. groupHourKey (inc_group i) = k) incs))"
  by (induction incs arbitrary: l) (auto simp: applyIncrement_def rowTotals_upsert add.assoc)

lemma daily_applied:
  "rowTotals (daily (foldl applyIncrement l incs)) k = rowTotals (daily l) k
     + sum_list (map incrementTotals (filter (\<lambda>i. groupDayKey (inc_group i) = k) incs))"
  by (induction incs arbitrary: l) (auto simp: applyIncrement_def rowTotals_upsert add.assoc)

lemma usageEvents_applied [simp]: "usageEvents (foldl applyIncrement l incs) = usageEvents l"
  by (induction incs arbitrary: l) (simp_all add: applyIncrement_def)

lemma sum_incrementTotals_ref:
  "sum_list (map incrementTotals (filter P (refRollups es)))
   = sum_list (map (\<lambda>i. columnTotals (g_totals (inc_group i))) (filter P (refRollups es)))"
  by (intro arg_cong [of _ _ sum_list] map_cong refl) (auto intro: incrementTotals_ref)

text \<open>Applying the increments of further events keeps the rollup tables in step.\<close>

lemma rollupsCount_extend:
  assumes "rollupsCount es l" "hourly l' = hourly l" "daily l' = daily l"
  shows "rollupsCount (es @ new) (foldl applyIncrement l' (refRollups new))"
  using assms
  by (auto simp: rollupsCount_def hourly_applied daily_applied sum_incrementTotals_ref
      intro!: agrees_append hour_view.increments_agree day_view.increments_agree)

section \<open>Lemmas: the transaction\<close>

definition newRows :: "ledger \<Rightarrow> usage_event list \<Rightarrow> usage_event list" where
  "newRows l es = filter (\<lambda>e. eventKey e \<notin> eventKey ` set (usageEvents l)) es"

lemma groupRollups_fails: "groupRollups es = Inl x \<Longrightarrow> \<not> list_all countable es"
  using groupLoop_refGroups [of es] by (auto simp: groupRollups_def)

lemma groupRollups_countable: "groupRollups es = Inr incs \<Longrightarrow> list_all countable es"
  using groupLoop_fails [of "[]" es] by (auto simp: groupRollups_def list_all_iff list_ex_iff split: sum.splits)

text \<open>
  The transaction, for any batch: it fails when one of the fresh events cannot be counted or the database rejects the
  result, and otherwise stores what the insert returned and counts the fresh events.
\<close>

lemma persistBatch_Inl:
  assumes "persistBatch commitOk l es = Inl x"
  shows "x = DatabaseRejected \<and> (\<exists>l2. \<not> commitOk l2) \<or> \<not> list_all countable (freshEvents l es)"
proof (cases "groupRollups (freshEvents l es)")
  case (Inl y)
  then show ?thesis using groupRollups_fails by blast
next
  case (Inr incs)
  with assms show ?thesis
    by (auto simp: persistBatch_def freshEvents_def Let_def split: if_splits)
qed

lemma persistBatch_Inr:
  assumes "persistBatch commitOk l es = Inr (l', n)"
  shows "usageEvents l' = usageEvents l @ insertEvents (usageEvents l) es"
    and "n = length (remdups (map ev_id (insertEvents (usageEvents l) es)))"
    and "list_all countable (freshEvents l es)"
    and "list_all plainIds es \<Longrightarrow> rollupsCount c l \<Longrightarrow> rollupsCount (c @ freshEvents l es) l'"
proof -
  let ?ins = "insertEvents (usageEvents l) es" and ?f = "freshEvents l es"
  have none: "?f = []" if "?ins = []" using that by (simp add: freshEvents_def)
  have "usageEvents l' = usageEvents l @ ?ins \<and> n = length (remdups (map ev_id ?ins)) \<and> list_all countable ?f
    \<and> (list_all plainIds es \<longrightarrow> rollupsCount c l \<longrightarrow> rollupsCount (c @ ?f) l')"
  proof (cases "?ins = []")
    case True
    with assms none show ?thesis by (auto simp: persistBatch_def split: if_splits)
  next
    case False
    define l1 where "l1 = l\<lparr>usageEvents := usageEvents l @ ?ins, lastUsedAt := touchVirtualKeys (lastUsedAt l) ?f\<rparr>"
    from False assms obtain incs where incs: "groupRollups ?f = Inr incs"
      by (cases "groupRollups ?f") (auto simp: persistBatch_def freshEvents_def Let_def split: if_splits)
    with False assms have l': "l' = foldl applyIncrement l1 incs" "n = length (remdups (map ev_id ?ins))"
      by (auto simp: persistBatch_def freshEvents_def l1_def Let_def split: if_splits)
    note ok = groupRollups_countable [OF incs]
    have "incs = refRollups ?f" if "list_all plainIds es"
      using groupRollups_reference [OF ok] incs that by (auto simp: freshEvents_def list_all_iff)
    then show ?thesis
      using l' ok rollupsCount_extend [of c l l1 ?f] by (auto simp: l1_def)
  qed
  then show "usageEvents l' = usageEvents l @ ?ins" "n = length (remdups (map ev_id ?ins))" "list_all countable ?f"
    "list_all plainIds es \<Longrightarrow> rollupsCount c l \<Longrightarrow> rollupsCount (c @ ?f) l'" by simp_all
qed

lemma persistBatch_keys_distinct:
  "persistBatch commitOk l es = Inr (l', n) \<Longrightarrow> distinct (map eventKey (usageEvents l)) \<Longrightarrow> distinct (map eventKey (usageEvents l'))"
  using insertEvents_distinct [of "usageEvents l" es] by (auto simp: persistBatch_Inr(1))

text \<open>With distinct ids, the rows stored, the rows counted and the rows not there before are the same.\<close>

lemma newRows_eq: "distinct (map ev_id es) \<Longrightarrow> insertEvents (usageEvents l) es = newRows l es"
  by (simp add: newRows_def insertEvents_filter)

lemma persistBatch_correct:
  assumes "consistent l" "distinct (map ev_id es)" "list_all plainIds es"
  shows "case persistBatch commitOk l es of
      Inl x \<Rightarrow> x = DatabaseRejected \<and> (\<exists>l2. \<not> commitOk l2) \<or> \<not> list_all countable (newRows l es)
    | Inr (l', n) \<Rightarrow> consistent l' \<and> usageEvents l' = usageEvents l @ newRows l es \<and> n = length (newRows l es)
        \<and> list_all countable (newRows l es)"
proof (cases "persistBatch commitOk l es")
  case (Inl x)
  with persistBatch_Inl [OF Inl] show ?thesis by (simp add: freshEvents_eq assms(2) newRows_eq)
next
  case (Inr r)
  obtain l' n where r: "r = (l', n)" by (cases r)
  note done_ = Inr [unfolded r]
  have "distinct (map ev_id (newRows l es))" using assms(2) by (simp add: newRows_def distinct_map inj_on_def)
  then have "n = length (newRows l es)"
    using persistBatch_Inr(2) [OF done_] by (simp only: newRows_eq [OF assms(2)] distinct_remdups_id length_map)
  then show ?thesis
    using persistBatch_Inr(1,3) [OF done_] persistBatch_Inr(4) [OF done_ assms(3), of "usageEvents l"]
      persistBatch_keys_distinct [OF done_] assms(1)
    by (simp add: Inr r consistent_def freshEvents_eq [OF assms(2)] newRows_eq [OF assms(2)])
qed

lemma persistBatch_keys:
  assumes "persistBatch commitOk l es = Inr (l', n)"
  shows "eventKey ` set (usageEvents l') = eventKey ` set (usageEvents l) \<union> eventKey ` set es"
proof -
  have "usageEvents l' = usageEvents l @ insertEvents (usageEvents l) es" using assms by (rule persistBatch_Inr)
  then show ?thesis using insertEvents_keys [of "usageEvents l" es] by (simp add: image_Un Un_commute)
qed

lemma persistBatch_all_known:
  "eventKey ` set es \<subseteq> eventKey ` set (usageEvents l) \<Longrightarrow> persistBatch commitOk l es = Inr (l, 0)"
  by (simp add: persistBatch_def insertEvents_all_known)

lemma persistMessages_keys:
  assumes "persistMessages rowOf commitOk l js = Inr l'"
  shows "eventKey ` set (usageEvents l') =
    eventKey ` set (usageEvents l) \<union> eventKey ` (\<lambda>j. the (rowOf j)) ` set js \<and> list_all (\<lambda>j. rowOf j \<noteq> None) js"
proof (cases "js = []")
  case False
  with assms obtain n where "persistBatch commitOk l (map (\<lambda>j. the (rowOf j)) js) = Inr (l', n)"
    and ok: "list_all (\<lambda>j. rowOf j \<noteq> None) js"
    by (cases "persistBatch commitOk l (map (\<lambda>j. the (rowOf j)) js)")
      (auto simp: persistMessages_def list_ex_iff list_all_iff split: if_splits)
  from persistBatch_keys [OF this(1)] ok show ?thesis by simp
qed (use assms in \<open>simp add: persistMessages_def\<close>)

section \<open>Lemmas: the loop\<close>

lemma decodeBatch_spec:
  assumes "decodeBatch parse es = (events, ackIds, invalid)"
  shows "ackIds = map fst es"
    and "set events = {j. \<exists>e\<in>set es. decodeEntry parse (snd e) = Inr j}"
    and "set invalid = {(i, p). \<exists>e\<in>set es. fst e = i \<and> decodeEntry parse (snd e) = Inl p}"
  using assms
proof (induction parse es arbitrary: events ackIds invalid rule: decodeBatch.induct)
  case (2 parse i flds rest)
  obtain ev ak iv where d: "decodeBatch parse rest = (ev, ak, iv)" by (metis prod_cases3)
  { case 1
    with "2.IH"(1) [OF d] d show ?case by (auto split: sum.splits)
  next
    case 2
    with "2.IH"(2) [OF d] d show ?case by (auto split: sum.splits)
  next
    case 3
    with "2.IH"(3) [OF d] d show ?case by (auto split: sum.splits; force) }
qed auto

text \<open>The dead-letter stream and the event table only grow, so an entry dealt with stays so.\<close>

definition grows :: "worker_state \<Rightarrow> worker_state \<Rightarrow> bool" where
  "grows s s' \<longleftrightarrow> set (dlq s) \<subseteq> set (dlq s')
     \<and> eventKey ` set (usageEvents (db s)) \<subseteq> eventKey ` set (usageEvents (db s'))"

lemma settled_mono: "settled parse rowOf s e \<Longrightarrow> grows s s' \<Longrightarrow> settled parse rowOf s' e"
  by (auto simp: settled_def grows_def split: sum.splits)

lemma deliverBatch_frame:
  "stream (deliverBatch parse rowOf commitOk f es s) = stream s"
  "delivered (deliverBatch parse rowOf commitOk f es s) = delivered s"
  "groupExists (deliverBatch parse rowOf commitOk f es s) = groupExists s"
  by (simp_all add: deliverBatch_def Let_def split: prod.split sum.split fault.split)

lemma deliverBatch_grows: "grows s (deliverBatch parse rowOf commitOk f es s)"
  by (auto simp: deliverBatch_def grows_def Let_def image_iff dest!: persistMessages_keys
      split: prod.split sum.split)

text \<open>A batch either keeps its entries pending or settles them all and acknowledges exactly them.\<close>

lemma deliverBatch_pending:
  "pending (deliverBatch parse rowOf commitOk f es s) = pending s
   \<or> pending (deliverBatch parse rowOf commitOk f es s) = filter (\<lambda>(i, _). i \<notin> fst ` set es) (pending s)
     \<and> (\<forall>e\<in>set es. settled parse rowOf (deliverBatch parse rowOf commitOk f es s) e)"
proof -
  obtain events ackIds invalid where d: "decodeBatch parse es = (events, ackIds, invalid)" by (metis prod_cases3)
  note spec = decodeBatch_spec [OF d]
  let ?letters = "map (\<lambda>(i, p). (p, i)) invalid"
  let ?sent = "case f of DlqFails k \<Rightarrow> take k ?letters | _ \<Rightarrow> ?letters"
  show ?thesis
  proof (cases "length ?sent < length ?letters")
    case True
    then show ?thesis by (simp add: deliverBatch_def d Let_def)
  next
    case False
    then have sent: "?sent = ?letters" by (auto split: fault.splits)
    show ?thesis
    proof (cases "persistMessages rowOf commitOk (db s) events")
      case (Inl x)
      then show ?thesis by (simp add: deliverBatch_def d Let_def sent)
    next
      case (Inr l)
      note keys = persistMessages_keys [OF Inr]
      let ?s = "deliverBatch parse rowOf commitOk f es s"
      have db: "db ?s = l" and dlq: "dlq ?s = dlq s @ ?letters"
        by (simp_all add: deliverBatch_def d Let_def sent Inr)
      have "settled parse rowOf ?s e" if e: "e \<in> set es" for e
      proof (cases "decodeEntry parse (snd e)")
        case (Inl p)
        with e spec(3) have "(fst e, p) \<in> set invalid" by blast
        with Inl show ?thesis by (force simp: settled_def dlq)
      next
        case (Inr j)
        with e spec(2) have "j \<in> set events" by blast
        with keys obtain x where "rowOf j = Some x" by (auto simp: list_all_iff)
        moreover from \<open>j \<in> set events\<close> have "eventKey (the (rowOf j)) \<in> eventKey ` set (usageEvents l)"
          using keys by blast
        ultimately show ?thesis using Inr by (simp add: settled_def db)
      qed
      then show ?thesis
        by (simp add: deliverBatch_def d Let_def sent Inr spec(1))
    qed
  qed
qed


definition workerInv :: "(string \<Rightarrow> json option) \<Rightarrow> (json \<Rightarrow> usage_event option) \<Rightarrow> worker_state \<Rightarrow> bool" where
  "workerInv parse rowOf s \<longleftrightarrow>
     distinct (map fst (stream s))
     \<and> set (pending s) \<subseteq> set (take (delivered s) (stream s))
     \<and> (\<forall>e\<in>set (take (delivered s) (stream s)). e \<in> set (pending s) \<or> settled parse rowOf s e)"

lemma next_batch: "take (d + length (take n (drop d xs))) xs = take d xs @ take n (drop d xs)"
proof (cases "d + n \<le> length xs")
  case True
  then show ?thesis by (simp add: min_def take_add)
next
  case False
  then have "length xs \<le> d + length (take n (drop d xs))" by (simp add: min_def)
  with False show ?thesis by (simp flip: take_add)
qed

lemma distinct_fst_take: "distinct (map fst xs) \<Longrightarrow> distinct (map fst (take n xs))"
  by (metis distinct_take take_map)

lemma distinct_fst_eq: "distinct (map fst xs) \<Longrightarrow> a \<in> set xs \<Longrightarrow> b \<in> set xs \<Longrightarrow> fst a = fst b \<Longrightarrow> a = b"
  by (auto simp: distinct_map inj_on_def)

lemma workerInv_step:
  assumes inv: "workerInv parse rowOf s" and "groupExists s" and "f \<noteq> ReadFails"
    and es: "es = take batchSize (drop (delivered s) (stream s))" and "es \<noteq> []"
  shows "workerInv parse rowOf (ingestStep parse rowOf commitOk batchSize f s)"
proof -
  define s0 where "s0 = s\<lparr>delivered := delivered s + length es, pending := pending s @ es\<rparr>"
  define s' where "s' = deliverBatch parse rowOf commitOk f es s0"
  have eq: "ingestStep parse rowOf commitOk batchSize f s = s'"
    using assms by (simp add: ingestStep_def s'_def s0_def Let_def)
  have seen: "take (delivered s') (stream s') = take (delivered s) (stream s) @ es"
    using next_batch [of "delivered s" batchSize "stream s"]
    by (simp add: s'_def s0_def deliverBatch_frame flip: es)
  have dist: "distinct (map fst (take (delivered s') (stream s')))" and dist': "distinct (map fst (stream s'))"
    using inv by (simp_all add: workerInv_def s'_def s0_def deliverBatch_frame distinct_fst_take)
  have gr: "grows s s'" using deliverBatch_grows [of s0] by (simp add: s'_def s0_def grows_def)
  have old: "e \<in> set (pending s) \<or> settled parse rowOf s' e" if "e \<in> set (take (delivered s) (stream s))" for e
    using inv that unfolding workerInv_def by (blast intro: settled_mono [OF _ gr])
  have sub: "set (pending s) \<subseteq> set (take (delivered s) (stream s))" using inv by (simp add: workerInv_def)
  consider "pending s' = pending s @ es"
    | "pending s' = filter (\<lambda>(i, _). i \<notin> fst ` set es) (pending s @ es)" "\<forall>e\<in>set es. settled parse rowOf s' e"
    using deliverBatch_pending [of parse rowOf commitOk f es s0] by (auto simp: s'_def s0_def)
  then show ?thesis
  proof cases
    case 1
    with old sub dist' show ?thesis by (auto simp: eq workerInv_def seen)
  next
    case 2
    have acked: "settled parse rowOf s' e" if "e \<in> set (pending s)" "fst e \<in> fst ` set es" for e
    proof -
      from that(2) obtain x where "x \<in> set es" "fst e = fst x" by auto
      with distinct_fst_eq [OF dist, of e x] that sub have "e \<in> set es" by (auto simp: seen)
      with 2 show ?thesis by simp
    qed
    have kept: "e \<in> set (pending s')" if "e \<in> set (pending s)" "fst e \<notin> fst ` set es" for e
      using that unfolding 2(1) by (simp add: case_prod_beta)
    have "e \<in> set (pending s') \<or> settled parse rowOf s' e" if "e \<in> set (take (delivered s) (stream s) @ es)" for e
      using that old [of e] acked [of e] kept [of e] 2(2) by auto
    moreover have "set (pending s') \<subseteq> set (take (delivered s) (stream s) @ es)"
      using sub by (auto simp: 2(1))
    ultimately show ?thesis unfolding eq workerInv_def seen using dist' by blast
  qed
qed

lemma workerInv_ingestStep:
  assumes "workerInv parse rowOf s"
  shows "workerInv parse rowOf (ingestStep parse rowOf commitOk batchSize f s)"
proof (cases "f = ReadFails \<or> \<not> groupExists s \<or> take batchSize (drop (delivered s) (stream s)) = []")
  case True
  with assms show ?thesis by (auto simp: ingestStep_def workerInv_def)
next
  case False
  with assms show ?thesis by (intro workerInv_step [OF _ _ _ refl]) auto
qed

lemma workerInv_publish:
  assumes "workerInv parse rowOf s" "i \<notin> fst ` set (stream s)" "delivered s \<le> length (stream s)"
  shows "workerInv parse rowOf (s\<lparr>stream := stream s @ [(i, flds)]\<rparr>)"
proof -
  have "settled parse rowOf (s\<lparr>stream := stream s @ [(i, flds)]\<rparr>) e = settled parse rowOf s e" for e
    by (simp add: settled_def split: sum.split)
  with assms show ?thesis by (auto simp: workerInv_def)
qed

lemma delivered_bound: "worker_reach parse rowOf commitOk batchSize s \<Longrightarrow> delivered s \<le> length (stream s)"
proof (induction rule: worker_reach.induct)
  case (iterate s f)
  then show ?case by (auto simp: ingestStep_def deliverBatch_frame Let_def min_def)
qed simp_all

lemma worker_reach_inv: "worker_reach parse rowOf commitOk batchSize s \<Longrightarrow> workerInv parse rowOf s"
proof (induction rule: worker_reach.induct)
  case (publish s i flds)
  then show ?case by (intro workerInv_publish) (auto intro: delivered_bound)
next
  case (iterate s f)
  then show ?case by (intro workerInv_ingestStep)
qed (auto simp: workerInv_def)

text \<open>An iteration only reads entries never delivered before, so what is pending stays pending.\<close>

lemma ingestStep_pending:
  assumes "workerInv parse rowOf s" "groupExists s"
  shows "set (pending s) \<subseteq> set (pending (ingestStep parse rowOf commitOk batchSize f s))
    \<and> groupExists (ingestStep parse rowOf commitOk batchSize f s)"
proof -
  define es where "es = take batchSize (drop (delivered s) (stream s))"
  define s0 where "s0 = s\<lparr>delivered := delivered s + length es, pending := pending s @ es\<rparr>"
  have seen: "take (delivered s + length es) (stream s) = take (delivered s) (stream s) @ es"
    unfolding es_def by (rule next_batch)
  have "distinct (map fst (take (delivered s) (stream s) @ es))"
    using assms(1) distinct_fst_take [of "stream s" "delivered s + length es"]
    unfolding seen by (simp add: workerInv_def)
  then have "fst e \<notin> fst ` set es" if "e \<in> set (pending s)" for e
    using that assms(1) by (auto simp: workerInv_def)
  then have "set (pending s) \<subseteq> set (pending (deliverBatch parse rowOf commitOk f es s0))"
    using deliverBatch_pending [of parse rowOf commitOk f es s0] by (force simp: s0_def)
  moreover have "groupExists s0" using assms(2) by (simp add: s0_def)
  ultimately show ?thesis using assms(2)
    by (auto simp: ingestStep_def deliverBatch_frame Let_def simp flip: es_def s0_def)
qed

lemma ingest_run_pending:
  assumes "workerInv parse rowOf s" "groupExists s"
  shows "set (pending s) \<subseteq> set (pending (foldl (\<lambda>s f. ingestStep parse rowOf commitOk batchSize f s) s fs))"
  using assms
proof (induction fs arbitrary: s)
  case (Cons f fs)
  note step = ingestStep_pending [OF Cons.prems, of commitOk batchSize f]
  from Cons.IH [OF workerInv_ingestStep [OF Cons.prems(1)], of commitOk batchSize f] step
  show ?case by (simp add: subset_iff)
qed simp

section \<open>Lemmas: last use of a key\<close>

text \<open>The latest of an optional instant and a list of instants.\<close>

definition latestOf :: "millis option \<Rightarrow> millis list \<Rightarrow> millis option" where
  "latestOf u ts = foldl (\<lambda>u t. Some (case u of None \<Rightarrow> t | Some x \<Rightarrow> max x t)) u ts"

lemma latestOf_Some: "latestOf (Some x) ts = Some (foldl max x ts)"
  by (induction ts arbitrary: x) (simp_all add: latestOf_def)

lemma foldl_max_start: "foldl max (max x y) ts = max x (foldl max (y::millis) ts)"
  by (induction ts arbitrary: y) (simp_all add: max.assoc)

lemma latestOf_merge:
  "latestOf u ts = (case latestOf None ts of None \<Rightarrow> u | Some t \<Rightarrow> Some (case u of None \<Rightarrow> t | Some x \<Rightarrow> max x t))"
proof (cases ts)
  case (Cons t ts')
  then show ?thesis
    using foldl_max_start [of _ t ts']
    by (cases u) (simp_all add: latestOf_def latestOf_Some [unfolded latestOf_def])
qed (simp add: latestOf_def)

lemma latestLoop_latest:
  "map_of (latestLoop m es) k = latestOf (map_of m k) (map occurredAt (filter (\<lambda>e. virtualKeyId e = k) es))"
  by (induction m es rule: latestLoop.induct) (auto simp: latestOf_def max_def split: option.splits)

lemma touchVirtualKeys_latest:
  "touchVirtualKeys keys es =
     map (\<lambda>(k, u). (k, latestOf u (map occurredAt (filter (\<lambda>e. virtualKeyId e = k) es)))) keys"
proof -
  have m: "map_of (latestLoop [] es) k = latestOf None (map occurredAt (filter (\<lambda>e. virtualKeyId e = k) es))" for k
    by (simp add: latestLoop_latest)
  show ?thesis
  proof (cases "latestLoop [] es = []")
    case True
    then have none: "latestOf None (map occurredAt (filter (\<lambda>e. virtualKeyId e = k) es)) = None" for k
      using m [of k] by simp
    have "latestOf u (map occurredAt (filter (\<lambda>e. virtualKeyId e = k) es)) = u" for u k
      by (subst latestOf_merge) (simp add: none)
    then show ?thesis using True by (simp add: touchVirtualKeys_def)
  next
    case False
    have "(case map_of (latestLoop [] es) k of None \<Rightarrow> u
       | Some ts \<Rightarrow> (case u of None \<Rightarrow> Some ts | Some x \<Rightarrow> if x < ts then Some ts else Some x))
      = latestOf u (map occurredAt (filter (\<lambda>e. virtualKeyId e = k) es))" for k u
      unfolding m by (subst (2) latestOf_merge) (simp add: max_def split: option.split)
    with False show ?thesis by (simp add: touchVirtualKeys_def Let_def)
  qed
qed


section \<open>Properties\<close>

text \<open>A history of batches; a batch whose transaction fails leaves the ledger as it was.\<close>

definition persistAll :: "(ledger \<Rightarrow> bool) \<Rightarrow> ledger \<Rightarrow> usage_event list list \<Rightarrow> ledger" where
  "persistAll commitOk l batches =
     foldl (\<lambda>l b. case persistBatch commitOk l b of Inl _ \<Rightarrow> l | Inr (l', _) \<Rightarrow> l') l batches"

text \<open>The events that the rollups count: what each committed batch contributed.\<close>

fun countedEvents :: "(ledger \<Rightarrow> bool) \<Rightarrow> ledger \<Rightarrow> usage_event list list \<Rightarrow> usage_event list" where
  "countedEvents commitOk l [] = []"
| "countedEvents commitOk l (b # bs) =
     (case persistBatch commitOk l b of
        Inl _ \<Rightarrow> countedEvents commitOk l bs
      | Inr (l', _) \<Rightarrow> freshEvents l b @ countedEvents commitOk l' bs)"

text \<open>A batch that names no event twice and whose identifiers are free of the separator; its costs and counts may be anything.\<close>

definition cleanBatch :: "usage_event list \<Rightarrow> bool" where
  "cleanBatch b \<longleftrightarrow> distinct (map ev_id b) \<and> list_all plainIds b"

lemma persistAll_counts:
  assumes "list_all (list_all plainIds) bs" "rollupsCount c l"
  shows "rollupsCount (c @ countedEvents commitOk l bs) (persistAll commitOk l bs)"
  using assms
proof (induction bs arbitrary: c l)
  case (Cons b bs)
  show ?case
  proof (cases "persistBatch commitOk l b")
    case (Inr r)
    then obtain l' n where r: "persistBatch commitOk l b = Inr (l', n)" by (cases r) auto
    from Cons.IH [of "c @ freshEvents l b" l'] Cons.prems persistBatch_Inr(4) [OF r]
    show ?thesis by (simp add: persistAll_def r)
  qed (use Cons in \<open>simp add: persistAll_def\<close>)
qed (simp add: persistAll_def)

lemma persistAll_keys_distinct:
  "distinct (map eventKey (usageEvents l)) \<Longrightarrow> distinct (map eventKey (usageEvents (persistAll commitOk l bs)))"
proof (induction bs arbitrary: l)
  case (Cons b bs)
  from Cons.IH Cons.prems show ?case
    by (auto simp: persistAll_def persistBatch_keys_distinct split: sum.split)
qed (simp add: persistAll_def)

text \<open>What is stored is counted; and nothing else is, when no batch names an event twice.\<close>

lemma persistAll_stored_counted:
  "\<exists>new. usageEvents (persistAll commitOk l bs) = usageEvents l @ new \<and> subseq new (countedEvents commitOk l bs)
    \<and> (list_all (\<lambda>b. distinct (map ev_id b)) bs \<longrightarrow> new = countedEvents commitOk l bs)"
proof (induction bs arbitrary: l)
  case (Cons b bs)
  show ?case
  proof (cases "persistBatch commitOk l b")
    case (Inr r)
    then obtain l' n where r: "persistBatch commitOk l b = Inr (l', n)" by (cases r) auto
    from Cons.IH [of l'] obtain new where new: "usageEvents (persistAll commitOk l' bs) = usageEvents l' @ new"
      "subseq new (countedEvents commitOk l' bs)"
      "list_all (\<lambda>b. distinct (map ev_id b)) bs \<longrightarrow> new = countedEvents commitOk l' bs" by blast
    let ?new = "insertEvents (usageEvents l) b @ new"
    have "usageEvents (persistAll commitOk l (b # bs)) = usageEvents l @ ?new"
      using new(1) persistBatch_Inr(1) [OF r] by (simp add: persistAll_def r)
    moreover have "subseq ?new (countedEvents commitOk l (b # bs))"
      using new(2) freshEvents_subseq [of l b] by (simp add: r list_emb_append_mono)
    ultimately show ?thesis using new(3) by (intro exI [of _ ?new]) (auto simp: r freshEvents_eq)
  qed (use Cons.IH [of l] in \<open>auto simp: persistAll_def\<close>)
qed (simp add: persistAll_def)

lemma consistent_empty: "consistent emptyLedger"
  by (simp add: consistent_def rollupsCount_def emptyLedger_def rowTotals_def)

lemma persistAll_consistent:
  assumes "list_all cleanBatch bs" "consistent l"
  shows "consistent (persistAll commitOk l bs)"
proof -
  have "list_all (list_all plainIds) bs" "list_all (\<lambda>b. distinct (map ev_id b)) bs"
    using assms(1) by (auto simp: cleanBatch_def list_all_iff)
  with persistAll_counts [of bs "usageEvents l" l commitOk] persistAll_stored_counted [of commitOk l bs]
    persistAll_keys_distinct [of l commitOk bs] assms(2)
  show ?thesis by (auto simp: consistent_def)
qed

text \<open>
  C2. The ledger invariant. Whatever batches are ingested, in whatever order, with redeliveries, with messages that cannot
  be counted and with transactions that fail, no event is stored twice; every row of the hourly and daily rollup tables
  agrees with the counted events that fall under it (all counters are exact sums, and the cost is off by at most half a
  millionth of a dollar for each event whose cost is not a whole number of millionths, because the columns round); every
  stored event is among the counted ones; and the counted events are exactly the stored ones when no single batch
  names the same id twice. The identifiers of workspace, project and user are taken to be free of the separator of the
  grouping key, as the uuids that the columns demand are, and the times not to lie before 1970.
\<close>

theorem ledger_consistent:
  assumes "list_all (list_all plainIds) batches"
  shows "let l = persistAll commitOk emptyLedger batches;
             counted = countedEvents commitOk emptyLedger batches
    in distinct (map eventKey (usageEvents l)) \<and> rollupsCount counted l \<and> subseq (usageEvents l) counted
      \<and> (list_all (\<lambda>b. distinct (map ev_id b)) batches \<longrightarrow> counted = usageEvents l)"
proof -
  have "distinct (map eventKey (usageEvents emptyLedger))" "rollupsCount [] emptyLedger" "usageEvents emptyLedger = []"
    using consistent_empty by (simp_all add: consistent_def emptyLedger_def)
  with persistAll_keys_distinct [of emptyLedger] persistAll_counts [OF assms, of "[]" emptyLedger commitOk]
    persistAll_stored_counted [of commitOk emptyLedger batches]
  show ?thesis unfolding Let_def by auto
qed

lemma sample_clean: "cleanBatch [sampleEvent ''a'' 5 10 ''0.5'', sampleEvent ''b'' 3600005 20 ''0.25'']"
  unfolding cleanBatch_def using sample_ok by (simp add: sampleEvent_def)

theorem ledger_consistent_witness:
  "let b = [sampleEvent ''a'' 5 10 ''0.5'', sampleEvent ''b'' 3600005 20 ''0.25'', sampleEvent ''a'' 5 10 ''0.5''];
       l = persistAll (\<lambda>l. True) emptyLedger [b, b] in
   distinct (map eventKey (usageEvents l)) \<and> rollupsCount (countedEvents (\<lambda>l. True) emptyLedger [b, b]) l"
  using ledger_consistent [of "[b, b]" "\<lambda>l. True" for b] sample_ok by (simp add: Let_def)

text \<open>
  A batch is recorded completely or not at all. On a consistent ledger the transaction either raises, which happens
  only when the database rejects the result or a new event cannot be counted, or appends exactly the events
  whose key was not stored before, reports their number, and leaves the ledger consistent.
\<close>

lemma persistBatch_exactly_once:
  assumes "consistent l" "cleanBatch es"
  shows "case persistBatch commitOk l es of
      Inl x \<Rightarrow> x = DatabaseRejected \<and> (\<exists>l2. \<not> commitOk l2) \<or> \<not> list_all countable (newRows l es)
    | Inr (l', n) \<Rightarrow> consistent l' \<and> usageEvents l' = usageEvents l @ newRows l es \<and> n = length (newRows l es)"
  using persistBatch_correct [of l es commitOk] assms unfolding cleanBatch_def by (auto split: sum.splits)

text \<open>
  Redelivery is harmless. Once a batch has been committed, delivering any selection of its events
  again, in any order and with any repetitions, commits nothing: no row, no counter, no cent.
\<close>

lemma persistBatch_redelivery:
  assumes "persistBatch commitOk l es = Inr (l', n)" "set es' \<subseteq> set es"
  shows "persistBatch commitOk l' es' = Inr (l', 0)"
proof (rule persistBatch_all_known)
  show "eventKey ` set es' \<subseteq> eventKey ` set (usageEvents l')"
    using assms(2) by (auto simp: persistBatch_keys [OF assms(1)])
qed

text \<open>The events and ledgers of the examples, evaluated.\<close>

lemmas persist_eval = persistBatch_def emptyLedger_def eventKey_def sampleEvent_def touchVirtualKeys_def
  groupRollups_def groupKey_def emptyGroup_def Let_def eventTotals_def toBigInt_def isInteger_def

definition oneEvent :: usage_event where
  "oneEvent = sampleEvent ''a'' 5 10 ''0.5''"

lemma oneEvent_ok: "cleanBatch [oneEvent]" "countable oneEvent"
  using sample_ok unfolding oneEvent_def cleanBatch_def by simp_all

lemma oneEvent_persisted: "\<exists>l'. persistBatch (\<lambda>l. True) emptyLedger [oneEvent] = Inr (l', 1)"
  using persistBatch_correct [OF consistent_empty, of "[oneEvent]" "\<lambda>l. True"] oneEvent_ok
  by (auto simp: cleanBatch_def newRows_def emptyLedger_def split: sum.splits)

theorem persistBatch_redelivery_witness:
  "\<exists>l'. persistBatch (\<lambda>l. True) emptyLedger [oneEvent] = Inr (l', 1)
    \<and> persistBatch (\<lambda>l. True) l' [oneEvent, oneEvent] = Inr (l', 0)"
proof -
  obtain l' where l': "persistBatch (\<lambda>l. True) emptyLedger [oneEvent] = Inr (l', 1)"
    using oneEvent_persisted by blast
  have "persistBatch (\<lambda>l. True) l' [oneEvent, oneEvent] = Inr (l', 0)"
    by (rule persistBatch_redelivery [OF l']) simp
  with l' show ?thesis by blast
qed

text \<open>
  The condition on ids is needed. A message that appears twice inside one batch is stored once,
  but both copies pass the filter on inserted ids, so the rollups count it twice: the tables no
  longer agree with the event table.
\<close>

lemma duplicate_in_batch_counted_twice:
  "\<exists>l'. persistBatch (\<lambda>l. True) emptyLedger [oneEvent, oneEvent] = Inr (l', 1)
    \<and> usageEvents l' = [oneEvent]
    \<and> requests (rowTotals (hourly l') (hourKey oneEvent)) = 2
    \<and> \<not> consistent l'"
proof -
  let ?es = "[oneEvent, oneEvent]"
  have ok: "countable oneEvent" "plainIds oneEvent"
    using oneEvent_ok by (simp_all add: cleanBatch_def)
  define l' where "l' = foldl applyIncrement
    (emptyLedger\<lparr>usageEvents := [oneEvent], lastUsedAt := touchVirtualKeys [] ?es\<rparr>) (refRollups ?es)"
  have "persistBatch (\<lambda>l. True) emptyLedger ?es = Inr (l', 1)"
    using groupRollups_reference [of ?es] ok
    by (simp add: persistBatch_def l'_def emptyLedger_def Let_def)
  moreover have ue: "usageEvents l' = [oneEvent]" by (simp add: l'_def)
  moreover have req: "requests (rowTotals (hourly l') (hourKey oneEvent)) = 2"
    using withoutCost_requests [OF conjunct1 [OF iffD1 [OF agrees_def hour_view.increments_agree [of "hourKey oneEvent" ?es]]]]
      requests_totalsOf [OF ok(1)]
    by (simp add: l'_def hourly_applied sum_incrementTotals_ref emptyLedger_def)
  moreover have "\<not> consistent l'"
  proof
    assume "consistent l'"
    then have "agrees (rowTotals (hourly l') (hourKey oneEvent)) (filter (\<lambda>e. hourKey e = hourKey oneEvent) (usageEvents l'))"
      unfolding consistent_def rollupsCount_def by blast
    then have "requests (rowTotals (hourly l') (hourKey oneEvent)) = requests (totalsOf oneEvent)"
      by (intro withoutCost_requests) (simp add: ue agrees_def)
    with req requests_totalsOf [OF ok(1)] show False by simp
  qed
  ultimately show ?thesis by blast
qed

text \<open>
  C6. Acknowledgement is safe. In every reachable state of the worker, whatever faults occurred, a
  delivered entry that is no longer pending has its event in the ledger or its payload in the
  dead-letter stream: nothing is acknowledged and lost.
\<close>

theorem acknowledged_is_settled:
  assumes "worker_reach parse rowOf commitOk batchSize s"
    "entry \<in> set (take (delivered s) (stream s))" "entry \<notin> set (pending s)"
  shows "settled parse rowOf s entry"
  using worker_reach_inv [OF assms(1)] assms(2,3) by (auto simp: workerInv_def)

theorem acknowledged_is_settled_witness:
  "let s = ingestStep (\<lambda>p. None) (\<lambda>j. None) (\<lambda>l. True) 10 NoFault
     \<lparr>stream = [(''1-0'', [''payload'', ''x''])], delivered = 0, pending = [], groupExists = True, dlq = [],
      db = emptyLedger\<rparr> in
   settled (\<lambda>p. None) (\<lambda>j. None) s (''1-0'', [''payload'', ''x''])"
  unfolding Let_def
proof (rule acknowledged_is_settled [where commitOk = "\<lambda>l. True" and batchSize = 10])
  have "worker_reach (\<lambda>p. None) (\<lambda>j. None) (\<lambda>l. True) 10
     (\<lparr>stream = [], delivered = 0, pending = [], groupExists = True, dlq = [], db = emptyLedger\<rparr>
       \<lparr>stream := [] @ [(''1-0'', [''payload'', ''x''])]\<rparr>)"
    using worker_reach.publish [OF worker_reach.start, of "''1-0''"] by simp
  from worker_reach.iterate [OF this, of NoFault]
  show "worker_reach (\<lambda>p. None) (\<lambda>j. None) (\<lambda>l. True) 10
    (ingestStep (\<lambda>p. None) (\<lambda>j. None) (\<lambda>l. True) 10 NoFault
     \<lparr>stream = [(''1-0'', [''payload'', ''x''])], delivered = 0, pending = [], groupExists = True, dlq = [],
      db = emptyLedger\<rparr>)" by simp
qed (simp_all add: ingestStep_def deliverBatch_def decodeEntry_def fieldAfter_def persistMessages_def Let_def)

text \<open>
  A failed batch is not retried. The loop reads only entries never delivered before, so an entry
  left pending by an error (a rejected row, a lost database, a failed acknowledgement) is still
  pending after any number of further iterations: as long as the group lives, no later iteration
  processes or acknowledges it.
\<close>

lemma failed_batch_never_retried:
  assumes "worker_reach parse rowOf commitOk batchSize s" "groupExists s"
  shows "set (pending s) \<subseteq> set (pending (foldl (\<lambda>s f. ingestStep parse rowOf commitOk batchSize f s) s faults))"
  using ingest_run_pending [OF worker_reach_inv [OF assms(1)] assms(2)] .

theorem failed_batch_never_retried_witness:
  "let s0 = \<lparr>stream = [(''1-0'', [''payload'', ''x''])], delivered = 0, pending = [], groupExists = True, dlq = [],
      db = emptyLedger\<rparr>;
       s = ingestStep (\<lambda>p. None) (\<lambda>j. None) (\<lambda>l. True) 10 (DlqFails 0) s0 in
   pending s = [(''1-0'', [''payload'', ''x''])]
   \<and> set (pending s) \<subseteq> set (pending (foldl (\<lambda>s f. ingestStep (\<lambda>p. None) (\<lambda>j. None) (\<lambda>l. True) 10 f s) s [NoFault, NoFault]))"
  unfolding Let_def
proof
  let ?start = "\<lparr>stream = [(''1-0'', [''payload'', ''x''])], delivered = 0, pending = [], groupExists = True, dlq = [],
      db = emptyLedger\<rparr>"
  let ?s = "ingestStep (\<lambda>p. None) (\<lambda>j. None) (\<lambda>l. True) 10 (DlqFails 0) ?start"
  have "worker_reach (\<lambda>p. None) (\<lambda>j. None) (\<lambda>l. True) 10 ?start"
    using worker_reach.publish [OF worker_reach.start, of "''1-0''"] by simp
  then have r: "worker_reach (\<lambda>p. None) (\<lambda>j. None) (\<lambda>l. True) 10 ?s" by (rule worker_reach.iterate)
  show "pending ?s = [(''1-0'', [''payload'', ''x''])]"
    by (simp add: ingestStep_def deliverBatch_def decodeEntry_def fieldAfter_def Let_def)
  show "set (pending ?s) \<subseteq> set (pending (foldl (\<lambda>s f. ingestStep (\<lambda>p. None) (\<lambda>j. None) (\<lambda>l. True) 10 f s) ?s [NoFault, NoFault]))"
    using r by (rule failed_batch_never_retried)
      (simp add: ingestStep_def deliverBatch_def decodeEntry_def fieldAfter_def Let_def)
qed

end
