(* ===== verification/Guards.thy ===== *)
theory Guards
  imports Shared
begin

text \<open>
  The pre-handlers of the HTTP API (\<open>apps/api/src/plugins/guards.ts\<close>): authentication, the workspace
  guard that turns a path parameter into a membership, and the super-admin guard. Tables are lists of
  rows; \<open>findFirst\<close> is the first row that satisfies the condition. The guard's contract, which every
  route behind it relies on, is proved here.
\<close>

section \<open>Rows and requests\<close>

record workspace =
  ws_id :: string
  ws_name :: string
  ws_slug :: string
  ws_deletedAt :: "millis option"

record workspace_member =
  wm_id :: string
  wm_workspaceId :: string
  wm_userId :: string
  wm_role :: workspace_role

record authed_user =
  au_id :: string
  au_email :: string

record workspace_context =
  ctx_workspaceId :: string
  ctx_slug :: string
  ctx_role :: workspace_role

section \<open>Operations\<close>

text \<open>\<open>verify\<close> is the token verification of \<open>packages/auth/src/jwt.ts\<close>: subject and email, or nothing.\<close>

definition authenticate ::
  "(string \<Rightarrow> (string \<times> string) option) \<Rightarrow> string option \<Rightarrow> domain_error + authed_user" where
  "authenticate verify header =
     (case header of
        None \<Rightarrow> Inl (UnauthorizedError ''Authentication required'')
      | Some h \<Rightarrow>
          (if \<not> startsWith h ''Bearer '' then Inl (UnauthorizedError ''Authentication required'')
           else (case verify (drop (length ''Bearer '') h) of
                   None \<Rightarrow> Inl (UnauthorizedError ''Invalid or expired access token'')
                 | Some (sub, email) \<Rightarrow> Inr \<lparr>au_id = sub, au_email = email\<rparr>)))"

definition isHexDigit :: "char \<Rightarrow> bool" where
  "isHexDigit c \<longleftrightarrow> isDigit c \<or> (let n = of_char (lowerChar c) :: nat in 97 \<le> n \<and> n \<le> 102)"

definition isUuid :: "string \<Rightarrow> bool" where
  "isUuid value \<longleftrightarrow>
     map length (splitOn CHR ''-'' value) = [8, 4, 4, 4, 12]
     \<and> list_all (list_all isHexDigit) (splitOn CHR ''-'' value)"

fun roleName :: "workspace_role \<Rightarrow> string" where
  "roleName OWNER = ''OWNER''"
| "roleName ADMIN = ''ADMIN''"
| "roleName MEMBER = ''MEMBER''"
| "roleName VIEWER = ''VIEWER''"

text \<open>The condition of the guard's query on a membership row joined with its workspace.\<close>

definition guardMatches :: "string \<Rightarrow> string \<Rightarrow> workspace_member \<times> workspace \<Rightarrow> bool" where
  "guardMatches uid ws = (\<lambda>(m, w).
     wm_userId m = uid \<and> wm_workspaceId m = ws_id w \<and> ws_deletedAt w = None
     \<and> (if isUuid ws then ws_id w = ws \<or> ws_slug w = ws else ws_slug w = ws))"

definition workspaceGuard ::
  "workspace list \<Rightarrow> workspace_member list \<Rightarrow> workspace_role \<Rightarrow> authed_user option \<Rightarrow> string \<Rightarrow>
   domain_error + workspace_context" where
  "workspaceGuard workspaces members minRole user ws =
     (case user of
        None \<Rightarrow> Inl (UnauthorizedError ''Authentication required'')
      | Some u \<Rightarrow>
          (case find (guardMatches (au_id u) ws) (List.product members workspaces) of
             None \<Rightarrow> Inl (NotFoundError ''Workspace'' (Some ws))
           | Some (m, w) \<Rightarrow>
               (if \<not> hasMinimumRole (wm_role m) minRole
                then Inl (ForbiddenError (''This action requires the '' @ roleName minRole @ '' role''))
                else Inr \<lparr>ctx_workspaceId = ws_id w, ctx_slug = ws_slug w, ctx_role = wm_role m\<rparr>)))"

definition parseSuperAdmins :: "string option \<Rightarrow> string list" where
  "parseSuperAdmins raw =
     filter (\<lambda>e. e \<noteq> [])
       (map (\<lambda>e. toLowerCase (trim e)) (splitOn CHR '','' (case raw of None \<Rightarrow> [] | Some r \<Rightarrow> r)))"

definition isSuperAdmin :: "string option \<Rightarrow> string list \<Rightarrow> bool" where
  "isSuperAdmin email admins = (case email of None \<Rightarrow> False | Some e \<Rightarrow> toLowerCase e \<in> set admins)"

definition superAdminGuard :: "string list \<Rightarrow> authed_user option \<Rightarrow> domain_error + unit" where
  "superAdminGuard admins user =
     (case user of
        None \<Rightarrow> Inl (UnauthorizedError ''Authentication required'')
      | Some u \<Rightarrow>
          (if \<not> isSuperAdmin (Some (au_email u)) admins
           then Inl (ForbiddenError ''Instance super-admin access required'')
           else Inr ()))"

section \<open>The guard's contract\<close>

text \<open>A user is a member of a workspace with a role.\<close>

definition memberOf :: "workspace_member list \<Rightarrow> string \<Rightarrow> string \<Rightarrow> workspace_role \<Rightarrow> bool" where
  "memberOf members uid wsid r \<longleftrightarrow>
     list_ex (\<lambda>m. wm_userId m = uid \<and> wm_workspaceId m = wsid \<and> wm_role m = r) members"

lemma guard_sound:
  assumes "workspaceGuard workspaces members minRole user ws = Inr ctx"
  obtains u where "user = Some u" "memberOf members (au_id u) (ctx_workspaceId ctx) (ctx_role ctx)"
    "minRole \<le> ctx_role ctx"
    "list_ex (\<lambda>w. ws_id w = ctx_workspaceId ctx \<and> ws_deletedAt w = None \<and> (ws_id w = ws \<or> ws_slug w = ws)) workspaces"
proof -
  from assms obtain u m w where u: "user = Some u"
    and f: "find (guardMatches (au_id u) ws) (List.product members workspaces) = Some (m, w)"
    and r: "hasMinimumRole (wm_role m) minRole"
    and c: "ctx = \<lparr>ctx_workspaceId = ws_id w, ctx_slug = ws_slug w, ctx_role = wm_role m\<rparr>"
    by (auto simp: workspaceGuard_def split: option.splits if_splits)
  from find_SomeD [OF f] have "m \<in> set members" "w \<in> set workspaces" "guardMatches (au_id u) ws (m, w)"
    by auto
  then show thesis
    using u r c
    by (intro that [of u])
      (auto simp: memberOf_def list_ex_iff guardMatches_def hasMinimumRole_iff split: if_splits)
qed

lemma guard_nonmember:
  assumes "\<not> list_ex (\<lambda>m. wm_userId m = au_id u \<and> list_ex (\<lambda>w. ws_id w = wm_workspaceId m
    \<and> (ws_id w = ws \<or> ws_slug w = ws)) workspaces) members"
  shows "workspaceGuard workspaces members minRole (Some u) ws = Inl (NotFoundError ''Workspace'' (Some ws))"
proof -
  have "find (guardMatches (au_id u) ws) (List.product members workspaces) = None"
    using assms unfolding find_None_iff guardMatches_def list_ex_iff by (clarsimp split: if_splits) metis
  then show ?thesis by (simp add: workspaceGuard_def)
qed

section \<open>Properties\<close>

definition acme :: workspace where
  "acme = \<lparr>ws_id = ''w1'', ws_name = ''Acme'', ws_slug = ''acme'', ws_deletedAt = None\<rparr>"

definition alice :: workspace_member where
  "alice = \<lparr>wm_id = ''m1'', wm_workspaceId = ''w1'', wm_userId = ''u1'', wm_role = ADMIN\<rparr>"

text \<open>
  The workspace guard admits members only. When the guard lets a request through, the user is a
  member of the workspace it names, with the role the context reports; the role is at least the one
  required, and the workspace is not deleted and is the one the path names, by id or slug.
\<close>

lemma workspaceGuard_admits_members:
  assumes "workspaceGuard workspaces members minRole (Some u) ws = Inr ctx"
  shows "memberOf members (au_id u) (ctx_workspaceId ctx) (ctx_role ctx)
    \<and> minRole \<le> ctx_role ctx
    \<and> list_ex (\<lambda>w. ws_id w = ctx_workspaceId ctx \<and> ws_deletedAt w = None \<and> (ws_id w = ws \<or> ws_slug w = ws)) workspaces"
  using assms by (rule guard_sound) auto

theorem workspaceGuard_admits_members_witness:
  "let ctx = \<lparr>ctx_workspaceId = ''w1'', ctx_slug = ''acme'', ctx_role = ADMIN\<rparr> in
   memberOf [alice] ''u1'' (ctx_workspaceId ctx) (ctx_role ctx)
    \<and> MEMBER \<le> ctx_role ctx
    \<and> list_ex (\<lambda>w. ws_id w = ctx_workspaceId ctx \<and> ws_deletedAt w = None \<and> (ws_id w = ''acme'' \<or> ws_slug w = ''acme'')) [acme]"
  unfolding Let_def
  using workspaceGuard_admits_members [of "[acme]" "[alice]" MEMBER "\<lparr>au_id = ''u1'', au_email = ''a@x''\<rparr>" "''acme''"
      "\<lparr>ctx_workspaceId = ''w1'', ctx_slug = ''acme'', ctx_role = ADMIN\<rparr>"]
  by (simp add: workspaceGuard_def guardMatches_def acme_def alice_def isUuid_def hasMinimumRole_def)

text \<open>
  Workspaces are invisible to outsiders. A user who is not a member of any workspace the path names
  gets the same not-found answer as if the workspace did not exist, whatever role the route requires.
\<close>

lemma workspaceGuard_hides:
  assumes "\<not> list_ex (\<lambda>m. wm_userId m = au_id u \<and> list_ex (\<lambda>w. ws_id w = wm_workspaceId m
    \<and> (ws_id w = ws \<or> ws_slug w = ws)) workspaces) members"
  shows "workspaceGuard workspaces members minRole (Some u) ws = workspaceGuard [] [] minRole (Some u) ws"
  using guard_nonmember [OF assms] guard_nonmember [of u ws "[]" "[]"] by simp

theorem workspaceGuard_hides_witness:
  "workspaceGuard [acme] [alice] OWNER (Some \<lparr>au_id = ''u2'', au_email = ''b@x''\<rparr>) ''acme''
   = workspaceGuard [] [] OWNER (Some \<lparr>au_id = ''u2'', au_email = ''b@x''\<rparr>) ''acme''"
  by (rule workspaceGuard_hides) (simp add: alice_def)

end
