(* ===== verification/Exports.thy ===== *)
theory Exports
  imports Ingest Guards "HOL-Library.Product_Lexorder" "HOL-Library.Multiset"
begin

text \<open>
  Asynchronous CSV exports, from the request to the file: the parameters stored on the job
  (\<open>packages/shared/src/reports.ts\<close>), the API routes that create, list and serve exports
  (\<open>apps/api/src/modules/exports.ts\<close>) and the worker's job (\<open>apps/worker/src/jobs/export-csv.ts\<close>):
  the query it builds, the keyset pagination loop, the CSV document and the job's states.
\<close>

section \<open>Export parameters (reports.ts)\<close>

datatype export_kind = Usage_events | OtherKind string

record export_filters =
  f_from :: "millis option"
  f_to :: "millis option"
  f_projectId :: "string option"
  f_userId :: "string option"
  f_provider :: "provider option"
  f_model :: "string option"

record export_params =
  ep_kind :: export_kind
  ep_filters :: "export_filters option"
  ep_scopeUserId :: "string option"

section \<open>Jobs\<close>

datatype job_status = PENDING | RUNNING | DONE | FAILED

record export_job =
  ej_id :: string
  ej_workspaceId :: string
  ej_requestedById :: string
  ej_params :: export_params
  ej_status :: job_status
  ej_rowCount :: "nat option"
  ej_filePath :: "string option"
  ej_error :: "string option"
  ej_expiresAt :: "millis option"
  ej_createdAt :: millis

section \<open>The query (export-csv.ts)\<close>

definition BATCH :: nat where
  "BATCH = 1000"

definition EXPIRY_MS :: millis where
  "EXPIRY_MS = 24 * 60 * 60 * 1000"

definition noFilters :: export_filters where
  "noFilters = \<lparr>f_from = None, f_to = None, f_projectId = None, f_userId = None, f_provider = None, f_model = None\<rparr>"

text \<open>A string filter applies when it is present and not empty.\<close>

definition given :: "string option \<Rightarrow> bool" where
  "given s = (case s of None \<Rightarrow> False | Some t \<Rightarrow> t \<noteq> [])"

definition buildEventWhere :: "string \<Rightarrow> export_params \<Rightarrow> usage_event \<Rightarrow> bool" where
  "buildEventWhere wsid params e =
     (let f = (case ep_filters params of None \<Rightarrow> noFilters | Some f \<Rightarrow> f) in
      workspaceId e = wsid
      \<and> (if given (ep_scopeUserId params) then userId e = the (ep_scopeUserId params)
         else if given (f_userId f) then userId e = the (f_userId f) else True)
      \<and> (given (f_projectId f) \<longrightarrow> projectId e = the (f_projectId f))
      \<and> (f_provider f \<noteq> None \<longrightarrow> ev_provider e = the (f_provider f))
      \<and> (given (f_model f) \<longrightarrow> ev_model e = the (f_model f))
      \<and> (case f_from f of None \<Rightarrow> True | Some t \<Rightarrow> t \<le> occurredAt e)
      \<and> (case f_to f of None \<Rightarrow> True | Some t \<Rightarrow> occurredAt e < t))"

definition pageKey :: "usage_event \<Rightarrow> millis \<times> string" where
  "pageKey e = (occurredAt e, ev_id e)"

text \<open>
  One page: the rows that satisfy the condition and come after the cursor, newest first, at most
  \<open>n\<close> of them. The cursor's condition is the disjunction of the source, the lexicographic order on
  instant and id.
\<close>

definition findPage ::
  "nat \<Rightarrow> usage_event list \<Rightarrow> (usage_event \<Rightarrow> bool) \<Rightarrow> (millis \<times> string) option \<Rightarrow> usage_event list" where
  "findPage n table cond cursor =
     take n (rev (sort_key pageKey
       (filter (\<lambda>e. cond e \<and> (case cursor of
                                None \<Rightarrow> True
                              | Some (t, i) \<Rightarrow> occurredAt e < t \<or> (occurredAt e = t \<and> ev_id e < i))) table)))"

text \<open>The loop of \<open>writeUsageEvents\<close>: the pages it writes, in order.\<close>

function pageLoop ::
  "nat \<Rightarrow> usage_event list \<Rightarrow> (usage_event \<Rightarrow> bool) \<Rightarrow> (millis \<times> string) option \<Rightarrow> usage_event list" where
  "pageLoop n table cond cursor =
     (let rows = findPage n table cond cursor in
      if rows = [] then []
      else if length rows < n then rows
      else rows @ pageLoop n table cond (Some (pageKey (last rows))))"
  by pat_completeness auto

definition afterCursor :: "(millis \<times> string) option \<Rightarrow> usage_event \<Rightarrow> bool" where
  "afterCursor cursor e = (case cursor of None \<Rightarrow> True | Some c \<Rightarrow> pageKey e < c)"

lemma findPage_cursor:
  "findPage n table cond cursor =
     take n (rev (sort_key pageKey (filter (\<lambda>e. cond e \<and> afterCursor cursor e) table)))"
proof -
  have "(case cursor of None \<Rightarrow> True | Some (t, i) \<Rightarrow> occurredAt e < t \<or> (occurredAt e = t \<and> ev_id e < i))
      = afterCursor cursor e" for e
    by (auto simp: afterCursor_def pageKey_def less_prod_def' split: option.split)
  then show ?thesis by (simp add: findPage_def)
qed

lemma findPage_mem: "e \<in> set (findPage n table cond cursor) \<Longrightarrow> e \<in> set table \<and> cond e \<and> afterCursor cursor e"
  by (auto simp: findPage_cursor dest!: in_set_takeD)

lemma length_filter_less:
  assumes "x \<in> set xs" "Q x" "\<not> P x" "\<And>y. P y \<Longrightarrow> Q y"
  shows "length (filter P xs) < length (filter Q xs)"
proof -
  have "filter P xs = filter P (filter Q xs)" using assms(4) by (auto intro: filter_cong)
  moreover have "length (filter P (filter Q xs)) < length (filter Q xs)"
    by (rule length_filter_less) (use assms in auto)
  ultimately show ?thesis by simp
qed

termination pageLoop
proof (relation "measure (\<lambda>(n, table, cond, cursor). length (filter (\<lambda>e. cond e \<and> afterCursor cursor e) table))")
  fix n table cond cursor rows
  assume rows: "rows = findPage n table cond cursor" and ne: "rows \<noteq> []"
  have l: "last rows \<in> set table" "cond (last rows)" "afterCursor cursor (last rows)"
    using findPage_mem [of "last rows" n table cond cursor] rows ne last_in_set [OF ne] by auto
  have "length (filter (\<lambda>e. cond e \<and> afterCursor (Some (pageKey (last rows))) e) table)
      < length (filter (\<lambda>e. cond e \<and> afterCursor cursor e) table)"
    using l by (intro Exports.length_filter_less [of "last rows"]) (auto simp: afterCursor_def split: option.splits)
  then show "((n, table, cond, Some (pageKey (last rows))), n, table, cond, cursor)
    \<in> measure (\<lambda>(n, table, cond, cursor). length (filter (\<lambda>e. cond e \<and> afterCursor cursor e) table))"
    by simp
qed simp

declare pageLoop.simps [simp del]

section \<open>The document (export-csv.ts)\<close>

definition EVENT_HEADER :: "string list" where
  "EVENT_HEADER =
     [''occurredAt'', ''project'', ''user'', ''provider'', ''model'', ''endpoint'', ''status'', ''httpStatus'',
      ''streamed'', ''inputTokens'', ''outputTokens'', ''cacheReadTokens'', ''reasoningTokens'', ''costUsd'',
      ''costBasis'', ''latencyMs'', ''requestId'']"

fun statusName :: "event_status \<Rightarrow> string" where
  "statusName OK = ''OK''"
| "statusName PROVIDER_ERROR = ''PROVIDER_ERROR''"
| "statusName BLOCKED_BUDGET = ''BLOCKED_BUDGET''"
| "statusName BLOCKED_RATELIMIT = ''BLOCKED_RATELIMIT''"
| "statusName AUTH_ERROR = ''AUTH_ERROR''"

fun basisName :: "cost_basis \<Rightarrow> string" where
  "basisName ACTUAL = ''ACTUAL''"
| "basisName ESTIMATED = ''ESTIMATED''"
| "basisName OVERRIDDEN = ''OVERRIDDEN''"
| "basisName UNPRICED = ''UNPRICED''"

text \<open>
  The names of projects and users come from the joined tables; the decimal column's text is the
  database library's. All three are arguments.
\<close>

record row_texts =
  projectName :: "string \<Rightarrow> string"
  userName :: "string \<Rightarrow> string"
  costText :: "string \<Rightarrow> string"

definition eventCells :: "row_texts \<Rightarrow> usage_event \<Rightarrow> csv_value list" where
  "eventCells t e =
     [CStr (toISOString (occurredAt e)), CStr (projectName t (projectId e)), CStr (userName t (userId e)),
      CStr (providerName (ev_provider e)), CStr (ev_model e), CStr (endpoint e), CStr (statusName (status e)),
      CNum (httpStatus e), CBool (streamed e), CNum \<lfloor>inputTokens e\<rfloor>, CNum \<lfloor>outputTokens e\<rfloor>,
      CNum \<lfloor>cacheReadTokens e\<rfloor>, CNum \<lfloor>reasoningTokens e\<rfloor>, CStr (costText t (costUsd e)),
      CStr (basisName (costBasis e)), CNum (latencyMs e), CStr (requestId e)]"

definition writeLine :: "string \<Rightarrow> string" where
  "writeLine line = line @ [CHR 0x0A]"

definition writeUsageEvents ::
  "row_texts \<Rightarrow> usage_event list \<Rightarrow> string \<Rightarrow> export_params \<Rightarrow> string \<times> nat" where
  "writeUsageEvents t table wsid params =
     (let rows = pageLoop BATCH table (buildEventWhere wsid params) None in
      (writeLine (csvRow (map CStr EVENT_HEADER)) @ concat (map (\<lambda>e. writeLine (csvRow (eventCells t e))) rows),
       length rows))"

section \<open>The job (export-csv.ts)\<close>

text \<open>The export store: the job table and the files, by path, with their content.\<close>

record export_store =
  jobs :: "export_job list"
  files :: "(string, string) omap"

definition updateJob :: "string \<Rightarrow> (export_job \<Rightarrow> export_job) \<Rightarrow> export_store \<Rightarrow> export_store" where
  "updateJob jobId f st = st\<lparr>jobs := map (\<lambda>j. if ej_id j = jobId then f j else j) (jobs st)\<rparr>"

fun kindName :: "export_kind \<Rightarrow> string" where
  "kindName Usage_events = ''usage_events''"
| "kindName (OtherKind k) = k"

definition exportPath :: "string \<Rightarrow> string \<Rightarrow> string" where
  "exportPath dir jobId = dir @ ''/'' @ jobId @ ''.csv''"

text \<open>
  What can go wrong in a run: a database statement is refused (the message of its error; the statement has then changed
  nothing), the directory cannot be made, or writing the file fails. A failure of the writing is noticed by the handler
  when a query is refused or when the file stream breaks while \<open>once\<close> awaits its \<open>drain\<close> or \<open>finish\<close>; a stream that breaks
  while something else is awaited has no listener, and the error ends the process. \<open>rf_partial\<close> is the file that a
  writing that fails leaves behind, if it leaves one.
\<close>

datatype write_fault = Noticed string | Unheard

record run_faults =
  rf_find :: "string option"
  rf_running :: "string option"
  rf_mkdir :: "string option"
  rf_writing :: "write_fault option"
  rf_partial :: "string option"
  rf_done :: "string option"
  rf_failed :: "string option"

definition noFaults :: run_faults where
  "noFaults = \<lparr>rf_find = None, rf_running = None, rf_mkdir = None, rf_writing = None, rf_partial = None, rf_done = None, rf_failed = None\<rparr>"

text \<open>The handler returns, rejects (the queue library records the job as failed), or takes the worker process down.\<close>

datatype run_outcome = Returned | Rejected string | ProcessEnded

definition leaveFile :: "string \<Rightarrow> string option \<Rightarrow> export_store \<Rightarrow> export_store" where
  "leaveFile path content st =
     (case content of None \<Rightarrow> st | Some text \<Rightarrow> st\<lparr>files := AList.update path text (files st)\<rparr>)"

text \<open>The \<open>catch\<close> block: its own update can be refused too.\<close>

definition failJob :: "run_faults \<Rightarrow> string \<Rightarrow> string \<Rightarrow> export_store \<Rightarrow> export_store \<times> run_outcome" where
  "failJob f jobId message st =
     (case rf_failed f of
        Some m \<Rightarrow> (st, Rejected m)
      | None \<Rightarrow> (updateJob jobId (\<lambda>j. j\<lparr>ej_status := FAILED, ej_error := Some message\<rparr>) st, Returned))"

text \<open>The \<open>try\<close> block of a job that has been marked \<open>RUNNING\<close>.\<close>

definition exportFile ::
  "row_texts \<Rightarrow> usage_event list \<Rightarrow> string \<Rightarrow> millis \<Rightarrow> run_faults \<Rightarrow> export_job \<Rightarrow> export_store \<Rightarrow> export_store \<times> run_outcome" where
  "exportFile t table dir now f job st =
     (let jobId = ej_id job; path = exportPath dir jobId in
      case rf_mkdir f of
        Some m \<Rightarrow> failJob f jobId m st
      | None \<Rightarrow>
          (case rf_writing f of
             Some Unheard \<Rightarrow> (leaveFile path (rf_partial f) st, ProcessEnded)
           | Some (Noticed m) \<Rightarrow> failJob f jobId m (leaveFile path (rf_partial f) st)
           | None \<Rightarrow>
               (case ep_kind (ej_params job) of
                  OtherKind k \<Rightarrow> failJob f jobId (''Unsupported export kind: '' @ k) (leaveFile path (Some []) st)
                | Usage_events \<Rightarrow>
                    (let (text, n) = writeUsageEvents t table (ej_workspaceId job) (ej_params job);
                         st1 = leaveFile path (Some text) st in
                     case rf_done f of
                       Some m \<Rightarrow> failJob f jobId m st1
                     | None \<Rightarrow>
                         (updateJob jobId (\<lambda>j. j\<lparr>ej_status := DONE, ej_rowCount := Some n, ej_filePath := Some path,
                            ej_expiresAt := Some (now + EXPIRY_MS)\<rparr>) st1, Returned)))))"

definition runExportJob ::
  "row_texts \<Rightarrow> usage_event list \<Rightarrow> string \<Rightarrow> millis \<Rightarrow> run_faults \<Rightarrow> string \<Rightarrow> export_store \<Rightarrow> export_store \<times> run_outcome" where
  "runExportJob t table dir now f jobId st =
     (case rf_find f of
        Some m \<Rightarrow> (st, Rejected m)
      | None \<Rightarrow>
          (case find (\<lambda>j. ej_id j = jobId) (jobs st) of
             None \<Rightarrow> (st, Returned)
           | Some job \<Rightarrow>
               (if ej_status job = DONE \<or> ej_status job = FAILED then (st, Returned)
                else (case rf_running f of
                        Some m \<Rightarrow> (st, Rejected m)
                      | None \<Rightarrow> exportFile t table dir now f job (updateJob jobId (\<lambda>j. j\<lparr>ej_status := RUNNING\<rparr>) st)))))"

section \<open>The routes (exports.ts)\<close>

text \<open>A request that has passed the guards: the user and the workspace context.\<close>

definition scopeUserId :: "workspace_context \<Rightarrow> authed_user \<Rightarrow> string option" where
  "scopeUserId ctx u =
     (if hasMinimumRole (ctx_role ctx) ADMIN \<or> ctx_role ctx = VIEWER then None else Some (au_id u))"

definition postExport ::
  "workspace_context \<Rightarrow> authed_user \<Rightarrow> export_filters \<Rightarrow> string \<Rightarrow> millis \<Rightarrow> export_store \<Rightarrow> export_store \<times> export_job" where
  "postExport ctx u filters newId now st =
     (let scoped = scopeUserId ctx u;
          params = \<lparr>ep_kind = Usage_events, ep_filters = Some filters,
                    ep_scopeUserId = (if given scoped then scoped else None)\<rparr>;
          job = \<lparr>ej_id = newId, ej_workspaceId = ctx_workspaceId ctx, ej_requestedById = au_id u,
                 ej_params = params, ej_status = PENDING, ej_rowCount = None, ej_filePath = None,
                 ej_error = None, ej_expiresAt = None, ej_createdAt = now\<rparr>
      in (st\<lparr>jobs := jobs st @ [job]\<rparr>, job))"

definition listExports :: "workspace_context \<Rightarrow> authed_user \<Rightarrow> export_store \<Rightarrow> export_job list" where
  "listExports ctx u st =
     take 50 (rev (sort_key ej_createdAt
       (filter (\<lambda>j. ej_workspaceId j = ctx_workspaceId ctx
                  \<and> (given (scopeUserId ctx u) \<longrightarrow> ej_requestedById j = au_id u)) (jobs st))))"

definition findJob :: "workspace_context \<Rightarrow> authed_user \<Rightarrow> string \<Rightarrow> export_store \<Rightarrow> domain_error + export_job" where
  "findJob ctx u jobId st =
     (let wide = hasMinimumRole (ctx_role ctx) ADMIN \<or> ctx_role ctx = VIEWER in
      case find (\<lambda>j. ej_id j = jobId \<and> ej_workspaceId j = ctx_workspaceId ctx
                   \<and> (wide \<or> ej_requestedById j = au_id u)) (jobs st) of
        None \<Rightarrow> Inl (NotFoundError ''Export'' (Some jobId))
      | Some j \<Rightarrow> Inr j)"

definition downloadExport ::
  "workspace_context \<Rightarrow> authed_user \<Rightarrow> string \<Rightarrow> millis \<Rightarrow> export_store \<Rightarrow> domain_error + string" where
  "downloadExport ctx u jobId now st =
     (case findJob ctx u jobId st of
        Inl e \<Rightarrow> Inl e
      | Inr job \<Rightarrow>
          (if ej_status job \<noteq> DONE \<or> \<not> given (ej_filePath job)
           then Inl (NotFoundError ''Export file (job not finished)'' None)
           else if (case ej_expiresAt job of None \<Rightarrow> False | Some t \<Rightarrow> t < now)
           then Inl (NotFoundError ''Export file (expired)'' None)
           else (case map_of (files st) (the (ej_filePath job)) of
                   None \<Rightarrow> Inl (NotFoundError ''Export file'' None)
                 | Some text \<Rightarrow> Inr text)))"

record export_view =
  xv_id :: string
  xv_status :: job_status
  xv_kind :: string
  xv_rowCount :: "nat option"
  xv_error :: "string option"
  xv_expiresAt :: "millis option"
  xv_downloadUrl :: "string option"

definition serializeExport :: "export_job \<Rightarrow> export_view" where
  "serializeExport job =
     \<lparr>xv_id = ej_id job, xv_status = ej_status job, xv_kind = kindName (ep_kind (ej_params job)),
      xv_rowCount = ej_rowCount job, xv_error = ej_error job, xv_expiresAt = ej_expiresAt job,
      xv_downloadUrl = (if ej_status job = DONE then Some (''./exports/'' @ ej_id job @ ''/download'') else None)\<rparr>"

section \<open>Lemmas: pagination\<close>

abbreviation descending :: "usage_event list \<Rightarrow> bool" where
  "descending \<equiv> sorted_wrt (\<lambda>a b. pageKey b < pageKey a)"

lemma descending_rev_sort:
  assumes "distinct (map pageKey xs)"
  shows "descending (rev (sort_key pageKey xs))"
proof -
  have "distinct (map pageKey (sort_key pageKey xs))"
    using assms by (simp add: distinct_map)
  then have "sorted_wrt (<) (map pageKey (sort_key pageKey xs))"
    using sorted_sort_key strict_sorted_iff by blast
  then show ?thesis by (simp add: sorted_wrt_rev sorted_wrt_map)
qed

lemma descending_rest:
  assumes "descending L" "0 < n" "n \<le> length L"
  shows "filter (\<lambda>e. pageKey e < pageKey (last (take n L))) L = drop n L"
proof -
  let ?T = "take n L" and ?D = "drop n L"
  have ne: "?T \<noteq> []" using assms by auto
  have desc: "descending (?T @ ?D)" using assms(1) by simp
  then have low: "\<forall>a\<in>set ?T. \<forall>b\<in>set ?D. pageKey b < pageKey a" and T: "descending ?T"
    unfolding sorted_wrt_append by blast+
  have "\<not> pageKey e < pageKey (last ?T)" if "e \<in> set ?T" for e
  proof -
    have "descending (butlast ?T @ [last ?T])" using T ne by simp
    then have "\<forall>a\<in>set (butlast ?T). pageKey (last ?T) < pageKey a" by (simp only: sorted_wrt_append) simp
    moreover have "set ?T = insert (last ?T) (set (butlast ?T))"
      using ne by (metis append_butlast_last_id list.set(1) list.set(2) set_append sup_bot.right_neutral Un_insert_right)
    ultimately show ?thesis using that by auto
  qed
  then have "filter (\<lambda>e. pageKey e < pageKey (last ?T)) ?T = []" by simp
  moreover have "filter (\<lambda>e. pageKey e < pageKey (last ?T)) ?D = ?D"
    using low ne by simp
  ultimately show ?thesis by (metis append_take_drop_id append_Nil filter_append)
qed

lemma pageLoop_all:
  assumes "0 < n" "distinct (map pageKey (filter cond table))"
  shows "pageLoop n table cond cursor = rev (sort_key pageKey (filter (\<lambda>e. cond e \<and> afterCursor cursor e) table))"
  using assms
proof (induction n table cond cursor rule: pageLoop.induct)
  case (1 n table cond cursor)
  let ?L = "rev (sort_key pageKey (filter (\<lambda>e. cond e \<and> afterCursor cursor e) table))"
  have rows: "findPage n table cond cursor = take n ?L" by (simp add: findPage_cursor)
  have "distinct (map pageKey (filter (\<lambda>e. cond e \<and> afterCursor cursor e) table))"
    using "1.prems"(2) by (auto simp: distinct_map inj_on_def dest: distinct_filter)
  then have desc: "descending ?L" by (rule descending_rev_sort)
  show ?case
  proof (cases "length ?L < n")
    case True
    then show ?thesis by (subst pageLoop.simps) (simp add: rows Let_def)
  next
    case False
    then have long: "n \<le> length ?L" by simp
    define k where "k = pageKey (last (take n ?L))"
    have "0 < length ?L" using "1.prems"(1) long by linarith
    then have ne: "take n ?L \<noteq> []" using "1.prems"(1) by (simp only: take_eq_Nil length_greater_0_conv) simp
    have "afterCursor cursor (last (take n ?L))"
      using last_in_set [OF ne] by (auto dest!: in_set_takeD)
    then have imp: "afterCursor (Some k) e \<Longrightarrow> afterCursor cursor e" for e
      by (auto simp: afterCursor_def k_def split: option.splits)
    have "pageLoop n table cond (Some k) = rev (sort_key pageKey (filter (\<lambda>e. cond e \<and> afterCursor (Some k) e) table))"
      using "1.IH" [OF rows [symmetric] ne _ "1.prems"] long by (simp add: k_def)
    also have "filter (\<lambda>e. cond e \<and> afterCursor (Some k) e) table =
        filter (\<lambda>e. pageKey e < k) (filter (\<lambda>e. cond e \<and> afterCursor cursor e) table)"
      unfolding filter_filter using imp by (intro filter_cong refl) (auto simp: afterCursor_def)
    also have "rev (sort_key pageKey \<dots>) = filter (\<lambda>e. pageKey e < k) ?L"
      by (simp only: rev_filter [symmetric] filter_sort)
    also have "\<dots> = drop n ?L" unfolding k_def using desc "1.prems"(1) long by (rule descending_rest)
    finally have rest: "pageLoop n table cond (Some k) = drop n ?L" .
    have "\<not> length (take n ?L) < n" using long by simp
    with ne have "pageLoop n table cond cursor = take n ?L @ pageLoop n table cond (Some k)"
      by (subst pageLoop.simps) (simp only: rows Let_def if_False k_def)
    then show ?thesis by (simp only: rest append_take_drop_id)
  qed
qed

section \<open>Lemmas: the document and the job\<close>

definition matchingRows :: "usage_event list \<Rightarrow> string \<Rightarrow> export_params \<Rightarrow> usage_event list" where
  "matchingRows table wsid params = rev (sort_key pageKey (filter (buildEventWhere wsid params) table))"

lemma eventKey_pageKey: "distinct (map eventKey xs) \<longleftrightarrow> distinct (map pageKey xs)"
  by (auto simp: distinct_map inj_on_def eventKey_def pageKey_def)

lemma distinct_map_filter: "distinct (map f xs) \<Longrightarrow> distinct (map f (filter P xs))"
  by (simp add: distinct_map_filter)

lemma pageLoop_matching:
  assumes "distinct (map eventKey table)"
  shows "pageLoop BATCH table (buildEventWhere wsid params) None = matchingRows table wsid params"
  using assms by (simp add: pageLoop_all BATCH_def eventKey_pageKey distinct_map_filter matchingRows_def afterCursor_def)

lemma csvText_CStr: "map csvText (map CStr xs) = xs"
  by (induction xs) simp_all

lemma document_parses:
  "parseCsv (writeLine (csvRow (map CStr EVENT_HEADER)) @ concat (map (\<lambda>e. writeLine (csvRow (eventCells t e))) rows))
   = Some (EVENT_HEADER # map (\<lambda>e. map csvText (eventCells t e)) rows)"
proof -
  let ?rows = "map CStr EVENT_HEADER # map (eventCells t) rows"
  have "parseCsv (concat (map (\<lambda>r. csvRow r @ [CHR 0x0A]) ?rows)) = Some (map (map csvText) ?rows)"
    by (rule parseCsv_document) (auto simp: EVENT_HEADER_def eventCells_def)
  then show ?thesis by (simp add: writeLine_def csvText_CStr comp_def)
qed

lemma find_updateJob:
  "find (\<lambda>j. ej_id j = i) (jobs (updateJob i f st)) = map_option f (find (\<lambda>j. ej_id j = i) (jobs st))"
  if "\<And>j. ej_id (f j) = ej_id j"
proof -
  have "find (\<lambda>j. ej_id j = i) (map (\<lambda>j. if ej_id j = i then f j else j) js) = map_option f (find (\<lambda>j. ej_id j = i) js)" for js
    by (induction js) (simp_all add: that)
  then show ?thesis by (simp add: updateJob_def)
qed

lemma others_updateJob:
  "filter (\<lambda>j. ej_id j \<noteq> i) (jobs (updateJob i f st)) = filter (\<lambda>j. ej_id j \<noteq> i) (jobs st)"
  if "\<And>j. ej_id (f j) = ej_id j"
proof -
  have "filter (\<lambda>j. ej_id j \<noteq> i) (map (\<lambda>j. if ej_id j = i then f j else j) js) = filter (\<lambda>j. ej_id j \<noteq> i) js" for js
    by (induction js) (simp_all add: that)
  then show ?thesis by (simp add: updateJob_def)
qed

lemma files_updateJob [simp]: "files (updateJob i f st) = files st"
  by (simp add: updateJob_def)

lemma matchingRows_mem: "e \<in> set (matchingRows table wsid params) \<longleftrightarrow> e \<in> set table \<and> buildEventWhere wsid params e"
  by (simp add: matchingRows_def)

lemma files_leaveFile: "map_of (files (leaveFile path (Some text) st)) path = Some text"
  by (simp add: leaveFile_def)

lemma jobs_leaveFile [simp]: "jobs (leaveFile path c st) = jobs st"
  by (simp add: leaveFile_def split: option.split)

lemma job_updates_keep_id [simp]:
  "ej_id (j\<lparr>ej_status := s\<rparr>) = ej_id j" "ej_id (j\<lparr>ej_status := s, ej_error := m\<rparr>) = ej_id j"
  "ej_id (j\<lparr>ej_status := s, ej_rowCount := n, ej_filePath := p, ej_expiresAt := x\<rparr>) = ej_id j"
  by simp_all

lemma find_id: "find (\<lambda>j. ej_id j = i) js = Some job \<Longrightarrow> ej_id job = i"
  using find_SomeD [of "\<lambda>j. ej_id j = i" js job] by simp

text \<open>The ways a run that writes can go: it ends the job as \<open>DONE\<close> with the whole file, or as \<open>FAILED\<close>, or leaves it \<open>RUNNING\<close>.\<close>

lemma failJob_cases:
  "failJob f i m st = (st, Rejected (the (rf_failed f))) \<and> rf_failed f \<noteq> None
   \<or> failJob f i m st = (updateJob i (\<lambda>j. j\<lparr>ej_status := FAILED, ej_error := Some m\<rparr>) st, Returned)"
  by (simp add: failJob_def split: option.split)

lemma exportFile_cases:
  obtains (completed) doc n st1 where "ep_kind (ej_params job) = Usage_events"
      "writeUsageEvents t table (ej_workspaceId job) (ej_params job) = (doc, n)"
      "st1 = leaveFile (exportPath dir (ej_id job)) (Some doc) st"
      "exportFile t table dir now f job st =
         (updateJob (ej_id job) (\<lambda>j. j\<lparr>ej_status := DONE, ej_rowCount := Some n, ej_filePath := Some (exportPath dir (ej_id job)),
            ej_expiresAt := Some (now + EXPIRY_MS)\<rparr>) st1, Returned)"
  | (failed) m c where "exportFile t table dir now f job st =
       (updateJob (ej_id job) (\<lambda>j. j\<lparr>ej_status := FAILED, ej_error := Some m\<rparr>) (leaveFile (exportPath dir (ej_id job)) c st), Returned)"
  | (left) c r where "exportFile t table dir now f job st = (leaveFile (exportPath dir (ej_id job)) c st, r)" "r \<noteq> Returned"
      "rf_failed f \<noteq> None \<or> rf_writing f = Some Unheard"
proof -
  let ?path = "exportPath dir (ej_id job)"
  have fail: thesis if "exportFile t table dir now f job st = failJob f (ej_id job) m (leaveFile ?path c st)" for m c
    using that failJob_cases [of f "ej_id job" m "leaveFile ?path c st"] failed left by auto
  show thesis
  proof (cases "rf_mkdir f")
    case (Some m)
    then show thesis using fail [of m None] by (simp add: exportFile_def Let_def leaveFile_def)
  next
    case None
    note mkdir = None
    obtain doc n where w: "writeUsageEvents t table (ej_workspaceId job) (ej_params job) = (doc, n)" by force
    show thesis
    proof (cases "rf_writing f")
      case None
      note writing = None
      show thesis
      proof (cases "ep_kind (ej_params job)")
        case Usage_events
        note kind = Usage_events
        show thesis
        proof (cases "rf_done f")
          case None
          then show thesis using completed [OF kind w refl] mkdir writing kind w by (simp add: exportFile_def Let_def)
        next
          case (Some m)
          then show thesis using fail [of m "Some doc"] mkdir writing kind w by (simp add: exportFile_def Let_def)
        qed
      next
        case (OtherKind k)
        then show thesis using fail [of "''Unsupported export kind: '' @ k" "Some []"] mkdir writing by (simp add: exportFile_def Let_def)
      qed
    next
      case (Some wf)
      then show thesis
        using fail [of _ "rf_partial f"] left [of "rf_partial f" ProcessEnded] mkdir
        by (cases wf) (simp_all add: exportFile_def Let_def)
    qed
  qed
qed

definition ended :: "export_job \<Rightarrow> bool" where
  "ended j \<longleftrightarrow> ej_status j = DONE \<or> ej_status j = FAILED"

text \<open>The fate of a job that a run works on.\<close>

definition fate ::
  "row_texts \<Rightarrow> usage_event list \<Rightarrow> string \<Rightarrow> millis \<Rightarrow> export_job \<Rightarrow> export_store \<Rightarrow> run_outcome \<Rightarrow> export_job \<Rightarrow> bool" where
  "fate t table dir now job st r job' \<longleftrightarrow>
     (r = Returned \<longleftrightarrow> ended job') \<and> (\<not> ended job' \<longrightarrow> ej_status job' = RUNNING)
     \<and> ej_id job' = ej_id job \<and> ej_workspaceId job' = ej_workspaceId job \<and> ej_requestedById job' = ej_requestedById job
     \<and> ej_params job' = ej_params job
     \<and> (ej_status job' = DONE \<longrightarrow> ep_kind (ej_params job) = Usage_events
          \<and> ej_filePath job' = Some (exportPath dir (ej_id job)) \<and> ej_expiresAt job' = Some (now + EXPIRY_MS)
          \<and> (\<exists>text n. writeUsageEvents t table (ej_workspaceId job) (ej_params job) = (text, n) \<and> ej_rowCount job' = Some n
               \<and> map_of (files st) (exportPath dir (ej_id job)) = Some text))"

lemma exportFile_fate:
  assumes "find (\<lambda>j. ej_id j = ej_id job) (jobs st) = Some (job\<lparr>ej_status := RUNNING\<rparr>)"
    and "exportFile t table dir now f job st = (st', r)"
  shows "\<exists>job'. find (\<lambda>j. ej_id j = ej_id job) (jobs st') = Some job' \<and> fate t table dir now job st' r job'"
    and "filter (\<lambda>j. ej_id j \<noteq> ej_id job) (jobs st') = filter (\<lambda>j. ej_id j \<noteq> ej_id job) (jobs st)"
proof -
  have "(\<exists>job'. find (\<lambda>j. ej_id j = ej_id job) (jobs st') = Some job' \<and> fate t table dir now job st' r job')
    \<and> filter (\<lambda>j. ej_id j \<noteq> ej_id job) (jobs st') = filter (\<lambda>j. ej_id j \<noteq> ej_id job) (jobs st)"
  proof (cases rule: exportFile_cases [of job t table dir st now f])
    case (completed doc n st1)
    with assms show ?thesis by (auto simp: find_updateJob others_updateJob fate_def ended_def files_leaveFile)
  next
    case (failed m c)
    with assms show ?thesis by (auto simp: find_updateJob others_updateJob fate_def ended_def)
  next
    case (left c r')
    with assms show ?thesis by (auto simp: fate_def ended_def)
  qed
  then show "\<exists>job'. find (\<lambda>j. ej_id j = ej_id job) (jobs st') = Some job' \<and> fate t table dir now job st' r job'"
    and "filter (\<lambda>j. ej_id j \<noteq> ej_id job) (jobs st') = filter (\<lambda>j. ej_id j \<noteq> ej_id job) (jobs st)" by blast+
qed

lemma runExportJob_works:
  assumes "find (\<lambda>j. ej_id j = i) (jobs st) = Some job" "\<not> ended job" "rf_find f = None" "rf_running f = None"
    and "runExportJob t table dir now f i st = (st', r)"
  shows "\<exists>job'. find (\<lambda>j. ej_id j = i) (jobs st') = Some job' \<and> fate t table dir now job st' r job'"
    and "filter (\<lambda>j. ej_id j \<noteq> i) (jobs st') = filter (\<lambda>j. ej_id j \<noteq> i) (jobs st)"
proof -
  let ?st1 = "updateJob i (\<lambda>j. j\<lparr>ej_status := RUNNING\<rparr>) st"
  have id: "ej_id job = i" using find_id [OF assms(1)] .
  have run: "exportFile t table dir now f job ?st1 = (st', r)"
    using assms by (simp add: runExportJob_def ended_def)
  have "find (\<lambda>j. ej_id j = ej_id job) (jobs ?st1) = Some (job\<lparr>ej_status := RUNNING\<rparr>)"
    using assms(1) by (simp add: find_updateJob id)
  from exportFile_fate [OF this run] show "\<exists>job'. find (\<lambda>j. ej_id j = i) (jobs st') = Some job' \<and> fate t table dir now job st' r job'"
    and "filter (\<lambda>j. ej_id j \<noteq> i) (jobs st') = filter (\<lambda>j. ej_id j \<noteq> i) (jobs st)"
    by (simp_all add: id others_updateJob)
qed

lemma runExportJob_faultless:
  assumes "find (\<lambda>j. ej_id j = i) (jobs st) = Some job" "\<not> ended job" "runExportJob t table dir now noFaults i st = (st', r)"
  shows "r = Returned"
    and "ep_kind (ej_params job) = Usage_events \<Longrightarrow> \<exists>job'. find (\<lambda>j. ej_id j = i) (jobs st') = Some job' \<and> ej_status job' = DONE"
proof -
  let ?st1 = "updateJob i (\<lambda>j. j\<lparr>ej_status := RUNNING\<rparr>) st"
  have run: "exportFile t table dir now noFaults job ?st1 = (st', r)"
    using assms by (simp add: runExportJob_def ended_def noFaults_def)
  then show "r = Returned"
    by (simp add: exportFile_def noFaults_def failJob_def Let_def split: export_kind.split_asm prod.split_asm)
  obtain doc n where w: "writeUsageEvents t table (ej_workspaceId job) (ej_params job) = (doc, n)" by force
  have id: "ej_id job = i" by (rule find_id [OF assms(1)])
  show "\<exists>job'. find (\<lambda>j. ej_id j = i) (jobs st') = Some job' \<and> ej_status job' = DONE" if kind: "ep_kind (ej_params job) = Usage_events"
  proof -
    have "st' = updateJob i (\<lambda>j. j\<lparr>ej_status := DONE, ej_rowCount := Some n, ej_filePath := Some (exportPath dir i),
        ej_expiresAt := Some (now + EXPIRY_MS)\<rparr>) (leaveFile (exportPath dir i) (Some doc) ?st1)"
      using run by (simp add: exportFile_def noFaults_def Let_def w kind id)
    then show ?thesis using assms(1) by (simp add: find_updateJob)
  qed
qed

lemma find_conj: "find P xs = Some x \<Longrightarrow> Q x \<Longrightarrow> find (\<lambda>y. P y \<and> Q y) xs = Some x"
  by (induction xs) (auto split: if_splits)

lemma find_snoc: "list_all (\<lambda>x. \<not> P x) xs \<Longrightarrow> P x \<Longrightarrow> find P (xs @ [x]) = Some x"
  by (induction xs) simp_all

lemma exportPath_nonempty [simp]: "exportPath dir i \<noteq> []"
  by (simp add: exportPath_def)

lemma downloadExport_served:
  assumes "find (\<lambda>j. ej_id j = i) (jobs st) = Some job" "ej_workspaceId job = ctx_workspaceId ctx"
    "ej_requestedById job = au_id u" "ej_status job = DONE" "ej_filePath job = Some path" "path \<noteq> []"
    "ej_expiresAt job = Some t" "now \<le> t" "map_of (files st) path = Some text"
  shows "downloadExport ctx u i now st = Inr text"
proof -
  have "findJob ctx u i st = Inr job"
    using find_conj [OF assms(1), of "\<lambda>j. ej_workspaceId j = ctx_workspaceId ctx
      \<and> ((hasMinimumRole (ctx_role ctx) ADMIN \<or> ctx_role ctx = VIEWER) \<or> ej_requestedById j = au_id u)"] assms(2,3)
    by (simp add: findJob_def Let_def)
  with assms(4-) show ?thesis by (simp add: downloadExport_def given_def)
qed

section \<open>Properties\<close>

definition plainTexts :: row_texts where
  "plainTexts = \<lparr>projectName = id, userName = id, costText = id\<rparr>"

text \<open>
  C35. Exports are complete and readable. Whatever the table's size, the paginated export writes every
  event that matches the filters exactly once, newest first, and reports their number; an RFC 4180
  reader gets the header and the events' fields back from the file, whatever commas, quotes or line
  breaks the names contain.
\<close>

theorem export_complete:
  assumes "distinct (map eventKey table)"
  shows "\<exists>text. writeUsageEvents t table wsid params = (text, length (matchingRows table wsid params))
    \<and> parseCsv text = Some (EVENT_HEADER # map (\<lambda>e. map csvText (eventCells t e)) (matchingRows table wsid params))
    \<and> mset (matchingRows table wsid params) = filter_mset (buildEventWhere wsid params) (mset table)
    \<and> descending (matchingRows table wsid params)"
proof -
  have "descending (matchingRows table wsid params)"
    unfolding matchingRows_def using assms
    by (intro descending_rev_sort) (simp add: eventKey_pageKey distinct_map_filter)
  moreover have "mset (matchingRows table wsid params) = filter_mset (buildEventWhere wsid params) (mset table)"
    by (simp add: matchingRows_def)
  ultimately show ?thesis
    by (simp add: writeUsageEvents_def pageLoop_matching [OF assms] document_parses Let_def)
qed

theorem export_complete_witness:
  "let table = [sampleEvent ''a'' 5 10 ''0.5'', sampleEvent ''b'' 3600005 20 ''0.25''];
       params = \<lparr>ep_kind = Usage_events, ep_filters = None, ep_scopeUserId = Some ''u1''\<rparr> in
   \<exists>text. writeUsageEvents plainTexts table ''w1'' params = (text, length (matchingRows table ''w1'' params))
    \<and> parseCsv text = Some (EVENT_HEADER # map (\<lambda>e. map csvText (eventCells plainTexts e)) (matchingRows table ''w1'' params))
    \<and> mset (matchingRows table ''w1'' params) = filter_mset (buildEventWhere ''w1'' params) (mset table)
    \<and> descending (matchingRows table ''w1'' params)"
  unfolding Let_def by (rule export_complete) (simp add: eventKey_def sampleEvent_def)

text \<open>The events an export should hold, from the caller's role and the filters of the request.\<close>

definition requestedRow :: "workspace_context \<Rightarrow> authed_user \<Rightarrow> export_filters \<Rightarrow> usage_event \<Rightarrow> bool" where
  "requestedRow ctx u filters e \<longleftrightarrow>
     workspaceId e = ctx_workspaceId ctx
     \<and> (if ctx_role ctx = MEMBER then userId e = au_id u else f_userId filters \<in> {None, Some [], Some (userId e)})
     \<and> f_projectId filters \<in> {None, Some [], Some (projectId e)} \<and> f_provider filters \<in> {None, Some (ev_provider e)}
     \<and> f_model filters \<in> {None, Some [], Some (ev_model e)}
     \<and> pred_option (\<lambda>from. from \<le> occurredAt e) (f_from filters) \<and> pred_option (\<lambda>to. occurredAt e < to) (f_to filters)"

lemma given_matches: "(given x \<longrightarrow> y = the x) \<longleftrightarrow> x \<in> {None, Some [], Some y}"
  by (cases x) (auto simp: given_def)

lemma pred_option_case: "pred_option P x = (case x of None \<Rightarrow> True | Some y \<Rightarrow> P y)"
  by (cases x) simp_all

lemma postExport_requests:
  assumes "postExport ctx u filters i now st = (st1, job)" "au_id u \<noteq> []"
  shows "buildEventWhere (ej_workspaceId job) (ej_params job) = requestedRow ctx u filters"
proof
  fix e
  from assms(1) have "ej_workspaceId job = ctx_workspaceId ctx" "ep_filters (ej_params job) = Some filters"
    "ep_scopeUserId (ej_params job) = (if given (scopeUserId ctx u) then scopeUserId ctx u else None)"
    by (auto simp: postExport_def Let_def)
  moreover have "given (scopeUserId ctx u) \<longleftrightarrow> ctx_role ctx = MEMBER"
    using assms(2) by (cases "ctx_role ctx") (simp_all add: scopeUserId_def hasMinimumRole_def given_def)
  moreover have "ctx_role ctx = MEMBER \<Longrightarrow> scopeUserId ctx u = Some (au_id u)" by (simp add: scopeUserId_def hasMinimumRole_def)
  ultimately have "buildEventWhere (ej_workspaceId job) (ej_params job) e \<longleftrightarrow> workspaceId e = ctx_workspaceId ctx
      \<and> (if ctx_role ctx = MEMBER then userId e = au_id u else given (f_userId filters) \<longrightarrow> userId e = the (f_userId filters))
      \<and> (given (f_projectId filters) \<longrightarrow> projectId e = the (f_projectId filters))
      \<and> (f_provider filters \<noteq> None \<longrightarrow> ev_provider e = the (f_provider filters))
      \<and> (given (f_model filters) \<longrightarrow> ev_model e = the (f_model filters))
      \<and> pred_option (\<lambda>from. from \<le> occurredAt e) (f_from filters) \<and> pred_option (\<lambda>to. occurredAt e < to) (f_to filters)"
    using assms(2) by (simp add: buildEventWhere_def Let_def given_def pred_option_case)
  moreover have "(f_provider filters \<noteq> None \<longrightarrow> ev_provider e = the (f_provider filters)) \<longleftrightarrow> f_provider filters \<in> {None, Some (ev_provider e)}"
    by (cases "f_provider filters") auto
  ultimately show "buildEventWhere (ej_workspaceId job) (ej_params job) e = requestedRow ctx u filters e"
    by (simp only: requestedRow_def given_matches)
qed

lemma postExport_pending:
  assumes "postExport ctx u filters i now st = (st1, job)" "\<not> list_ex (\<lambda>j. ej_id j = i) (jobs st)"
  shows "find (\<lambda>j. ej_id j = i) (jobs st1) = Some job" "\<not> ended job" "ej_id job = i" "ej_status job = PENDING"
    "ej_workspaceId job = ctx_workspaceId ctx" "ej_requestedById job = au_id u" "ep_kind (ej_params job) = Usage_events"
  using assms by (auto simp: postExport_def Let_def ended_def list_ex_iff list_all_iff intro!: find_snoc)

lemma findJob_mem:
  assumes "findJob ctx u i st = Inr j" "find (\<lambda>j. ej_id j = i) (jobs st) = Some job"
    "ej_workspaceId job = ctx_workspaceId ctx" "ej_requestedById job = au_id u"
  shows "j = job"
  using find_conj [OF assms(2), of "\<lambda>j. ej_workspaceId j = ctx_workspaceId ctx
      \<and> ((hasMinimumRole (ctx_role ctx) ADMIN \<or> ctx_role ctx = VIEWER) \<or> ej_requestedById j = au_id u)"] assms(1,3,4)
  by (simp add: findJob_def Let_def)

text \<open>
  C11. A member can only export their own usage. Follow one export from the request to the download: the
  job a user creates under a new id is run by the worker, whatever goes wrong in the run. If the user then gets a file,
  its rows are exactly the events of the table that are of the user's workspace, pass the filters of the request and,
  when the user's role is MEMBER, are the user's own, whichever user the filters asked for. When nothing goes wrong
  the user does get it, until it expires. Rows of the table have distinct keys of instant and id.
\<close>

theorem member_export_is_scoped:
  assumes "postExport ctx u filters i now st = (st1, job)" "\<not> list_ex (\<lambda>j. ej_id j = i) (jobs st)"
    "distinct (map eventKey table)" "au_id u \<noteq> []"
  shows "(downloadExport ctx u i later (fst (runExportJob t table dir now f i st1)) = Inr text \<longrightarrow>
       (\<exists>rows. parseCsv text = Some (EVENT_HEADER # map (\<lambda>e. map csvText (eventCells t e)) rows)
          \<and> mset rows = filter_mset (requestedRow ctx u filters) (mset table)))
    \<and> (f = noFaults \<and> later \<le> now + EXPIRY_MS \<longrightarrow>
         (\<exists>text. downloadExport ctx u i later (fst (runExportJob t table dir now f i st1)) = Inr text))"
proof -
  note job = postExport_pending [OF assms(1,2)]
  let ?rows = "matchingRows table (ej_workspaceId job) (ej_params job)"
  obtain doc n where w: "writeUsageEvents t table (ej_workspaceId job) (ej_params job) = (doc, n)"
    and parse: "parseCsv doc = Some (EVENT_HEADER # map (\<lambda>e. map csvText (eventCells t e)) ?rows)"
    by (simp add: writeUsageEvents_def pageLoop_matching [OF assms(3)] document_parses Let_def)
  have rows: "mset ?rows = filter_mset (requestedRow ctx u filters) (mset table)"
    by (simp add: matchingRows_def postExport_requests [OF assms(1,4)])
  obtain st' r where run: "runExportJob t table dir now f i st1 = (st', r)" by force
  show ?thesis
  proof (cases "rf_find f = None \<and> rf_running f = None")
    case False
    then have "fst (runExportJob t table dir now f i st1) = st1" "f \<noteq> noFaults"
      using job(1,2) by (auto simp: runExportJob_def ended_def noFaults_def split: option.split)
    moreover have "downloadExport ctx u i later st1 \<noteq> Inr text"
      using findJob_mem [OF _ job(1,5,6)] job(4) by (auto simp: downloadExport_def split: sum.split)
    ultimately show ?thesis by simp
  next
    case True
    then obtain job' where found: "find (\<lambda>j. ej_id j = i) (jobs st') = Some job'" and fate: "fate t table dir now job st' r job'"
      using runExportJob_works(1) [OF job(1,2) _ _ run] by blast
    have own: "ej_workspaceId job' = ctx_workspaceId ctx" "ej_requestedById job' = au_id u" using fate job(5,6) by (simp_all add: fate_def)
    have "text = doc" if "downloadExport ctx u i later st' = Inr text"
      using that findJob_mem [OF _ found own] fate w
      by (auto simp: downloadExport_def fate_def job(3) split: sum.split_asm if_split_asm option.split_asm)
    moreover have "downloadExport ctx u i later st' = Inr doc" if nf: "f = noFaults" and later: "later \<le> now + EXPIRY_MS"
    proof -
      have finished: "ej_status job' = DONE" using runExportJob_faultless(2) [OF job(1,2) run [unfolded nf] job(7)] found by simp
      with fate w job(3) have "ej_filePath job' = Some (exportPath dir i)" "ej_expiresAt job' = Some (now + EXPIRY_MS)"
        "map_of (files st') (exportPath dir i) = Some doc" by (auto simp: fate_def)
      with downloadExport_served [OF found own finished _ exportPath_nonempty _ later] show ?thesis by blast
    qed
    moreover have "fst (runExportJob t table dir now f i st1) = st'" by (simp add: run)
    ultimately show ?thesis using parse rows by metis
  qed
qed

definition memberCtx :: workspace_context where
  "memberCtx = \<lparr>ctx_workspaceId = ''w1'', ctx_slug = ''acme'', ctx_role = MEMBER\<rparr>"

theorem member_export_is_scoped_witness:
  "let u = \<lparr>au_id = ''u1'', au_email = ''a@x''\<rparr>; st = \<lparr>jobs = [], files = []\<rparr>;
       table = [sampleEvent ''a'' 5 10 ''0.5'', (sampleEvent ''b'' 6 10 ''0.5'')\<lparr>workspaceId := ''w2''\<rparr>];
       st2 = fst (runExportJob plainTexts table ''/tmp'' 5 noFaults ''j1'' (fst (postExport memberCtx u noFilters ''j1'' 5 st))) in
   \<exists>text rows. downloadExport memberCtx u ''j1'' 7 st2 = Inr text
    \<and> parseCsv text = Some (EVENT_HEADER # map (\<lambda>e. map csvText (eventCells plainTexts e)) rows)
    \<and> mset rows = {#sampleEvent ''a'' 5 10 ''0.5''#}"
proof -
  let ?u = "\<lparr>au_id = ''u1'', au_email = ''a@x''\<rparr>" and ?st = "\<lparr>jobs = [], files = []\<rparr> :: export_store"
  let ?table = "[sampleEvent ''a'' 5 10 ''0.5'', (sampleEvent ''b'' 6 10 ''0.5'')\<lparr>workspaceId := ''w2''\<rparr>]"
  have "filter_mset (requestedRow memberCtx ?u noFilters) (mset ?table) = {#sampleEvent ''a'' 5 10 ''0.5''#}"
    by (simp add: requestedRow_def memberCtx_def noFilters_def sampleEvent_def)
  moreover have "distinct (map eventKey ?table)" by (simp add: eventKey_def sampleEvent_def)
  ultimately show ?thesis
    using member_export_is_scoped [OF prod.collapse [symmetric], where ctx = memberCtx and u = ?u and filters = noFilters and i = "''j1''"
        and now = 5 and st = ?st and table = ?table and later = 7 and f = noFaults and t = plainTexts and dir = "''/tmp''"]
    unfolding Let_def by (fastforce simp: EXPIRY_MS_def)
qed

text \<open>
  C39. Export jobs end, and never half done. A finished job is not run again. A run of an unfinished job
  ends it, DONE or FAILED, exactly when the handler returns; when a status update is refused or an unheard stream error
  ends the process, it stays unfinished. DONE means that the file holds the whole document and the row count is right. Other
  jobs are left as they were. And whatever went wrong in a run, the next run in which nothing does ends the job.
\<close>

theorem runExportJob_terminal:
  assumes "find (\<lambda>j. ej_id j = i) (jobs st) = Some job" "runExportJob t table dir now f i st = (st', r)"
  shows "(ended job \<longrightarrow> st' = st)
    \<and> filter (\<lambda>j. ej_id j \<noteq> i) (jobs st') = filter (\<lambda>j. ej_id j \<noteq> i) (jobs st)
    \<and> (\<exists>job'. find (\<lambda>j. ej_id j = i) (jobs st') = Some job' \<and> (\<not> ended job \<longrightarrow> (r = Returned \<longleftrightarrow> ended job'))
        \<and> (\<not> ended job \<and> ej_status job' = DONE \<longrightarrow>
             (\<exists>text n. writeUsageEvents t table (ej_workspaceId job) (ej_params job) = (text, n) \<and> ej_rowCount job' = Some n
                \<and> map_of (files st') (exportPath dir i) = Some text)))
    \<and> (\<exists>job''. find (\<lambda>j. ej_id j = i) (jobs (fst (runExportJob t2 table2 dir2 now2 noFaults i st'))) = Some job'' \<and> ended job'')"
proof -
  have again: "\<exists>job''. find (\<lambda>j. ej_id j = i) (jobs (fst (runExportJob t2 table2 dir2 now2 noFaults i st'))) = Some job'' \<and> ended job''"
    if found: "find (\<lambda>j. ej_id j = i) (jobs st') = Some j" for j
  proof (cases "ended j")
    case True
    then show ?thesis using found by (simp add: runExportJob_def noFaults_def ended_def)
  next
    case False
    obtain s r2 where run: "runExportJob t2 table2 dir2 now2 noFaults i st' = (s, r2)" by force
    have "rf_find noFaults = None" "rf_running noFaults = None" by (simp_all add: noFaults_def)
    from runExportJob_works(1) [OF found False this run] runExportJob_faultless(1) [OF found False run] show ?thesis
      by (auto simp: run fate_def)
  qed
  show ?thesis
  proof (cases "ended job \<or> rf_find f \<noteq> None \<or> rf_running f \<noteq> None")
    case True
    with assms have "st' = st \<and> (\<not> ended job \<longrightarrow> r \<noteq> Returned)"
      by (auto simp: runExportJob_def ended_def split: option.split_asm if_split_asm)
    with assms(1) again show ?thesis by (auto simp: ended_def)
  next
    case False
    then have free: "\<not> ended job" "rf_find f = None" "rf_running f = None" by simp_all
    from runExportJob_works [OF assms(1) free assms(2)] again find_id [OF assms(1)] free(1) show ?thesis
      by (fastforce simp: fate_def)
  qed
qed

text \<open>A disk that fills up unheard leaves the job of Ada's export running; the run after it ends the job.\<close>

definition brokenStream :: run_faults where
  "brokenStream = noFaults\<lparr>rf_writing := Some Unheard, rf_partial := Some ''occurredAt''\<rparr>"

theorem runExportJob_terminal_witness:
  "let u = \<lparr>au_id = ''u1'', au_email = ''a@x''\<rparr>;
       st = fst (postExport memberCtx u noFilters ''j1'' 5 \<lparr>jobs = [], files = []\<rparr>);
       (st', r) = runExportJob plainTexts [] ''/tmp'' 5 brokenStream ''j1'' st in
   r = ProcessEnded \<and> (\<exists>job'. find (\<lambda>j. ej_id j = ''j1'') (jobs st') = Some job' \<and> \<not> ended job')
    \<and> (\<exists>job''. find (\<lambda>j. ej_id j = ''j1'') (jobs (fst (runExportJob plainTexts [] ''/tmp'' 9 noFaults ''j1'' st'))) = Some job'' \<and> ended job'')"
proof -
  let ?u = "\<lparr>au_id = ''u1'', au_email = ''a@x''\<rparr>" and ?st0 = "\<lparr>jobs = [], files = []\<rparr> :: export_store"
  obtain st job where post: "postExport memberCtx ?u noFilters ''j1'' 5 ?st0 = (st, job)" by force
  have fresh: "\<not> list_ex (\<lambda>j. ej_id j = ''j1'') (jobs ?st0)" by simp
  note job = postExport_pending [OF post fresh]
  obtain st' r where run: "runExportJob plainTexts [] ''/tmp'' 5 brokenStream ''j1'' st = (st', r)" by force
  have "r = ProcessEnded" using run job(1,2)
    by (auto simp: runExportJob_def brokenStream_def noFaults_def ended_def exportFile_def Let_def)
  with runExportJob_terminal [OF job(1) run, of plainTexts "[]" "''/tmp''" 9] job(2) show ?thesis by (auto simp: post run)
qed

section \<open>Gaps\<close>

text \<open>
  Against the comment on \<open>runExportJob\<close>, not every failure flips the job to FAILED: when the stream breaks while a query is
  awaited, and when the update to FAILED is refused as well, the job stays RUNNING.
\<close>

lemma failed_run_stays_running:
  assumes "find (\<lambda>j. ej_id j = i) (jobs st) = Some job" "ej_status job = PENDING"
    "rf_find f = None" "rf_running f = None" "rf_writing f = Some Unheard \<and> rf_mkdir f = None \<or> rf_mkdir f = Some m \<and> rf_failed f = Some m'"
  shows "\<exists>job'. find (\<lambda>j. ej_id j = i) (jobs (fst (runExportJob t table dir now f i st))) = Some job' \<and> ej_status job' = RUNNING"
  using assms by (auto simp: runExportJob_def exportFile_def failJob_def Let_def find_updateJob)

end
