(* ===== verification/Doubles.thy ===== *)
theory Doubles
  imports Prelude "HOL-Library.Log_Nat"
begin

text \<open>
  The numbers of JavaScript, where the code rounds with them: the double nearest to a rational, with ties to the even
  significand of 53 bits. The exponent is unbounded, which is exact for the amounts of money it is used for: they lie far
  from the smallest and the largest double.
\<close>

definition roundHalfEven :: "rat \<Rightarrow> int" where
  "roundHalfEven x =
     (let n = \<lfloor>x\<rfloor>; r = x - of_int n in
      if r < 1 / 2 \<or> r = 1 / 2 \<and> even n then n else n + 1)"

text \<open>The exponent of the binade: the largest power of two that is not above the absolute value.\<close>

definition binade :: "rat \<Rightarrow> int" where
  "binade x =
     (case quotient_of x of (p, q) \<Rightarrow>
        (let e = bitlen \<bar>p\<bar> - bitlen q in
         if 2 powi e \<le> \<bar>x\<bar> then e else e - 1))"

definition double :: "rat \<Rightarrow> rat" where
  "double x =
     (if x = 0 then 0
      else (let ulp = 2 powi (binade x - 52) in of_int (roundHalfEven (x / ulp)) * ulp))"

lemma double_0 [simp]: "double 0 = 0"
  by (simp add: double_def)

lemma roundHalfEven_error: "\<bar>of_int (roundHalfEven x) - x\<bar> \<le> 1 / 2"
proof -
  have "of_int \<lfloor>x\<rfloor> \<le> x" "x < of_int \<lfloor>x\<rfloor> + 1" by linarith+
  then show ?thesis unfolding roundHalfEven_def Let_def by (auto split: if_split)
qed

lemma binade_le:
  assumes "x \<noteq> 0"
  shows "2 powi (binade x) \<le> \<bar>x\<bar>"
proof -
  obtain p q where pq: "quotient_of x = (p, q)" by (cases "quotient_of x")
  then have q: "0 < q" and x: "x = of_int p / of_int q"
    by (simp_all add: quotient_of_denom_pos quotient_of_div)
  then have p: "p \<noteq> 0" using assms by auto
  have a: "2 ^ nat (bitlen \<bar>p\<bar> - 1) \<le> \<bar>p\<bar>" and b: "q < 2 ^ nat (bitlen q)"
    using p q bitlen_bounds [of "\<bar>p\<bar>"] bitlen_bounds [of q] by simp_all
  have pos: "0 < bitlen \<bar>p\<bar>" "0 \<le> bitlen q" using p bitlen_nonneg [of q] compute_bitlen [of "\<bar>p\<bar>"] bitlen_nonneg [of "\<bar>p\<bar> div 2"] by simp_all
  have pp: "(2 :: rat) ^ nat (bitlen \<bar>p\<bar> - 1) \<le> \<bar>of_int p\<bar>"
    using of_int_le_iff [where 'a = rat, THEN iffD2, OF a] by simp
  have qq: "(of_int q :: rat) \<le> 2 ^ nat (bitlen q)"
    using of_int_less_iff [where 'a = rat, THEN iffD2, OF b] by simp
  have "(2 :: rat) powi (bitlen \<bar>p\<bar> - bitlen q - 1) = 2 powi (bitlen \<bar>p\<bar> - 1) / 2 powi bitlen q"
    by (simp add: power_int_diff)
  also have "\<dots> = 2 ^ nat (bitlen \<bar>p\<bar> - 1) / 2 ^ nat (bitlen q)"
    using pos by (simp add: power_int_def)
  also have "\<dots> \<le> \<bar>of_int p\<bar> / of_int q"
    using pp qq q by (intro frac_le) auto
  also have "\<dots> = \<bar>x\<bar>" using q by (simp add: x)
  finally show ?thesis by (simp add: binade_def pq Let_def)
qed

lemma double_error: "\<bar>double x - x\<bar> \<le> \<bar>x\<bar> / 2 ^ 53"
proof (cases "x = 0")
  case False
  let ?u = "2 powi (binade x - 52) :: rat"
  have u: "0 < ?u" "?u * 2 ^ 52 \<le> \<bar>x\<bar>" using binade_le [OF False] by (simp_all add: power_int_diff)
  have "double x - x = (of_int (roundHalfEven (x / ?u)) - x / ?u) * ?u"
    using False u(1) by (simp add: double_def Let_def field_simps)
  then have "\<bar>double x - x\<bar> = \<bar>of_int (roundHalfEven (x / ?u)) - x / ?u\<bar> * ?u"
    using u(1) by (simp add: abs_mult)
  also have "\<dots> \<le> 1 / 2 * ?u" using u(1) by (intro mult_right_mono roundHalfEven_error) simp
  also have "\<dots> \<le> \<bar>x\<bar> / 2 ^ 53" using u(2) by simp
  finally show ?thesis .
qed simp

end
