(* ===== verification/Housekeeping.thy ===== *)
theory Housekeeping
  imports Exports Doubles
begin

text \<open>
  The worker's daily jobs: retention (\<open>apps/worker/src/jobs/retention.ts\<close>), which prunes old events,
  expired export jobs and orphaned files, and reconciliation (\<open>jobs/reconcile.ts\<close>), which compares the
  daily rollups with the event table. Reconciliation, with the doubles it compares in, is shown to report at most days
  whose costs the rollup columns round, and to raise a false alarm after a retention shorter than its window.
\<close>

section \<open>Retention (retention.ts)\<close>

definition DELETE_BATCH :: nat where
  "DELETE_BATCH = 5000"

text \<open>\<open>DELETE ... WHERE ctid IN (SELECT ... LIMIT n)\<close>: the first \<open>n\<close> rows that qualify go.\<close>

fun deleteLimit :: "nat \<Rightarrow> ('a \<Rightarrow> bool) \<Rightarrow> 'a list \<Rightarrow> 'a list" where
  "deleteLimit n P [] = []"
| "deleteLimit n P (x # xs) =
     (if n = 0 then x # xs else if P x then deleteLimit (n - 1) P xs else x # deleteLimit n P xs)"

lemma deleteLimit_length: "length (deleteLimit n P xs) + min n (length (filter P xs)) = length xs"
  by (induction n P xs rule: deleteLimit.induct) (auto simp: min_def split: if_splits)

function pruneLoop :: "millis \<Rightarrow> usage_event list \<Rightarrow> nat \<Rightarrow> usage_event list \<times> nat" where
  "pruneLoop cutoff table eventsDeleted =
     (let table' = deleteLimit DELETE_BATCH (\<lambda>e. occurredAt e < cutoff) table;
          n = length table - length table' in
      if n < DELETE_BATCH then (table', eventsDeleted + n)
      else pruneLoop cutoff table' (eventsDeleted + n))"
  by pat_completeness auto
termination
  by (relation "measure (\<lambda>(c, t, n). length t)") (auto simp: DELETE_BATCH_def)

declare pruneLoop.simps [simp del]

record housekeeping =
  hk_ledger :: ledger
  hk_jobs :: "export_job list"
  hk_files :: "(string, millis) omap"

definition jobExpired :: "millis \<Rightarrow> export_job \<Rightarrow> bool" where
  "jobExpired now j = (case ej_expiresAt j of None \<Rightarrow> False | Some t \<Rightarrow> t < now)"

text \<open>Unlinking a list of paths; a path that does not exist is skipped.\<close>

fun unlinkAll :: "string list \<Rightarrow> (string, millis) omap \<Rightarrow> (string, millis) omap \<times> nat" where
  "unlinkAll [] fs = (fs, 0)"
| "unlinkAll (p # ps) fs =
     (case map_of fs p of
        None \<Rightarrow> unlinkAll ps fs
      | Some _ \<Rightarrow> (let (fs', n) = unlinkAll ps (AList.delete p fs) in (fs', n + 1)))"

text \<open>The names of the files of a directory.\<close>

definition readdir :: "string \<Rightarrow> (string, millis) omap \<Rightarrow> string list" where
  "readdir dir fs =
     filter (\<lambda>n. CHR ''/'' \<notin> set n)
       (map (\<lambda>p. drop (length dir + 1) p) (filter (\<lambda>p. startsWith p (dir @ ''/'')) (map fst fs)))"

definition stripCsv :: "string \<Rightarrow> string" where
  "stripCsv f = (if endsWith f ''.csv'' then take (length f - 4) f else f)"

text \<open>
  \<open>sweepOrphanFiles\<close>. The query for the known jobs may raise (\<open>queryOk\<close>); the caller turns that, and a
  missing directory, into no sweep.
\<close>

definition orphanPaths ::
  "(string list \<Rightarrow> bool) \<Rightarrow> bool \<Rightarrow> string \<Rightarrow> millis \<Rightarrow> export_job list \<Rightarrow> (string, millis) omap \<Rightarrow> string list" where
  "orphanPaths queryOk dirExists dir now js fs =
     (if \<not> dirExists then []
      else (let csvs = filter (\<lambda>f. endsWith f ''.csv'') (readdir dir fs);
                ids = map stripCsv csvs;
                known = filter (\<lambda>i. i \<in> set ids) (map ej_id js) in
            if csvs = [] \<or> \<not> queryOk ids then []
            else map (\<lambda>f. dir @ ''/'' @ f)
                   (filter (\<lambda>f. stripCsv f \<notin> set known
                              \<and> (case map_of fs (dir @ ''/'' @ f) of
                                   None \<Rightarrow> False
                                 | Some mtime \<Rightarrow> 86400000 < now - mtime)) csvs)))"

record retention_result =
  eventsDeleted :: nat
  exportsDeleted :: nat
  filesDeleted :: nat

definition runRetention ::
  "(string list \<Rightarrow> bool) \<Rightarrow> bool \<Rightarrow> string \<Rightarrow> millis \<Rightarrow> int \<Rightarrow> housekeeping \<Rightarrow> housekeeping \<times> retention_result" where
  "runRetention queryOk dirExists dir now retentionDays s =
     (let cutoff = now - retentionDays * 86400000;
          (table, n) = pruneLoop cutoff (usageEvents (hk_ledger s)) 0;
          expired = filter (jobExpired now) (hk_jobs s);
          (files1, u1) = unlinkAll (map (\<lambda>j. the (ej_filePath j)) (filter (\<lambda>j. given (ej_filePath j)) expired)) (hk_files s);
          js = filter (\<lambda>j. \<not> jobExpired now j) (hk_jobs s);
          (files2, u2) = unlinkAll (orphanPaths queryOk dirExists dir now js files1) files1
      in (\<lparr>hk_ledger = (hk_ledger s)\<lparr>usageEvents := table\<rparr>, hk_jobs = js, hk_files = files2\<rparr>,
          \<lparr>eventsDeleted = n, exportsDeleted = length expired, filesDeleted = u1 + u2\<rparr>))"

section \<open>Reconciliation (reconcile.ts)\<close>

text \<open>A row of either query: the UTC date, the number of requests, the cost in hundred-millionths.\<close>

type_synonym day_agg = "string \<times> int \<times> int"

definition utcDate :: "millis \<Rightarrow> string" where
  "utcDate t = isoDate (nat (t div DAY_MS))"

definition rawRows :: "millis \<Rightarrow> usage_event list \<Rightarrow> day_agg list" where
  "rawRows start events =
     (let recent = filter (\<lambda>e. start \<le> occurredAt e) events in
      map (\<lambda>d. let es = filter (\<lambda>e. utcDate (occurredAt e) = d) recent in
                (d, int (length es), sum_list (map (\<lambda>e. cost8 (totalsOf e)) es)))
          (remdups (map (\<lambda>e. utcDate (occurredAt e)) recent)))"

definition rollupRows :: "millis \<Rightarrow> (rollup_key, rollup_row) omap \<Rightarrow> day_agg list" where
  "rollupRows start table =
     (let recent = filter (\<lambda>(k, r). start \<le> fst k) table in
      map (\<lambda>d. let rs = map (\<lambda>(k, r). rr_totals r) (filter (\<lambda>(k, r). utcDate (fst k) = d) recent) in
                (d, sum_list (map requests rs), sum_list (map cost8 rs)))
          (remdups (map (\<lambda>(k, r). utcDate (fst k)) recent)))"

text \<open>
  The drift test of one day. \<open>Number\<close> reads the decimal text of a cost as the nearest double, the difference of two
  doubles is rounded again, and the tolerance is the double nearest to a millionth of a dollar.
\<close>

definition COST_TOLERANCE :: rat where
  "COST_TOLERANCE = double (1 / 10 ^ 6)"

definition costDrift :: "int \<Rightarrow> int \<Rightarrow> rat" where
  "costDrift rc c = \<bar>double (double (of_int rc / 10 ^ 8) - double (of_int c / 10 ^ 8))\<bar>"

definition dayDrifts :: "day_agg list \<Rightarrow> day_agg \<Rightarrow> bool" where
  "dayDrifts rollups raw =
     (case raw of (d, n, c) \<Rightarrow>
        (let (rn, rc) = (case map_of rollups d of None \<Rightarrow> (0, 0) | Some x \<Rightarrow> x) in
         rn - n \<noteq> 0 \<or> COST_TOLERANCE < costDrift rc c))"

definition runReconcile :: "millis \<Rightarrow> int \<Rightarrow> ledger \<Rightarrow> nat \<times> nat" where
  "runReconcile now windowDays l =
     (let start = truncateUtc (now - windowDays * 86400000) Day;
          raw = rawRows start (usageEvents l);
          rollups = rollupRows start (daily l)
      in (length raw, length (filter (dayDrifts rollups) raw)))"

section \<open>Lemmas: retention\<close>

lemma deleteLimit_filter: "filter (\<lambda>x. \<not> P x) (deleteLimit n P xs) = filter (\<lambda>x. \<not> P x) xs"
  by (induction n P xs rule: deleteLimit.induct) auto

lemma deleteLimit_all: "length (filter P xs) \<le> n \<Longrightarrow> deleteLimit n P xs = filter (\<lambda>x. \<not> P x) xs"
  by (induction n P xs rule: deleteLimit.induct) (auto simp: filter_empty_conv filter_id_conv)

lemma deleteLimit_count: "length (filter P (deleteLimit n P xs)) = length (filter P xs) - n"
  by (induction n P xs rule: deleteLimit.induct) auto

lemma pruneLoop_prunes:
  "pruneLoop cutoff table n =
     (filter (\<lambda>e. \<not> occurredAt e < cutoff) table, n + length (filter (\<lambda>e. occurredAt e < cutoff) table))"
proof (induction cutoff table n rule: pruneLoop.induct)
  case (1 cutoff table n)
  let ?old = "\<lambda>e. occurredAt e < cutoff"
  let ?t = "deleteLimit DELETE_BATCH ?old table"
  have len: "length table - length ?t = min DELETE_BATCH (length (filter ?old table))"
    using deleteLimit_length [of DELETE_BATCH ?old table] by linarith
  show ?case
  proof (cases "length (filter ?old table) < DELETE_BATCH")
    case True
    then have t: "?t = filter (\<lambda>e. \<not> ?old e) table" by (simp add: deleteLimit_all)
    with True len have "length table - length (filter (\<lambda>e. \<not> ?old e) table) = length (filter ?old table)" by simp
    with True show ?thesis by (subst pruneLoop.simps) (simp add: t Let_def)
  next
    case False
    then have "length table - length ?t = DELETE_BATCH" by (simp add: len)
    with False 1 show ?thesis
      by (subst pruneLoop.simps) (simp add: deleteLimit_filter deleteLimit_count)
  qed
qed

lemma unlinkAll_keeps: "p \<notin> set ps \<Longrightarrow> map_of (fst (unlinkAll ps fs)) p = map_of fs p"
  by (induction ps fs rule: unlinkAll.induct)
    (auto simp: delete_conv' restrict_map_def split: option.split prod.split)

lemma endsWith_csv: "endsWith (x @ ''.csv'') ''.csv''"
  by (auto simp: endsWith_iff)

lemma stripCsv_append [simp]: "stripCsv (x @ ''.csv'') = x"
  using endsWith_csv [of x] by (simp add: stripCsv_def)

lemma orphanPaths_spares:
  assumes "j \<in> set js"
  shows "exportPath dir (ej_id j) \<notin> set (orphanPaths queryOk dirExists dir now js fs)"
  using assms by (auto simp: orphanPaths_def exportPath_def Let_def image_iff)

section \<open>Lemmas: reconciliation\<close>

text \<open>A ledger as the ingest leaves it, with one row per key and only well-formed events.\<close>

definition sound :: "ledger \<Rightarrow> bool" where
  "sound l \<longleftrightarrow> consistent l \<and> distinct (map fst (hourly l)) \<and> distinct (map fst (daily l)) \<and> list_all countable (usageEvents l)"

lemma distinct_upsert: "distinct (map fst t) \<Longrightarrow> distinct (map fst (upsertRollup t k i))"
  by (simp add: upsertRollup_def split: option.split)

lemma distinct_applied:
  "distinct (map fst (hourly l)) \<Longrightarrow> distinct (map fst (hourly (foldl applyIncrement l incs)))"
  "distinct (map fst (daily l)) \<Longrightarrow> distinct (map fst (daily (foldl applyIncrement l incs)))"
  by (induction incs arbitrary: l) (simp_all add: applyIncrement_def distinct_upsert)

lemma persistBatch_tables:
  assumes "persistBatch commitOk l es = Inr (l', n)" "distinct (map fst (hourly l))" "distinct (map fst (daily l))"
  shows "distinct (map fst (hourly l'))" "distinct (map fst (daily l'))"
  using assms by (auto simp: persistBatch_def Let_def distinct_applied split: if_splits sum.splits)

lemma persistBatch_sound:
  assumes "sound l" "cleanBatch b" "persistBatch commitOk l b = Inr (l', n)"
  shows "sound l'"
  using assms persistBatch_correct [of l b commitOk] persistBatch_tables [OF assms(3)]
  by (auto simp: sound_def cleanBatch_def newRows_def list_all_iff)

lemma persistAll_sound: "list_all cleanBatch bs \<Longrightarrow> sound l \<Longrightarrow> sound (persistAll commitOk l bs)"
proof (induction bs arbitrary: l)
  case (Cons b bs)
  then have "sound (case persistBatch commitOk l b of Inl _ \<Rightarrow> l | Inr (l', _) \<Rightarrow> l')"
    using persistBatch_sound [of l b commitOk] by (auto split: sum.splits)
  with Cons show ?case by (simp add: persistAll_def)
qed (simp add: persistAll_def)

lemma sound_empty: "sound emptyLedger"
  using consistent_empty by (simp add: sound_def emptyLedger_def)

text \<open>Summing the rows whose key satisfies a condition is summing the events counted under them.\<close>

lemma sum_by_key:
  fixes f :: "'e \<Rightarrow> 'm :: comm_monoid_add"
  assumes "finite K"
  shows "(\<Sum>k\<in>K. sum_list (map f (filter (\<lambda>e. g e = k) es))) = sum_list (map f (filter (\<lambda>e. g e \<in> K) es))"
proof (induction es)
  case (Cons e es)
  have "(\<Sum>k\<in>K. sum_list (map f (filter (\<lambda>x. g x = k) (e # es))))
      = (\<Sum>k\<in>K. (if g e = k then f e else 0) + sum_list (map f (filter (\<lambda>x. g x = k) es)))"
    by (intro sum.cong) auto
  also have "\<dots> = (if g e \<in> K then f e else 0) + sum_list (map f (filter (\<lambda>x. g x \<in> K) es))"
    using assms by (simp add: sum.distrib Cons.IH)
  finally show ?case by simp
qed simp

lemma requests_sumTotals: "list_all countable es \<Longrightarrow> requests (sumTotals es) = int (length es)"
  by (induction es) (simp_all add: requests_totalsOf)

lemma sum_requests_pos: "list_all countable es \<Longrightarrow> e \<in> set es \<Longrightarrow> 0 < requests (sumTotals es)"
  by (auto simp only: requests_sumTotals) (auto simp: length_pos_if_in_set)

lemma agrees_requests: "agrees t es \<Longrightarrow> requests t = requests (sumTotals es)"
  unfolding agrees_def by (blast intro: withoutCost_requests)

text \<open>A table with one row per key that agrees with a list of events; both rollup tables of a sound ledger are such.\<close>

definition rollupOf :: "(usage_event \<Rightarrow> rollup_key) \<Rightarrow> usage_event list \<Rightarrow> (rollup_key, rollup_row) omap \<Rightarrow> bool" where
  "rollupOf key es table \<longleftrightarrow> distinct (map fst table) \<and> list_all countable es
     \<and> (\<forall>k. agrees (rowTotals table k) (filter (\<lambda>e. key e = k) es))"

lemma sound_rollups:
  assumes "sound l"
  shows "rollupOf hourKey (usageEvents l) (hourly l)" "rollupOf dayKey (usageEvents l) (daily l)"
  using assms unfolding sound_def consistent_def rollupsCount_def rollupOf_def by blast+

lemma event_has_row:
  assumes "rollupOf key es table" "e \<in> set es"
  shows "key e \<in> fst ` set table"
proof (rule ccontr)
  let ?es = "filter (\<lambda>x. key x = key e) es"
  assume "key e \<notin> fst ` set table"
  then have "map_of table (key e) = None" by (simp add: map_of_eq_None_iff)
  then have "rowTotals table (key e) = 0" by (simp add: rowTotals_def)
  moreover have "agrees (rowTotals table (key e)) ?es" using assms(1) unfolding rollupOf_def by blast
  then have "requests (rowTotals table (key e)) = requests (sumTotals ?es)" by (rule agrees_requests)
  moreover have "0 < requests (sumTotals ?es)"
    using assms by (intro sum_requests_pos [of _ e]) (auto simp: rollupOf_def list_all_iff)
  ultimately show False by simp
qed

lemma table_sum:
  assumes "rollupOf key es table"
  shows "agrees (sum_list (map (\<lambda>(k, r). rr_totals r) (filter (\<lambda>(k, r). P k) table))) (filter (\<lambda>e. P (key e)) es)"
proof -
  let ?t = "filter (\<lambda>(k, r). P k) table" and ?K = "{k \<in> fst ` set table. P k}"
  let ?F = "\<lambda>k. filter (\<lambda>e. key e = k) es"
  have dist: "distinct (map fst table)" using assms by (simp add: rollupOf_def)
  then have dt: "distinct (map fst ?t)" by (simp add: distinct_map_filter)
  have K: "set (map fst ?t) = ?K" by force
  have "rowTotals table k = rr_totals r" if "(k, r) \<in> set table" for k r
    using that dist by (simp add: rowTotals_def)
  then have rows: "sum_list (map (\<lambda>(k, r). rr_totals r) ?t) = sum_list (map (rowTotals table) (map fst ?t))"
    by (auto intro!: arg_cong [of _ _ sum_list])
  have ag: "agrees (sum_list (map (rowTotals table) (map fst ?t))) (concat (map ?F (map fst ?t)))"
    using assms unfolding rollupOf_def by (blast intro: agrees_concat)
  have filt: "filter (\<lambda>e. key e \<in> ?K) es = filter (\<lambda>e. P (key e)) es"
    using event_has_row [OF assms] by (intro filter_cong) auto
  have same: "sum_list (map f (concat (map ?F (map fst ?t)))) = sum_list (map f (filter (\<lambda>e. key e \<in> ?K) es))"
    for f :: "usage_event \<Rightarrow> 'm :: comm_monoid_add"
  proof -
    have "sum_list (map f (concat (map ?F (map fst ?t)))) = sum_list (map (\<lambda>k. sum_list (map f (?F k))) (map fst ?t))"
      by (simp add: map_concat sum_list_concat comp_def)
    also have "\<dots> = (\<Sum>k\<in>?K. sum_list (map f (?F k)))" unfolding K [symmetric] using dt by (rule sum_list_distinct_conv_sum_set)
    also have "\<dots> = sum_list (map f (filter (\<lambda>e. key e \<in> ?K) es))" by (rule sum_by_key) simp
    finally show ?thesis .
  qed
  show ?thesis
    using ag unfolding rows agrees_def same filt
      same [of "\<lambda>e. if 100 dvd cost8 (totalsOf e) then 0 else 1 :: int", folded inexact_def] .
qed

lemma map_of_keyed_list: "map_of (map (\<lambda>d. (d, f d)) ds) d = (if d \<in> set ds then Some (f d) else None)"
  by (induction ds) auto

lemma dayKey_bucket: "start = truncateUtc x Day \<Longrightarrow> start \<le> fst (dayKey e) \<longleftrightarrow> start \<le> occurredAt e"
  using truncateUtc_mono [of start "occurredAt e" Day] truncateUtc_le [of "occurredAt e" Day]
  by (auto simp: dayKey_def)

lemma utcDate_bucket: "utcDate (fst (dayKey e)) = utcDate (occurredAt e)"
  by (simp add: utcDate_def dayKey_def truncateUtc_day DAY_MS_def)

lemma rollup_of_day:
  assumes "sound l" "start = truncateUtc x Day" "e \<in> set (usageEvents l)" "start \<le> occurredAt e"
  defines "d \<equiv> utcDate (occurredAt e)"
    and "es \<equiv> filter (\<lambda>x. utcDate (occurredAt x) = utcDate (occurredAt e) \<and> start \<le> occurredAt x) (usageEvents l)"
  shows "\<exists>c. map_of (rollupRows start (daily l)) d = Some (int (length es), c)
    \<and> \<bar>c - sum_list (map (\<lambda>e. cost8 (totalsOf e)) es)\<bar> \<le> 50 * inexact es"
proof -
  let ?P = "\<lambda>k. utcDate (fst k) = d \<and> start \<le> fst k"
  let ?rs = "map (\<lambda>(k, r). rr_totals r) (filter (\<lambda>(k, r). ?P k) (daily l))"
  have "agrees (sum_list ?rs) (filter (\<lambda>e. ?P (dayKey e)) (usageEvents l))" by (rule table_sum [OF sound_rollups(2) [OF assms(1)]])
  also have "filter (\<lambda>e. ?P (dayKey e)) (usageEvents l) = es"
    by (simp add: es_def d_def utcDate_bucket dayKey_bucket [OF assms(2)])
  finally have tot: "withoutCost (sum_list ?rs) = withoutCost (sumTotals es)"
    "\<bar>cost8 (sum_list ?rs) - cost8 (sumTotals es)\<bar> \<le> 50 * inexact es" by (simp_all add: agrees_def)
  have cnt: "list_all countable es" using assms(1) by (auto simp: sound_def es_def list_all_iff)
  have cnt: "sum_list (map requests ?rs) = int (length es)"
    using requests_sum_list [of "\<lambda>x. x" ?rs] withoutCost_requests [OF tot(1)] requests_sumTotals [OF cnt] by simp
  have err: "\<bar>sum_list (map cost8 ?rs) - sum_list (map (\<lambda>e. cost8 (totalsOf e)) es)\<bar> \<le> 50 * inexact es"
    using cost8_sum_list [of "\<lambda>x. x" ?rs] tot(2) by simp
  obtain r where "(dayKey e, r) \<in> set (daily l)"
    using event_has_row [OF sound_rollups(2) [OF assms(1)] assms(3)] by force
  then have "d \<in> (\<lambda>(k, r). utcDate (fst k)) ` {x \<in> set (daily l). case x of (k, r) \<Rightarrow> start \<le> fst k}"
    using assms(4) by (intro image_eqI [of _ _ "(dayKey e, r)"])
      (auto simp: d_def utcDate_bucket dayKey_bucket [OF assms(2)])
  then have "map_of (rollupRows start (daily l)) d = Some (sum_list (map requests ?rs), sum_list (map cost8 ?rs))"
    by (simp add: rollupRows_def Let_def map_of_keyed_list case_prod_unfold filter_filter conj_commute)
  with cnt err show ?thesis by simp
qed

lemma inexact_filter: "inexact (filter P es) \<le> inexact es"
  by (induction es) auto

text \<open>
  The events of a day that cost a broken number of millionths, and the amount of money of the day, in hundred-millionths
  of a dollar. A day is at risk when two of its costs are broken, or one is and it spent more than a billion dollars.
\<close>

definition brokenOn :: "ledger \<Rightarrow> string \<Rightarrow> int" where
  "brokenOn l d = inexact (filter (\<lambda>e. utcDate (occurredAt e) = d) (usageEvents l))"

definition spentOn :: "ledger \<Rightarrow> string \<Rightarrow> int" where
  "spentOn l d = sum_list (map (\<lambda>e. \<bar>cost8 (totalsOf e)\<bar>) (filter (\<lambda>e. utcDate (occurredAt e) = d) (usageEvents l)))"

definition atRisk :: "ledger \<Rightarrow> string \<Rightarrow> bool" where
  "atRisk l d \<longleftrightarrow> 1 < brokenOn l d \<or> 0 < brokenOn l d \<and> 10 ^ 17 < spentOn l d"

lemma tolerance_nearly: "9 / 10 ^ 7 \<le> COST_TOLERANCE"
  using abs_le_D2 [OF double_error [of "1 / 10 ^ 6"]] by (simp add: COST_TOLERANCE_def)

lemma costDrift_same: "\<not> COST_TOLERANCE < costDrift c c"
  using tolerance_nearly by (simp add: costDrift_def)

lemma costDrift_small:
  assumes "\<bar>rc - c\<bar> \<le> 50" "\<bar>c\<bar> \<le> 10 ^ 17"
  shows "\<not> COST_TOLERANCE < costDrift rc c"
proof -
  define x y :: rat where "x = of_int rc / 10 ^ 8" and "y = of_int c / 10 ^ 8"
  have "of_int \<bar>rc - c\<bar> \<le> (50 :: rat)" "of_int \<bar>c\<bar> \<le> (10 ^ 17 :: rat)"
    using assms by (simp_all only: of_int_le_numeral_iff of_int_le_iff [where 'a = rat, symmetric, of _ "10 ^ 17"] of_int_power of_int_numeral)
  then have xy: "\<bar>x - y\<bar> \<le> 5 / 10 ^ 7" "\<bar>y\<bar> \<le> 10 ^ 9"
    by (simp_all add: x_def y_def field_simps flip: diff_divide_distrib)
  have "\<bar>x\<bar> \<le> 10 ^ 9 + 1" using abs_triangle_ineq [of "x - y" y] xy by simp
  then have ex: "\<bar>double x - x\<bar> \<le> (10 ^ 9 + 1) / 2 ^ 53"
    by (rule order_trans [OF double_error divide_right_mono]) simp
  have ey: "\<bar>double y - y\<bar> \<le> 10 ^ 9 / 2 ^ 53"
    using xy(2) by (rule order_trans [OF double_error divide_right_mono]) simp
  have "\<bar>a - b\<bar> \<le> \<bar>a - x\<bar> + \<bar>x - y\<bar> + \<bar>b - y\<bar>" for a b by (simp add: abs_if)
  from this [of "double x" "double y"] ex ey xy(1) have "\<bar>double x - double y\<bar> \<le> 75 / 10 ^ 8" by simp
  with double_error [of "double x - double y"] have "costDrift rc c \<le> 8 / 10 ^ 7"
    unfolding costDrift_def x_def [symmetric] y_def [symmetric]
    using abs_triangle_ineq [of "double (double x - double y) - (double x - double y)" "double x - double y"] by simp
  with tolerance_nearly show ?thesis by simp
qed

lemma spent_filter: "sum_list (map (\<lambda>e. \<bar>f e\<bar>) (filter P es)) \<le> sum_list (map (\<lambda>e. \<bar>f e :: int\<bar>) es)"
  by (induction es) auto

lemma abs_sum_list: "\<bar>sum_list (map f es)\<bar> \<le> sum_list (map (\<lambda>e. \<bar>f e :: int\<bar>) es)"
  by (induction es) auto

lemma no_day_drifts:
  assumes "sound l" "start = truncateUtc x Day" "raw \<in> set (rawRows start (usageEvents l))" "\<not> atRisk l (fst raw)"
  shows "\<not> dayDrifts (rollupRows start (daily l)) raw"
proof -
  let ?day = "\<lambda>d. filter (\<lambda>x. utcDate (occurredAt x) = d) (filter (\<lambda>x. start \<le> occurredAt x) (usageEvents l))"
  from assms(3) obtain e where e: "e \<in> set (usageEvents l)" "start \<le> occurredAt e"
    and raw_eq: "raw = (utcDate (occurredAt e), int (length (?day (utcDate (occurredAt e)))),
      sum_list (map (\<lambda>e. cost8 (totalsOf e)) (?day (utcDate (occurredAt e)))))"
    by (auto simp: rawRows_def Let_def)
  let ?es = "?day (utcDate (occurredAt e))"
  have few: "inexact ?es \<le> brokenOn l (fst raw)"
    using inexact_filter [of "\<lambda>x. start \<le> occurredAt x" "filter (\<lambda>x. utcDate (occurredAt x) = utcDate (occurredAt e)) (usageEvents l)"]
    by (simp add: brokenOn_def raw_eq conj_commute)
  have spent: "\<bar>sum_list (map (\<lambda>e. cost8 (totalsOf e)) ?es)\<bar> \<le> spentOn l (fst raw)"
    using abs_sum_list [of "\<lambda>e. cost8 (totalsOf e)" ?es]
      spent_filter [of "\<lambda>e. cost8 (totalsOf e)" "\<lambda>x. start \<le> occurredAt x"
        "filter (\<lambda>x. utcDate (occurredAt x) = utcDate (occurredAt e)) (usageEvents l)"]
    by (simp add: spentOn_def raw_eq conj_commute)
  obtain c where c: "map_of (rollupRows start (daily l)) (utcDate (occurredAt e)) = Some (int (length ?es), c)"
    "\<bar>c - sum_list (map (\<lambda>e. cost8 (totalsOf e)) ?es)\<bar> \<le> 50 * inexact ?es"
    using rollup_of_day [OF assms(1,2) e] by (auto simp: conj_commute)
  show ?thesis
  proof (cases "inexact ?es = 0")
    case True
    with c show ?thesis by (simp add: raw_eq dayDrifts_def costDrift_same)
  next
    case False
    with inexact_nonneg [of ?es] few assms(4) have "inexact ?es \<le> 1" "spentOn l (fst raw) \<le> 10 ^ 17"
      by (auto simp: atRisk_def)
    with c spent costDrift_small [of c "sum_list (map (\<lambda>e. cost8 (totalsOf e)) ?es)"] show ?thesis
      by (simp add: raw_eq dayDrifts_def)
  qed
qed

lemma reconcile_bound:
  assumes "sound l"
  shows "snd (runReconcile now windowDays l)
    \<le> length (filter (atRisk l) (remdups (map (\<lambda>e. utcDate (occurredAt e)) (usageEvents l))))"
proof -
  define start where "start = truncateUtc (now - windowDays * 86400000) Day"
  let ?raw = "rawRows start (usageEvents l)" and ?days = "remdups (map (\<lambda>e. utcDate (occurredAt e)) (usageEvents l))"
  let ?drifting = "filter (dayDrifts (rollupRows start (daily l))) ?raw"
  have fst_raw: "map fst ?raw = remdups (map (\<lambda>e. utcDate (occurredAt e)) (filter (\<lambda>e. start \<le> occurredAt e) (usageEvents l)))"
    by (simp add: rawRows_def Let_def comp_def)
  then have "distinct (map fst ?raw)" by simp
  then have dist: "distinct (map fst ?drifting)" by (rule distinct_map_filter)
  have "set (map fst ?drifting) \<subseteq> set (filter (atRisk l) ?days)"
  proof
    fix d assume "d \<in> set (map fst ?drifting)"
    then obtain raw where raw: "raw \<in> set ?raw" "dayDrifts (rollupRows start (daily l)) raw" "d = fst raw" by auto
    have "atRisk l d" using no_day_drifts [OF assms start_def raw(1)] raw(2,3) by blast
    moreover from raw have "d \<in> set (map fst ?raw)" by simp
    then have "d \<in> set ?days" unfolding fst_raw by auto
    ultimately show "d \<in> set (filter (atRisk l) ?days)" by simp
  qed
  then have "card (set (map fst ?drifting)) \<le> card (set (filter (atRisk l) ?days))" by (rule card_mono [rotated]) simp
  then have "length ?drifting \<le> length (filter (atRisk l) ?days)"
    unfolding distinct_card [OF dist] by (simp only: distinct_card distinct_filter distinct_remdups length_map)
  then show ?thesis by (simp add: runReconcile_def Let_def start_def)
qed

lemma reconcile_silent: "sound l \<Longrightarrow> inexact (usageEvents l) = 0 \<Longrightarrow> snd (runReconcile now windowDays l) = 0"
proof -
  assume l: "sound l" "inexact (usageEvents l) = 0"
  have "\<not> atRisk l d" for d
    using l(2) inexact_filter [of "\<lambda>e. utcDate (occurredAt e) = d" "usageEvents l"] by (simp add: atRisk_def brokenOn_def)
  with reconcile_bound [OF l(1)] show "snd (runReconcile now windowDays l) = 0" by simp
qed

section \<open>Properties\<close>


definition twoEvents :: "usage_event list" where
  "twoEvents = [sampleEvent ''a'' 5 10 ''0.5'', sampleEvent ''b'' 20000000 20 ''0.25'']"

lemma twoEvents_clean: "cleanBatch twoEvents" "list_all countable twoEvents"
  by (simp_all add: cleanBatch_def twoEvents_def rollup_eval decimal_eval)

lemma twoEvents_ingested:
  defines "l \<equiv> persistAll (\<lambda>l. True) emptyLedger [twoEvents]"
  shows "sound l" "usageEvents l = twoEvents"
proof -
  show "sound l" unfolding l_def using twoEvents_clean by (intro persistAll_sound sound_empty) simp
  have "case persistBatch (\<lambda>l. True) emptyLedger twoEvents of Inl x \<Rightarrow> False
     | Inr (l', n) \<Rightarrow> usageEvents l' = twoEvents"
    using persistBatch_correct [OF consistent_empty, of twoEvents "\<lambda>l. True"] twoEvents_clean
    by (auto simp: cleanBatch_def newRows_def emptyLedger_def split: sum.splits)
  then show "usageEvents l = twoEvents" by (auto simp: l_def persistAll_def split: sum.splits)
qed

lemma twoEvents_exact: "inexact twoEvents = 0"
  by (simp add: twoEvents_def totalsOf_def rollup_eval decimal_eval)


text \<open>
  Retention prunes exactly the old events. Whatever the number of events, the loop of bounded deletes
  ends, keeps the events of the retention window in their order, deletes and counts all others, and
  leaves the rollup tables alone; exactly the expired export jobs are removed.
\<close>

lemma runRetention_prunes:
  "\<exists>s' r. runRetention queryOk dirExists dir now days s = (s', r)
    \<and> usageEvents (hk_ledger s') = filter (\<lambda>e. now - days * DAY_MS \<le> occurredAt e) (usageEvents (hk_ledger s))
    \<and> eventsDeleted r + length (usageEvents (hk_ledger s')) = length (usageEvents (hk_ledger s))
    \<and> hourly (hk_ledger s') = hourly (hk_ledger s) \<and> daily (hk_ledger s') = daily (hk_ledger s)
    \<and> hk_jobs s' = filter (\<lambda>j. \<not> jobExpired now j) (hk_jobs s)
    \<and> exportsDeleted r + length (hk_jobs s') = length (hk_jobs s)"
proof -
  have eq: "(\<lambda>e. \<not> occurredAt e < now - days * 86400000) = (\<lambda>e. now - days * DAY_MS \<le> occurredAt e)"
    by (simp add: DAY_MS_def not_less)
  show ?thesis
    using sum_length_filter_compl [of "\<lambda>e. occurredAt e < now - days * 86400000" "usageEvents (hk_ledger s)"]
      sum_length_filter_compl [of "jobExpired now" "hk_jobs s"]
    by (simp add: runRetention_def Let_def pruneLoop_prunes eq split: prod.split)
qed

text \<open>
  Retention spares live exports. A job that has not expired keeps its row, and the file the worker
  wrote for it stays, whether or not the orphan sweep runs, unless an expired job names the same file.
\<close>

lemma runRetention_keeps_live_exports:
  assumes "j \<in> set (hk_jobs s)" "\<not> jobExpired now j"
    "\<not> list_ex (\<lambda>x. jobExpired now x \<and> ej_filePath x = Some (exportPath dir (ej_id j))) (hk_jobs s)"
  shows "j \<in> set (hk_jobs (fst (runRetention queryOk dirExists dir now days s)))
    \<and> map_of (hk_files (fst (runRetention queryOk dirExists dir now days s))) (exportPath dir (ej_id j))
      = map_of (hk_files s) (exportPath dir (ej_id j))"
proof -
  let ?p = "exportPath dir (ej_id j)"
  let ?ps = "map (\<lambda>j. the (ej_filePath j)) (filter (\<lambda>j. given (ej_filePath j)) (filter (jobExpired now) (hk_jobs s)))"
  let ?js = "filter (\<lambda>j. \<not> jobExpired now j) (hk_jobs s)"
  obtain files1 u1 where f1: "unlinkAll ?ps (hk_files s) = (files1, u1)" by force
  let ?os = "orphanPaths queryOk dirExists dir now ?js files1"
  obtain files2 u2 where f2: "unlinkAll ?os files1 = (files2, u2)" by force
  have "?p \<notin> set ?ps"
    using assms(3) by (auto simp: list_ex_iff given_def split: option.splits)
  then have "map_of files1 ?p = map_of (hk_files s) ?p" by (metis f1 fst_conv unlinkAll_keeps)
  moreover have "?p \<notin> set ?os" using assms(1,2) by (intro orphanPaths_spares) simp
  then have "map_of files2 ?p = map_of files1 ?p" by (metis f2 fst_conv unlinkAll_keeps)
  ultimately show ?thesis
    using assms(1,2) by (simp add: runRetention_def Let_def pruneLoop_prunes f1 f2 del: filter_filter)
qed

definition finishedJob :: export_job where
  "finishedJob = \<lparr>ej_id = ''j1'', ej_workspaceId = ''w1'', ej_requestedById = ''u1'',
     ej_params = \<lparr>ep_kind = Usage_events, ep_filters = None, ep_scopeUserId = None\<rparr>, ej_status = DONE,
     ej_rowCount = Some 1, ej_filePath = Some ''/tmp/j1.csv'', ej_error = None, ej_expiresAt = Some 100,
     ej_createdAt = 0\<rparr>"

theorem runRetention_keeps_live_exports_witness:
  "let s = \<lparr>hk_ledger = emptyLedger, hk_jobs = [finishedJob], hk_files = [(''/tmp/j1.csv'', 3)]\<rparr>;
       s' = fst (runRetention (\<lambda>ids. True) True ''/tmp'' 99 90 s) in
   finishedJob \<in> set (hk_jobs s')
   \<and> map_of (hk_files s') (exportPath ''/tmp'' (ej_id finishedJob)) = map_of (hk_files s) (exportPath ''/tmp'' (ej_id finishedJob))"
  unfolding Let_def
  by (rule runRetention_keeps_live_exports) (simp_all add: finishedJob_def jobExpired_def)

text \<open>
  A short retention sets off the reconciliation alarm. Retention cuts in the middle of a day. With a
  retention of one day, which the configuration admits, an ingested ledger on which reconciliation is
  silent shows one day of drift after retention, without any fault of the ingest.
\<close>

lemma retention_causes_drift:
  "let l = persistAll (\<lambda>l. True) emptyLedger [twoEvents];
       s = \<lparr>hk_ledger = l, hk_jobs = [], hk_files = []\<rparr>;
       s' = fst (runRetention (\<lambda>ids. True) True ''/tmp'' 96400000 1 s) in
   runReconcile 96400000 7 l = (1, 0) \<and> runReconcile 96400000 7 (hk_ledger s') = (1, 1)"
proof -
  define l where "l = persistAll (\<lambda>l. True) emptyLedger [twoEvents]"
  note ing = twoEvents_ingested [folded l_def]
  define start where "start = truncateUtc (- 508400000) Day"
  have neg: "start \<le> 5" "start \<le> 20000000" by (simp_all add: start_def truncateUtc_day DAY_MS_def)
  have date: "utcDate 20000000 = utcDate 5" by (simp add: utcDate_def DAY_MS_def)
  let ?e = "sampleEvent ''b'' 20000000 20 ''0.25''"
  have occ: "occurredAt ?e = 20000000" "occurredAt (sampleEvent ''a'' 5 10 ''0.5'') = 5"
    by (simp_all add: sampleEvent_def)
  have row: "\<exists>c. map_of (rollupRows start (daily l)) (utcDate 5) = Some (2, c)"
    using rollup_of_day [OF ing(1) start_def, of ?e] by (auto simp: ing(2) twoEvents_def occ neg date)
  have "fst (runReconcile 96400000 7 l) = 1"
    by (simp add: runReconcile_def Let_def rawRows_def ing(2) twoEvents_def occ neg date flip: start_def)
  moreover have "inexact (usageEvents l) = 0"
    by (simp add: ing(2) twoEvents_exact)
  ultimately have before: "runReconcile 96400000 7 l = (1, 0)"
    using reconcile_silent [OF ing(1), of 96400000 7] by (simp add: prod_eq_iff)
  have after: "hk_ledger (fst (runRetention (\<lambda>ids. True) True ''/tmp'' 96400000 1 \<lparr>hk_ledger = l, hk_jobs = [], hk_files = []\<rparr>))
      = l\<lparr>usageEvents := [?e]\<rparr>"
    by (simp add: runRetention_def pruneLoop_prunes ing(2) twoEvents_def occ orphanPaths_def readdir_def)
  have "runReconcile 96400000 7 (l\<lparr>usageEvents := [?e]\<rparr>) = (1, 1)"
    using row by (auto simp: runReconcile_def Let_def rawRows_def occ neg date dayDrifts_def simp flip: start_def)
  with before after show ?thesis by (simp add: Let_def l_def)
qed
text \<open>
  The rollup columns lose money and set off the alarm. Two requests of 0.2000005 dollars, each ingested in a batch
  of its own, differ by exactly a millionth of a dollar, the tolerance, but their doubles by a little more, which the
  reconciliation reports as drift; two of less than half a millionth cost nothing in the rollups.
\<close>

definition singles :: "string \<Rightarrow> usage_event list" where
  "singles cost = map (\<lambda>i. sampleEvent i 5 10 cost) [''a'', ''b'']"

text \<open>Ingesting events one by one, under one day key, leaves one daily row with the sum of the rounded costs.\<close>

lemma persist_one:
  assumes "countable e" "plainIds e" "eventKey e \<notin> eventKey ` set (usageEvents l)"
    and "daily l = (if usageEvents l = [] then [] else [(dayKey e, row)])" "rr_totals row = t" "usageEvents l = [] \<longrightarrow> t = 0"
  shows "\<exists>l' row'. persistBatch (\<lambda>l. True) l [e] = Inr (l', 1) \<and> usageEvents l' = usageEvents l @ [e]
    \<and> daily l' = [(dayKey e, row')] \<and> rr_totals row' = t + columnTotals (totalsOf e)"
proof -
  let ?i = "\<lparr>inc_group = groupOf hourKey [e] e, inc_costUsd = formatScaled (cost8 (totalsOf e)) COST_SCALE\<rparr>"
  have ref: "refRollups [e] = [?i]" by (simp add: refRollups_def groupOf_def)
  have tot: "incrementTotals ?i = columnTotals (totalsOf e)"
    using incrementTotals_ref [of ?i "[e]"] by (simp add: ref groupOf_def)
  have key: "groupDayKey (inc_group ?i) = dayKey e" by (simp add: day_view.view_groupOf)
  have "groupRollups [e] = Inr [?i]" using groupRollups_reference [of "[e]"] assms(1,2) by (simp add: ref)
  then have "\<exists>l'. persistBatch (\<lambda>l. True) l [e] = Inr (l', 1) \<and> usageEvents l' = usageEvents l @ [e]
      \<and> daily l' = upsertRollup (daily l) (dayKey e) ?i"
    using assms(3) key by (simp add: persistBatch_def Let_def applyIncrement_def)
  then show ?thesis using assms(4-6) tot by (auto simp: upsertRollup_def)
qed

lemma persist_singles:
  assumes "cost = ''0.2000005'' \<or> cost = ''0.0000004''" "c = (if cost = ''0.2000005'' then 20000050 else 40)"
  shows "\<exists>row. usageEvents (persistAll (\<lambda>l. True) emptyLedger (map (\<lambda>e. [e]) (singles cost))) = singles cost
    \<and> daily (persistAll (\<lambda>l. True) emptyLedger (map (\<lambda>e. [e]) (singles cost))) = [(dayKey (sampleEvent ''a'' 5 10 cost), row)]
    \<and> rr_totals row = Totals 2 0 20 2 0 0 0 (2 * columnCost c) 24 2
    \<and> cost8 (sumTotals (singles cost)) = 2 * c"
proof -
  let ?e = "\<lambda>i. sampleEvent i 5 10 cost"
  have tot: "totalsOf (?e i) = Totals 1 0 10 1 0 0 0 c 12 1" for i
    using assms by (auto simp: totalsOf_def rollup_eval decimal_eval)
  have ok: "countable (?e i)" "plainIds (?e i)" "eventKey (?e i) = (i, 5)" "dayKey (?e i) = dayKey (?e ''a'')" for i
    using assms by (auto simp: rollup_eval decimal_eval eventKey_def dayKey_def)
  obtain l1 r1 where l1: "persistBatch (\<lambda>l. True) emptyLedger [?e ''a''] = Inr (l1, 1)" "usageEvents l1 = [?e ''a'']"
    "daily l1 = [(dayKey (?e ''a''), r1)]" "rr_totals r1 = columnTotals (totalsOf (?e ''a''))"
    using persist_one [OF ok(1,2), of "''a''" emptyLedger "\<lparr>rr_teamId = None, rr_totals = 0\<rparr>" 0] by (auto simp: emptyLedger_def)
  obtain l2 r2 where l2: "persistBatch (\<lambda>l. True) l1 [?e ''b''] = Inr (l2, 1)" "usageEvents l2 = [?e ''a'', ?e ''b'']"
    "daily l2 = [(dayKey (?e ''a''), r2)]" "rr_totals r2 = rr_totals r1 + columnTotals (totalsOf (?e ''b''))"
    using persist_one [OF ok(1,2), of "''b''" l1 r1 "rr_totals r1"] l1 ok(4) [of "''b''"] by (auto simp: ok(3))
  have "persistAll (\<lambda>l. True) emptyLedger (map (\<lambda>e. [e]) (singles cost)) = l2"
    by (simp add: persistAll_def singles_def l1(1) l2(1))
  then show ?thesis using l1(4) l2(2,3,4) by (simp add: tot singles_def)
qed

lemma millionth_as_double: "COST_TOLERANCE < costDrift 40000200 40000100"
  by code_simp

lemma rounding_causes_drift:
  "let l = persistAll (\<lambda>l. True) emptyLedger (map (\<lambda>e. [e]) (singles ''0.2000005'')) in
   cost8 (sumTotals (usageEvents l)) = 40000100 \<and> map (cost8 \<circ> rr_totals \<circ> snd) (daily l) = [40000200]
   \<and> runReconcile 7200000 7 l = (1, 1)"
proof -
  define l where "l = persistAll (\<lambda>l. True) emptyLedger (map (\<lambda>e. [e]) (singles ''0.2000005''))"
  obtain row where l: "usageEvents l = singles ''0.2000005''" "daily l = [(dayKey (sampleEvent ''a'' 5 10 ''0.2000005''), row)]"
    "rr_totals row = Totals 2 0 20 2 0 0 0 40000200 24 2" "cost8 (sumTotals (singles ''0.2000005'')) = 40000100"
    using persist_singles [of "''0.2000005''" 20000050] by (auto simp: l_def columnCost_def)
  have occ: "occurredAt (sampleEvent i 5 10 ''0.2000005'') = 5" for i by (simp add: sampleEvent_def)
  have c8: "cost8 (totalsOf (sampleEvent i 5 10 ''0.2000005'')) = 20000050" for i by (simp add: totalsOf_def rollup_eval decimal_eval)
  have key: "fst (dayKey (sampleEvent i 5 10 ''0.2000005'')) = 0" for i by (simp add: dayKey_def occ truncateUtc_day DAY_MS_def)
  have date: "utcDate 5 = utcDate 0" by (simp add: utcDate_def DAY_MS_def)
  define start where "start = truncateUtc (- 597600000) Day"
  have start: "start \<le> 0" "start \<le> 5" by (simp_all add: start_def truncateUtc_day DAY_MS_def)
  have "rawRows start (usageEvents l) = [(utcDate 0, 2, 40000100)]" "rollupRows start (daily l) = [(utcDate 0, 2, 40000200)]"
    by (simp_all add: rawRows_def rollupRows_def Let_def l singles_def occ c8 key date start)
  then have "runReconcile 7200000 7 l = (1, 1)"
    by (simp add: runReconcile_def Let_def dayDrifts_def millionth_as_double flip: start_def)
  with l show ?thesis by (simp add: Let_def flip: l_def)
qed

lemma rounding_hides_cost:
  "let l = persistAll (\<lambda>l. True) emptyLedger (map (\<lambda>e. [e]) (singles ''0.0000004'')) in
   cost8 (sumTotals (usageEvents l)) = 80 \<and> map (cost8 \<circ> rr_totals \<circ> snd) (daily l) = [0]"
proof -
  obtain row where "usageEvents (persistAll (\<lambda>l. True) emptyLedger (map (\<lambda>e. [e]) (singles ''0.0000004''))) = singles ''0.0000004''"
    "daily (persistAll (\<lambda>l. True) emptyLedger (map (\<lambda>e. [e]) (singles ''0.0000004''))) = [(dayKey (sampleEvent ''a'' 5 10 ''0.0000004''), row)]"
    "rr_totals row = Totals 2 0 20 2 0 0 0 0 24 2" "cost8 (sumTotals (singles ''0.0000004'')) = 80"
    using persist_singles [of "''0.0000004''" 40] by (auto simp: columnCost_def)
  then show ?thesis by (simp add: Let_def)
qed

end
