(* ===== verification/Providers.thy ===== *)
theory Providers
  imports Json Shared
begin

text \<open>
  The package \<open>packages/providers\<close>, adapters part: one adapter per provider, as a record of functions
  (\<open>types.ts\<close>), built by the shared OpenAI-compatible constructor or written out (Anthropic, Gemini,
  Ollama). \<open>parse\<close> is \<open>JSON.parse\<close>, \<^term>\<open>None\<close> where it raises. Numeric fields are read at the types the
  sources declare: a number, or absent.
\<close>

section \<open>Interfaces (types.ts)\<close>

record resolved_credential =
  secret :: "string option"
  baseUrl :: "string option"

record upstream_request =
  url :: string
  up_headers :: "(string, string) omap"

record normalized_usage =
  nu_model :: string
  nu_input :: jsnumber
  nu_output :: jsnumber
  nu_cacheRead :: jsnumber
  nu_cacheWrite :: jsnumber
  nu_reasoning :: jsnumber
  complete :: bool
  upstreamCostUsd :: "string option"

record gateway_error =
  ge_type :: string
  ge_httpStatus :: int
  ge_message :: string

text \<open>
  The state of a stream observer: the model seen, the usage object seen (for Anthropic and Ollama the
  one accumulated) and whether the terminal record came.
\<close>

record extractor =
  ex_model :: string
  ex_usage :: "json option"
  ex_done :: bool

record adapter =
  ad_id :: provider
  defaultBaseUrl :: string
  buildUpstream :: "string \<Rightarrow> resolved_credential \<Rightarrow> upstream_request"
  ensureUsageInStream :: "json \<Rightarrow> json"
  parseUsage :: "json \<Rightarrow> normalized_usage"
  startExtractor :: extractor
  onFrame :: "string \<Rightarrow> extractor \<Rightarrow> extractor"
  finish :: "extractor \<Rightarrow> normalized_usage"
  mapError :: "int \<Rightarrow> json \<Rightarrow> gateway_error"
  modelFromPath :: "(string \<Rightarrow> string) option"

section \<open>Reading fields\<close>

text \<open>\<open>o.k ?? 0\<close> for a numeric field, \<open>o.k ?? ""\<close> for a string field.\<close>

definition numField :: "json option \<Rightarrow> string \<Rightarrow> jsnumber" where
  "numField v k = (case asNumber (jgetOpt v k) of None \<Rightarrow> 0 | Some n \<Rightarrow> n)"

definition strField :: "json option \<Rightarrow> string \<Rightarrow> string" where
  "strField v k = (case asString (jgetOpt v k) of None \<Rightarrow> [] | Some s \<Rightarrow> s)"

fun hasKey :: "json \<Rightarrow> string \<Rightarrow> bool" where
  "hasKey (JObj kvs) k = (map_of kvs k \<noteq> None)"
| "hasKey _ k = False"

definition assignAll :: "(string \<times> json) list \<Rightarrow> (string \<times> json) list \<Rightarrow> (string \<times> json) list" where
  "assignAll kvs new = foldl (\<lambda>m (k, v). AList.update k v m) kvs new"

text \<open>\<open>x.toFixed(8)\<close>: the nearest multiple of one hundred-millionth, the larger one on a tie.\<close>

definition toFixed8 :: "jsnumber \<Rightarrow> string" where
  "toFixed8 q =
     (let m = nat \<lfloor>\<bar>q\<bar> * 100000000 + 1 / 2\<rfloor> in
      (if q < 0 then ''-'' else []) @ showNat (m div 100000000) @ ''.''
      @ padStart 8 CHR ''0'' (showNat (m mod 100000000)))"

section \<open>The OpenAI-compatible adapter (openai-compatible.ts)\<close>

definition normalizeOpenAiUsage :: "string \<Rightarrow> json \<Rightarrow> bool \<Rightarrow> normalized_usage" where
  "normalizeOpenAiUsage model usage done =
     (let cached = numField (jget usage ''prompt_tokens_details'') ''cached_tokens'' in
      \<lparr>nu_model = model,
       nu_input = max 0 (numField (Some usage) ''prompt_tokens'' - cached),
       nu_output = numField (Some usage) ''completion_tokens'',
       nu_cacheRead = cached,
       nu_cacheWrite = 0,
       nu_reasoning = numField (jget usage ''completion_tokens_details'') ''reasoning_tokens'',
       complete = done,
       upstreamCostUsd = map_option toFixed8 (asNumber (jget usage ''cost''))\<rparr>)"

definition ssePayload :: "(string \<Rightarrow> json option) \<Rightarrow> string \<Rightarrow> json option" where
  "ssePayload parse frame =
     (case find (\<lambda>l. startsWith l ''data:'') (splitOn CHR 0x0A frame) of
        None \<Rightarrow> None
      | Some line \<Rightarrow>
          (let raw = trim (drop 5 line) in
           if raw = [] \<or> raw = ''[DONE]'' then None
           else (case parse raw of Some JNull \<Rightarrow> None | r \<Rightarrow> r)))"

text \<open>\<open>body.error?.message ?? ""\<close> as a string; the fallback when there is no \<open>error\<close>.\<close>

definition errorMessageOf :: "json \<Rightarrow> string" where
  "errorMessageOf body =
     (if hasKey body ''error'' then jsString (coalesce (jgetOpt (jget body ''error'') ''message'') (JStr []))
      else ''Upstream error'')"

definition defaultMapError :: "int \<Rightarrow> json \<Rightarrow> gateway_error" where
  "defaultMapError st body = \<lparr>ge_type = ''provider_error'', ge_httpStatus = st, ge_message = errorMessageOf body\<rparr>"

definition baseOr :: "resolved_credential \<Rightarrow> string \<Rightarrow> string" where
  "baseOr cred d = (case baseUrl cred of None \<Rightarrow> d | Some u \<Rightarrow> u)"

definition secretOr :: "resolved_credential \<Rightarrow> string" where
  "secretOr cred = (case secret cred of None \<Rightarrow> [] | Some s \<Rightarrow> s)"

definition openAiEnsureUsage :: "bool \<Rightarrow> json \<Rightarrow> json" where
  "openAiEnsureUsage requestUsage body =
     (let b1 = (if jget body ''stream'' = Some (JBool True)
                then jset body ''stream_options''
                       (JObj (AList.update ''include_usage'' (JBool True)
                          (spread (coalesce (jget body ''stream_options'') (JObj [])))))
                else body)
      in if requestUsage
         then jset b1 ''usage'' (JObj (AList.update ''include'' (JBool True) (spread (coalesce (jget b1 ''usage'') (JObj [])))))
         else b1)"

definition openAiStep :: "json \<Rightarrow> extractor \<Rightarrow> extractor" where
  "openAiStep data s =
     (let s1 = (case jget data ''model'' of
                  Some (JStr m) \<Rightarrow> (if m \<noteq> [] then s\<lparr>ex_model := m\<rparr> else s)
                | _ \<Rightarrow> s)
      in if truthy (jget data ''usage'') \<and> isObjectType (jget data ''usage'')
         then s1\<lparr>ex_usage := jget data ''usage''\<rparr> else s1)"

definition createOpenAiCompatibleAdapter ::
  "(string \<Rightarrow> json option) \<Rightarrow> provider \<Rightarrow> string \<Rightarrow> bool \<Rightarrow> (int \<Rightarrow> json \<Rightarrow> gateway_error) option \<Rightarrow> adapter" where
  "createOpenAiCompatibleAdapter parse p base requestUsage mapErr =
     \<lparr>ad_id = p,
      defaultBaseUrl = base,
      buildUpstream = (\<lambda>path cred. \<lparr>url = baseOr cred base @ path,
                                    up_headers = [(''authorization'', ''Bearer '' @ secretOr cred)]\<rparr>),
      ensureUsageInStream = openAiEnsureUsage requestUsage,
      parseUsage = (\<lambda>j. normalizeOpenAiUsage (jsString (coalesce (jget j ''model'') (JStr [])))
                          (coalesce (jget j ''usage'') (JObj [])) (\<not> nullish (jget j ''usage''))),
      startExtractor = \<lparr>ex_model = [], ex_usage = None, ex_done = False\<rparr>,
      onFrame = (\<lambda>frame s. case ssePayload parse frame of None \<Rightarrow> s | Some data \<Rightarrow> openAiStep data s),
      finish = (\<lambda>s. normalizeOpenAiUsage (ex_model s) (coalesce (ex_usage s) (JObj [])) (ex_usage s \<noteq> None)),
      mapError = (case mapErr of None \<Rightarrow> defaultMapError | Some f \<Rightarrow> f),
      modelFromPath = None\<rparr>"

definition openaiAdapter :: "(string \<Rightarrow> json option) \<Rightarrow> adapter" where
  "openaiAdapter parse = createOpenAiCompatibleAdapter parse OPENAI ''https://api.openai.com'' False None"

definition deepseekAdapter :: "(string \<Rightarrow> json option) \<Rightarrow> adapter" where
  "deepseekAdapter parse = createOpenAiCompatibleAdapter parse DEEPSEEK ''https://api.deepseek.com'' False None"

definition openrouterAdapter :: "(string \<Rightarrow> json option) \<Rightarrow> adapter" where
  "openrouterAdapter parse = createOpenAiCompatibleAdapter parse OPENROUTER ''https://openrouter.ai/api'' True None"

section \<open>MiniMax (minimax.ts)\<close>

definition mapMinimaxError :: "int \<Rightarrow> json \<Rightarrow> gateway_error" where
  "mapMinimaxError st body =
     (let base = jget body ''base_resp'' in
      if hasKey body ''base_resp'' \<and> truthy base \<and> truthy (jgetOpt base ''status_code'')
      then \<lparr>ge_type = ''provider_error'', ge_httpStatus = (if 400 \<le> st then st else 400),
            ge_message = (if nullish (jgetOpt base ''status_msg'')
                          then ''Minimax error '' @ jsString (the (jgetOpt base ''status_code''))
                          else jsString (the (jgetOpt base ''status_msg'')))\<rparr>
      else \<lparr>ge_type = ''provider_error'', ge_httpStatus = st, ge_message = errorMessageOf body\<rparr>)"

definition minimaxAdapter :: "(string \<Rightarrow> json option) \<Rightarrow> adapter" where
  "minimaxAdapter parse =
     createOpenAiCompatibleAdapter parse MINIMAX ''https://api.minimax.chat'' False (Some mapMinimaxError)"

section \<open>Ollama (ollama.ts)\<close>

definition ollamaNormalize :: "json \<Rightarrow> bool \<Rightarrow> normalized_usage" where
  "ollamaNormalize j done =
     \<lparr>nu_model = strField (Some j) ''model'', nu_input = numField (Some j) ''prompt_eval_count'',
      nu_output = numField (Some j) ''eval_count'', nu_cacheRead = 0, nu_cacheWrite = 0, nu_reasoning = 0,
      complete = done, upstreamCostUsd = None\<rparr>"

definition ollamaStep :: "json \<Rightarrow> extractor \<Rightarrow> extractor" where
  "ollamaStep data s =
     (if jget data ''done'' = Some (JBool True) then s\<lparr>ex_usage := Some data, ex_done := True\<rparr>
      else if truthy (jget data ''model'')
      then s\<lparr>ex_usage := Some (jset (coalesce (ex_usage s) (JObj [])) ''model'' (the (jget data ''model'')))\<rparr>
      else s)"

definition ollamaAdapter :: "(string \<Rightarrow> json option) \<Rightarrow> adapter" where
  "ollamaAdapter parse =
     \<lparr>ad_id = OLLAMA,
      defaultBaseUrl = ''http://localhost:11434'',
      buildUpstream = (\<lambda>path cred. \<lparr>url = baseOr cred ''http://localhost:11434'' @ path, up_headers = []\<rparr>),
      ensureUsageInStream = (\<lambda>body. body),
      parseUsage = (\<lambda>j. ollamaNormalize j (jget j ''done'' = Some (JBool True))),
      startExtractor = \<lparr>ex_model = [], ex_usage = Some (JObj []), ex_done = False\<rparr>,
      onFrame = (\<lambda>frame s. case parse frame of None \<Rightarrow> s | Some data \<Rightarrow> ollamaStep data s),
      finish = (\<lambda>s. ollamaNormalize (coalesce (ex_usage s) (JObj [])) (ex_done s)),
      mapError = (\<lambda>st body. \<lparr>ge_type = ''provider_error'', ge_httpStatus = st,
                   ge_message = (if hasKey body ''error'' then jsString (the (jget body ''error'')) else ''Upstream error'')\<rparr>),
      modelFromPath = None\<rparr>"

section \<open>Anthropic (anthropic.ts)\<close>

definition anthropicNormalize :: "string \<Rightarrow> json \<Rightarrow> bool \<Rightarrow> normalized_usage" where
  "anthropicNormalize model usage done =
     \<lparr>nu_model = model, nu_input = numField (Some usage) ''input_tokens'',
      nu_output = numField (Some usage) ''output_tokens'',
      nu_cacheRead = numField (Some usage) ''cache_read_input_tokens'',
      nu_cacheWrite = numField (Some usage) ''cache_creation_input_tokens'',
      nu_reasoning = 0, complete = done, upstreamCostUsd = None\<rparr>"

definition setUnlessNull :: "json \<Rightarrow> string \<Rightarrow> json option \<Rightarrow> json" where
  "setUnlessNull acc k v = (if nullish v then acc else jset acc k (the v))"

definition anthropicStep :: "json \<Rightarrow> extractor \<Rightarrow> extractor" where
  "anthropicStep data s =
     (let acc = coalesce (ex_usage s) (JObj []) in
      if jget data ''type'' = Some (JStr ''message_start'')
         \<and> isObjectType (jget data ''message'') \<and> truthy (jget data ''message'')
      then (let message = the (jget data ''message'') in
            s\<lparr>ex_model := (if nullish (jget message ''model'') then ex_model s else strField (Some message) ''model''),
              ex_usage := Some (JObj (assignAll (spread acc) (spread (coalesce (jget message ''usage'') (JObj [])))))\<rparr>)
      else if jget data ''type'' = Some (JStr ''message_delta'') \<and> truthy (jget data ''usage'')
      then (let usage = the (jget data ''usage'') in
            s\<lparr>ex_usage := Some (setUnlessNull (setUnlessNull acc ''output_tokens'' (jget usage ''output_tokens''))
                                   ''input_tokens'' (jget usage ''input_tokens'')),
              ex_done := True\<rparr>)
      else s)"

definition anthropicAdapter :: "(string \<Rightarrow> json option) \<Rightarrow> adapter" where
  "anthropicAdapter parse =
     \<lparr>ad_id = ANTHROPIC,
      defaultBaseUrl = ''https://api.anthropic.com'',
      buildUpstream = (\<lambda>path cred. \<lparr>url = baseOr cred ''https://api.anthropic.com'' @ path,
                        up_headers = [(''x-api-key'', secretOr cred), (''anthropic-version'', ''2023-06-01'')]\<rparr>),
      ensureUsageInStream = (\<lambda>body. body),
      parseUsage = (\<lambda>j. anthropicNormalize (jsString (coalesce (jget j ''model'') (JStr [])))
                          (coalesce (jget j ''usage'') (JObj [])) (\<not> nullish (jget j ''usage''))),
      startExtractor = \<lparr>ex_model = [], ex_usage = Some (JObj []), ex_done = False\<rparr>,
      onFrame = (\<lambda>frame s. case ssePayload parse frame of None \<Rightarrow> s | Some data \<Rightarrow> anthropicStep data s),
      finish = (\<lambda>s. anthropicNormalize (ex_model s) (coalesce (ex_usage s) (JObj [])) (ex_done s)),
      mapError = (\<lambda>st body. \<lparr>ge_type = ''provider_error'', ge_httpStatus = st, ge_message = errorMessageOf body\<rparr>),
      modelFromPath = None\<rparr>"

section \<open>Gemini (gemini.ts)\<close>

text \<open>The first match of \<open>/models/([^:/?]+)\<close>, or the empty string.\<close>

fun geminiModelFromPath :: "string \<Rightarrow> string" where
  "geminiModelFromPath [] = []"
| "geminiModelFromPath (c # s) =
     (let m = takeWhile (\<lambda>x. x \<noteq> CHR '':'' \<and> x \<noteq> CHR ''/'' \<and> x \<noteq> CHR ''?'') (drop 8 (c # s)) in
      if startsWith (c # s) ''/models/'' \<and> m \<noteq> [] then m else geminiModelFromPath s)"

definition geminiNormalize :: "string \<Rightarrow> json option \<Rightarrow> normalized_usage" where
  "geminiNormalize model usage =
     (let cached = numField usage ''cachedContentTokenCount'' in
      \<lparr>nu_model = model, nu_input = max 0 (numField usage ''promptTokenCount'' - cached),
       nu_output = numField usage ''candidatesTokenCount'', nu_cacheRead = cached, nu_cacheWrite = 0,
       nu_reasoning = numField usage ''thoughtsTokenCount'', complete = (\<not> nullish usage), upstreamCostUsd = None\<rparr>)"

definition geminiStep :: "json \<Rightarrow> extractor \<Rightarrow> extractor" where
  "geminiStep data s =
     (let s1 = (case jget data ''modelVersion'' of
                  Some (JStr m) \<Rightarrow> (if m \<noteq> [] then s\<lparr>ex_model := m\<rparr> else s)
                | _ \<Rightarrow> s)
      in if truthy (jget data ''usageMetadata'') \<and> isObjectType (jget data ''usageMetadata'')
         then s1\<lparr>ex_usage := jget data ''usageMetadata''\<rparr> else s1)"

definition geminiAdapter :: "(string \<Rightarrow> json option) \<Rightarrow> adapter" where
  "geminiAdapter parse =
     \<lparr>ad_id = GEMINI,
      defaultBaseUrl = ''https://generativelanguage.googleapis.com'',
      buildUpstream = (\<lambda>path cred. \<lparr>url = baseOr cred ''https://generativelanguage.googleapis.com'' @ path,
                        up_headers = [(''x-goog-api-key'', secretOr cred)]\<rparr>),
      ensureUsageInStream = (\<lambda>body. body),
      parseUsage = (\<lambda>j. geminiNormalize
                          (case jget j ''modelVersion'' of
                             Some (JStr m) \<Rightarrow> m
                           | _ \<Rightarrow> jsString (coalesce (jget j ''model'') (JStr [])))
                          (jget j ''usageMetadata'')),
      startExtractor = \<lparr>ex_model = [], ex_usage = None, ex_done = False\<rparr>,
      onFrame = (\<lambda>frame s. case ssePayload parse frame of None \<Rightarrow> s | Some data \<Rightarrow> geminiStep data s),
      finish = (\<lambda>s. geminiNormalize (ex_model s) (ex_usage s)),
      mapError = (\<lambda>st body. \<lparr>ge_type = ''provider_error'', ge_httpStatus = st, ge_message = errorMessageOf body\<rparr>),
      modelFromPath = Some geminiModelFromPath\<rparr>"

section \<open>The registry (index.ts)\<close>

fun getAdapter :: "(string \<Rightarrow> json option) \<Rightarrow> provider \<Rightarrow> adapter" where
  "getAdapter parse ANTHROPIC = anthropicAdapter parse"
| "getAdapter parse OPENAI = openaiAdapter parse"
| "getAdapter parse OLLAMA = ollamaAdapter parse"
| "getAdapter parse GEMINI = geminiAdapter parse"
| "getAdapter parse DEEPSEEK = deepseekAdapter parse"
| "getAdapter parse OPENROUTER = openrouterAdapter parse"
| "getAdapter parse MINIMAX = minimaxAdapter parse"

definition supportedProviders :: "provider list" where
  "supportedProviders = [ANTHROPIC, OPENAI, OLLAMA, GEMINI, DEEPSEEK, OPENROUTER, MINIMAX]"

section \<open>The contract of a stream observer\<close>

text \<open>
  Every adapter's observer looks at the payload of a frame and absorbs it, or ignores a frame without
  one. What it has seen after a stream is then what it absorbed from the payloads alone: comments, blank
  frames, \<open>[DONE]\<close> markers and malformed data make no difference.
\<close>

locale stream_observer =
  fixes observe :: "string \<Rightarrow> 's \<Rightarrow> 's"
    and payload :: "string \<Rightarrow> json option"
    and absorb :: "json \<Rightarrow> 's \<Rightarrow> 's"
  assumes observe_payload: "observe f s = (case payload f of None \<Rightarrow> s | Some j \<Rightarrow> absorb j s)"
begin

lemma observe_all:
  "foldl (\<lambda>s f. observe f s) s fs = foldl (\<lambda>s j. absorb j s) s (List.map_filter payload fs)"
  by (induction fs arbitrary: s) (simp_all add: observe_payload List.map_filter_def split: option.split)

lemma noise_ignored:
  "payload f = None \<Longrightarrow>
   foldl (\<lambda>s f. observe f s) s (fs @ f # gs) = foldl (\<lambda>s f. observe f s) s (fs @ gs)"
  by (simp add: observe_payload)

end

interpretation openai_stream: stream_observer "onFrame (createOpenAiCompatibleAdapter parse p base r me)" "ssePayload parse" openAiStep
  for parse p base r me
  by unfold_locales (simp add: createOpenAiCompatibleAdapter_def)

interpretation anthropic_stream: stream_observer "onFrame (anthropicAdapter parse)" "ssePayload parse" anthropicStep for parse
  by unfold_locales (simp add: anthropicAdapter_def)

interpretation gemini_stream: stream_observer "onFrame (geminiAdapter parse)" "ssePayload parse" geminiStep for parse
  by unfold_locales (simp add: geminiAdapter_def)

interpretation ollama_stream: stream_observer "onFrame (ollamaAdapter parse)" parse ollamaStep for parse
  by unfold_locales (simp add: ollamaAdapter_def)

section \<open>What an OpenAI-compatible stream says\<close>

text \<open>The last value of a field among payloads that satisfies a condition.\<close>

definition lastField :: "string \<Rightarrow> (json \<Rightarrow> bool) \<Rightarrow> json list \<Rightarrow> json option" where
  "lastField k P js = find P (List.map_filter (\<lambda>j. jget j k) (rev js))"

definition nonEmptyStr :: "json \<Rightarrow> bool" where
  "nonEmptyStr j = (case j of JStr s \<Rightarrow> s \<noteq> [] | _ \<Rightarrow> False)"

definition usageObject :: "json \<Rightarrow> bool" where
  "usageObject j \<longleftrightarrow> truthy (Some j) \<and> isObjectType (Some j)"

lemma lastField_snoc:
  "lastField k P (js @ [j]) =
     (case jget j k of Some v \<Rightarrow> (if P v then Some v else lastField k P js) | None \<Rightarrow> lastField k P js)"
  by (simp add: lastField_def List.map_filter_def split: option.split)

lemma lastField_P: "lastField k P js = Some v \<Longrightarrow> P v"
  by (auto simp: lastField_def find_Some_iff)

definition streamView :: "extractor \<Rightarrow> json list \<Rightarrow> extractor" where
  "streamView s js =
     s\<lparr>ex_model := (case lastField ''model'' nonEmptyStr js of Some (JStr m) \<Rightarrow> m | _ \<Rightarrow> ex_model s),
       ex_usage := (case lastField ''usage'' usageObject js of Some u \<Rightarrow> Some u | None \<Rightarrow> ex_usage s)\<rparr>"

lemma openAiStep_view: "openAiStep j (streamView s js) = streamView s (js @ [j])"
proof -
  have u: "truthy (jget j ''usage'') \<and> isObjectType (jget j ''usage'') \<longleftrightarrow> (\<exists>v. jget j ''usage'' = Some v \<and> usageObject v)"
    by (cases "jget j ''usage''") (auto simp: usageObject_def)
  show ?thesis
    by (auto simp: openAiStep_def streamView_def lastField_snoc u nonEmptyStr_def Let_def split: option.split json.split)
qed

lemma openAi_absorbed: "foldl (\<lambda>s j. openAiStep j s) s js = streamView s js"
proof (induction js rule: rev_induct)
  case Nil
  then show ?case by (simp add: streamView_def lastField_def List.map_filter_def)
next
  case (snoc j js)
  then show ?case by (simp add: openAiStep_view)
qed

section \<open>Properties\<close>

text \<open>
  C33. A stream is metered like a whole response. For every OpenAI-compatible provider, whatever frames a
  stream consists of, the usage its observer reports at the end is the usage that the non-streaming
  parser reports for a response with the last model and the last usage object of the stream.
\<close>

theorem stream_metered_like_response:
  assumes "lastField ''model'' nonEmptyStr (List.map_filter (ssePayload parse) frames) = Some m"
    "lastField ''usage'' usageObject (List.map_filter (ssePayload parse) frames) = Some u"
  shows "let a = createOpenAiCompatibleAdapter parse p base r me in
    finish a (foldl (\<lambda>s f. onFrame a f s) (startExtractor a) frames) = parseUsage a (JObj [(''model'', m), (''usage'', u)])"
proof -
  from lastField_P [OF assms(1)] obtain t where m: "m = JStr t" "t \<noteq> []"
    by (auto simp: nonEmptyStr_def split: json.splits)
  from lastField_P [OF assms(2)] have u: "u \<noteq> JNull" by (auto simp: usageObject_def)
  have "coalesce (Some u) (JObj []) = u" "\<not> nullish (Some u)" using u by (simp_all add: coalesce_def nullish_def)
  then show ?thesis
    by (simp add: Let_def openai_stream.observe_all openAi_absorbed)
      (simp add: createOpenAiCompatibleAdapter_def streamView_def assms m)
qed

definition sampleParse :: "string \<Rightarrow> json option" where
  "sampleParse s =
     (if s = ''1'' then Some (JObj [(''model'', JStr ''gpt-5'')])
      else if s = ''2'' then Some (JObj [(''usage'', JObj [(''prompt_tokens'', JNum 7)])])
      else None)"

theorem stream_metered_like_response_witness:
  "let a = createOpenAiCompatibleAdapter sampleParse OPENAI ''https://api.openai.com'' False None in
   finish a (foldl (\<lambda>s f. onFrame a f s) (startExtractor a) [''data: 1'', '': ping'', ''data: 2'', ''data: [DONE]''])
   = parseUsage a (JObj [(''model'', JStr ''gpt-5''), (''usage'', JObj [(''prompt_tokens'', JNum 7)])])"
  by (rule stream_metered_like_response) code_simp+

text \<open>
  Cached prompt tokens are billed once. Where a provider reports cached tokens inside the prompt count
  (the OpenAI-compatible ones and Gemini), the normalized usage splits the prompt into uncached input and
  cache reads that add up to the reported prompt, provided no more tokens are cached than prompted.
\<close>

lemma cached_tokens_split:
  assumes "numField (jget usage ''prompt_tokens_details'') ''cached_tokens'' \<le> numField (Some usage) ''prompt_tokens''"
    "numField (Some meta) ''cachedContentTokenCount'' \<le> numField (Some meta) ''promptTokenCount''"
  shows "nu_input (normalizeOpenAiUsage model usage done) + nu_cacheRead (normalizeOpenAiUsage model usage done)
      = numField (Some usage) ''prompt_tokens''
    \<and> nu_input (geminiNormalize model (Some meta)) + nu_cacheRead (geminiNormalize model (Some meta))
      = numField (Some meta) ''promptTokenCount''"
  using assms by (simp add: normalizeOpenAiUsage_def geminiNormalize_def Let_def max_def)

lemma cached_tokens_split_witness:
  "let usage = JObj [(''prompt_tokens'', JNum 100), (''prompt_tokens_details'', JObj [(''cached_tokens'', JNum 60)])];
       meta = JObj [(''promptTokenCount'', JNum 50), (''cachedContentTokenCount'', JNum 20)] in
   nu_input (normalizeOpenAiUsage ''m'' usage True) + nu_cacheRead (normalizeOpenAiUsage ''m'' usage True)
      = numField (Some usage) ''prompt_tokens''
   \<and> nu_input (geminiNormalize ''m'' (Some meta)) + nu_cacheRead (geminiNormalize ''m'' (Some meta))
      = numField (Some meta) ''promptTokenCount''"
  unfolding Let_def by (rule cached_tokens_split) (simp_all add: numField_def jgetOpt_def)

end
