(* ===== verification/Translate.thy ===== *)
theory Translate
  imports Providers
begin

text \<open>
  Format translation for the unified endpoint (\<open>packages/providers/src/translate.ts\<close>): OpenAI chat
  requests into Anthropic and Gemini requests, their responses back, and Anthropic's event stream into
  OpenAI chunks. JSON objects keep their fields in the order the source writes them. The stream
  translator is shown to pass on exactly the text of the Anthropic stream.
\<close>

section \<open>Messages\<close>

definition DEFAULT_MAX_TOKENS :: jsnumber where
  "DEFAULT_MAX_TOKENS = 4096"

fun contentToText :: "json option \<Rightarrow> string" where
  "contentToText (Some (JStr s)) = s"
| "contentToText (Some (JArr parts)) = concat (map (\<lambda>p. strField (Some p) ''text'') parts)"
| "contentToText _ = []"

definition bodyMessages :: "json \<Rightarrow> json list" where
  "bodyMessages body = (case coalesce (jget body ''messages'') (JArr []) of JArr ms \<Rightarrow> ms | _ \<Rightarrow> [])"

definition hasRole :: "string \<Rightarrow> json \<Rightarrow> bool" where
  "hasRole r m \<longleftrightarrow> jget m ''role'' = Some (JStr r)"

definition systemText :: "json \<Rightarrow> string" where
  "systemText body =
     joinWith [CHR 0x0A, CHR 0x0A]
       (map (\<lambda>m. contentToText (jget m ''content'')) (filter (hasRole ''system'') (bodyMessages body)))"

definition dialogue :: "json \<Rightarrow> json list" where
  "dialogue body = filter (\<lambda>m. hasRole ''user'' m \<or> hasRole ''assistant'' m) (bodyMessages body)"

text \<open>A field copied when it is neither \<open>null\<close> nor \<open>undefined\<close>.\<close>

definition optField :: "string \<Rightarrow> json option \<Rightarrow> (string \<times> json) list" where
  "optField k v = (if nullish v then [] else [(k, the v)])"

definition orElse :: "json option \<Rightarrow> json option \<Rightarrow> json option" where
  "orElse a b = (if nullish a then b else a)"

section \<open>Anthropic\<close>

definition openaiToAnthropicRequest :: "json \<Rightarrow> string \<Rightarrow> json" where
  "openaiToAnthropicRequest body model =
     JObj ([(''model'', JStr model),
            (''max_tokens'', coalesce (orElse (jget body ''max_tokens'') (jget body ''max_completion_tokens''))
                               (JNum DEFAULT_MAX_TOKENS)),
            (''messages'', JArr (map (\<lambda>m. JObj [(''role'', the (jget m ''role'')),
                                              (''content'', JStr (contentToText (jget m ''content'')))])
                                   (dialogue body)))]
           @ (if systemText body \<noteq> [] then [(''system'', JStr (systemText body))] else [])
           @ optField ''temperature'' (jget body ''temperature'')
           @ optField ''top_p'' (jget body ''top_p'')
           @ (if nullish (jget body ''stop'') then []
              else [(''stop_sequences'', case the (jget body ''stop'') of JArr xs \<Rightarrow> JArr xs | x \<Rightarrow> JArr [x])])
           @ (if truthy (jget body ''stream'') then [(''stream'', JBool True)] else []))"

definition ANTHROPIC_FINISH :: "(string, string) omap" where
  "ANTHROPIC_FINISH =
     [(''end_turn'', ''stop''), (''stop_sequence'', ''stop''), (''max_tokens'', ''length''), (''tool_use'', ''tool_calls'')]"

definition finishReason :: "(string, string) omap \<Rightarrow> string \<Rightarrow> string" where
  "finishReason table r = (case map_of table r of None \<Rightarrow> ''stop'' | Some f \<Rightarrow> f)"

definition arrField :: "json option \<Rightarrow> string \<Rightarrow> json list" where
  "arrField v k = (case jgetOpt v k of Some (JArr xs) \<Rightarrow> xs | _ \<Rightarrow> [])"

definition chatUsage :: "jsnumber \<Rightarrow> jsnumber \<Rightarrow> json" where
  "chatUsage i out =
     JObj [(''prompt_tokens'', JNum i), (''completion_tokens'', JNum out), (''total_tokens'', JNum (i + out))]"

definition chatCompletion :: "string \<Rightarrow> jsnumber \<Rightarrow> string \<Rightarrow> string \<Rightarrow> string \<Rightarrow> json \<Rightarrow> json" where
  "chatCompletion i created model content reason usage =
     JObj [(''id'', JStr i), (''object'', JStr ''chat.completion''), (''created'', JNum created), (''model'', JStr model),
           (''choices'', JArr [JObj [(''index'', JNum 0),
              (''message'', JObj [(''role'', JStr ''assistant''), (''content'', JStr content)]),
              (''finish_reason'', JStr reason)]]),
           (''usage'', usage)]"

definition anthropicToOpenaiResponse :: "json \<Rightarrow> jsnumber \<Rightarrow> json" where
  "anthropicToOpenaiResponse j created =
     chatCompletion
       (if nullish (jget j ''id'') then ''chatcmpl-tt'' else strField (Some j) ''id'')
       created (strField (Some j) ''model'')
       (concat (map (\<lambda>b. strField (Some b) ''text'') (arrField (Some j) ''content'')))
       (finishReason ANTHROPIC_FINISH (strField (Some j) ''stop_reason''))
       (chatUsage (numField (jget j ''usage'') ''input_tokens'') (numField (jget j ''usage'') ''output_tokens''))"

section \<open>The stream translator\<close>

text \<open>What one frame makes the translator emit: chunks, or the end marker.\<close>

datatype sse_out = Chunk json | DoneMark

definition renderOut :: "(json \<Rightarrow> string) \<Rightarrow> sse_out \<Rightarrow> string" where
  "renderOut stringify o1 =
     (case o1 of
        Chunk j \<Rightarrow> ''data: '' @ stringify j @ [CHR 0x0A, CHR 0x0A]
      | DoneMark \<Rightarrow> ''data: [DONE]'' @ [CHR 0x0A, CHR 0x0A])"

definition chatChunk :: "string \<Rightarrow> jsnumber \<Rightarrow> json \<Rightarrow> json \<Rightarrow> sse_out" where
  "chatChunk model created delta reason =
     Chunk (JObj [(''id'', JStr ''chatcmpl-tt-stream''), (''object'', JStr ''chat.completion.chunk''),
                  (''created'', JNum created), (''model'', JStr model),
                  (''choices'', JArr [JObj [(''index'', JNum 0), (''delta'', delta), (''finish_reason'', reason)]])])"

text \<open>The state is the flag \<open>started\<close> and what has been emitted so far.\<close>

definition translatePayload :: "string \<Rightarrow> jsnumber \<Rightarrow> json \<Rightarrow> bool \<times> sse_out list \<Rightarrow> bool \<times> sse_out list" where
  "translatePayload model created data st =
     (case st of (started, out) \<Rightarrow>
        (if jget data ''type'' = Some (JStr ''message_start'') \<and> \<not> started
         then (True, out @ [chatChunk model created (JObj [(''role'', JStr ''assistant''), (''content'', JStr [])]) JNull])
         else if jget data ''type'' = Some (JStr ''content_block_delta'')
         then (let delta = jget data ''delta'' in
               if jgetOpt delta ''type'' = Some (JStr ''text_delta'') \<and> strField delta ''text'' \<noteq> []
               then (started, out @ [chatChunk model created (JObj [(''content'', JStr (strField delta ''text''))]) JNull])
               else (started, out))
         else if jget data ''type'' = Some (JStr ''message_delta'')
         then (started, out @ [chatChunk model created (JObj [])
                 (JStr (finishReason ANTHROPIC_FINISH (strField (jget data ''delta'') ''stop_reason'')))])
         else if jget data ''type'' = Some (JStr ''message_stop'') then (started, out @ [DoneMark])
         else (started, out)))"

definition translateFrame ::
  "(string \<Rightarrow> json option) \<Rightarrow> string \<Rightarrow> jsnumber \<Rightarrow> string \<Rightarrow> bool \<times> sse_out list \<Rightarrow> bool \<times> sse_out list" where
  "translateFrame parse model created frame st =
     (case ssePayload parse frame of None \<Rightarrow> st | Some data \<Rightarrow> translatePayload model created data st)"

section \<open>Gemini\<close>

definition openaiToGeminiRequest :: "json \<Rightarrow> json" where
  "openaiToGeminiRequest body =
     (let contents = map (\<lambda>m. JObj [(''role'', JStr (if hasRole ''assistant'' m then ''model'' else ''user'')),
                                   (''parts'', JArr [JObj [(''text'', JStr (contentToText (jget m ''content'')))]])])
                       (dialogue body);
          config = optField ''maxOutputTokens'' (orElse (jget body ''max_tokens'') (jget body ''max_completion_tokens''))
                   @ optField ''temperature'' (jget body ''temperature'') @ optField ''topP'' (jget body ''top_p'')
      in JObj ([(''contents'', JArr contents)]
               @ (if systemText body \<noteq> []
                  then [(''systemInstruction'', JObj [(''parts'', JArr [JObj [(''text'', JStr (systemText body))]])])] else [])
               @ (if config \<noteq> [] then [(''generationConfig'', JObj config)] else [])))"

definition GEMINI_FINISH :: "(string, string) omap" where
  "GEMINI_FINISH =
     [(''STOP'', ''stop''), (''MAX_TOKENS'', ''length''), (''SAFETY'', ''content_filter''), (''RECITATION'', ''content_filter'')]"

definition geminiToOpenaiResponse :: "json \<Rightarrow> string \<Rightarrow> jsnumber \<Rightarrow> json" where
  "geminiToOpenaiResponse j model created =
     (let candidate = (case arrField (Some j) ''candidates'' of [] \<Rightarrow> None | c # _ \<Rightarrow> Some c) in
      chatCompletion ''chatcmpl-tt'' created
        (if nullish (jget j ''modelVersion'') then model else strField (Some j) ''modelVersion'')
        (concat (map (\<lambda>p. strField (Some p) ''text'') (arrField (jgetOpt candidate ''content'') ''parts'')))
        (finishReason GEMINI_FINISH (strField candidate ''finishReason''))
        (chatUsage (numField (jget j ''usageMetadata'') ''promptTokenCount'')
                   (numField (jget j ''usageMetadata'') ''candidatesTokenCount'')))"

section \<open>Lemmas: the stream translator\<close>

interpretation translated_stream: stream_observer "translateFrame parse model created" "ssePayload parse"
  "translatePayload model created" for parse model created
  by unfold_locales (simp add: translateFrame_def)

text \<open>The text an Anthropic payload carries and the text an emitted chunk carries.\<close>

definition payloadText :: "json \<Rightarrow> string" where
  "payloadText j =
     (if jget j ''type'' = Some (JStr ''content_block_delta'') \<and> jgetOpt (jget j ''delta'') ''type'' = Some (JStr ''text_delta'')
      then strField (jget j ''delta'') ''text'' else [])"

definition firstChoice :: "sse_out \<Rightarrow> json option" where
  "firstChoice out =
     (case out of
        DoneMark \<Rightarrow> None
      | Chunk j \<Rightarrow> (case arrField (Some j) ''choices'' of [] \<Rightarrow> None | c # _ \<Rightarrow> Some c))"

definition outText :: "sse_out \<Rightarrow> string" where
  "outText out = strField (jgetOpt (firstChoice out) ''delta'') ''content''"

definition announcesRole :: "sse_out \<Rightarrow> bool" where
  "announcesRole out \<longleftrightarrow> jgetOpt (jgetOpt (firstChoice out) ''delta'') ''role'' \<noteq> None"

lemma chatChunk_text [simp]: "outText (chatChunk m c delta r) = strField (Some delta) ''content''"
  by (simp add: outText_def firstChoice_def chatChunk_def arrField_def jgetOpt_def)

lemma chatChunk_role [simp]: "announcesRole (chatChunk m c delta r) \<longleftrightarrow> jget delta ''role'' \<noteq> None"
  by (simp add: announcesRole_def firstChoice_def chatChunk_def arrField_def jgetOpt_def)

lemma DoneMark_view [simp]: "outText DoneMark = []" "\<not> announcesRole DoneMark"
  by (simp_all add: outText_def announcesRole_def firstChoice_def strField_def jgetOpt_def)

lemma strField_obj [simp]: "strField (Some (JObj [(''content'', JStr t)])) ''content'' = t"
  "strField (Some (JObj [(''role'', x), (''content'', JStr t)])) ''content'' = t"
  "strField (Some (JObj [])) k = []"
  by (simp_all add: strField_def jgetOpt_def)

lemma DoneMark_not_chunk [simp]: "DoneMark \<noteq> chatChunk m c delta r"
  by (simp add: chatChunk_def)

definition isMessageStop :: "json \<Rightarrow> bool" where
  "isMessageStop j \<longleftrightarrow> jget j ''type'' = Some (JStr ''message_stop'')"

lemma translatePayload_step:
  assumes "translatePayload model created j (started, out) = (started', out')"
  shows "concat (map outText out') = concat (map outText out) @ payloadText j"
    and "length (filter announcesRole out') + (if started then 1 else 0) = length (filter announcesRole out) + (if started' then 1 else 0)"
    and "length (filter ((=) DoneMark) out') = length (filter ((=) DoneMark) out) + (if isMessageStop j then 1 else 0)"
proof -
  note step = assms [unfolded translatePayload_def prod.case Let_def]
  show "concat (map outText out') = concat (map outText out) @ payloadText j"
    using step by (auto simp: payloadText_def split: if_splits)
  show "length (filter announcesRole out') + (if started then 1 else 0) = length (filter announcesRole out) + (if started' then 1 else 0)"
    using step by (auto split: if_splits)
  show "length (filter ((=) DoneMark) out') = length (filter ((=) DoneMark) out) + (if isMessageStop j then 1 else 0)"
    using step by (auto simp: isMessageStop_def split: if_splits)
qed

lemma translate_all:
  assumes "foldl (\<lambda>st j. translatePayload model created j st) (False, []) js = (started, out)"
  shows "concat (map outText out) = concat (map payloadText js)"
    and "length (filter announcesRole out) = (if started then 1 else 0)"
    and "length (filter ((=) DoneMark) out) = length (filter isMessageStop js)"
  using assms
proof (induction js arbitrary: started out rule: rev_induct)
  case (snoc j js)
  obtain s0 o0 where st: "foldl (\<lambda>st j. translatePayload model created j st) (False, []) js = (s0, o0)" by force
  { case 1
    then have "translatePayload model created j (s0, o0) = (started, out)" by (simp add: st)
    from translatePayload_step(1) [OF this] snoc.IH(1) [OF st] show ?case by simp
  next
    case 2
    then have "translatePayload model created j (s0, o0) = (started, out)" by (simp add: st)
    from translatePayload_step(2) [OF this] snoc.IH(2) [OF st] show ?case by simp
  next
    case 3
    then have "translatePayload model created j (s0, o0) = (started, out)" by (simp add: st)
    from translatePayload_step(3) [OF this] snoc.IH(3) [OF st] show ?case by simp }
qed simp_all

section \<open>Properties\<close>

text \<open>
  C34. Stream translation is lossless on text. For every sequence of frames of an Anthropic stream, the
  chunks the translator emits carry, concatenated, exactly the text deltas of the stream; the
  assistant role is announced at most once; and the end marker is emitted once per message stop.
\<close>

theorem translated_stream_keeps_text:
  "let (started, out) = foldl (\<lambda>st f. translateFrame parse model created f st) (False, []) frames;
       payloads = List.map_filter (ssePayload parse) frames in
   concat (map outText out) = concat (map payloadText payloads)
   \<and> length (filter announcesRole out) \<le> 1
   \<and> length (filter ((=) DoneMark) out) = length (filter isMessageStop payloads)"
proof -
  obtain started out where st:
    "foldl (\<lambda>st j. translatePayload model created j st) (False, []) (List.map_filter (ssePayload parse) frames) = (started, out)"
    by force
  from translate_all [OF st] show ?thesis
    by (simp add: translated_stream.observe_all st)
qed

end
