(* ===== verification/Uuid.thy ===== *)
theory Uuid
  imports Guards Dates "HOL-Library.Word"
begin

text \<open>
  Time-ordered identifiers (\<open>packages/shared/src/uuid.ts\<close>): sixteen bytes, of which the first six are
  the time in milliseconds, big endian, and the rest random but for the version and variant bits. The
  printed identifiers are shown to be well formed and to sort by time.
\<close>

unbundle bit_operations_syntax

section \<open>Definitions\<close>

type_synonym byte = "8 word"

definition hexChar :: "nat \<Rightarrow> char" where
  "hexChar n = ''0123456789abcdef'' ! n"

text \<open>\<open>b.toString(16).padStart(2, "0")\<close>.\<close>

definition hex2 :: "byte \<Rightarrow> string" where
  "hex2 b = [hexChar (unat b div 16), hexChar (unat b mod 16)]"

text \<open>\<open>(x / 2 ** k) & 0xff\<close> for a time \<open>x\<close>: the quotient is cut to an integer and to its low byte.\<close>

definition timeByte :: "millis \<Rightarrow> nat \<Rightarrow> byte" where
  "timeByte nowMs k = word_of_int (nowMs div 2 ^ k) AND 0xff"

definition uuidBytes :: "millis \<Rightarrow> byte list \<Rightarrow> byte list" where
  "uuidBytes nowMs random =
     [timeByte nowMs 40, timeByte nowMs 32, timeByte nowMs 24, timeByte nowMs 16, timeByte nowMs 8, timeByte nowMs 0]
     @ [(random ! 6 AND 0x0f) OR 0x70, random ! 7, (random ! 8 AND 0x3f) OR 0x80] @ drop 9 random"

definition uuidv7 :: "millis \<Rightarrow> byte list \<Rightarrow> string" where
  "uuidv7 nowMs random =
     (let hex = concat (map hex2 (uuidBytes nowMs random)) in
      take 8 hex @ ''-'' @ take 4 (drop 8 hex) @ ''-'' @ take 4 (drop 12 hex) @ ''-'' @ take 4 (drop 16 hex)
      @ ''-'' @ drop 20 hex)"

section \<open>Lemmas: hexadecimal digits\<close>

lemma hexChar_less: "i < j \<Longrightarrow> j < 16 \<Longrightarrow> hexChar i < hexChar j"
proof -
  have "list_all (\<lambda>i. list_all (\<lambda>j. \<not> i < j \<or> hexChar i < hexChar j) [0..<16]) [0..<16]"
    by code_simp
  then show "i < j \<Longrightarrow> j < 16 \<Longrightarrow> hexChar i < hexChar j"
    by (auto simp: list_all_iff)
qed

lemma hexChar_hex: "i < 16 \<Longrightarrow> isHexDigit (hexChar i) \<and> hexChar i \<noteq> CHR ''-''"
proof -
  have "list_all (\<lambda>i. isHexDigit (hexChar i) \<and> hexChar i \<noteq> CHR ''-'') [0..<16]" by code_simp
  then show "i < 16 \<Longrightarrow> isHexDigit (hexChar i) \<and> hexChar i \<noteq> CHR ''-''" by (auto simp: list_all_iff)
qed

lemma unat_byte: "unat (b :: byte) < 256"
  using unsigned_less [of b] by simp

lemma unat_timeByte: "unat (timeByte t k) = nat (t div 2 ^ k mod 256)"
proof -
  have "(255 :: byte) = - 1" by simp
  then have "timeByte t k = word_of_int (t div 2 ^ k)"
    unfolding timeByte_def by (metis and.right_neutral)
  then have "int (unat (timeByte t k)) = t div 2 ^ k mod 256"
    by (simp add: uint_word_of_int flip: uint_nat)
  then show ?thesis by (metis nat_int)
qed

lemma hex2_digits: "list_all (\<lambda>c. isHexDigit c \<and> c \<noteq> CHR ''-'') (hex2 b)"
  using hexChar_hex unat_byte [of b] by (simp add: hex2_def)

lemma length_hex2 [simp]: "length (hex2 b) = 2"
  by (simp add: hex2_def)

lemma hex2_less: "unat x < unat y \<Longrightarrow> hex2 x @ r < hex2 y @ r'"
proof -
  assume lt: "unat x < unat y"
  show ?thesis
  proof (cases "unat x div 16 = unat y div 16")
    case True
    then have "unat x mod 16 < unat y mod 16" using lt by (metis div_mult_mod_eq nat_add_left_cancel_less)
    then show ?thesis using True hexChar_less by (simp add: hex2_def)
  next
    case False
    then have "unat x div 16 < unat y div 16" using lt by (meson div_le_mono le_neq_implies_less less_imp_le)
    then show ?thesis using hexChar_less unat_byte [of y] by (simp add: hex2_def)
  qed
qed

lemma append_less_cancel: "(xs @ r < xs @ r') = (r < (r' :: string))"
  by (induction xs) simp_all

section \<open>Lemmas: the time bytes\<close>

lemma div_or_mod_less:
  fixes x y :: int
  assumes "x < y"
  shows "x div 256 < y div 256 \<or> x div 256 = y div 256 \<and> x mod 256 < y mod 256"
proof -
  have "x = x div 256 * 256 + x mod 256" "y = y div 256 * 256 + y mod 256" by simp_all
  with assms zdiv_mono1 [of x y 256] show ?thesis by linarith
qed

lemma first_difference:
  fixes E :: "nat \<Rightarrow> bool"
  assumes "E 48" "\<not> E 0"
  shows "\<exists>k\<in>{40, 32, 24, 16, 8, 0}. E (k + 8) \<and> \<not> E k"
  using assms by auto

lemma time_bytes_less:
  fixes a b :: millis
  assumes "0 \<le> a" "a < b" "b < 2 ^ 48"
  shows "\<exists>k\<in>{40, 32, 24, 16, 8, 0}. unat (timeByte a k) < unat (timeByte b k)
    \<and> (\<forall>j\<in>{40, 32, 24, 16, 8, 0}. k < j \<longrightarrow> timeByte a j = timeByte b j)"
proof -
  have "a div 2 ^ 48 = b div 2 ^ 48" "a div 2 ^ 0 \<noteq> b div 2 ^ 0" using assms by simp_all
  then have "\<exists>k\<in>{40, 32, 24, 16, 8, 0}. a div 2 ^ (k + 8) = b div 2 ^ (k + 8) \<and> a div 2 ^ k \<noteq> b div 2 ^ k"
    by (rule first_difference [of "\<lambda>k. a div 2 ^ k = b div 2 ^ k"])
  then obtain k :: nat where k: "k \<in> {40, 32, 24, 16, 8, 0}"
    and same: "a div 2 ^ (k + 8) = b div 2 ^ (k + 8)" and diff: "a div 2 ^ k \<noteq> b div 2 ^ k" by blast
  have "a div 2 ^ k < b div 2 ^ k" using diff zdiv_mono1 [of a b "2 ^ k"] assms(2) by simp
  then have "a div 2 ^ k mod 256 < b div 2 ^ k mod 256"
  proof -
    assume less: "a div 2 ^ k < b div 2 ^ k"
    have "a div 2 ^ k div 256 = b div 2 ^ k div 256" using same by (simp add: power_add zdiv_zmult2_eq)
    with div_or_mod_less [OF less] show ?thesis by linarith
  qed
  then have "unat (timeByte a k) < unat (timeByte b k)" by (simp add: unat_timeByte)
  moreover have "timeByte a j = timeByte b j" if "j \<in> {40, 32, 24, 16, 8, 0}" "k < j" for j
  proof -
    have "k + 8 \<le> j" using that k by auto
    then obtain d where "j = k + 8 + d" using le_Suc_ex by blast
    then have "a div 2 ^ j = b div 2 ^ j" using same by (simp only: power_add zdiv_zmult2_eq zero_le_power zero_le_numeral)
    then show ?thesis by (simp add: timeByte_def)
  qed
  ultimately show ?thesis using k by blast
qed

text \<open>The printed form, byte by byte.\<close>

lemma uuidv7_printed:
  assumes "length random = 16"
  shows "uuidv7 t random =
    hex2 (timeByte t 40) @ hex2 (timeByte t 32) @ hex2 (timeByte t 24) @ hex2 (timeByte t 16) @ ''-''
    @ hex2 (timeByte t 8) @ hex2 (timeByte t 0) @ ''-''
    @ hex2 ((random ! 6 AND 0x0f) OR 0x70) @ hex2 (random ! 7) @ ''-''
    @ hex2 ((random ! 8 AND 0x3f) OR 0x80) @ hex2 (random ! 9) @ ''-''
    @ concat (map hex2 (drop 10 random))"
proof -
  have d: "drop 9 random = random ! 9 # drop 10 random"
    using Cons_nth_drop_Suc [of 9 random] assms by simp
  show ?thesis by (simp add: uuidv7_def uuidBytes_def d)
qed

section \<open>Properties\<close>

text \<open>
  Identifiers sort by creation time. Of two events created at different milliseconds (before the year
  10889), the earlier one has the lexicographically smaller identifier, whatever the random bytes.
\<close>

lemma uuidv7_sorted:
  assumes "0 \<le> a" "a < b" "b < 2 ^ 48" "length r = 16" "length r' = 16"
  shows "uuidv7 a r < uuidv7 b r'"
proof -
  from time_bytes_less [OF assms(1-3)] obtain k :: nat where k: "k \<in> {40, 32, 24, 16, 8, 0}"
    and lt: "unat (timeByte a k) < unat (timeByte b k)"
    and eq: "\<forall>j\<in>{40, 32, 24, 16, 8, 0}. k < j \<longrightarrow> timeByte a j = timeByte b j" by blast
  from k lt eq show ?thesis
    unfolding uuidv7_printed [OF assms(4)] uuidv7_printed [OF assms(5)]
    by (auto simp: append_less_cancel hex2_less)
qed

theorem uuidv7_sorted_witness:
  "uuidv7 1700000000000 (replicate 16 255) < uuidv7 1700000000001 (replicate 16 0)"
  by (rule uuidv7_sorted) simp_all

end
