(* ===== verification/Auth.thy ===== *)
theory Auth
  imports Uuid Json
begin

text \<open>
  The package \<open>packages/auth\<close>: token minting (\<open>tokens.ts\<close>), the envelope of encrypted provider secrets
  (\<open>crypto.ts\<close>), password hashing (\<open>password.ts\<close>) and access tokens (\<open>jwt.ts\<close>). SHA-256, AES-256-GCM,
  scrypt and the JWT library are arguments; random bytes are arguments too. What is proved is what the
  code around them contributes: the layout of the envelope and key rotation, the format of stored
  password hashes, unbiased sampling.
\<close>

section \<open>Base64 (Buffer)\<close>

definition B64 :: string where
  "B64 = ''ABCDEFGHIJKLMNOPQRSTUVWXYZabcdefghijklmnopqrstuvwxyz0123456789+/''"

text \<open>Decoding also accepts the URL alphabet and skips foreign characters.\<close>

definition b64Val :: "char \<Rightarrow> nat option" where
  "b64Val c =
     (if c = CHR ''-'' then Some 62 else if c = CHR ''_'' then Some 63
      else if c \<in> set B64 then Some (length (takeWhile (\<lambda>x. x \<noteq> c) B64)) else None)"

fun sextets :: "byte list \<Rightarrow> nat list" where
  "sextets [] = []"
| "sextets [a] = [unat a div 4, unat a mod 4 * 16]"
| "sextets [a, b] = [unat a div 4, unat a mod 4 * 16 + unat b div 16, unat b mod 16 * 4]"
| "sextets (a # b # c # r) =
     [unat a div 4, unat a mod 4 * 16 + unat b div 16, unat b mod 16 * 4 + unat c div 64, unat c mod 64] @ sextets r"

fun octets :: "nat list \<Rightarrow> byte list" where
  "octets (w # x # y # z # r) =
     [word_of_nat (w * 4 + x div 16), word_of_nat (x mod 16 * 16 + y div 4), word_of_nat (y mod 4 * 64 + z)] @ octets r"
| "octets [w, x, y] = [word_of_nat (w * 4 + x div 16), word_of_nat (x mod 16 * 16 + y div 4)]"
| "octets [w, x] = [word_of_nat (w * 4 + x div 16)]"
| "octets _ = []"

definition base64Encode :: "byte list \<Rightarrow> string" where
  "base64Encode bs = map (\<lambda>n. B64 ! n) (sextets bs) @ replicate ((3 - length bs mod 3) mod 3) CHR ''=''"

definition base64Decode :: "string \<Rightarrow> byte list" where
  "base64Decode s = octets (List.map_filter b64Val (takeWhile (\<lambda>c. c \<noteq> CHR ''='') s))"

section \<open>Tokens (tokens.ts)\<close>

definition BASE62 :: string where
  "BASE62 = ''0123456789ABCDEFGHIJKLMNOPQRSTUVWXYZabcdefghijklmnopqrstuvwxyz''"

text \<open>The inner loop over one block of random bytes.\<close>

fun sampleBlock :: "nat \<Rightarrow> string \<Rightarrow> byte list \<Rightarrow> string" where
  "sampleBlock n out [] = out"
| "sampleBlock n out (b # bs) =
     (if unat b < 248
      then (let out' = out @ [BASE62 ! (unat b mod 62)] in
            if length out' = n then out' else sampleBlock n out' bs)
      else sampleBlock n out bs)"

text \<open>
  \<open>randomBase62\<close>: blocks of random bytes are drawn until enough bytes are accepted. The blocks are an
  argument; \<^term>\<open>None\<close> means that the given ones do not suffice.
\<close>

fun randomBase62 :: "nat \<Rightarrow> string \<Rightarrow> byte list list \<Rightarrow> string option" where
  "randomBase62 n out blocks =
     (if length out < n
      then (case blocks of [] \<Rightarrow> None | b # bs \<Rightarrow> randomBase62 n (sampleBlock n out b) bs)
      else Some out)"

declare randomBase62.simps [simp del]

record minted_token =
  mt_token :: string
  mt_hash :: string
  mt_last4 :: string

definition mint :: "(string \<Rightarrow> string) \<Rightarrow> string \<Rightarrow> nat \<Rightarrow> byte list list \<Rightarrow> minted_token option" where
  "mint sha256Hex prefix entropyChars blocks =
     (case randomBase62 entropyChars [] blocks of
        None \<Rightarrow> None
      | Some r \<Rightarrow> (let token = prefix @ r in
                    Some \<lparr>mt_token = token, mt_hash = sha256Hex token, mt_last4 = sliceLast 4 token\<rparr>))"

definition mintVirtualKey :: "(string \<Rightarrow> string) \<Rightarrow> byte list list \<Rightarrow> minted_token option" where
  "mintVirtualKey sha blocks = mint sha TOKEN_PREFIX_virtualKey 24 blocks"

definition mintPersonalAccessToken :: "(string \<Rightarrow> string) \<Rightarrow> byte list list \<Rightarrow> minted_token option" where
  "mintPersonalAccessToken sha blocks = mint sha TOKEN_PREFIX_personalAccessToken 32 blocks"

definition mintInviteToken :: "(string \<Rightarrow> string) \<Rightarrow> byte list list \<Rightarrow> minted_token option" where
  "mintInviteToken sha blocks = mint sha TOKEN_PREFIX_invite 32 blocks"

definition mintRefreshToken :: "(string \<Rightarrow> string) \<Rightarrow> byte list list \<Rightarrow> minted_token option" where
  "mintRefreshToken sha blocks = mint sha ''ttr_'' 48 blocks"

text \<open>\<open>Buffer.from(s, "hex")\<close>: pairs of hexadecimal digits up to the first pair that is not.\<close>

definition hexVal :: "char \<Rightarrow> nat" where
  "hexVal c = (if isDigit c then digitVal c else of_char (lowerChar c) - 87)"

fun hexBytes :: "string \<Rightarrow> byte list" where
  "hexBytes (a # b # r) =
     (if isHexDigit a \<and> isHexDigit b then word_of_nat (hexVal a * 16 + hexVal b) # hexBytes r else [])"
| "hexBytes _ = []"

definition verifyTokenHash :: "(string \<Rightarrow> string) \<Rightarrow> string \<Rightarrow> string \<Rightarrow> bool" where
  "verifyTokenHash sha256Hex presentedToken storedHash =
     (let presented = hexBytes (sha256Hex presentedToken); stored = hexBytes storedHash in
      length presented = length stored \<and> presented = stored)"

section \<open>The envelope (crypto.ts)\<close>

definition IV_LENGTH :: nat where
  "IV_LENGTH = 12"

definition TAG_LENGTH :: nat where
  "TAG_LENGTH = 16"

datatype crypto_error = BadMasterKey | NoKey | InvalidEnvelope | UnknownKeyId nat | AuthenticationFailed

type_synonym key_ring = "(nat, byte list) omap"

definition keyRingFromEnv :: "string \<Rightarrow> crypto_error + key_ring" where
  "keyRingFromEnv masterKeyBase64 =
     (let key = base64Decode masterKeyBase64 in
      if length key \<noteq> 32 then Inl BadMasterKey else Inr [(0, key)])"

text \<open>\<open>seal\<close> is AES-256-GCM encryption: from key, nonce and plain text to cipher text and tag.\<close>

definition encryptSecret ::
  "(byte list \<Rightarrow> byte list \<Rightarrow> byte list \<Rightarrow> byte list \<times> byte list) \<Rightarrow> byte list \<Rightarrow> byte list \<Rightarrow> key_ring \<Rightarrow>
   crypto_error + byte list" where
  "encryptSecret seal iv plaintext ring =
     (if ring = [] then Inl NoKey
      else (let keyId = Max (set (map fst ring)) in
            case map_of ring keyId of
              None \<Rightarrow> Inl NoKey
            | Some key \<Rightarrow>
                (let (ciphertext, tag) = seal key iv plaintext in
                 Inr ([word_of_nat keyId] @ iv @ ciphertext @ tag))))"

text \<open>\<open>unseal\<close> is its inverse, \<^term>\<open>None\<close> when the tag does not authenticate the cipher text.\<close>

definition decryptSecret ::
  "(byte list \<Rightarrow> byte list \<Rightarrow> byte list \<Rightarrow> byte list \<Rightarrow> byte list option) \<Rightarrow> byte list \<Rightarrow> key_ring \<Rightarrow>
   crypto_error + byte list" where
  "decryptSecret unseal envelope ring =
     (if length envelope < 1 + IV_LENGTH + TAG_LENGTH then Inl InvalidEnvelope
      else (let keyId = unat (envelope ! 0) in
            case map_of ring keyId of
              None \<Rightarrow> Inl (UnknownKeyId keyId)
            | Some key \<Rightarrow>
                (let iv = take IV_LENGTH (drop 1 envelope);
                     tag = drop (length envelope - TAG_LENGTH) envelope;
                     ciphertext = drop (1 + IV_LENGTH) (take (length envelope - TAG_LENGTH) envelope) in
                 case unseal key iv ciphertext tag of
                   None \<Rightarrow> Inl AuthenticationFailed
                 | Some p \<Rightarrow> Inr p)))"

section \<open>Passwords (password.ts)\<close>

text \<open>
  \<open>scrypt\<close> takes the password, the salt, the key length and the cost parameters, \<^term>\<open>None\<close> standing for a
  parameter that is not a number; its result is \<^term>\<open>None\<close> when it raises.
\<close>

type_synonym scrypt_fun =
  "string \<Rightarrow> byte list \<Rightarrow> nat \<Rightarrow> nat option \<times> nat option \<times> nat option \<Rightarrow> byte list option"

definition hashPassword :: "scrypt_fun \<Rightarrow> byte list \<Rightarrow> string \<Rightarrow> string option" where
  "hashPassword scrypt salt password =
     (case scrypt password salt 32 (Some 32768, Some 8, Some 1) of
        None \<Rightarrow> None
      | Some h \<Rightarrow> Some (joinWith ''$'' [''scrypt'', showNat 32768, showNat 8, showNat 1, base64Encode salt, base64Encode h]))"

definition numberOf :: "string \<Rightarrow> nat option" where
  "numberOf s = (if s \<noteq> [] \<and> list_all isDigit s then Some (digitsVal s) else None)"

definition verifyPassword :: "scrypt_fun \<Rightarrow> string \<Rightarrow> string \<Rightarrow> bool option" where
  "verifyPassword scrypt password stored =
     (case splitOn CHR ''$'' stored of
        [scheme, nStr, rStr, pStr, saltB64, hashB64] \<Rightarrow>
          (if scheme \<noteq> ''scrypt'' then Some False
           else (let salt = base64Decode saltB64; expected = base64Decode hashB64 in
                 case scrypt password salt (length expected) (numberOf nStr, numberOf rStr, numberOf pStr) of
                   None \<Rightarrow> None
                 | Some actual \<Rightarrow> Some (length actual = length expected \<and> actual = expected)))
      | _ \<Rightarrow> Some False)"

section \<open>Access tokens (jwt.ts)\<close>

definition ISSUER :: string where
  "ISSUER = ''tokenledger''"

definition ACCESS_TOKEN_TTL_S :: int where
  "ACCESS_TOKEN_TTL_S = 15 * 60"

definition REFRESH_TOKEN_TTL_S :: int where
  "REFRESH_TOKEN_TTL_S = 30 * 24 * 60 * 60"

text \<open>\<open>sign\<close> and \<open>jwtVerify\<close> are the library's, on the payload and the secret; verification also checks the issuer.\<close>

definition signAccessToken :: "(json \<Rightarrow> string \<Rightarrow> string) \<Rightarrow> int \<Rightarrow> string \<times> string \<Rightarrow> string \<Rightarrow> int \<Rightarrow> string" where
  "signAccessToken sign nowS claims secretKey ttlSeconds =
     sign (JObj [(''email'', JStr (snd claims)), (''sub'', JStr (fst claims)), (''iss'', JStr ISSUER),
                 (''iat'', JNum (of_int nowS)), (''exp'', JNum (of_int (nowS + ttlSeconds)))]) secretKey"

definition verifyAccessToken ::
  "(string \<Rightarrow> string \<Rightarrow> string \<Rightarrow> json option) \<Rightarrow> string \<Rightarrow> string \<Rightarrow> (string \<times> string) option" where
  "verifyAccessToken jwtVerify token secretKey =
     (case jwtVerify token secretKey ISSUER of
        None \<Rightarrow> None
      | Some payload \<Rightarrow>
          (case (jget payload ''sub'', jget payload ''email'') of
             (Some (JStr sub), Some (JStr email)) \<Rightarrow> Some (sub, email)
           | _ \<Rightarrow> None))"

section \<open>Lemmas: base64\<close>

lemma unat_byte_of_nat: "n < 256 \<Longrightarrow> unat (word_of_nat n :: byte) = n"
  by (simp add: unsigned_of_nat take_bit_eq_mod)

lemma pack: "y < k \<Longrightarrow> (x * k + y) div k = (x :: nat)" "y < k \<Longrightarrow> (x * k + y) mod k = y"
  by simp_all

lemma byte_parts: "unat (b :: byte) div 16 < 16" "unat b div 64 < 4" "unat b div 4 < 64"
  using unat_byte [of b] by simp_all

lemma octets_sextets: "octets (sextets bs) = bs"
  by (induction bs rule: sextets.induct) (simp_all add: pack byte_parts)

lemma sextets_bound: "list_all (\<lambda>n. n < 64) (sextets bs)"
proof -
  have b: "x mod 4 * 16 + y < 64" if "y < 16" for x y :: nat
    using that mod_less_divisor [of 4 x] by linarith
  have c: "x mod 16 * 4 + y < 64" if "y < 4" for x y :: nat
    using that mod_less_divisor [of 16 x] by linarith
  show ?thesis
    using b [of 0] c [of 0] by (induction bs rule: sextets.induct) (simp_all add: b c byte_parts)
qed

lemma b64_chars: "n < 64 \<Longrightarrow> b64Val (B64 ! n) = Some n \<and> B64 ! n \<noteq> CHR ''='' \<and> B64 ! n \<noteq> CHR ''$''"
proof -
  have "list_all (\<lambda>n. b64Val (B64 ! n) = Some n \<and> B64 ! n \<noteq> CHR ''='' \<and> B64 ! n \<noteq> CHR ''$'') [0..<64]"
    by code_simp
  then show "n < 64 \<Longrightarrow> b64Val (B64 ! n) = Some n \<and> B64 ! n \<noteq> CHR ''='' \<and> B64 ! n \<noteq> CHR ''$''"
    by (simp add: list_all_iff)
qed

lemma map_filter_b64: "list_all (\<lambda>n. n < 64) ns \<Longrightarrow> List.map_filter b64Val (map (\<lambda>n. B64 ! n) ns) = ns"
  by (induction ns) (simp_all add: b64_chars List.map_filter_def)

lemma base64_roundtrip [simp]: "base64Decode (base64Encode bs) = bs"
proof -
  have "takeWhile (\<lambda>c. c \<noteq> CHR ''='') (base64Encode bs) = map (\<lambda>n. B64 ! n) (sextets bs)"
    using sextets_bound [of bs] b64_chars
    by (simp add: base64Encode_def takeWhile_append list_all_iff takeWhile_eq_Nil_iff)
  then show ?thesis
    by (simp add: base64Decode_def map_filter_b64 [OF sextets_bound] octets_sextets)
qed

lemma base64_no_dollar: "CHR ''$'' \<notin> set (base64Encode bs)"
proof -
  have "B64 ! n \<noteq> CHR ''$''" if "n \<in> set (sextets bs)" for n
    using that sextets_bound [of bs] b64_chars [of n] by (simp add: list_all_iff)
  then show ?thesis by (force simp: base64Encode_def)
qed

section \<open>Lemmas: sampling\<close>

text \<open>The characters a sequence of random bytes contributes.\<close>

definition accepted :: "byte list \<Rightarrow> string" where
  "accepted bs = map (\<lambda>b. BASE62 ! (unat b mod 62)) (filter (\<lambda>b. unat b < 248) bs)"

lemma accepted_simps [simp]:
  "accepted [] = []"
  "accepted (b # bs) = (if unat b < 248 then BASE62 ! (unat b mod 62) # accepted bs else accepted bs)"
  "accepted (bs @ cs) = accepted bs @ accepted cs"
  by (simp_all add: accepted_def)

lemma sampleBlock_take: "length out < n \<Longrightarrow> sampleBlock n out bs = take n (out @ accepted bs)"
proof (induction n out bs rule: sampleBlock.induct)
  case (2 n out b bs)
  then show ?case by (cases "Suc (length out) = n") (auto simp: Let_def)
qed simp

lemma randomBase62_enough: "length out \<le> n \<Longrightarrow>
  randomBase62 n out blocks =
    (if n \<le> length (out @ accepted (concat blocks)) then Some (take n (out @ accepted (concat blocks))) else None)"
proof (induction blocks arbitrary: out)
  case Nil
  then show ?case by (subst randomBase62.simps) auto
next
  case (Cons b blocks)
  show ?case
  proof (cases "length out < n")
    case True
    let ?o = "take n (out @ accepted b)"
    have step: "randomBase62 n out (b # blocks) = randomBase62 n ?o blocks"
      using True by (subst randomBase62.simps) (simp add: sampleBlock_take)
    have len: "length ?o \<le> n" by simp
    show ?thesis
    proof (cases "n \<le> length (out @ accepted b)")
      case True
      then have "take n (?o @ accepted (concat blocks)) = ?o" and "n \<le> length (?o @ accepted (concat blocks))"
        using \<open>length out < n\<close> by (simp_all add: min_def)
      moreover have "take n (out @ accepted (concat (b # blocks))) = ?o"
        using True by simp
      ultimately show ?thesis unfolding step Cons.IH [OF len] using True by auto
    next
      case False
      then have "?o = out @ accepted b" by simp
      then show ?thesis unfolding step Cons.IH [OF len] by simp
    qed
  next
    case False
    with Cons.prems have "length out = n" by simp
    then show ?thesis by (subst randomBase62.simps) simp
  qed
qed

lemma count_upt: "length (filter (\<lambda>j. j = i) [0..<n]) = (if i < n then 1 else 0)"
  by (induction n) auto

lemma residue_block: "i < 62 \<Longrightarrow> length (filter (\<lambda>b. b mod 62 = i) [k * 62..<k * 62 + 62]) = 1"
proof -
  assume i: "i < 62"
  have "[k * 62..<k * 62 + 62] = map (\<lambda>j. j + k * 62) [0..<62]"
    using map_add_upt [of "k * 62" 62] by (simp add: add.commute)
  moreover have "filter (\<lambda>j. (j + k * 62) mod 62 = i) [0..<62] = filter (\<lambda>j. j = i) [0..<62]"
    by (intro filter_cong) auto
  ultimately show ?thesis using i count_upt [of i 62] by (simp add: filter_map comp_def)
qed

lemma residue_count: "i < 62 \<Longrightarrow> length (filter (\<lambda>b. b < 248 \<and> b mod 62 = i) [0..<256]) = 4"
proof -
  assume i: "i < 62"
  let ?P = "\<lambda>b. b < 248 \<and> b mod 62 = i"
  have split: "[0..<256] = [0 * 62..<0 * 62 + 62] @ [1 * 62..<1 * 62 + 62] @ [2 * 62..<2 * 62 + 62] @ [3 * 62..<3 * 62 + 62] @ [248..<256]"
    using upt_add_eq_append [of 0 62 194] upt_add_eq_append [of 62 124 132] upt_add_eq_append [of 124 186 70]
      upt_add_eq_append [of 186 248 8] by (simp del: upt_rec_numeral upt_conv_Cons)
  have blk: "length (filter ?P [k * 62..<k * 62 + 62]) = 1" if "k < 4" for k
  proof -
    have "filter ?P [k * 62..<k * 62 + 62] = filter (\<lambda>b. b mod 62 = i) [k * 62..<k * 62 + 62]"
      using that by (intro filter_cong) auto
    then show ?thesis using residue_block [OF i, of k] by simp
  qed
  have rest: "filter ?P [248..<256] = []" by (simp only: filter_empty_conv set_upt) simp
  have k: "0 < (4::nat)" "1 < (4::nat)" "2 < (4::nat)" "3 < (4::nat)" by simp_all
  show ?thesis
    unfolding split filter_append length_append blk [OF k(1)] blk [OF k(2)] blk [OF k(3)] blk [OF k(4)] rest
    by simp
qed

section \<open>Lemmas: the envelope\<close>

lemma envelope_slices:
  assumes "length iv = 12" "length tag = 16" "env = k # iv @ ct @ tag"
  shows "\<not> length env < 29" "take 12 (drop (Suc 0) env) = iv" "drop (length env - 16) env = tag"
    "drop 13 (take (length env - 16) env) = ct"
proof -
  have e: "env = (k # iv @ ct) @ tag" and n: "length env - 16 = length (k # iv @ ct)" using assms by simp_all
  show "\<not> length env < 29" "take 12 (drop (Suc 0) env) = iv" using assms by simp_all
  show "drop (length env - 16) env = tag" unfolding n unfolding e by (simp only: drop_append) simp
  have "take (length env - 16) env = (k # iv) @ ct" unfolding n unfolding e by (simp only: take_append) simp
  moreover have "13 = length (k # iv)" using assms(1) by simp
  ultimately show "drop 13 (take (length env - 16) env) = ct" by (simp only: drop_append) simp
qed

section \<open>Properties\<close>

text \<open>
  For any authenticated cipher with a 16-byte tag whose decryption inverts its encryption, a secret encrypted under a
  key ring is recovered from its envelope under every later ring that still holds the key that was newest at
  encryption time.
\<close>

lemma decrypt_encrypt:
  assumes "\<And>key iv p. unseal key iv (fst (seal key iv p)) (snd (seal key iv p)) = Some p"
    "\<And>key iv p. length (snd (seal key iv p)) = TAG_LENGTH"
    "ring \<noteq> []" "list_all (\<lambda>(i, k). i < 256) ring" "length iv = IV_LENGTH"
    "map_of ring' (Max (set (map fst ring))) = map_of ring (Max (set (map fst ring)))"
  shows "\<exists>envelope. encryptSecret seal iv plaintext ring = Inr envelope
    \<and> decryptSecret unseal envelope ring' = Inr plaintext"
proof -
  let ?i = "Max (set (map fst ring))"
  have mem: "?i \<in> set (map fst ring)" using assms(3) by (intro Max_in) auto
  then obtain key where key: "map_of ring ?i = Some key" by (auto simp: map_of_eq_None_iff dest: weak_map_of_SomeI)
  have i: "?i < 256" using mem assms(4) by (auto simp: list_all_iff)
  obtain ct tag where sealed: "seal key iv plaintext = (ct, tag)" by force
  have tag: "length tag = 16" using assms(2) [of key iv plaintext] by (simp add: sealed TAG_LENGTH_def)
  define env where "env = [word_of_nat ?i :: byte] @ iv @ ct @ tag"
  have kid: "unat (env ! 0) = ?i" using i by (simp add: env_def unat_byte_of_nat)
  have iv: "length iv = 12" using assms(5) by (simp add: IV_LENGTH_def)
  have "decryptSecret unseal env ring' = Inr plaintext"
    using assms(1) [of key iv plaintext] assms(6) key
    by (simp add: decryptSecret_def kid sealed IV_LENGTH_def TAG_LENGTH_def
        envelope_slices [OF iv tag env_def [simplified append_Cons append_Nil]])
  moreover have "encryptSecret seal iv plaintext ring = Inr env"
    using assms(3) key by (simp add: encryptSecret_def sealed env_def)
  ultimately show ?thesis by blast
qed

text \<open>
  Password verification. A stored hash verifies a password exactly when scrypt derives the same key
  from it, with the salt and the parameters the hash was made with; in particular the right password is
  accepted. This holds for every key derivation function that returns keys of the length asked for.
\<close>

lemma verifyPassword_iff:
  assumes "scrypt password salt 32 (Some 32768, Some 8, Some 1) = Some h" "length h = 32"
    "scrypt attempt salt 32 (Some 32768, Some 8, Some 1) = Some h'" "length h' = 32"
  shows "\<exists>stored. hashPassword scrypt salt password = Some stored
    \<and> verifyPassword scrypt attempt stored = Some (h' = h)"
proof -
  let ?parts = "[''scrypt'', showNat 32768, showNat 8, showNat 1, base64Encode salt, base64Encode h]"
  have num: "CHR ''$'' \<notin> set (showNat n)" "numberOf (showNat n) = Some n" for n
    using showNat_digits [of n] by (auto simp: numberOf_def list_all_iff isDigit_def)
  have "splitOn CHR ''$'' (joinWith ''$'' ?parts) = ?parts"
    by (rule splitOn_joinWith) (auto simp: num base64_no_dollar)
  then show ?thesis
    using assms by (simp add: hashPassword_def verifyPassword_def num)
qed

theorem verifyPassword_iff_witness:
  "\<exists>stored. hashPassword (\<lambda>p s n opts. Some (replicate n (word_of_nat (length p)))) [1, 2] ''secret'' = Some stored
    \<and> verifyPassword (\<lambda>p s n opts. Some (replicate n (word_of_nat (length p)))) ''guess'' stored
      = Some (replicate 32 (word_of_nat (length ''guess'')) = (replicate 32 (word_of_nat (length ''secret'')) :: byte list))"
  by (rule verifyPassword_iff) simp_all

text \<open>
  Token characters are drawn without bias. The sampler returns the first characters that the accepted
  random bytes stand for, as soon as the bytes drawn suffice and not before; and each of the 62 characters
  stands for the same number (four) of accepted bytes.
\<close>

lemma randomBase62_unbiased:
  "randomBase62 n [] blocks =
     (if n \<le> length (accepted (concat blocks)) then Some (take n (accepted (concat blocks))) else None)
   \<and> list_all (\<lambda>c. length (filter (\<lambda>b. accepted [word_of_nat b] = [c]) [0..<256]) = 4) BASE62"
proof
  show "randomBase62 n [] blocks =
     (if n \<le> length (accepted (concat blocks)) then Some (take n (accepted (concat blocks))) else None)"
    by (simp add: randomBase62_enough)
  have acc: "accepted [word_of_nat b] = (if b < 248 then [BASE62 ! (b mod 62)] else [])" if "b \<in> set [0..<256]" for b
    using that by (simp add: accepted_def unat_byte_of_nat)
  have dist: "distinct BASE62" and len: "length BASE62 = 62" by code_simp+
  have "length (filter (\<lambda>b. accepted [word_of_nat b] = [BASE62 ! i]) [0..<256]) = 4" if i: "i < 62" for i
  proof -
    have "BASE62 ! (b mod 62) = BASE62 ! i \<longleftrightarrow> b mod 62 = i" for b
      using dist len i by (simp add: nth_eq_iff_index_eq)
    then have "filter (\<lambda>b. accepted [word_of_nat b] = [BASE62 ! i]) [0..<256] = filter (\<lambda>b. b < 248 \<and> b mod 62 = i) [0..<256]"
      using acc by (intro filter_cong) auto
    then show ?thesis using residue_count [OF i] by simp
  qed
  then show "list_all (\<lambda>c. length (filter (\<lambda>b. accepted [word_of_nat b] = [c]) [0..<256]) = 4) BASE62"
    by (simp only: list_all_length len) blast
qed

end
