(* ===== verification/Utf8.thy ===== *)
theory Utf8
  imports Prelude
begin

text \<open>
  \<open>Buffer.toString("utf8")\<close>. A buffer is a list of bytes; the text it is decoded to is kept in its UTF-8
  encoding, so that decoding is the identity on well-formed bytes and replaces each maximal ill-formed
  run by the three bytes of U+FFFD, as Node does. A character cut at the end of a buffer is ill-formed
  there: decoding two buffers separately is not decoding their concatenation.
\<close>

section \<open>Decoding\<close>

definition REPLACEMENT :: string where
  "REPLACEMENT = [CHR 0xEF, CHR 0xBF, CHR 0xBD]"

text \<open>
  For a lead byte: how many continuation bytes follow, and the range of the first of them (tighter
  than 80..BF after E0, ED, F0 and F4, which excludes overlong forms, surrogates and values past
  U+10FFFF).
\<close>

definition leadByte :: "char \<Rightarrow> (nat \<times> nat \<times> nat) option" where
  "leadByte c =
     (let b = of_char c :: nat in
      if b < 0x80 then Some (0, 0x80, 0xBF)
      else if 0xC2 \<le> b \<and> b \<le> 0xDF then Some (1, 0x80, 0xBF)
      else if b = 0xE0 then Some (2, 0xA0, 0xBF)
      else if b = 0xED then Some (2, 0x80, 0x9F)
      else if 0xE1 \<le> b \<and> b \<le> 0xEF then Some (2, 0x80, 0xBF)
      else if b = 0xF0 then Some (3, 0x90, 0xBF)
      else if 0xF1 \<le> b \<and> b \<le> 0xF3 then Some (3, 0x80, 0xBF)
      else if b = 0xF4 then Some (3, 0x80, 0x8F)
      else None)"

text \<open>How many of the \<open>n\<close> expected continuation bytes are there.\<close>

fun continuation :: "nat \<Rightarrow> nat \<Rightarrow> nat \<Rightarrow> string \<Rightarrow> nat" where
  "continuation (Suc n) lo hi (c # s) =
     (if lo \<le> of_char c \<and> of_char c \<le> hi then Suc (continuation n 0x80 0xBF s) else 0)"
| "continuation _ _ _ _ = 0"

text \<open>The bytes the first character takes and whether it is well-formed.\<close>

definition firstUnit :: "string \<Rightarrow> nat \<times> bool" where
  "firstUnit s =
     (case s of
        [] \<Rightarrow> (0, True)
      | c # r \<Rightarrow>
          (case leadByte c of
             None \<Rightarrow> (1, False)
           | Some (n, lo, hi) \<Rightarrow> (let k = continuation n lo hi r in (Suc k, k = n))))"

lemma firstUnit_shrinks: "s \<noteq> [] \<Longrightarrow> firstUnit s = (k, ok) \<Longrightarrow> length (drop k s) < length s"
  by (cases s) (auto simp: firstUnit_def Let_def split: option.splits)

function utf8Text :: "string \<Rightarrow> string" where
  "utf8Text s =
     (if s = [] then []
      else (let (k, ok) = firstUnit s in (if ok then take k s else REPLACEMENT) @ utf8Text (drop k s)))"
  by pat_completeness auto
termination
proof (relation "measure length")
  fix s :: string and x k ok
  assume "s \<noteq> []" "x = firstUnit s" "(k, ok) = x"
  then show "(drop k s, s) \<in> measure length"
    using firstUnit_shrinks [of s k ok] by simp
qed simp

declare utf8Text.simps [simp del]

text \<open>A buffer that ends where a character ends and holds no ill-formed byte.\<close>

function wholeChars :: "string \<Rightarrow> bool" where
  "wholeChars s \<longleftrightarrow> (if s = [] then True else (let (k, ok) = firstUnit s in ok \<and> wholeChars (drop k s)))"
  by pat_completeness auto
termination
proof (relation "measure length")
  fix s :: string and x k ok
  assume "s \<noteq> []" "x = firstUnit s" "(k, ok) = x"
  then show "(drop k s, s) \<in> measure length"
    using firstUnit_shrinks [of s k ok] by simp
qed simp

declare wholeChars.simps [simp del]

section \<open>Facts\<close>

lemma utf8Text_Nil [simp]: "utf8Text [] = []"
  by (simp add: utf8Text.simps [of "[]"])

lemma wholeChars_Nil [simp]: "wholeChars []"
  by (simp add: wholeChars.simps [of "[]"])

lemma continuation_le: "continuation n lo hi s \<le> n" "continuation n lo hi s \<le> length s"
  by (induction n lo hi s rule: continuation.induct) auto

lemma continuation_append: "continuation n lo hi s = n \<Longrightarrow> continuation n lo hi (s @ t) = n"
  by (induction n lo hi s rule: continuation.induct) (auto split: if_splits)

lemma firstUnit_bound: "fst (firstUnit s) \<le> length s"
  by (auto simp: firstUnit_def Let_def continuation_le split: option.split list.split)

lemma firstUnit_append: "s \<noteq> [] \<Longrightarrow> snd (firstUnit s) \<Longrightarrow> firstUnit (s @ t) = firstUnit s"
  by (cases s) (auto simp: firstUnit_def Let_def continuation_append split: option.splits)

text \<open>Whole characters are decoded to themselves, whatever follows.\<close>

lemma utf8Text_append: "wholeChars a \<Longrightarrow> utf8Text (a @ b) = a @ utf8Text b"
proof (induction a rule: wholeChars.induct)
  case (1 a)
  show ?case
  proof (cases "a = []")
    case False
    obtain k ok where k: "firstUnit a = (k, ok)" by force
    with "1.prems" False have ok: "ok" and rest: "wholeChars (drop k a)" by (auto simp: wholeChars.simps [of a])
    have le: "k \<le> length a" using firstUnit_bound [of a] k by simp
    have "firstUnit (a @ b) = (k, True)" using firstUnit_append [OF False] k ok by simp
    then have "utf8Text (a @ b) = take k a @ utf8Text (drop k a @ b)"
      using False le by (simp add: utf8Text.simps [of "a @ b"])
    also have "utf8Text (drop k a @ b) = drop k a @ utf8Text b"
      using "1.IH" [OF False] k ok rest by simp
    finally show ?thesis by simp
  qed simp
qed

lemma utf8Text_whole: "wholeChars a \<Longrightarrow> utf8Text a = a"
  using utf8Text_append [of a "[]"] by simp

lemma utf8Text_concat: "list_all wholeChars cs \<Longrightarrow> concat (map utf8Text cs) = utf8Text (concat cs)"
  by (induction cs) (auto simp: utf8Text_append utf8Text_whole)

text \<open>ASCII is always whole.\<close>

lemma wholeChars_ascii: "list_all (\<lambda>c. of_char c < (128::nat)) s \<Longrightarrow> wholeChars s"
proof (induction s)
  case (Cons c s)
  then have "firstUnit (c # s) = (1, True)" by (simp add: firstUnit_def leadByte_def)
  with Cons show ?case by (simp add: wholeChars.simps [of "c # s"])
qed simp

end
