(* ===== verification/GatewayCore.thy ===== *)
theory GatewayCore
  imports Rollups Providers Translate Auth Utf8
begin

text \<open>
  The shared core of the gateway (\<open>apps/gateway/src/types.ts\<close> and \<open>proxy/core.ts\<close>): the context of a
  virtual key, key extraction, header filtering, bounded reading, the frame splitter that taps a stream,
  and the finalizer that builds the usage event of a request.
\<close>

section \<open>Interfaces (types.ts)\<close>

datatype key_status = ACTIVE | REVOKED | EXPIRED

record key_context =
  vkId :: string
  kc_workspaceId :: string
  kc_projectId :: string
  kc_teamId :: "string option"
  kc_userId :: string
  kc_status :: key_status
  kc_expiresAt :: "millis option"
  providerAllowlist :: "provider list"
  credentialAllowlist :: "string list"
  modelAllowlist :: "string list"
  rpmLimit :: "int option"

record credential_secret =
  cs_credentialId :: string
  cs_secret :: "string option"
  cs_baseUrl :: "string option"

record rate_decision =
  allowed :: bool
  retryAfterS :: int

section \<open>Requests (core.ts)\<close>

definition MAX_REQUEST_BODY :: nat where
  "MAX_REQUEST_BODY = 20 * 1024 * 1024"

definition SKIP_HEADERS :: "string list" where
  "SKIP_HEADERS =
     [''host'', ''connection'', ''content-length'', ''transfer-encoding'', ''authorization'', ''x-api-key'',
      ''accept-encoding'', ''keep-alive'', ''proxy-authorization'', ''te'', ''upgrade'']"

text \<open>A header's value: one string, or several. Node gives header names in lower case.\<close>

datatype header_value = One string | Many "string list"

type_synonym headers = "(string, header_value) omap"

definition extractKey :: "headers \<Rightarrow> string option" where
  "extractKey h =
     (let auth = (case map_of h ''authorization'' of Some (One a) \<Rightarrow> Some a | _ \<Rightarrow> None);
          bearer = (\<lambda>p. case auth of None \<Rightarrow> False | Some a \<Rightarrow> startsWith a (''Bearer '' @ p))
      in if bearer TOKEN_PREFIX_virtualKey then Some (drop 7 (the auth))
         else if bearer LEGACY_TOKEN_PREFIX then Some (drop 7 (the auth))
         else (case map_of h ''x-api-key'' of
                 Some (One k) \<Rightarrow>
                   (if startsWith k TOKEN_PREFIX_virtualKey \<or> startsWith k LEGACY_TOKEN_PREFIX then Some k else None)
               | _ \<Rightarrow> None))"

definition headerText :: "header_value \<Rightarrow> string" where
  "headerText v = (case v of One s \<Rightarrow> s | Many ss \<Rightarrow> joinWith '', '' ss)"

fun forwardableHeaders :: "headers \<Rightarrow> (string, string) omap" where
  "forwardableHeaders [] = []"
| "forwardableHeaders ((name, v) # rest) =
     (if name \<notin> set SKIP_HEADERS \<and> \<not> startsWith name ''x-tokenledger-''
      then (name, headerText v) # forwardableHeaders rest
      else forwardableHeaders rest)"

text \<open>\<open>{ ...a, ...b }\<close>: later objects win.\<close>

definition mergeHeaders :: "(string, string) omap \<Rightarrow> (string, string) omap \<Rightarrow> (string, string) omap" where
  "mergeHeaders a b = foldl (\<lambda>m (k, v). AList.update k v m) a b"

text \<open>
  \<open>readAll\<close>: the chunks of a body, concatenated, or an error when their total passes the limit. A
  stream that breaks off raises as well: \<open>broken\<close>.
\<close>

datatype read_error = BodyTooLarge | StreamBroken

fun readLoop :: "nat \<Rightarrow> string list \<Rightarrow> nat \<Rightarrow> string list \<Rightarrow> read_error + string" where
  "readLoop limit chunks sz [] = Inr (concat chunks)"
| "readLoop limit chunks sz (buf # rest) =
     (if limit < sz + length buf then Inl BodyTooLarge
      else readLoop limit (chunks @ [buf]) (sz + length buf) rest)"

definition readAll :: "string list \<times> bool \<Rightarrow> nat \<Rightarrow> read_error + string" where
  "readAll stream limit =
     (case readLoop limit [] 0 (fst stream) of
        Inl e \<Rightarrow> Inl e
      | Inr b \<Rightarrow> (if snd stream then Inl StreamBroken else Inr b))"

section \<open>The frame splitter (core.ts)\<close>

text \<open>
  \<open>FrameTap\<close>: the text not yet split and the state of the observers. \<open>step\<close> stands for a frame's
  \<open>tapFrame\<close> followed by its \<open>transformFrame\<close>, each wrapped in \<open>safeFrame\<close>: the new state and the text
  to emit. Without a \<open>transformFrame\<close> (\<open>recode\<close> false) the bytes of a chunk pass through. Each chunk is
  decoded on its own, so a character cut by the network becomes replacement characters.
\<close>

record 's frame_tap =
  tap_pending :: string
  sawFirstByte :: bool
  tap_state :: 's

function splitFrames :: "string \<Rightarrow> string \<Rightarrow> string list \<times> string" where
  "splitFrames delim pending =
     (if delim = [] then ([], pending)
      else (case indexOf pending delim of
              None \<Rightarrow> ([], pending)
            | Some i \<Rightarrow>
                (let (fs, rest) = splitFrames delim (drop (i + length delim) pending) in
                 (take i pending # fs, rest))))"
  by pat_completeness auto
termination
proof (relation "measure (\<lambda>(d, p). length p)")
  fix delim pending i
  assume "delim \<noteq> []" "indexOf pending delim = Some i"
  then show "((delim, drop (i + length delim) pending), delim, pending) \<in> measure (\<lambda>(d, p). length p)"
    using indexOf_bound [of pending delim i] by (cases delim) auto
qed simp

declare splitFrames.simps [simp del]

definition blank :: "string \<Rightarrow> bool" where
  "blank frame \<longleftrightarrow> trim frame = []"

text \<open>One chunk: the new state and what is written on, the transformed frames or the chunk itself.\<close>

definition tapFrames :: "(string \<Rightarrow> 's \<Rightarrow> 's \<times> string) \<Rightarrow> string list \<Rightarrow> 's \<Rightarrow> 's \<times> string" where
  "tapFrames step fs s =
     foldl (\<lambda>(st, out) f. let (st', emitted) = step f st in (st', out @ emitted)) (s, [])
       (filter (\<lambda>f. \<not> blank f) fs)"

definition transformChunk ::
  "string \<Rightarrow> (string \<Rightarrow> 's \<Rightarrow> 's \<times> string) \<Rightarrow> bool \<Rightarrow> string \<Rightarrow> 's frame_tap \<Rightarrow> 's frame_tap \<times> string" where
  "transformChunk delim step recode chunk t =
     (let (fs, rest) = splitFrames delim (tap_pending t @ utf8Text chunk);
          (st, out) = tapFrames step fs (tap_state t)
      in (t\<lparr>tap_pending := rest, sawFirstByte := True, tap_state := st\<rparr>, if recode then out else chunk))"

definition flushTap :: "(string \<Rightarrow> 's \<Rightarrow> 's \<times> string) \<Rightarrow> bool \<Rightarrow> 's frame_tap \<Rightarrow> 's frame_tap \<times> string" where
  "flushTap step recode t =
     (if blank (tap_pending t) then (t, [])
      else (let (st, out) = step (tap_pending t) (tap_state t) in
            (t\<lparr>tap_state := st\<rparr>, if recode then out else [])))"

definition startTap :: "'s \<Rightarrow> 's frame_tap" where
  "startTap s = \<lparr>tap_pending = [], sawFirstByte = False, tap_state = s\<rparr>"

text \<open>A whole stream of chunks; \<open>ended\<close> says whether it ended normally, so that it is flushed.\<close>

definition runTap ::
  "string \<Rightarrow> (string \<Rightarrow> 's \<Rightarrow> 's \<times> string) \<Rightarrow> bool \<Rightarrow> 's \<Rightarrow> string list \<Rightarrow> bool \<Rightarrow> 's \<times> string" where
  "runTap delim step recode s chunks ended =
     (let (t, out) = foldl (\<lambda>(t, out) c. let (t', emitted) = transformChunk delim step recode c t in (t', out @ emitted))
                       (startTap s, []) chunks in
      if ended then (let (t', tail) = flushTap step recode t in (tap_state t', out @ tail))
      else (tap_state t, out))"

section \<open>The finalizer (core.ts)\<close>

record finalize_args =
  fa_httpStatus :: int
  fa_streamed :: bool
  fa_usage :: "normalized_usage option"
  fa_aborted :: bool
  statusOverride :: "event_status option"

record finalizer_info =
  fi_ctx :: key_context
  fi_provider :: provider
  fi_endpoint :: string
  fi_requestId :: string
  fi_requestModel :: string
  fi_occurredAt :: millis

record finalizer =
  fin_done :: bool
  fin_ttftMs :: "int option"
  fin_credentialId :: "string option"

definition newFinalizer :: finalizer where
  "newFinalizer = \<lparr>fin_done = False, fin_ttftMs = None, fin_credentialId = None\<rparr>"

definition setCredentialId :: "string \<Rightarrow> finalizer \<Rightarrow> finalizer" where
  "setCredentialId i f = f\<lparr>fin_credentialId := Some i\<rparr>"

definition markFirstByte :: "int \<Rightarrow> finalizer \<Rightarrow> finalizer" where
  "markFirstByte elapsed f = (if fin_ttftMs f = None then f\<lparr>fin_ttftMs := Some elapsed\<rparr> else f)"

definition orString :: "string \<Rightarrow> string \<Rightarrow> string" where
  "orString a b = (if a \<noteq> [] then a else b)"

definition usageCounts :: "normalized_usage \<Rightarrow> token_counts" where
  "usageCounts u = \<lparr>tc_input = nu_input u, tc_output = nu_output u, tc_cacheRead = Some (nu_cacheRead u),
                    tc_cacheWrite = Some (nu_cacheWrite u)\<rparr>"

text \<open>The cost and its basis; the calculator may raise.\<close>

definition eventCost ::
  "price_entry option \<Rightarrow> normalized_usage option \<Rightarrow> bool \<Rightarrow> pricing_error + string \<times> cost_basis" where
  "eventCost price usage aborted =
     (case (price, usage) of
        (Some p, Some u) \<Rightarrow>
          (let basis = (if complete u \<and> \<not> aborted then ACTUAL else ESTIMATED) in
           case upstreamCostUsd u of
             Some c \<Rightarrow> Inr (c, basis)
           | None \<Rightarrow> map_sum id (\<lambda>c. (c, basis)) (calculateCostUsd (usageCounts u) p))
      | _ \<Rightarrow> Inr (''0.00000000'', UNPRICED))"

definition eventModel :: "finalizer_info \<Rightarrow> normalized_usage option \<Rightarrow> string" where
  "eventModel info usage =
     orString (case usage of None \<Rightarrow> [] | Some u \<Rightarrow> nu_model u) (orString (fi_requestModel info) ''unknown'')"

definition usageNum :: "(normalized_usage \<Rightarrow> jsnumber) \<Rightarrow> normalized_usage option \<Rightarrow> jsnumber" where
  "usageNum f usage = (case usage of None \<Rightarrow> 0 | Some u \<Rightarrow> f u)"

definition usageEvent ::
  "finalizer_info \<Rightarrow> finalizer \<Rightarrow> finalize_args \<Rightarrow> string \<Rightarrow> int \<Rightarrow> price_entry option \<Rightarrow> string \<times> cost_basis \<Rightarrow> usage_event" where
  "usageEvent info f args newId elapsed price cost =
     (let ctx = fi_ctx info; usage = fa_usage args; model = eventModel info usage in
      \<lparr>ev_id = newId, occurredAt = fi_occurredAt info, workspaceId = kc_workspaceId ctx, projectId = kc_projectId ctx,
       teamId = (case kc_teamId ctx of None \<Rightarrow> None | Some t \<Rightarrow> if t \<noteq> [] then Some t else None),
       userId = kc_userId ctx, virtualKeyId = vkId ctx,
       credentialId = (case fin_credentialId f of None \<Rightarrow> None | Some c \<Rightarrow> if c \<noteq> [] then Some c else None),
       poolId = None, ev_provider = fi_provider info, modelRaw = orString (fi_requestModel info) model,
       ev_model = model, endpoint = fi_endpoint info, requestId = fi_requestId info,
       status = (case statusOverride args of Some s \<Rightarrow> s | None \<Rightarrow> if fa_httpStatus args < 400 then OK else PROVIDER_ERROR),
       httpStatus = fa_httpStatus args, streamed = fa_streamed args,
       inputTokens = usageNum nu_input usage, outputTokens = usageNum nu_output usage,
       cacheReadTokens = usageNum nu_cacheRead usage, cacheWriteTokens = usageNum nu_cacheWrite usage,
       reasoningTokens = usageNum nu_reasoning usage, costUsd = fst cost,
       unitPrices = map_option (\<lambda>p. \<lparr>up_in = inputPerMtok p, up_out = outputPerMtok p, up_cr = cacheReadPerMtok p,
                                     up_cw = cacheWritePerMtok p, up_source = source p\<rparr>) price,
       costBasis = snd cost, latencyMs = elapsed, ttftMs = fin_ttftMs f, tags = None\<rparr>)"

text \<open>
  \<open>finalize\<close>: nothing the second time; otherwise the event handed to the sink, unless the calculator
  raises. \<open>match\<close> is the pricing source; the sink never raises.
\<close>

definition finalize ::
  "(provider \<Rightarrow> string \<Rightarrow> string \<Rightarrow> price_entry option) \<Rightarrow> finalizer_info \<Rightarrow> finalize_args \<Rightarrow> string \<Rightarrow> int \<Rightarrow>
   finalizer \<Rightarrow> finalizer \<times> usage_event list \<times> pricing_error option" where
  "finalize match info args newId elapsed f =
     (if fin_done f then (f, [], None)
      else (let f1 = f\<lparr>fin_done := True\<rparr>;
                price = match (fi_provider info) (eventModel info (fa_usage args)) (kc_workspaceId (fi_ctx info)) in
            case eventCost price (fa_usage args) (fa_aborted args) of
              Inl e \<Rightarrow> (f1, [], Some e)
            | Inr cost \<Rightarrow> (f1, [usageEvent info f1 args newId elapsed price cost], None)))"

section \<open>Authorization of a key (core.ts)\<close>

record client_error =
  ce_status :: int
  ce_type :: string
  ce_message :: string

definition keyExpired :: "millis \<Rightarrow> key_context \<Rightarrow> bool" where
  "keyExpired now ctx \<longleftrightarrow>
     kc_status ctx = EXPIRED \<or> (case kc_expiresAt ctx of None \<Rightarrow> False | Some t \<Rightarrow> t < now)"

definition authorizeKey ::
  "(string \<Rightarrow> string) \<Rightarrow> (string \<Rightarrow> key_context option) \<Rightarrow> millis \<Rightarrow> headers \<Rightarrow> client_error + key_context" where
  "authorizeKey sha256Hex resolve now h =
     (case extractKey h of
        None \<Rightarrow> Inl \<lparr>ce_status = 401, ce_type = ''invalid_key'', ce_message = ''Provide a TokenLedger virtual key (tl_live_... or tt_live_... legacy)''\<rparr>
      | Some presented \<Rightarrow>
          (case resolve (sha256Hex presented) of
             None \<Rightarrow> Inl \<lparr>ce_status = 401, ce_type = ''invalid_key'', ce_message = ''Unknown virtual key''\<rparr>
           | Some ctx \<Rightarrow>
               (if kc_status ctx = REVOKED
                then Inl \<lparr>ce_status = 401, ce_type = ''key_revoked'', ce_message = ''This virtual key has been revoked''\<rparr>
                else if keyExpired now ctx
                then Inl \<lparr>ce_status = 401, ce_type = ''key_expired'', ce_message = ''This virtual key has expired''\<rparr>
                else Inr ctx)))"

section \<open>Lemmas: the frame splitter\<close>

lemma indexOf_append: "indexOf s d = Some i \<Longrightarrow> indexOf (s @ t) d = Some i"
proof (induction s arbitrary: i)
  case Nil
  then show ?case by (cases t) (auto split: if_splits)
next
  case (Cons c s)
  show ?case
  proof (cases "startsWith (c # s) d")
    case True
    then obtain u where u: "c # s = d @ u" by (auto simp: startsWith_iff)
    then have "startsWith (c # s @ t) d" by (metis append.assoc append_Cons startsWith_append)
    with True Cons.prems show ?thesis by simp
  next
    case False
    with Cons.prems obtain j where j: "indexOf s d = Some j" "i = Suc j" by auto
    have "length d \<le> length s" using indexOf_bound [OF j(1)] by simp
    then have "take (length d) (c # s @ t) = take (length d) (c # s)" by (cases d) auto
    then have "\<not> startsWith (c # s @ t) d" using False by (auto simp: startsWith_def)
    with j Cons.IH show ?thesis by simp
  qed
qed

lemma splitFrames_append:
  "d \<noteq> [] \<Longrightarrow> splitFrames d (p @ q) =
     (let (fs, rest) = splitFrames d p; (gs, rest') = splitFrames d (rest @ q) in (fs @ gs, rest'))"
proof (induction d p rule: splitFrames.induct)
  case (1 d p)
  show ?case
  proof (cases "indexOf p d")
    case None
    then have "splitFrames d p = ([], p)" by (simp add: splitFrames.simps [of d p])
    then show ?thesis by (simp split: prod.split)
  next
    case (Some i)
    note bound = indexOf_bound [OF Some]
    obtain fs rest where r: "splitFrames d (drop (i + length d) p) = (fs, rest)" by force
    then have p: "splitFrames d p = (take i p # fs, rest)"
      using "1.prems" Some by (simp add: splitFrames.simps [of d p])
    have "splitFrames d (p @ q) = (let (gs, rest') = splitFrames d (drop (i + length d) p @ q) in (take i p # gs, rest'))"
      using "1.prems" bound indexOf_append [OF Some, of q] by (simp add: splitFrames.simps [of d "p @ q"])
    also have "splitFrames d (drop (i + length d) p @ q) =
        (let (fs, rest) = splitFrames d (drop (i + length d) p); (gs, rest') = splitFrames d (rest @ q) in (fs @ gs, rest'))"
      using "1.IH" Some "1.prems" by blast
    finally show ?thesis by (simp add: p r split: prod.split)
  qed
qed

lemma tapFrames_append:
  "tapFrames step (fs @ gs) s =
     (let (s1, out1) = tapFrames step fs s; (s2, out2) = tapFrames step gs s1 in (s2, out1 @ out2))"
proof -
  let ?g = "\<lambda>(st, out) f. let (st', emitted) = step f st in (st', out @ emitted)"
  have acc: "foldl ?g (s, out) xs = (fst (foldl ?g (s, []) xs), out @ snd (foldl ?g (s, []) xs))" for s out xs
  proof (induction xs arbitrary: s out)
    case (Cons x xs)
    obtain s' e where x: "step x s = (s', e)" by force
    show ?case using Cons [of s' "out @ e"] Cons [of s' e] by (simp add: x)
  qed simp
  obtain s1 out1 where 1: "tapFrames step fs s = (s1, out1)" by force
  show ?thesis
    using acc [of s1 out1 "filter (\<lambda>f. \<not> blank f) gs"] 1
    by (simp add: tapFrames_def case_prod_unfold Let_def)
qed

text \<open>Feeding a chunk of whole characters and then another is feeding both at once.\<close>

lemma transformChunk_append:
  assumes "d \<noteq> []" "wholeChars a"
  shows "transformChunk d step recode (a @ b) t =
    (let (t1, o1) = transformChunk d step recode a t; (t2, o2) = transformChunk d step recode b t1 in (t2, o1 @ o2))"
proof -
  obtain fs rest where f: "splitFrames d (tap_pending t @ utf8Text a) = (fs, rest)" by force
  obtain gs rest' where g: "splitFrames d (rest @ utf8Text b) = (gs, rest')" by force
  have fg: "splitFrames d (tap_pending t @ utf8Text (a @ b)) = (fs @ gs, rest')"
    using splitFrames_append [OF assms(1), of "tap_pending t @ a" "utf8Text b"] f g assms(2)
    by (simp add: utf8Text_append utf8Text_whole)
  show ?thesis
    by (simp add: transformChunk_def f g fg tapFrames_append split: prod.split)
qed

definition feedAll ::
  "string \<Rightarrow> (string \<Rightarrow> 's \<Rightarrow> 's \<times> string) \<Rightarrow> bool \<Rightarrow> 's frame_tap \<times> string \<Rightarrow> string list \<Rightarrow> 's frame_tap \<times> string" where
  "feedAll d step recode =
     foldl (\<lambda>(t, out) c. let (t', emitted) = transformChunk d step recode c t in (t', out @ emitted))"

lemma feedAll_simps [simp]:
  "feedAll d step recode r [] = r"
  "feedAll d step recode (t, out) (c # cs) =
     (let (t', emitted) = transformChunk d step recode c t in feedAll d step recode (t', out @ emitted) cs)"
  by (simp_all add: feedAll_def split: prod.split)

lemma feedAll_concat:
  "d \<noteq> [] \<Longrightarrow> list_all wholeChars (c # cs) \<Longrightarrow>
   feedAll d step recode (t, out) (c # cs) = feedAll d step recode (t, out) [concat (c # cs)]"
proof (induction cs arbitrary: c t out)
  case (Cons b cs)
  obtain t1 o1 where a: "transformChunk d step recode c t = (t1, o1)" by force
  have "feedAll d step recode (t, out) (c # b # cs) = feedAll d step recode (t1, out @ o1) (b # cs)" by (simp add: a)
  also have "\<dots> = feedAll d step recode (t1, out @ o1) [concat (b # cs)]" by (rule Cons.IH) (use Cons.prems in simp_all)
  finally show ?case
    using transformChunk_append [of d c step recode "concat (b # cs)" t] Cons.prems
    by (simp add: a split: prod.split)
qed simp

lemma feedAll_start_Nil: "d \<noteq> [] \<Longrightarrow> tap_state (fst (feedAll d step recode (startTap s, []) [[]])) = s
    \<and> tap_pending (fst (feedAll d step recode (startTap s, []) [[]])) = []
    \<and> snd (feedAll d step recode (startTap s, []) [[]]) = []"
  by (simp add: transformChunk_def startTap_def splitFrames.simps [of d "[]"] tapFrames_def)

lemma runTap_feedAll:
  "runTap d step recode s chunks ended =
     (let (t, out) = feedAll d step recode (startTap s, []) chunks in
      if ended then (let (t', tail) = flushTap step recode t in (tap_state t', out @ tail))
      else (tap_state t, out))"
  by (simp only: runTap_def feedAll_def)

lemma runTap_Nil: "d \<noteq> [] \<Longrightarrow> runTap d step recode s [] ended = runTap d step recode s [[]] ended"
  using feedAll_start_Nil [of d step recode s]
  by (simp add: runTap_feedAll flushTap_def startTap_def blank_def trim_def case_prod_unfold Let_def del: feedAll_simps(2))

lemma feedAll_passthrough: "snd (feedAll d step False (t, out) cs) = out @ concat cs"
  by (induction cs arbitrary: t out) (auto simp: transformChunk_def Let_def case_prod_unfold)

section \<open>Lemmas: the finalizer\<close>

lemma parse_toFixed8:
  "parseDecimalScaled (toFixed8 q) COST_SCALE = Inr ((if q < 0 then - 1 else 1) * \<lfloor>\<bar>q\<bar> * 100000000 + 1 / 2\<rfloor>)"
proof -
  define m where "m = \<lfloor>\<bar>q\<bar> * 100000000 + 1 / 2\<rfloor>"
  have m: "0 \<le> m" by (simp add: m_def)
  have digits: "nat m div 100000000 = nat (m div 10 ^ 8)" "nat m mod 100000000 = nat (m mod 10 ^ 8)"
    using m by (simp_all add: nat_div_distrib nat_mod_distrib)
  have shape: "toFixed8 q = (if q < 0 then ''-'' else []) @ showNat (nat (m div 10 ^ 8)) @ CHR ''.'' #
      padStart 8 CHR ''0'' (showNat (nat (m mod 10 ^ 8)))"
    unfolding toFixed8_def Let_def m_def [symmetric] digits by (simp only: append_Cons append_Nil)
  have parses: "parseDecimalScaled (toFixed8 q) 8 = Inr ((if q < 0 then - 1 else 1) * m)"
  proof (cases "q < 0")
    case True
    then show ?thesis using parse_fixed_point(2) [of 8 m] m unfolding shape by (simp only: if_True append_Cons append_Nil zero_less_numeral mult_minus1)
  next
    case False
    then show ?thesis using parse_fixed_point(1) [of 8 m] m unfolding shape by (simp only: if_False append_Nil zero_less_numeral mult_1)
  qed
  then show ?thesis by (simp only: COST_SCALE_def m_def)
qed

text \<open>Counts that are whole and non-negative, and a provider cost that is a decimal.\<close>

definition meteredUsage :: "normalized_usage \<Rightarrow> bool" where
  "meteredUsage u \<longleftrightarrow>
     list_all validCount [nu_input u, nu_output u, nu_cacheRead u, nu_cacheWrite u, nu_reasoning u]
     \<and> (case upstreamCostUsd u of None \<Rightarrow> True | Some c \<Rightarrow> \<not> isl (parseDecimalScaled c COST_SCALE))"

definition pricesOk :: "price_entry \<Rightarrow> bool" where
  "pricesOk p \<longleftrightarrow> list_all (priceWithin 6) [inputPerMtok p, outputPerMtok p, cacheReadPerMtok p, cacheWritePerMtok p]"

text \<open>What a request is charged, in hundred-millionths of a dollar.\<close>

definition charged8 :: "price_entry option \<Rightarrow> normalized_usage option \<Rightarrow> int" where
  "charged8 price usage =
     (case (price, usage) of
        (Some p, Some u) \<Rightarrow>
          (case upstreamCostUsd u of
             Some c \<Rightarrow> projr (parseDecimalScaled c COST_SCALE)
           | None \<Rightarrow> \<lfloor>exactCost (usageCounts u) p * 100000000\<rfloor>)
      | _ \<Rightarrow> 0)"

text \<open>Providers that report a cost report it in a form the worker reads.\<close>

lemma adapter_cost_parses:
  "case upstreamCostUsd (normalizeOpenAiUsage m u d) of None \<Rightarrow> True | Some c \<Rightarrow> \<not> isl (parseDecimalScaled c COST_SCALE)"
  by (simp add: normalizeOpenAiUsage_def Let_def parse_toFixed8 split: option.split)

lemma eventCost_value:
  assumes "pred_option meteredUsage usage" "pred_option pricesOk price"
  shows "\<exists>c b. eventCost price usage aborted = Inr (c, b) \<and> parseDecimalScaled c COST_SCALE = Inr (charged8 price usage)"
proof (cases "\<exists>p u. price = Some p \<and> usage = Some u \<and> upstreamCostUsd u = None")
  case True
  then obtain p u where pu: "price = Some p" "usage = Some u" "upstreamCostUsd u = None" by blast
  with assms have "billable 6 (usageCounts u) p"
    by (simp add: billable_def meteredUsage_def pricesOk_def usageCounts_def)
  from cost_survives_ingest [OF this] pu show ?thesis
    by (auto simp: eventCost_def charged8_def Let_def)
next
  case False
  have zero: "parseDecimalScaled ''0.00000000'' COST_SCALE = Inr 0"
    by (simp add: parseDecimalScaled_def decimal_eval COST_SCALE_def)
  from False assms show ?thesis
    by (auto simp: eventCost_def charged8_def Let_def zero meteredUsage_def
        split: option.splits sum.splits)
qed

lemma usageNum_valid:
  assumes "pred_option meteredUsage usage"
  shows "list_all isInteger [usageNum nu_input usage, usageNum nu_output usage, usageNum nu_cacheRead usage,
           usageNum nu_cacheWrite usage, usageNum nu_reasoning usage]"
  using assms by (cases usage) (auto simp: usageNum_def meteredUsage_def validCount_def isInteger_def)

section \<open>Properties\<close>

definition tokensOf :: "(normalized_usage \<Rightarrow> jsnumber) \<Rightarrow> normalized_usage option \<Rightarrow> int" where
  "tokensOf f usage = (case usage of None \<Rightarrow> 0 | Some u \<Rightarrow> \<lfloor>f u\<rfloor>)"

lemma floor_usageNum [simp]: "\<lfloor>usageNum f usage\<rfloor> = tokensOf f usage"
  by (simp add: usageNum_def tokensOf_def split: option.split)

text \<open>
  C5. From the gateway to the ledger. When the provider's token counts are whole and not negative, a cost it reports is a
  decimal, and the price found has well-formed decimals, finalizing a request hands the sink one event. It is attributed to
  the workspace, project, team, user and key of the request's key context, the credential it was sent with, the provider
  and the model the response or else the request names, with the time, endpoint, id and status of the request. The worker accepts it
  and counts one request with exactly the reported tokens and with its cost: the figure the provider reports, when it reports
  one and the model has a price, else the exact cost by that price, rounded down to a hundred-millionth of a dollar, and
  zero without a price. Finalizing the same request again emits nothing.
\<close>

theorem finalize_is_counted:
  assumes "\<not> fin_done f" "pred_option meteredUsage (fa_usage args)"
    and "pred_option pricesOk (match (fi_provider info) (eventModel info (fa_usage args)) (kc_workspaceId (fi_ctx info)))"
  shows "\<exists>e. finalize match info args newId elapsed f = (f\<lparr>fin_done := True\<rparr>, [e], None)
    \<and> eventTotals e = Inr (Totals 1 (if status e \<noteq> OK then 1 else 0)
         (tokensOf nu_input (fa_usage args)) (tokensOf nu_output (fa_usage args)) (tokensOf nu_cacheRead (fa_usage args))
         (tokensOf nu_cacheWrite (fa_usage args)) (tokensOf nu_reasoning (fa_usage args))
         (charged8 (match (fi_provider info) (eventModel info (fa_usage args)) (kc_workspaceId (fi_ctx info))) (fa_usage args))
         elapsed 1)
    \<and> workspaceId e = kc_workspaceId (fi_ctx info) \<and> userId e = kc_userId (fi_ctx info)
    \<and> virtualKeyId e = vkId (fi_ctx info) \<and> ev_provider e = fi_provider info
    \<and> projectId e = kc_projectId (fi_ctx info) \<and> (kc_teamId (fi_ctx info) \<noteq> Some [] \<longrightarrow> teamId e = kc_teamId (fi_ctx info))
    \<and> (fin_credentialId f \<noteq> Some [] \<longrightarrow> credentialId e = fin_credentialId f)
    \<and> ev_model e = eventModel info (fa_usage args) \<and> endpoint e = fi_endpoint info \<and> requestId e = fi_requestId info
    \<and> occurredAt e = fi_occurredAt info
    \<and> status e = (case statusOverride args of Some s \<Rightarrow> s | None \<Rightarrow> if fa_httpStatus args < 400 then OK else PROVIDER_ERROR)
    \<and> finalize match info args2 newId2 elapsed2 (f\<lparr>fin_done := True\<rparr>) = (f\<lparr>fin_done := True\<rparr>, [], None)"
proof -
  let ?price = "match (fi_provider info) (eventModel info (fa_usage args)) (kc_workspaceId (fi_ctx info))"
  obtain c b where c: "eventCost ?price (fa_usage args) (fa_aborted args) = Inr (c, b)"
    "parseDecimalScaled c COST_SCALE = Inr (charged8 ?price (fa_usage args))"
    using eventCost_value [OF assms(2,3)] by blast
  let ?e = "usageEvent info (f\<lparr>fin_done := True\<rparr>) args newId elapsed ?price (c, b)"
  have "finalize match info args newId elapsed f = (f\<lparr>fin_done := True\<rparr>, [?e], None)"
    using assms(1) c(1) by (simp add: finalize_def Let_def)
  moreover have "eventTotals ?e = Inr (Totals 1 (if status ?e \<noteq> OK then 1 else 0)
         (tokensOf nu_input (fa_usage args)) (tokensOf nu_output (fa_usage args)) (tokensOf nu_cacheRead (fa_usage args))
         (tokensOf nu_cacheWrite (fa_usage args)) (tokensOf nu_reasoning (fa_usage args))
         (charged8 ?price (fa_usage args)) elapsed 1)"
    using usageNum_valid [OF assms(2)] c(2) by (simp add: eventTotals_def usageEvent_def toBigInt_def Let_def)
  ultimately show ?thesis by (intro exI [of _ ?e]) (simp add: usageEvent_def finalize_def Let_def split: option.split)
qed

definition demoContext :: key_context where
  "demoContext = \<lparr>vkId = ''vk'', kc_workspaceId = ''ws'', kc_projectId = ''pr'', kc_teamId = None, kc_userId = ''u'',
     kc_status = ACTIVE, kc_expiresAt = None, providerAllowlist = [], credentialAllowlist = [], modelAllowlist = [], rpmLimit = None\<rparr>"

definition demoInfo :: finalizer_info where
  "demoInfo = \<lparr>fi_ctx = demoContext, fi_provider = ANTHROPIC, fi_endpoint = ''/v1/messages'', fi_requestId = ''r'',
     fi_requestModel = ''claude-sonnet'', fi_occurredAt = 5\<rparr>"

definition demoUsage :: normalized_usage where
  "demoUsage = \<lparr>nu_model = ''claude-sonnet'', nu_input = 1000, nu_output = 500, nu_cacheRead = 0, nu_cacheWrite = 0,
     nu_reasoning = 0, complete = True, upstreamCostUsd = None\<rparr>"

definition demoArgs :: finalize_args where
  "demoArgs = \<lparr>fa_httpStatus = 200, fa_streamed = False, fa_usage = Some demoUsage, fa_aborted = False, statusOverride = None\<rparr>"

lemma demo_ok: "\<not> fin_done newFinalizer" "pred_option meteredUsage (fa_usage demoArgs)" "pred_option pricesOk (Some sonnet)"
proof -
  show "\<not> fin_done newFinalizer" by (simp add: newFinalizer_def)
  have "meteredUsage demoUsage" "pricesOk sonnet" by code_simp+
  then show "pred_option meteredUsage (fa_usage demoArgs)" "pred_option pricesOk (Some sonnet)"
    by (simp_all add: demoArgs_def)
qed

theorem finalize_is_counted_witness:
  "\<exists>e. finalize (\<lambda>p m w. Some sonnet) demoInfo demoArgs ''id'' 7 newFinalizer = (newFinalizer\<lparr>fin_done := True\<rparr>, [e], None)
     \<and> workspaceId e = ''ws'' \<and> userId e = ''u''"
  using finalize_is_counted [of newFinalizer demoArgs "\<lambda>p m w. Some sonnet" demoInfo "''id''" 7 demoArgs "''id2''" 8] demo_ok
  by (auto simp: demoInfo_def demoContext_def)

text \<open>
  C36. Metering does not depend on the network. If every chunk of a stream holds whole characters, what
  the tap observes and what it writes are the same however the stream is cut into chunks; and without
  re-encoding the client always receives exactly the upstream bytes.
\<close>

theorem tap_ignores_chunking:
  assumes "d \<noteq> []" "list_all wholeChars chunks"
  shows "runTap d step recode s chunks ended = runTap d step recode s [concat chunks] ended
    \<and> snd (runTap d step False s chunks ended) = concat chunks"
proof -
  have "runTap d step recode s chunks ended = runTap d step recode s [concat chunks] ended"
  proof (cases chunks)
    case Nil
    then show ?thesis using runTap_Nil [OF assms(1)] by simp
  next
    case (Cons c cs)
    with feedAll_concat [OF assms(1), of c cs step recode "startTap s" "[]"] assms(2)
    have "feedAll d step recode (startTap s, []) chunks = feedAll d step recode (startTap s, []) [concat chunks]" by blast
    then show ?thesis by (simp only: runTap_feedAll)
  qed
  moreover have "snd (runTap d step False s chunks ended) = concat chunks"
    using feedAll_passthrough [of d step "startTap s" "[]" chunks]
    by (auto simp: runTap_feedAll flushTap_def Let_def case_prod_unfold)
  ultimately show ?thesis by blast
qed

definition dataStream :: "string list" where
  "dataStream = [''data: 1'' @ [CHR 0x0A], [CHR 0x0A] @ ''da'', ''ta: 2'' @ [CHR 0x0A, CHR 0x0A]]"

theorem tap_ignores_chunking_witness:
  "list_all wholeChars dataStream
   \<and> runTap [CHR 0x0A, CHR 0x0A] (\<lambda>f s. (s @ [f], f)) True [] dataStream True
     = runTap [CHR 0x0A, CHR 0x0A] (\<lambda>f s. (s @ [f], f)) True [] [concat dataStream] True"
proof -
  have "list_all wholeChars dataStream" by (simp add: dataStream_def wholeChars_ascii)
  with tap_ignores_chunking [of "[CHR 0x0A, CHR 0x0A]" dataStream "\<lambda>f s. (s @ [f], f)" True "[]" True]
  show ?thesis by simp
qed

end
