(* ===== verification/PriceSource.thy ===== *)
theory PriceSource
  imports GatewayCore
begin

text \<open>
  The price list of the gateway: the bundled seed (\<open>packages/db/src/seed/pricing.ts\<close>), the static and the
  database-backed pricing sources (\<open>apps/gateway/src/pricing.ts\<close>), and the model listing of
  \<open>apps/gateway/src/server.ts\<close>. What the finalizer relies on is the locale \<open>pricing_source\<close>.
\<close>

section \<open>The seed\<close>

record price_seed =
  ps_provider :: provider
  ps_modelPattern :: string
  ps_input :: jsnumber
  ps_output :: jsnumber
  ps_cacheRead :: "jsnumber option"
  ps_cacheWrite :: "jsnumber option"

definition seedRow :: "provider \<Rightarrow> string \<Rightarrow> jsnumber \<Rightarrow> jsnumber \<Rightarrow> jsnumber option \<Rightarrow> jsnumber option \<Rightarrow> price_seed" where
  "seedRow p m i out cr cw =
     \<lparr>ps_provider = p, ps_modelPattern = m, ps_input = i, ps_output = out, ps_cacheRead = cr, ps_cacheWrite = cw\<rparr>"

definition PRICING_SEED :: "price_seed list" where
  "PRICING_SEED =
    [seedRow ANTHROPIC ''claude-opus-4*'' 15 75 (Some (15 / 10)) (Some (1875 / 100)),
     seedRow ANTHROPIC ''claude-sonnet-4*'' 3 15 (Some (3 / 10)) (Some (375 / 100)),
     seedRow ANTHROPIC ''claude-haiku-4*'' 1 5 (Some (1 / 10)) (Some (125 / 100)),
     seedRow ANTHROPIC ''claude-3-5-haiku*'' (8 / 10) 4 (Some (8 / 100)) (Some 1),
     seedRow OPENAI ''gpt-4o'' (25 / 10) 10 (Some (125 / 100)) None,
     seedRow OPENAI ''gpt-4o-mini'' (15 / 100) (6 / 10) (Some (75 / 1000)) None,
     seedRow OPENAI ''gpt-4.1*'' 2 8 (Some (5 / 10)) None,
     seedRow OPENAI ''o3*'' 2 8 (Some (5 / 10)) None,
     seedRow OPENAI ''text-embedding-3-small'' (2 / 100) 0 None None,
     seedRow GEMINI ''gemini-2.5-pro*'' (125 / 100) 10 (Some (31 / 100)) None,
     seedRow GEMINI ''gemini-2.5-flash*'' (3 / 10) (25 / 10) (Some (75 / 1000)) None,
     seedRow DEEPSEEK ''deepseek-chat'' (27 / 100) (11 / 10) (Some (7 / 100)) None,
     seedRow DEEPSEEK ''deepseek-reasoner'' (55 / 100) (219 / 100) (Some (14 / 100)) None,
     seedRow MINIMAX ''MiniMax-Text-01'' (2 / 10) (11 / 10) None None,
     seedRow MINIMAX ''MiniMax-M1*'' (4 / 10) (22 / 10) None None,
     seedRow OPENROUTER ''openrouter/auto'' 0 0 None None,
     seedRow OLLAMA ''*'' 0 0 None None]"

section \<open>Sources (pricing.ts)\<close>

definition orZero :: "jsnumber option \<Rightarrow> jsnumber" where
  "orZero n = (case n of None \<Rightarrow> 0 | Some x \<Rightarrow> x)"

definition seedEntry :: "price_seed \<Rightarrow> price_entry" where
  "seedEntry s =
     \<lparr>pe_provider = ps_provider s, modelPattern = ps_modelPattern s,
      inputPerMtok = showNumber (ps_input s), outputPerMtok = showNumber (ps_output s),
      cacheReadPerMtok = showNumber (orZero (ps_cacheRead s)), cacheWritePerMtok = showNumber (orZero (ps_cacheWrite s)),
      source = SEED\<rparr>"

definition seedCatalog :: "price_entry list" where
  "seedCatalog = map seedEntry PRICING_SEED"

definition staticMatch :: "provider \<Rightarrow> string \<Rightarrow> string \<Rightarrow> price_entry option" where
  "staticMatch p model ws = matchPrice p model seedCatalog []"

record price_row =
  pr_provider :: provider
  pr_modelPattern :: string
  pr_input :: string
  pr_output :: string
  pr_cacheRead :: string
  pr_cacheWrite :: string

definition toEntry :: "price_row \<Rightarrow> price_source \<Rightarrow> price_entry" where
  "toEntry r src =
     \<lparr>pe_provider = pr_provider r, modelPattern = pr_modelPattern r, inputPerMtok = pr_input r, outputPerMtok = pr_output r,
      cacheReadPerMtok = pr_cacheRead r, cacheWritePerMtok = pr_cacheWrite r, source = src\<rparr>"

text \<open>The tables: prices with their validity and overrides with their workspace.\<close>

record price_tables =
  modelPrices :: "(price_row \<times> millis \<times> millis option) list"
  priceOverrides :: "(string \<times> price_row) list"

record pg_pricing =
  catalogRows :: "price_entry list"
  overridesByWorkspace :: "(string, price_entry list) omap"

definition newPgPricing :: pg_pricing where
  "newPgPricing = \<lparr>catalogRows = seedCatalog, overridesByWorkspace = []\<rparr>"

definition effectiveRows :: "millis \<Rightarrow> price_tables \<Rightarrow> price_row list" where
  "effectiveRows now t =
     map fst (filter (\<lambda>(r, f, e). f \<le> now \<and> (case e of None \<Rightarrow> True | Some x \<Rightarrow> now < x)) (modelPrices t))"

definition groupOverrides :: "(string \<times> price_row) list \<Rightarrow> (string, price_entry list) omap" where
  "groupOverrides rows =
     foldl (\<lambda>m (ws, r). AList.update ws ((case map_of m ws of None \<Rightarrow> [] | Some l \<Rightarrow> l) @ [toEntry r OVERRIDE]) m) [] rows"

text \<open>A refresh; \<open>queriesOk\<close> false is a failed query, which keeps the previous snapshot.\<close>

definition refresh :: "bool \<Rightarrow> millis \<Rightarrow> price_tables \<Rightarrow> pg_pricing \<Rightarrow> pg_pricing" where
  "refresh queriesOk now t s =
     (if \<not> queriesOk then s
      else (let rows = effectiveRows now t in
            \<lparr>catalogRows = (if rows \<noteq> [] then map (\<lambda>r. toEntry r SYNC) rows else catalogRows s),
             overridesByWorkspace = groupOverrides (priceOverrides t)\<rparr>))"

definition pgMatch :: "pg_pricing \<Rightarrow> provider \<Rightarrow> string \<Rightarrow> string \<Rightarrow> price_entry option" where
  "pgMatch s p model ws =
     matchPrice p model (catalogRows s)
       (if ws \<noteq> [] then (case map_of (overridesByWorkspace s) ws of None \<Rightarrow> [] | Some l \<Rightarrow> l) else [])"

section \<open>The model listing (server.ts)\<close>

record model_info =
  mi_id :: string
  mi_provider :: string
  mi_pattern :: string

text \<open>\<open>s.replace(/\*$/, "")\<close>.\<close>

definition dropStar :: "string \<Rightarrow> string" where
  "dropStar s = (if s \<noteq> [] \<and> last s = CHR ''*'' then butlast s else s)"

definition modelInfo :: "price_entry \<Rightarrow> model_info" where
  "modelInfo e =
     \<lparr>mi_id = toLowerCase (providerName (pe_provider e)) @ ''/'' @ dropStar (modelPattern e),
      mi_provider = providerName (pe_provider e), mi_pattern = modelPattern e\<rparr>"

text \<open>\<open>le\<close> is the order of \<open>localeCompare\<close>; the sort is stable.\<close>

definition listModels :: "(string \<Rightarrow> string \<Rightarrow> bool) \<Rightarrow> price_entry list \<Rightarrow> model_info list" where
  "listModels le entries =
     (let seen = foldl (\<lambda>m e. let i = modelInfo e in
                          if map_of m (mi_id i) = None then m @ [(mi_id i, i)] else m) [] entries
      in foldr (\<lambda>x ys. takeWhile (\<lambda>y. \<not> le (mi_id x) (mi_id y)) ys @ x # dropWhile (\<lambda>y. \<not> le (mi_id x) (mi_id y)) ys)
           (map snd seen) [])"

datatype failure_policy = FAIL_OPEN | FAIL_CLOSED

text \<open>\<open>GET /readyz\<close>: the status, and what is degraded or failing.\<close>

definition readyz :: "bool \<Rightarrow> failure_policy \<Rightarrow> int \<times> string list" where
  "readyz redisUp policy = (if redisUp then (200, []) else if policy = FAIL_OPEN then (200, [''redis'']) else (503, [''redis'']))"

section \<open>The interface\<close>

locale pricing_source =
  fixes match :: "provider \<Rightarrow> string \<Rightarrow> string \<Rightarrow> price_entry option"
  assumes match_ok: "match p model ws = Some e \<Longrightarrow> pricesOk e"
begin

text \<open>With such a price list the calculator never raises and the event is always handed over.\<close>

lemma finalize_emits:
  assumes "\<not> fin_done f" "pred_option meteredUsage (fa_usage args)"
  shows "\<exists>e. finalize match info args newId elapsed f = (f\<lparr>fin_done := True\<rparr>, [e], None) \<and> countable e"
proof -
  let ?price = "match (fi_provider info) (eventModel info (fa_usage args)) (kc_workspaceId (fi_ctx info))"
  have "pred_option pricesOk ?price"
    using match_ok by (cases ?price) auto
  from eventCost_value [OF assms(2) this, of "fa_aborted args"] obtain c b
    where c: "eventCost ?price (fa_usage args) (fa_aborted args) = Inr (c, b)" "\<exists>m. parseDecimalScaled c COST_SCALE = Inr m"
    by blast
  let ?e = "usageEvent info (f\<lparr>fin_done := True\<rparr>) args newId elapsed ?price (c, b)"
  have "countable ?e"
    using usageNum_valid [OF assms(2)] c(2) by (auto simp: countable_def eventTotals_def usageEvent_def toBigInt_def Let_def)
  moreover have "finalize match info args newId elapsed f = (f\<lparr>fin_done := True\<rparr>, [?e], None)"
    using assms(1) c(1) by (simp add: finalize_def Let_def)
  ultimately show ?thesis by blast
qed

end

section \<open>Lemmas\<close>

lemma findIn_mem: "findIn es p m = Some e \<Longrightarrow> e \<in> set es \<and> pe_provider e = p"
proof -
  have "findLoop p m best n es = Some e \<Longrightarrow> best = Some e \<or> e \<in> set es \<and> pe_provider e = p" for best n
    by (induction p m best n es rule: findLoop.induct) (auto split: if_splits option.splits)
  then show "findIn es p m = Some e \<Longrightarrow> e \<in> set es \<and> pe_provider e = p" unfolding findIn_def by blast
qed

lemma matchPrice_mem: "matchPrice p m cat ovr = Some e \<Longrightarrow> e \<in> set cat \<union> set ovr"
  by (auto simp: matchPrice_def dest: findIn_mem split: option.splits)

lemma seedCatalog_ok: "list_all pricesOk seedCatalog"
  by code_simp

interpretation static_prices: pricing_source staticMatch
proof
  show "pricesOk e" if "staticMatch p model ws = Some e" for p model ws e
    using that seedCatalog_ok matchPrice_mem [of p model seedCatalog "[]" e] by (auto simp: staticMatch_def list_all_iff)
qed

text \<open>The overrides of one workspace, in the order of the table.\<close>

definition workspaceOverrides :: "price_tables \<Rightarrow> string \<Rightarrow> price_entry list" where
  "workspaceOverrides t ws = map (\<lambda>(w, r). toEntry r OVERRIDE) (filter (\<lambda>(w, r). w = ws) (priceOverrides t))"

lemma groupOverrides_lookup:
  "(case map_of (groupOverrides rows) ws of None \<Rightarrow> [] | Some l \<Rightarrow> l)
   = map (\<lambda>(w, r). toEntry r OVERRIDE) (filter (\<lambda>(w, r). w = ws) rows)"
proof (induction rows rule: rev_induct)
  case (snoc x rows)
  obtain w r where x: "x = (w, r)" by (cases x)
  have "groupOverrides (rows @ [x]) =
      AList.update w ((case map_of (groupOverrides rows) w of None \<Rightarrow> [] | Some l \<Rightarrow> l) @ [toEntry r OVERRIDE]) (groupOverrides rows)"
    by (simp add: groupOverrides_def x)
  with snoc show ?case by (auto simp: x update_conv')
qed (simp add: groupOverrides_def)

lemma pgMatch_refresh:
  "ws \<noteq> [] \<Longrightarrow> pgMatch (refresh True now t s) p m ws
   = matchPrice p m (catalogRows (refresh True now t s)) (workspaceOverrides t ws)"
  by (simp add: pgMatch_def workspaceOverrides_def refresh_def Let_def groupOverrides_lookup)

text \<open>A snapshot built from well-formed rows is a pricing source.\<close>

definition rowOk :: "price_row \<Rightarrow> bool" where
  "rowOk r \<longleftrightarrow> pricesOk (toEntry r SYNC)"

definition snapshotOk :: "pg_pricing \<Rightarrow> bool" where
  "snapshotOk s \<longleftrightarrow> list_all pricesOk (catalogRows s)
     \<and> (\<forall>ws. list_all pricesOk (case map_of (overridesByWorkspace s) ws of None \<Rightarrow> [] | Some l \<Rightarrow> l))"

definition tablesOk :: "price_tables \<Rightarrow> bool" where
  "tablesOk t \<longleftrightarrow> list_all (\<lambda>(r, f, e). rowOk r) (modelPrices t) \<and> list_all (\<lambda>(w, r). rowOk r) (priceOverrides t)"

lemma toEntry_ok: "pricesOk (toEntry r src) = rowOk r"
  by (simp add: rowOk_def pricesOk_def toEntry_def)

lemma snapshotOk_new: "snapshotOk newPgPricing"
  by (simp add: snapshotOk_def newPgPricing_def seedCatalog_ok)

lemma snapshotOk_refresh:
  assumes "tablesOk t" "snapshotOk s"
  shows "snapshotOk (refresh ok now t s)"
proof (cases ok)
  case True
  have "list_all pricesOk (map (\<lambda>r. toEntry r SYNC) (effectiveRows now t))"
    using assms(1) by (auto simp: list_all_iff effectiveRows_def toEntry_ok tablesOk_def)
  moreover have "list_all pricesOk (map (\<lambda>(w, r). toEntry r OVERRIDE) (filter (\<lambda>(w, r). w = ws) (priceOverrides t)))" for ws
    using assms(1) by (auto simp: list_all_iff toEntry_ok tablesOk_def)
  ultimately show ?thesis
    using assms(2) True by (auto simp: snapshotOk_def refresh_def Let_def groupOverrides_lookup)
qed (use assms in \<open>simp add: refresh_def\<close>)

lemma pgMatch_source: "snapshotOk s \<Longrightarrow> pricing_source (pgMatch s)"
proof
  fix p model ws e
  assume ok: "snapshotOk s" and "pgMatch s p model ws = Some e"
  then have "e \<in> set (catalogRows s) \<union> set (case map_of (overridesByWorkspace s) ws of None \<Rightarrow> [] | Some l \<Rightarrow> l)"
    using matchPrice_mem [of p model "catalogRows s" _ e] by (fastforce simp: pgMatch_def split: if_splits)
  with ok show "pricesOk e" by (auto simp: snapshotOk_def list_all_iff)
qed

section \<open>Properties\<close>

text \<open>
  C29. Prices are current, per workspace, and usable. After a successful refresh a request is
  priced by the most specific override of its own workspace, whatever the others have, else by the rows
  in force. If the price tables only hold well-formed decimals, then after any sequence of refreshes of them, failed ones
  included, a request whose token counts are whole and not negative yields exactly one event, and one that the worker
  can count. (A price or a count of another form makes the calculator raise, and the event is lost.)
\<close>

theorem prices_isolated_and_usable:
  assumes "list_all (\<lambda>(ok, now, t). tablesOk t) history" "\<not> fin_done f" "pred_option meteredUsage (fa_usage args)"
    and "s = foldl (\<lambda>s (ok, now, t). refresh ok now t s) newPgPricing history" "ws \<noteq> []"
  shows "(\<exists>e. finalize (pgMatch s) info args newId elapsed f = (f\<lparr>fin_done := True\<rparr>, [e], None) \<and> countable e)
    \<and> pgMatch (refresh True now t s) p m ws
      = (case findIn (workspaceOverrides t ws) p m of
           Some e \<Rightarrow> Some e
         | None \<Rightarrow> findIn (if effectiveRows now t \<noteq> [] then map (\<lambda>r. toEntry r SYNC) (effectiveRows now t) else catalogRows s) p m)"
proof -
  have "snapshotOk s0 \<Longrightarrow> snapshotOk (foldl (\<lambda>s (ok, now, t). refresh ok now t s) s0 history)" for s0
    using assms(1)
  proof (induction history arbitrary: s0)
    case (Cons x xs)
    obtain ok now t where x: "x = (ok, now, t)" by (cases x)
    with Cons.prems have "snapshotOk (refresh ok now t s0)" by (simp add: snapshotOk_refresh)
    with Cons x show ?case by simp
  qed simp
  then have "snapshotOk s" using snapshotOk_new assms(4) by simp
  from pricing_source.finalize_emits [OF pgMatch_source [OF this] assms(2,3)]
  have "\<exists>e. finalize (pgMatch s) info args newId elapsed f = (f\<lparr>fin_done := True\<rparr>, [e], None) \<and> countable e" .
  moreover have "catalogRows (refresh True now t s)
      = (if effectiveRows now t \<noteq> [] then map (\<lambda>r. toEntry r SYNC) (effectiveRows now t) else catalogRows s)"
    by (simp add: refresh_def Let_def)
  ultimately show ?thesis using pgMatch_refresh [OF assms(5), of now t s p m] by (simp only: matchPrice_def simp_thms)
qed

definition demoTables :: price_tables where
  "demoTables =
     \<lparr>modelPrices = [(\<lparr>pr_provider = OPENAI, pr_modelPattern = ''gpt-4o*'', pr_input = ''2.500000'', pr_output = ''10.000000'',
                       pr_cacheRead = ''0.000000'', pr_cacheWrite = ''0.000000''\<rparr>, 0, None)],
      priceOverrides = []\<rparr>"

theorem prices_isolated_and_usable_witness:
  "\<exists>e. finalize (pgMatch (refresh True 5 demoTables newPgPricing)) demoInfo demoArgs ''id'' 7 newFinalizer
     = (newFinalizer\<lparr>fin_done := True\<rparr>, [e], None) \<and> countable e"
proof -
  have "tablesOk demoTables" by code_simp
  then show ?thesis
    using prices_isolated_and_usable [of "[(True, 5, demoTables)]" newFinalizer demoArgs
        "refresh True 5 demoTables newPgPricing" "''ws''" demoInfo "''id''" 7] demo_ok
    by simp
qed

end
