(* ===== verification/Pipeline.thy ===== *)
theory Pipeline
  imports PriceSource
begin

text \<open>
  The native passthrough handler of the gateway (\<open>apps/gateway/src/proxy/pipeline.ts\<close>), stage by stage in
  the order of the source: provider and key, body and model, model allowlist, rate limit, credential,
  upstream call, relay and metering. The dependencies (\<open>GatewayDeps\<close>), the JSON codec, the clock and the
  upstream server are fields of a record; the handler's result lists what it sent upstream, the events
  it handed to the sink and its reply. A dependency that rejects, other than the credential store,
  rejects the request before any effect and is left out. The reply \<open>Crashed\<close> stands for an exception
  that no code of the gateway catches: a rejected handler, or a throw in the stream's callback.
\<close>

section \<open>Requests, upstream and results\<close>

record gw_request =
  rq_slug :: string
  rq_rest :: string
  rq_url :: string
  rq_method :: string
  rq_headers :: headers
  rq_body :: "(string list \<times> bool) option"
  rq_id :: string

record upstream_call =
  uc_url :: string
  uc_method :: string
  uc_headers :: "(string, string) omap"
  uc_body :: "string option"

text \<open>A response: status, headers, the chunks of the body and whether the body broke off.\<close>

record upstream_response =
  ur_status :: int
  ur_headers :: headers
  ur_chunks :: "string list"
  ur_broken :: bool

datatype gw_reply =
    Refused client_error "int option"
  | Relayed int headers string
  | Crashed

record gw_result =
  gr_reply :: gw_reply
  gr_calls :: "upstream_call list"
  gr_events :: "usage_event list"

record gw_deps =
  d_sha :: "string \<Rightarrow> string"
  d_resolve :: "string \<Rightarrow> key_context option"
  d_check :: "string \<Rightarrow> int \<Rightarrow> rate_decision"
  d_getDefault :: "string \<Rightarrow> provider \<Rightarrow> string list \<Rightarrow> credential_secret option option"
  d_match :: "provider \<Rightarrow> string \<Rightarrow> string \<Rightarrow> price_entry option"
  d_parse :: "string \<Rightarrow> json option"
  d_stringify :: "json \<Rightarrow> string"
  d_upstream :: "upstream_call \<Rightarrow> upstream_response option"
  d_now :: millis
  d_newId :: string
  d_elapsed :: int
  d_ttft :: int

definition refuse :: "int \<Rightarrow> string \<Rightarrow> string \<Rightarrow> client_error" where
  "refuse st ty msg = \<lparr>ce_status = st, ce_type = ty, ce_message = msg\<rparr>"

definition quoted :: "string \<Rightarrow> string" where
  "quoted s = [CHR 0x27] @ s @ [CHR 0x27]"

section \<open>Stages\<close>

definition providerOfSlug :: "string \<Rightarrow> provider option" where
  "providerOfSlug slug = find (\<lambda>p. toLowerCase (providerName p) = slug) PROVIDERS"

text \<open>\<open>deps.keyStore.resolve\<close> and the checks on the key's state, as \<open>authorizeKey\<close> has them.\<close>

definition keyStage :: "gw_deps \<Rightarrow> gw_request \<Rightarrow> client_error + provider \<times> key_context" where
  "keyStage d rq =
     (case providerOfSlug (rq_slug rq) of
        None \<Rightarrow> Inl (refuse 404 ''provider_not_configured'' (''Unknown provider '' @ quoted (rq_slug rq)))
      | Some p \<Rightarrow>
          (case authorizeKey (d_sha d) (d_resolve d) (d_now d) (rq_headers rq) of
             Inl e \<Rightarrow> Inl e
           | Inr ctx \<Rightarrow>
               (if providerAllowlist ctx \<noteq> [] \<and> p \<notin> set (providerAllowlist ctx)
                then Inl (refuse 403 ''model_not_allowed'' (''This key may not use provider '' @ quoted (rq_slug rq)))
                else Inr (p, ctx))))"

definition subPath :: "gw_request \<Rightarrow> string" where
  "subPath rq = ''/'' @ rq_rest rq @ (case indexOf (rq_url rq) ''?'' of None \<Rightarrow> [] | Some i \<Rightarrow> drop i (rq_url rq))"

definition headerIncludes :: "headers \<Rightarrow> string \<Rightarrow> string \<Rightarrow> bool" where
  "headerIncludes h name part = (case map_of h name of None \<Rightarrow> False | Some v \<Rightarrow> includesStr (headerText v) part)"

text \<open>The body to send and the model it names; JSON \<open>null\<close> raises at \<open>parsed.model\<close> and is caught.\<close>

definition bodyStage :: "gw_deps \<Rightarrow> adapter \<Rightarrow> gw_request \<Rightarrow> read_error + string option \<times> string" where
  "bodyStage d ad rq =
     (case rq_body rq of
        None \<Rightarrow> Inr (None, [])
      | Some body \<Rightarrow>
          (case readAll body MAX_REQUEST_BODY of
             Inl e \<Rightarrow> Inl e
           | Inr buf \<Rightarrow>
               (if headerIncludes (rq_headers rq) ''content-type'' ''json'' \<and> buf \<noteq> []
                then (case d_parse d (utf8Text buf) of
                        None \<Rightarrow> Inr (Some buf, [])
                      | Some JNull \<Rightarrow> Inr (Some buf, [])
                      | Some parsed \<Rightarrow>
                          Inr (Some (d_stringify d (ensureUsageInStream ad parsed)), strField (Some parsed) ''model''))
                else Inr (Some buf, []))))"

definition requestModelOf :: "adapter \<Rightarrow> string \<Rightarrow> string \<Rightarrow> string" where
  "requestModelOf ad path bodyModel =
     (if bodyModel \<noteq> [] then bodyModel
      else (case modelFromPath ad of None \<Rightarrow> [] | Some f \<Rightarrow> f path))"

definition modelMatches :: "string \<Rightarrow> string \<Rightarrow> bool" where
  "modelMatches model a \<longleftrightarrow> model = a \<or> (endsWith a ''*'' \<and> startsWith model (butlast a))"

definition modelAllowed :: "key_context \<Rightarrow> string \<Rightarrow> bool" where
  "modelAllowed ctx model \<longleftrightarrow> modelAllowlist ctx = [] \<or> list_ex (modelMatches model) (modelAllowlist ctx)"

text \<open>The rate limit: the decision, when the key has a limit.\<close>

definition rateStage :: "gw_deps \<Rightarrow> key_context \<Rightarrow> rate_decision option" where
  "rateStage d ctx =
     (case rpmLimit ctx of
        None \<Rightarrow> None
      | Some n \<Rightarrow> (if n = 0 then None else Some (d_check d (''vk:'' @ vkId ctx) n)))"

definition rateLimitMessage :: "key_context \<Rightarrow> string" where
  "rateLimitMessage ctx = ''Key rate limit of '' @ showInt (the (rpmLimit ctx)) @ '' requests/minute exceeded''"

text \<open>A failed resolution is logged and counts as no credential.\<close>

definition credentialStage :: "gw_deps \<Rightarrow> provider \<Rightarrow> key_context \<Rightarrow> credential_secret option" where
  "credentialStage d p ctx =
     (case d_getDefault d (kc_workspaceId ctx) p (credentialAllowlist ctx) of None \<Rightarrow> None | Some c \<Rightarrow> c)"

definition resolved :: "credential_secret \<Rightarrow> resolved_credential" where
  "resolved c = \<lparr>secret = cs_secret c, baseUrl = cs_baseUrl c\<rparr>"

definition upstreamCall :: "gw_request \<Rightarrow> upstream_request \<Rightarrow> string option \<Rightarrow> upstream_call" where
  "upstreamCall rq up body =
     \<lparr>uc_url = url up, uc_method = rq_method rq,
      uc_headers = mergeHeaders (mergeHeaders (forwardableHeaders (rq_headers rq)) (up_headers up))
                     [(''accept-encoding'', ''identity''), (''user-agent'', ''tokenledger-gateway/0.1'')],
      uc_body = body\<rparr>"

definition replyHeaders :: "headers \<Rightarrow> headers" where
  "replyHeaders h = filter (\<lambda>(name, v). toLowerCase name \<notin> set SKIP_HEADERS) h"

definition plainArgs :: "int \<Rightarrow> normalized_usage option \<Rightarrow> finalize_args" where
  "plainArgs st usage = \<lparr>fa_httpStatus = st, fa_streamed = False, fa_usage = usage, fa_aborted = False, statusOverride = None\<rparr>"

definition streamArgs :: "int \<Rightarrow> normalized_usage \<Rightarrow> bool \<Rightarrow> finalize_args" where
  "streamArgs st usage broken =
     \<lparr>fa_httpStatus = st, fa_streamed = True, fa_usage = Some usage, fa_aborted = broken, statusOverride = None\<rparr>"

definition blockedArgs :: finalize_args where
  "blockedArgs =
     \<lparr>fa_httpStatus = 429, fa_streamed = False, fa_usage = None, fa_aborted = False, statusOverride = Some BLOCKED_RATELIMIT\<rparr>"

text \<open>Finalizing a request and then replying: an error of the calculator replaces the reply.\<close>

definition conclude ::
  "gw_deps \<Rightarrow> finalizer_info \<Rightarrow> finalizer \<Rightarrow> finalize_args \<Rightarrow> gw_reply \<Rightarrow> upstream_call list \<Rightarrow> gw_result" where
  "conclude d info f args reply calls =
     (case finalize (d_match d) info args (d_newId d) (d_elapsed d) f of
        (_, evs, err) \<Rightarrow> \<lparr>gr_reply = (if err = None then reply else Crashed), gr_calls = calls, gr_events = evs\<rparr>)"

definition observeStep :: "adapter \<Rightarrow> string \<Rightarrow> extractor \<Rightarrow> extractor \<times> string" where
  "observeStep ad frame st = (onFrame ad frame st, [])"

text \<open>Reading the usage of a buffered response: none unless it is a parseable JSON success.\<close>

definition responseUsage :: "gw_deps \<Rightarrow> adapter \<Rightarrow> upstream_response \<Rightarrow> string \<Rightarrow> normalized_usage option" where
  "responseUsage d ad res body =
     (if ur_status res < 400 \<and> headerIncludes (ur_headers res) ''content-type'' ''json''
      then (case d_parse d (utf8Text body) of
              None \<Rightarrow> None
            | Some JNull \<Rightarrow> None
            | Some j \<Rightarrow> Some (parseUsage ad j))
      else None)"

definition relayStage ::
  "gw_deps \<Rightarrow> adapter \<Rightarrow> finalizer_info \<Rightarrow> finalizer \<Rightarrow> upstream_call \<Rightarrow> upstream_response \<Rightarrow> gw_result" where
  "relayStage d ad info f call res =
     (let isSse = headerIncludes (ur_headers res) ''content-type'' ''text/event-stream'';
          isNdjson = headerIncludes (ur_headers res) ''content-type'' ''ndjson'' in
      if (isSse \<or> isNdjson) \<and> ur_status res < 400
      then (let delim = (if isSse then [CHR 0x0A, CHR 0x0A] else [CHR 0x0A]);
                (st, out) = runTap delim (observeStep ad) False (startExtractor ad) (ur_chunks res) (\<not> ur_broken res);
                f1 = (if ur_chunks res = [] then f else markFirstByte (d_ttft d) f)
            in conclude d info f1 (streamArgs (ur_status res) (finish ad st) (ur_broken res))
                 (Relayed (ur_status res) (replyHeaders (ur_headers res)) out) [call])
      else (case readAll (ur_chunks res, ur_broken res) MAX_REQUEST_BODY of
              Inl e \<Rightarrow> \<lparr>gr_reply = Crashed, gr_calls = [call], gr_events = []\<rparr>
            | Inr body \<Rightarrow>
                conclude d info f (plainArgs (ur_status res) (responseUsage d ad res body))
                  (Relayed (ur_status res) (replyHeaders (ur_headers res)) body) [call]))"

section \<open>The handler\<close>

definition refused :: "client_error \<Rightarrow> gw_result" where
  "refused e = \<lparr>gr_reply = Refused e None, gr_calls = [], gr_events = []\<rparr>"

definition requestInfo :: "gw_deps \<Rightarrow> gw_request \<Rightarrow> provider \<Rightarrow> key_context \<Rightarrow> string \<Rightarrow> finalizer_info" where
  "requestInfo d rq p ctx model =
     \<lparr>fi_ctx = ctx, fi_provider = p, fi_endpoint = hd (splitOn CHR ''?'' (subPath rq)), fi_requestId = rq_id rq,
      fi_requestModel = model, fi_occurredAt = d_now d\<rparr>"

definition sendStage ::
  "gw_deps \<Rightarrow> adapter \<Rightarrow> finalizer_info \<Rightarrow> gw_request \<Rightarrow> string option \<Rightarrow> credential_secret \<Rightarrow> gw_result" where
  "sendStage d ad info rq body cred =
     (let f = setCredentialId (cs_credentialId cred) newFinalizer;
          call = upstreamCall rq (buildUpstream ad (subPath rq) (resolved cred)) body in
      case d_upstream d call of
        None \<Rightarrow>
          conclude d info f (plainArgs 502 None)
            (Refused (refuse 502 ''upstream_unavailable'' ''The AI provider could not be reached'') None) [call]
      | Some res \<Rightarrow> relayStage d ad info f call res)"

definition admitStage ::
  "gw_deps \<Rightarrow> gw_request \<Rightarrow> provider \<Rightarrow> key_context \<Rightarrow> adapter \<Rightarrow> string option \<Rightarrow> string \<Rightarrow> gw_result" where
  "admitStage d rq p ctx ad body model =
     (let info = requestInfo d rq p ctx model;
          limited = (case rateStage d ctx of Some dec \<Rightarrow> if allowed dec then None else Some dec | None \<Rightarrow> None) in
      case limited of
        Some dec \<Rightarrow>
          conclude d info newFinalizer blockedArgs
            (Refused (refuse 429 ''rate_limited'' (rateLimitMessage ctx)) (Some (retryAfterS dec))) []
      | None \<Rightarrow>
          (case credentialStage d p ctx of
             None \<Rightarrow>
               refused (refuse 404 ''provider_not_configured''
                 (''No active '' @ rq_slug rq @ '' credential configured for this workspace''))
           | Some cred \<Rightarrow> sendStage d ad info rq body cred))"

definition handleNative :: "gw_deps \<Rightarrow> gw_request \<Rightarrow> gw_result" where
  "handleNative d rq =
     (case keyStage d rq of
        Inl e \<Rightarrow> refused e
      | Inr (p, ctx) \<Rightarrow>
          (let ad = getAdapter (d_parse d) p in
           case bodyStage d ad rq of
             Inl e \<Rightarrow> \<lparr>gr_reply = Crashed, gr_calls = [], gr_events = []\<rparr>
           | Inr (body, bodyModel) \<Rightarrow>
               (let model = requestModelOf ad (subPath rq) bodyModel in
                if modelAllowlist ctx \<noteq> [] \<and> model \<noteq> [] \<and> \<not> list_ex (modelMatches model) (modelAllowlist ctx)
                then refused (refuse 403 ''model_not_allowed'' (''Model '' @ quoted model @ '' is not allowed for this key''))
                else admitStage d rq p ctx ad body model)))"

section \<open>Lemmas: what is sent and recorded\<close>

lemma mergeHeaders_mem: "(n, v) \<in> set (mergeHeaders a b) \<Longrightarrow> (n, v) \<in> set a \<or> (n, v) \<in> set b"
proof (induction b arbitrary: a)
  case (Cons x b)
  obtain k w where x: "x = (k, w)" by (cases x)
  have upd: "set (AList.update k w a) \<subseteq> insert (k, w) (set a)" by (induction a) auto
  have "mergeHeaders a (x # b) = mergeHeaders (AList.update k w a) b" by (simp add: mergeHeaders_def x)
  with Cons.prems Cons.IH [of "AList.update k w a"] upd x show ?case by auto
qed (simp add: mergeHeaders_def)

lemma forwardableHeaders_mem: "(n, v) \<in> set (forwardableHeaders h) \<Longrightarrow> n \<notin> set SKIP_HEADERS"
  by (induction h rule: forwardableHeaders.induct) (auto split: if_splits)

text \<open>The headers that can carry a key come from the adapter alone.\<close>

definition authHeaders :: "string list" where
  "authHeaders = [''authorization'', ''x-api-key'']"

lemma authHeaders_from_adapter:
  assumes "(n, v) \<in> set (mergeHeaders (mergeHeaders (forwardableHeaders h) up) extra)" "n \<in> set authHeaders"
    and "n \<notin> fst ` set extra"
  shows "(n, v) \<in> set up"
proof -
  have "n \<in> set SKIP_HEADERS" using assms(2) by (auto simp: authHeaders_def SKIP_HEADERS_def)
  then have "(n, v) \<notin> set (forwardableHeaders h)" using forwardableHeaders_mem by blast
  moreover have "(n, v) \<notin> set extra" using assms(3) by force
  ultimately show ?thesis
    using mergeHeaders_mem [OF assms(1)] mergeHeaders_mem [of n v "forwardableHeaders h" up] by blast
qed

lemma finalize_events:
  "finalize match info args newId elapsed f = (f', evs, err) \<Longrightarrow> \<not> fin_done f \<Longrightarrow>
   (err = None \<longrightarrow> (\<exists>price cost. evs = [usageEvent info (f\<lparr>fin_done := True\<rparr>) args newId elapsed price cost])) \<and> (err \<noteq> None \<longrightarrow> evs = [])"
  by (auto simp: finalize_def Let_def split: sum.splits)

text \<open>The attribution of an event to the key that made the request.\<close>

definition attributed :: "key_context \<Rightarrow> provider \<Rightarrow> usage_event \<Rightarrow> bool" where
  "attributed ctx p e \<longleftrightarrow>
     workspaceId e = kc_workspaceId ctx \<and> projectId e = kc_projectId ctx \<and> userId e = kc_userId ctx
     \<and> virtualKeyId e = vkId ctx \<and> ev_provider e = p"

lemma usageEvent_fields:
  "attributed (fi_ctx info) (fi_provider info) (usageEvent info f args newId elapsed price cost)"
  "status (usageEvent info f args newId elapsed price cost)
     = (case statusOverride args of Some s \<Rightarrow> s | None \<Rightarrow> if fa_httpStatus args < 400 then OK else PROVIDER_ERROR)"
  by (simp_all add: attributed_def usageEvent_def Let_def)

text \<open>
  A concluded request: what was sent, and one attributed event, or none when the handler crashed.
\<close>

definition metered :: "key_context \<Rightarrow> provider \<Rightarrow> upstream_call list \<Rightarrow> gw_result \<Rightarrow> bool" where
  "metered ctx p calls r \<longleftrightarrow>
     gr_calls r = calls
     \<and> (if gr_reply r = Crashed then gr_events r = [] else (\<exists>e. gr_events r = [e] \<and> attributed ctx p e))"

lemma conclude_cases:
  assumes "\<not> fin_done f"
  shows "conclude d info f args reply calls = \<lparr>gr_reply = Crashed, gr_calls = calls, gr_events = []\<rparr>
    \<or> (\<exists>price cost. conclude d info f args reply calls =
         \<lparr>gr_reply = reply, gr_calls = calls,
          gr_events = [usageEvent info (f\<lparr>fin_done := True\<rparr>) args (d_newId d) (d_elapsed d) price cost]\<rparr>)"
proof -
  obtain f' evs err where fin: "finalize (d_match d) info args (d_newId d) (d_elapsed d) f = (f', evs, err)"
    by (cases "finalize (d_match d) info args (d_newId d) (d_elapsed d) f")
  from finalize_events [OF fin assms] show ?thesis by (cases err) (auto simp: conclude_def fin)
qed

lemma conclude_metered:
  "\<not> fin_done f \<Longrightarrow> reply \<noteq> Crashed \<Longrightarrow> metered (fi_ctx info) (fi_provider info) calls (conclude d info f args reply calls)"
  using conclude_cases [of f d info args reply calls] usageEvent_fields(1)
  by (auto simp: metered_def)

lemma metered_crash [simp]: "metered ctx p calls \<lparr>gr_reply = Crashed, gr_calls = calls, gr_events = []\<rparr>"
  by (simp add: metered_def)

lemma finalizer_fresh [simp]:
  "\<not> fin_done newFinalizer" "\<not> fin_done (setCredentialId i newFinalizer)"
  "fin_done (markFirstByte t f) = fin_done f"
  by (simp_all add: newFinalizer_def setCredentialId_def markFirstByte_def)

lemma relayStage_metered:
  "\<not> fin_done f \<Longrightarrow> metered (fi_ctx info) (fi_provider info) [call] (relayStage d ad info f call res)"
  by (auto simp: relayStage_def Let_def conclude_metered split: sum.split prod.split)

lemma sendStage_metered:
  "metered (fi_ctx info) (fi_provider info) [upstreamCall rq (buildUpstream ad (subPath rq) (resolved cred)) body]
     (sendStage d ad info rq body cred)"
  by (auto simp: sendStage_def Let_def conclude_metered relayStage_metered split: option.split)

lemma gr_calls_conclude [simp]: "gr_calls (conclude d info f args reply calls) = calls"
  by (simp add: conclude_def split: prod.split)

lemma gr_calls_send [simp]:
  "gr_calls (sendStage d ad info rq body cred) = [upstreamCall rq (buildUpstream ad (subPath rq) (resolved cred)) body]"
  using sendStage_metered [of info rq ad cred body d] by (simp add: metered_def)

lemma requestInfo_simps [simp]: "fi_ctx (requestInfo d rq p ctx m) = ctx" "fi_provider (requestInfo d rq p ctx m) = p"
  by (simp_all add: requestInfo_def)

section \<open>Lemmas: the document sent\<close>

text \<open>Asking for the usage in a stream leaves the model of the document as it is.\<close>

lemma openAiEnsureUsage_model: "jget j ''model'' = Some m \<Longrightarrow> jget (openAiEnsureUsage u j) ''model'' = Some m"
  by (cases j) (auto simp: openAiEnsureUsage_def Let_def)

lemma ensureUsage_model:
  "jget j ''model'' = Some m \<Longrightarrow> jget (ensureUsageInStream (getAdapter parse p) j) ''model'' = Some m"
  by (cases p) (simp_all add: openaiAdapter_def deepseekAdapter_def openrouterAdapter_def minimaxAdapter_def
      createOpenAiCompatibleAdapter_def ollamaAdapter_def anthropicAdapter_def geminiAdapter_def openAiEnsureUsage_model)

lemma bodyStage_names:
  assumes "bodyStage d (getAdapter (d_parse d) p) rq = Inr (body, m)" "m \<noteq> []"
  shows "\<exists>doc. body = Some (d_stringify d doc) \<and> jget doc ''model'' = Some (JStr m)"
proof -
  from assms obtain j where body: "body = Some (d_stringify d (ensureUsageInStream (getAdapter (d_parse d) p) j))"
    and m: "m = strField (Some j) ''model''"
    by (auto simp: bodyStage_def split: option.splits sum.splits if_splits json.splits)
  from m assms(2) have "jget j ''model'' = Some (JStr m)"
    by (auto simp: strField_def jgetOpt_def split: option.splits elim!: asString.elims)
  with body ensureUsage_model show ?thesis by blast
qed

section \<open>Lemmas: admission\<close>

lemma authorizeKey_Inr:
  assumes "authorizeKey sha rs now h = Inr ctx"
  obtains k where "extractKey h = Some k" "rs (sha k) = Some ctx" "kc_status ctx = ACTIVE" "\<not> keyExpired now ctx"
proof -
  from assms obtain k where k: "extractKey h = Some k" "rs (sha k) = Some ctx"
    and st: "kc_status ctx \<noteq> REVOKED" "\<not> keyExpired now ctx"
    by (auto simp: authorizeKey_def split: option.splits if_splits)
  have "kc_status ctx = ACTIVE" using st by (cases "kc_status ctx") (auto simp: keyExpired_def)
  with that k st show thesis by blast
qed

lemma keyStage_Inr:
  assumes "keyStage d rq = Inr (p, ctx)"
  shows "providerOfSlug (rq_slug rq) = Some p" "authorizeKey (d_sha d) (d_resolve d) (d_now d) (rq_headers rq) = Inr ctx"
    "providerAllowlist ctx = [] \<or> p \<in> set (providerAllowlist ctx)"
  using assms by (auto simp: keyStage_def split: option.splits sum.splits if_splits)

definition withinRate :: "gw_deps \<Rightarrow> key_context \<Rightarrow> bool" where
  "withinRate d ctx \<longleftrightarrow> (case rateStage d ctx of None \<Rightarrow> True | Some dec \<Rightarrow> allowed dec)"

lemma admitStage_cases:
  "(\<exists>e. admitStage d rq p ctx ad body model = refused e)
   \<or> (\<exists>e w. \<not> withinRate d ctx \<and> admitStage d rq p ctx ad body model =
        conclude d (requestInfo d rq p ctx model) newFinalizer blockedArgs (Refused e w) [])
   \<or> (\<exists>cred. withinRate d ctx \<and> credentialStage d p ctx = Some cred
        \<and> admitStage d rq p ctx ad body model = sendStage d ad (requestInfo d rq p ctx model) rq body cred)"
  by (auto simp: admitStage_def withinRate_def Let_def split: option.splits)

lemma handleNative_cases [case_names refused crashed admitted]:
  obtains (refused) e where "handleNative d rq = refused e"
  | (crashed) "handleNative d rq = \<lparr>gr_reply = Crashed, gr_calls = [], gr_events = []\<rparr>"
  | (admitted) p ctx body bodyModel model where "keyStage d rq = Inr (p, ctx)"
      "bodyStage d (getAdapter (d_parse d) p) rq = Inr (body, bodyModel)"
      "model = requestModelOf (getAdapter (d_parse d) p) (subPath rq) bodyModel"
      "model = [] \<or> modelAllowed ctx model"
      "handleNative d rq = admitStage d rq p ctx (getAdapter (d_parse d) p) body model"
proof (cases "keyStage d rq")
  case (Inl e)
  then show thesis using refused [of e] by (simp add: handleNative_def)
next
  case (Inr pc)
  then obtain p ctx where key: "keyStage d rq = Inr (p, ctx)" by (cases pc) auto
  let ?ad = "getAdapter (d_parse d) p"
  show thesis
  proof (cases "bodyStage d ?ad rq")
    case (Inl e)
    with key show thesis using crashed by (simp add: handleNative_def Let_def)
  next
    case (Inr bm)
    then obtain body bodyModel where body: "bodyStage d ?ad rq = Inr (body, bodyModel)" by (cases bm) auto
    let ?model = "requestModelOf ?ad (subPath rq) bodyModel"
    show thesis
    proof (cases "modelAllowlist ctx \<noteq> [] \<and> ?model \<noteq> [] \<and> \<not> list_ex (modelMatches ?model) (modelAllowlist ctx)")
      case True
      with key body have "\<exists>e. handleNative d rq = refused e" by (auto simp: handleNative_def Let_def)
      with refused show thesis by blast
    next
      case False
      then have "?model = [] \<or> modelAllowed ctx ?model" by (auto simp: modelAllowed_def)
      moreover from False key body have "handleNative d rq = admitStage d rq p ctx ?ad body ?model"
        by (auto simp: handleNative_def Let_def)
      ultimately show thesis using admitted [OF key body refl] by blast
    qed
  qed
qed

lemma refused_simps [simp]: "gr_calls (refused e) = []" "gr_events (refused e) = []" "gr_reply (refused e) = Refused e None"
  by (simp_all add: refused_def)

section \<open>Properties\<close>

text \<open>
  C3. Nothing reaches a provider unauthorized. Whenever the handler sends a request upstream, the client
  presented a key that resolves to an active, unexpired context which allows the provider and is within its rate limit;
  one request is sent, to the address and with the credential its workspace has for that provider. The model the handler
  reads is allowed: when the body is announced as JSON and its field \<open>model\<close> is a text, that is the model, and the
  document sent upstream names the same one; otherwise it is the model of the path, where the provider's
  paths name one. (The body comes first, so a Gemini request can name an allowed model in its body and another in its path:
  see \<open>model_allowlist_bypassed\<close>.) Of the two headers in which the gateway takes a key, \<open>authorization\<close> and
  \<open>x-api-key\<close>, the request sent has those of the adapter, which hold the provider's credential, and not the client's.
\<close>

theorem native_request_authorized:
  assumes "call \<in> set (gr_calls (handleNative d rq))"
  shows "\<exists>p k ctx cred body bodyModel. providerOfSlug (rq_slug rq) = Some p
    \<and> extractKey (rq_headers rq) = Some k \<and> d_resolve d (d_sha d k) = Some ctx
    \<and> kc_status ctx = ACTIVE \<and> \<not> keyExpired (d_now d) ctx
    \<and> (providerAllowlist ctx = [] \<or> p \<in> set (providerAllowlist ctx))
    \<and> bodyStage d (getAdapter (d_parse d) p) rq = Inr (body, bodyModel) \<and> uc_body call = body
    \<and> (if bodyModel \<noteq> []
       then modelAllowed ctx bodyModel
         \<and> (\<exists>doc. body = Some (d_stringify d doc) \<and> jget doc ''model'' = Some (JStr bodyModel))
       else (\<forall>f. modelFromPath (getAdapter (d_parse d) p) = Some f \<longrightarrow>
               f (subPath rq) = [] \<or> modelAllowed ctx (f (subPath rq))))
    \<and> withinRate d ctx
    \<and> d_getDefault d (kc_workspaceId ctx) p (credentialAllowlist ctx) = Some (Some cred)
    \<and> gr_calls (handleNative d rq) = [call]
    \<and> uc_url call = url (buildUpstream (getAdapter (d_parse d) p) (subPath rq) (resolved cred))
    \<and> list_all (\<lambda>(n, v). n \<in> set authHeaders \<longrightarrow>
         (n, v) \<in> set (up_headers (buildUpstream (getAdapter (d_parse d) p) (subPath rq) (resolved cred)))) (uc_headers call)"
proof (cases d rq rule: handleNative_cases)
  case (admitted p ctx body bodyModel model)
  from assms admitted(5) admitStage_cases [of d rq p ctx "getAdapter (d_parse d) p" body model]
  obtain cred where cred: "withinRate d ctx" "credentialStage d p ctx = Some cred"
    and call: "call = upstreamCall rq (buildUpstream (getAdapter (d_parse d) p) (subPath rq) (resolved cred)) body"
    and calls: "gr_calls (handleNative d rq) = [call]" by auto
  have "d_getDefault d (kc_workspaceId ctx) p (credentialAllowlist ctx) = Some (Some cred)"
    using cred(2) by (simp add: credentialStage_def split: option.splits)
  moreover obtain k where "extractKey (rq_headers rq) = Some k" "d_resolve d (d_sha d k) = Some ctx"
    "kc_status ctx = ACTIVE" "\<not> keyExpired (d_now d) ctx"
    using authorizeKey_Inr [OF keyStage_Inr(2) [OF admitted(1)]] .
  moreover have "list_all (\<lambda>(n, v). n \<in> set authHeaders \<longrightarrow>
         (n, v) \<in> set (up_headers (buildUpstream (getAdapter (d_parse d) p) (subPath rq) (resolved cred)))) (uc_headers call)"
    using authHeaders_from_adapter [of _ _ "rq_headers rq"]
    by (auto simp: list_all_iff call upstreamCall_def authHeaders_def)
  moreover have "if bodyModel \<noteq> [] then modelAllowed ctx bodyModel
         \<and> (\<exists>doc. body = Some (d_stringify d doc) \<and> jget doc ''model'' = Some (JStr bodyModel))
       else (\<forall>f. modelFromPath (getAdapter (d_parse d) p) = Some f \<longrightarrow> f (subPath rq) = [] \<or> modelAllowed ctx (f (subPath rq)))"
    using bodyStage_names [OF admitted(2)] admitted(3,4) by (auto simp: requestModelOf_def)
  ultimately show ?thesis
    using keyStage_Inr(1,3) [OF admitted(1)] admitted(2) cred(1) calls call
    by (intro exI [of _ p] exI [of _ k] exI [of _ ctx] exI [of _ cred] exI [of _ body] exI [of _ bodyModel])
      (simp add: upstreamCall_def)
qed (use assms in auto)

definition demoDeps :: gw_deps where
  "demoDeps =
     \<lparr>d_sha = (\<lambda>s. s), d_resolve = (\<lambda>h. Some demoContext), d_check = (\<lambda>k n. \<lparr>allowed = True, retryAfterS = 0\<rparr>),
      d_getDefault = (\<lambda>w p ids. Some (Some \<lparr>cs_credentialId = ''c'', cs_secret = Some ''sk'', cs_baseUrl = None\<rparr>)),
      d_match = (\<lambda>p m w. None), d_parse = (\<lambda>s. None), d_stringify = (\<lambda>j. []),
      d_upstream = (\<lambda>c. Some \<lparr>ur_status = 200, ur_headers = [], ur_chunks = [''ok''], ur_broken = False\<rparr>),
      d_now = 5, d_newId = ''id'', d_elapsed = 7, d_ttft = 3\<rparr>"

definition demoRequest :: gw_request where
  "demoRequest =
     \<lparr>rq_slug = ''openai'', rq_rest = ''v1/models'', rq_url = ''/gw/openai/v1/models'', rq_method = ''GET'',
      rq_headers = [(''authorization'', One ''Bearer tl_live_x'')], rq_body = None, rq_id = ''r''\<rparr>"

lemma slug_openai: "providerOfSlug ''openai'' = Some OPENAI"
  by code_simp

lemma demo_call:
  "\<exists>c. c \<in> set (gr_calls (handleNative demoDeps demoRequest))"
  by (simp add: handleNative_def keyStage_def demoRequest_def demoDeps_def slug_openai authorizeKey_def extractKey_def startsWith_def TOKEN_PREFIX_virtualKey_def
      demoContext_def keyExpired_def bodyStage_def Let_def admitStage_def rateStage_def credentialStage_def)

theorem native_request_authorized_witness:
  "\<exists>k ctx. extractKey (rq_headers demoRequest) = Some k \<and> d_resolve demoDeps (d_sha demoDeps k) = Some ctx \<and> kc_status ctx = ACTIVE"
  using demo_call native_request_authorized by blast

text \<open>
  C14. One event per answered request. A request that was answered after it went upstream produced exactly
  one usage event, attributed to the key, project, user and workspace that made it; a request that did
  not go upstream produced none, or one that says it was blocked by the rate limit. When the handler
  crashed there is no event.
\<close>

theorem native_one_event_per_request:
  assumes "authorizeKey (d_sha d) (d_resolve d) (d_now d) (rq_headers rq) = Inr ctx" "providerOfSlug (rq_slug rq) = Some p"
  defines "r \<equiv> handleNative d rq"
  shows "if gr_reply r = Crashed then gr_events r = []
    else if gr_calls r \<noteq> [] then \<exists>e. gr_events r = [e] \<and> attributed ctx p e
    else gr_events r = [] \<or> (\<exists>e. gr_events r = [e] \<and> attributed ctx p e \<and> status e = BLOCKED_RATELIMIT)"
proof (cases d rq rule: handleNative_cases)
  case (admitted p' ctx' body bodyModel model)
  have eq: "p' = p" "ctx' = ctx" using keyStage_Inr [OF admitted(1)] assms(1,2) by auto
  from admitStage_cases [of d rq p ctx "getAdapter (d_parse d) p" body model]
  consider (ref) e where "r = refused e"
    | (blocked) e w where "r = conclude d (requestInfo d rq p ctx model) newFinalizer blockedArgs (Refused e w) []"
    | (sent) cred where "r = sendStage d (getAdapter (d_parse d) p) (requestInfo d rq p ctx model) rq body cred"
    using admitted(5) by (auto simp: r_def eq)
  then show ?thesis
  proof cases
    case blocked
    with conclude_cases [OF finalizer_fresh(1), of d "requestInfo d rq p ctx model" blockedArgs "Refused e w" "[]"]
    show ?thesis
      using usageEvent_fields(1) [of "requestInfo d rq p ctx model"] by (auto simp: usageEvent_fields(2) blockedArgs_def)
  next
    case sent
    with sendStage_metered [of "requestInfo d rq p ctx model" rq "getAdapter (d_parse d) p" cred body d]
    show ?thesis by (auto simp: metered_def)
  qed simp
qed (simp_all add: r_def)

lemma demo_key: "authorizeKey (d_sha demoDeps) (d_resolve demoDeps) (d_now demoDeps) (rq_headers demoRequest) = Inr demoContext"
  by (simp add: demoRequest_def demoDeps_def authorizeKey_def extractKey_def startsWith_def TOKEN_PREFIX_virtualKey_def
      demoContext_def keyExpired_def Let_def)

lemma demo_slug: "providerOfSlug (rq_slug demoRequest) = Some OPENAI"
  by (simp add: demoRequest_def slug_openai)

lemma demo_replied: "gr_reply (handleNative demoDeps demoRequest) \<noteq> Crashed"
  by (simp add: handleNative_def keyStage_def demoRequest_def demoDeps_def slug_openai authorizeKey_def extractKey_def startsWith_def TOKEN_PREFIX_virtualKey_def
      demoContext_def keyExpired_def bodyStage_def Let_def admitStage_def rateStage_def credentialStage_def
      sendStage_def relayStage_def headerIncludes_def readAll_def MAX_REQUEST_BODY_def
      conclude_def finalize_def eventCost_def responseUsage_def plainArgs_def setCredentialId_def newFinalizer_def)

theorem native_one_event_per_request_witness:
  "\<exists>e. gr_events (handleNative demoDeps demoRequest) = [e] \<and> attributed demoContext OPENAI e"
proof -
  have "gr_calls (handleNative demoDeps demoRequest) \<noteq> []" using demo_call by auto
  then show ?thesis using native_one_event_per_request [OF demo_key demo_slug] demo_replied by simp
qed

text \<open>A successful response whose body cannot be buffered is not metered at all.\<close>

lemma broken_response_unmetered:
  "gr_calls (handleNative (demoDeps\<lparr>d_upstream := \<lambda>c. Some \<lparr>ur_status = 200, ur_headers = [], ur_chunks = [''ok''], ur_broken = True\<rparr>\<rparr>)
     demoRequest) \<noteq> []
   \<and> gr_events (handleNative (demoDeps\<lparr>d_upstream := \<lambda>c. Some \<lparr>ur_status = 200, ur_headers = [], ur_chunks = [''ok''], ur_broken = True\<rparr>\<rparr>)
     demoRequest) = []"
  by (simp add: handleNative_def keyStage_def demoRequest_def demoDeps_def slug_openai authorizeKey_def extractKey_def startsWith_def TOKEN_PREFIX_virtualKey_def
      demoContext_def keyExpired_def bodyStage_def Let_def admitStage_def rateStage_def credentialStage_def
      sendStage_def relayStage_def headerIncludes_def readAll_def MAX_REQUEST_BODY_def)

text \<open>
  For Gemini the upstream takes the model from the path, while a \<open>model\<close> field in the body decides the
  allowlist check: a key restricted to one model reaches another.
\<close>

definition flashOnly :: gw_deps where
  "flashOnly = demoDeps\<lparr>d_resolve := \<lambda>h. Some (demoContext\<lparr>modelAllowlist := [''gemini-2.5-flash'']\<rparr>),
                       d_parse := \<lambda>s. Some (JObj [(''model'', JStr ''gemini-2.5-flash'')])\<rparr>"

definition proRequest :: gw_request where
  "proRequest = demoRequest\<lparr>rq_slug := ''gemini'', rq_rest := ''v1beta/models/gemini-2.5-pro:generateContent'', rq_url := [],
     rq_headers := [(''authorization'', One ''Bearer tl_live_x''), (''content-type'', One ''application/json'')],
     rq_body := Some ([''{}''], False)\<rparr>"

lemma slug_gemini: "providerOfSlug ''gemini'' = Some GEMINI"
  by code_simp

lemma pro_body: "bodyStage flashOnly (geminiAdapter (d_parse flashOnly)) proRequest
    = Inr (Some [], ''gemini-2.5-flash'')"
  by (simp add: bodyStage_def proRequest_def demoRequest_def flashOnly_def demoDeps_def readAll_def MAX_REQUEST_BODY_def
      headerIncludes_def headerText_def includesStr_def startsWith_def strField_def jgetOpt_def)

lemma model_allowlist_bypassed:
  "map uc_url (gr_calls (handleNative flashOnly proRequest))
     = [''https://generativelanguage.googleapis.com/v1beta/models/gemini-2.5-pro:generateContent'']
   \<and> \<not> modelAllowed (the (d_resolve flashOnly [])) ''gemini-2.5-pro''"
proof
  have key: "keyStage flashOnly proRequest = Inr (GEMINI, demoContext\<lparr>modelAllowlist := [''gemini-2.5-flash'']\<rparr>)"
    by (simp add: keyStage_def proRequest_def demoRequest_def flashOnly_def demoDeps_def slug_gemini authorizeKey_def extractKey_def
        startsWith_def TOKEN_PREFIX_virtualKey_def demoContext_def keyExpired_def Let_def)
  show "map uc_url (gr_calls (handleNative flashOnly proRequest))
     = [''https://generativelanguage.googleapis.com/v1beta/models/gemini-2.5-pro:generateContent'']"
    by (simp add: handleNative_def key pro_body Let_def requestModelOf_def modelMatches_def admitStage_def rateStage_def
        demoContext_def credentialStage_def upstreamCall_def)
      (simp add: flashOnly_def demoDeps_def geminiAdapter_def proRequest_def demoRequest_def subPath_def resolved_def baseOr_def upstreamCall_def)
  show "\<not> modelAllowed (the (d_resolve flashOnly [])) ''gemini-2.5-pro''"
    by (simp add: modelAllowed_def flashOnly_def modelMatches_def endsWith_def)
qed

end
