(* ===== verification/Unified.thy ===== *)
theory Unified
  imports Pipeline
begin

text \<open>
  The unified OpenAI-compatible endpoint (\<open>apps/gateway/src/proxy/unified.ts\<close>): the provider comes from the
  prefix of the \<open>model\<close> field, Anthropic and Gemini are translated both ways, and metering always reads
  the upstream's own format. It shares the dependencies, results and lemmas of the native handler.
\<close>

section \<open>Shapes\<close>

datatype shape = OpenAiShape | AnthropicShape | GeminiShape

fun SHAPE :: "provider \<Rightarrow> shape" where
  "SHAPE ANTHROPIC = AnthropicShape"
| "SHAPE GEMINI = GeminiShape"
| "SHAPE _ = OpenAiShape"

fun OPENAI_PATH :: "provider \<Rightarrow> string option" where
  "OPENAI_PATH MINIMAX = Some ''/v1/text/chatcompletion_v2''"
| "OPENAI_PATH ANTHROPIC = None"
| "OPENAI_PATH GEMINI = None"
| "OPENAI_PATH _ = Some ''/v1/chat/completions''"

section \<open>Stages\<close>

text \<open>
  Reading and parsing the body. Without a body, when it is too long or breaks off, and on JSON \<open>null\<close>
  (whose \<open>model\<close> cannot be read) the handler rejects: \<^term>\<open>Inl None\<close>.
\<close>

definition parseStage :: "gw_deps \<Rightarrow> gw_request \<Rightarrow> client_error option + json" where
  "parseStage d rq =
     (case rq_body rq of
        None \<Rightarrow> Inl None
      | Some body \<Rightarrow>
          (case readAll body MAX_REQUEST_BODY of
             Inl e \<Rightarrow> Inl None
           | Inr raw \<Rightarrow>
               (case d_parse d (utf8Text raw) of
                  None \<Rightarrow> Inl (Some (refuse 400 ''invalid_request'' ''Request body must be JSON''))
                | Some JNull \<Rightarrow> Inl None
                | Some j \<Rightarrow> Inr j)))"

definition dquoted :: "string \<Rightarrow> string" where
  "dquoted s = [CHR 0x22] @ s @ [CHR 0x22]"

definition routeStage :: "json \<Rightarrow> client_error + provider \<times> string \<times> string" where
  "routeStage parsed =
     (let modelField = strField (Some parsed) ''model'' in
      case indexOf modelField ''/'' of
        None \<Rightarrow> Inl (refuse 400 ''invalid_request'' (''model must be '' @ dquoted ''<provider>/<model>'' @ '', got '' @ dquoted modelField))
      | Some i \<Rightarrow>
          (if i = 0
           then Inl (refuse 400 ''invalid_request'' (''model must be '' @ dquoted ''<provider>/<model>'' @ '', got '' @ dquoted modelField))
           else (let slug = toLowerCase (take i modelField); realModel = drop (i + 1) modelField in
                 case providerOfSlug slug of
                   None \<Rightarrow> Inl (refuse 400 ''invalid_request'' (''Unknown provider '' @ quoted slug))
                 | Some p \<Rightarrow> Inr (p, slug, realModel))))"

definition allowStage :: "key_context \<Rightarrow> provider \<Rightarrow> string \<Rightarrow> string \<Rightarrow> bool \<Rightarrow> client_error option" where
  "allowStage ctx p slug realModel wantStream =
     (if providerAllowlist ctx \<noteq> [] \<and> p \<notin> set (providerAllowlist ctx)
      then Some (refuse 403 ''model_not_allowed'' (''This key may not use provider '' @ quoted slug))
      else if modelAllowlist ctx \<noteq> [] \<and> \<not> list_ex (modelMatches realModel) (modelAllowlist ctx)
      then Some (refuse 403 ''model_not_allowed'' (''Model '' @ quoted realModel @ '' is not allowed for this key''))
      else if SHAPE p = GeminiShape \<and> wantStream
      then Some (refuse 400 ''unsupported'' ''Streaming Gemini via the unified endpoint isn't supported yet - use stream:false, or the native /gw/gemini route'')
      else None)"

definition upstreamPath :: "provider \<Rightarrow> string \<Rightarrow> bool \<Rightarrow> string" where
  "upstreamPath p realModel wantStream =
     (case SHAPE p of
        OpenAiShape \<Rightarrow> the (OPENAI_PATH p)
      | AnthropicShape \<Rightarrow> ''/v1/messages''
      | GeminiShape \<Rightarrow>
          ''/v1beta/models/'' @ realModel @ '':'' @ (if wantStream then ''streamGenerateContent'' else ''generateContent'')
          @ (if wantStream then ''?alt=sse'' else []))"

definition upstreamBody :: "adapter \<Rightarrow> provider \<Rightarrow> json \<Rightarrow> string \<Rightarrow> json" where
  "upstreamBody ad p parsed realModel =
     (case SHAPE p of
        OpenAiShape \<Rightarrow> ensureUsageInStream ad (JObj (AList.update ''model'' (JStr realModel) (spread parsed)))
      | AnthropicShape \<Rightarrow> openaiToAnthropicRequest parsed realModel
      | GeminiShape \<Rightarrow> openaiToGeminiRequest parsed)"

definition unifiedCall :: "gw_request \<Rightarrow> upstream_request \<Rightarrow> string \<Rightarrow> upstream_call" where
  "unifiedCall rq up body =
     \<lparr>uc_url = url up, uc_method = ''POST'',
      uc_headers = mergeHeaders (mergeHeaders (forwardableHeaders (rq_headers rq)) (up_headers up))
                     [(''content-type'', ''application/json''), (''accept-encoding'', ''identity''),
                      (''user-agent'', ''tokenledger-gateway/0.1'')],
      uc_body = Some body\<rparr>"

text \<open>
  What is done with a frame: the usage observer sees it; for Anthropic the translator re-encodes it.
\<close>

definition unifiedStep ::
  "gw_deps \<Rightarrow> adapter \<Rightarrow> provider \<Rightarrow> string \<Rightarrow> jsnumber \<Rightarrow> string \<Rightarrow> extractor \<times> bool \<Rightarrow> (extractor \<times> bool) \<times> string" where
  "unifiedStep d ad p realModel created frame st =
     (case st of (ex, started) \<Rightarrow>
        (let ex' = onFrame ad frame ex in
         if SHAPE p = AnthropicShape
         then (case translateFrame (d_parse d) realModel created frame (started, []) of
                 (started', out) \<Rightarrow> ((ex', started'), concat (map (renderOut (d_stringify d)) out)))
         else ((ex', started), [])))"

text \<open>The body for the client and the usage of a buffered success.\<close>

definition unifiedResponse ::
  "gw_deps \<Rightarrow> adapter \<Rightarrow> provider \<Rightarrow> string \<Rightarrow> jsnumber \<Rightarrow> string \<Rightarrow> normalized_usage option \<times> string" where
  "unifiedResponse d ad p realModel created body =
     (case d_parse d (utf8Text body) of
        None \<Rightarrow> (None, body)
      | Some JNull \<Rightarrow> (None, body)
      | Some j \<Rightarrow>
          (Some (parseUsage ad j),
           d_stringify d (case SHAPE p of
                            OpenAiShape \<Rightarrow> j
                          | AnthropicShape \<Rightarrow> anthropicToOpenaiResponse j created
                          | GeminiShape \<Rightarrow> geminiToOpenaiResponse j realModel created)))"

definition typeHeader :: "string \<Rightarrow> headers" where
  "typeHeader t = [(''content-type'', One t)]"

definition contentTypeOf :: "headers \<Rightarrow> string" where
  "contentTypeOf h = (case map_of h ''content-type'' of None \<Rightarrow> [] | Some v \<Rightarrow> headerText v)"

definition relayUnified ::
  "gw_deps \<Rightarrow> adapter \<Rightarrow> provider \<Rightarrow> string \<Rightarrow> bool \<Rightarrow> finalizer_info \<Rightarrow> finalizer \<Rightarrow> upstream_call \<Rightarrow> upstream_response \<Rightarrow> gw_result" where
  "relayUnified d ad p realModel wantStream info f call res =
     (let created = of_int (d_now d div 1000);
          upstreamType = contentTypeOf (ur_headers res);
          buffered = readAll (ur_chunks res, ur_broken res) MAX_REQUEST_BODY;
          crash = \<lparr>gr_reply = Crashed, gr_calls = [call], gr_events = []\<rparr> in
      if 400 \<le> ur_status res
      then (case buffered of
              Inl e \<Rightarrow> crash
            | Inr errBody \<Rightarrow>
                conclude d info f (plainArgs (ur_status res) None)
                  (Relayed (ur_status res) (typeHeader (orString upstreamType ''application/json'')) errBody) [call])
      else if wantStream \<and> includesStr upstreamType ''text/event-stream''
      then (let (st, out) = runTap [CHR 0x0A, CHR 0x0A] (unifiedStep d ad p realModel created) (SHAPE p = AnthropicShape)
                              (startExtractor ad, False) (ur_chunks res) (\<not> ur_broken res);
                f1 = (if ur_chunks res = [] then f else markFirstByte (d_ttft d) f)
            in conclude d info f1 (streamArgs 200 (finish ad (fst st)) (ur_broken res))
                 (Relayed 200 (typeHeader ''text/event-stream'' @ [(''cache-control'', One ''no-cache'')]) out) [call])
      else (case buffered of
              Inl e \<Rightarrow> crash
            | Inr body \<Rightarrow>
                (let (usage, clientBody) = unifiedResponse d ad p realModel created body in
                 conclude d info f (plainArgs 200 usage) (Relayed 200 (typeHeader ''application/json'') clientBody) [call])))"

definition unifiedInfo :: "gw_deps \<Rightarrow> gw_request \<Rightarrow> provider \<Rightarrow> key_context \<Rightarrow> string \<Rightarrow> finalizer_info" where
  "unifiedInfo d rq p ctx realModel =
     \<lparr>fi_ctx = ctx, fi_provider = p, fi_endpoint = ''/v1/chat/completions'', fi_requestId = rq_id rq,
      fi_requestModel = realModel, fi_occurredAt = d_now d\<rparr>"

definition sendUnified ::
  "gw_deps \<Rightarrow> gw_request \<Rightarrow> provider \<Rightarrow> key_context \<Rightarrow> json \<Rightarrow> string \<Rightarrow> credential_secret \<Rightarrow> gw_result" where
  "sendUnified d rq p ctx parsed realModel cred =
     (let ad = getAdapter (d_parse d) p;
          wantStream = (jget parsed ''stream'' = Some (JBool True));
          f = setCredentialId (cs_credentialId cred) newFinalizer;
          info = unifiedInfo d rq p ctx realModel;
          up = buildUpstream ad (upstreamPath p realModel wantStream) (resolved cred);
          call = unifiedCall rq up (d_stringify d (upstreamBody ad p parsed realModel)) in
      case d_upstream d call of
        None \<Rightarrow>
          conclude d info f (plainArgs 502 None)
            (Refused (refuse 502 ''upstream_unavailable'' ''The AI provider could not be reached'') None) [call]
      | Some res \<Rightarrow> relayUnified d ad p realModel wantStream info f call res)"

definition admitUnified ::
  "gw_deps \<Rightarrow> gw_request \<Rightarrow> provider \<Rightarrow> string \<Rightarrow> key_context \<Rightarrow> json \<Rightarrow> string \<Rightarrow> gw_result" where
  "admitUnified d rq p slug ctx parsed realModel =
     (let limited = (case rateStage d ctx of Some dec \<Rightarrow> if allowed dec then None else Some dec | None \<Rightarrow> None) in
      case limited of
        Some dec \<Rightarrow>
          conclude d (unifiedInfo d rq p ctx realModel) newFinalizer blockedArgs
            (Refused (refuse 429 ''rate_limited'' (rateLimitMessage ctx)) (Some (retryAfterS dec))) []
      | None \<Rightarrow>
          (case credentialStage d p ctx of
             None \<Rightarrow>
               refused (refuse 404 ''provider_not_configured''
                 (''No active '' @ slug @ '' credential configured for this workspace''))
           | Some cred \<Rightarrow> sendUnified d rq p ctx parsed realModel cred))"

definition handleUnified :: "gw_deps \<Rightarrow> gw_request \<Rightarrow> gw_result" where
  "handleUnified d rq =
     (case authorizeKey (d_sha d) (d_resolve d) (d_now d) (rq_headers rq) of
        Inl e \<Rightarrow> refused e
      | Inr ctx \<Rightarrow>
          (case parseStage d rq of
             Inl None \<Rightarrow> \<lparr>gr_reply = Crashed, gr_calls = [], gr_events = []\<rparr>
           | Inl (Some e) \<Rightarrow> refused e
           | Inr parsed \<Rightarrow>
               (case routeStage parsed of
                  Inl e \<Rightarrow> refused e
                | Inr (p, slug, realModel) \<Rightarrow>
                    (case allowStage ctx p slug realModel (jget parsed ''stream'' = Some (JBool True)) of
                       Some e \<Rightarrow> refused e
                     | None \<Rightarrow> admitUnified d rq p slug ctx parsed realModel))))"

section \<open>Lemmas\<close>

lemma unifiedInfo_simps [simp]: "fi_ctx (unifiedInfo d rq p ctx m) = ctx" "fi_provider (unifiedInfo d rq p ctx m) = p"
  by (simp_all add: unifiedInfo_def)

lemma relayUnified_metered:
  "\<not> fin_done f \<Longrightarrow> metered (fi_ctx info) (fi_provider info) [call] (relayUnified d ad p m ws info f call res)"
  by (auto simp: relayUnified_def Let_def conclude_metered split: sum.split prod.split)

definition sentCall :: "gw_deps \<Rightarrow> gw_request \<Rightarrow> provider \<Rightarrow> json \<Rightarrow> string \<Rightarrow> credential_secret \<Rightarrow> upstream_call" where
  "sentCall d rq p parsed realModel cred =
     unifiedCall rq
       (buildUpstream (getAdapter (d_parse d) p) (upstreamPath p realModel (jget parsed ''stream'' = Some (JBool True))) (resolved cred))
       (d_stringify d (upstreamBody (getAdapter (d_parse d) p) p parsed realModel))"

lemma sendUnified_metered: "metered ctx p [sentCall d rq p parsed m cred] (sendUnified d rq p ctx parsed m cred)"
  using conclude_metered [of "setCredentialId (cs_credentialId cred) newFinalizer" _ "unifiedInfo d rq p ctx m"]
    relayUnified_metered [of "setCredentialId (cs_credentialId cred) newFinalizer" "unifiedInfo d rq p ctx m"]
  by (auto simp: sendUnified_def sentCall_def Let_def split: option.split)

lemma admitUnified_cases:
  "(\<exists>e. admitUnified d rq p slug ctx parsed m = refused e)
   \<or> (\<exists>e w. \<not> withinRate d ctx \<and> admitUnified d rq p slug ctx parsed m =
        conclude d (unifiedInfo d rq p ctx m) newFinalizer blockedArgs (Refused e w) [])
   \<or> (\<exists>cred. withinRate d ctx \<and> credentialStage d p ctx = Some cred
        \<and> admitUnified d rq p slug ctx parsed m = sendUnified d rq p ctx parsed m cred)"
  by (auto simp: admitUnified_def withinRate_def Let_def split: option.splits)

lemma allowStage_None:
  assumes "allowStage ctx p slug m ws = None"
  shows "providerAllowlist ctx = [] \<or> p \<in> set (providerAllowlist ctx)" "modelAllowed ctx m"
    "\<not> (SHAPE p = GeminiShape \<and> ws)"
  using assms by (auto simp: allowStage_def modelAllowed_def split: if_splits)

lemma handleUnified_cases [case_names refused crashed admitted]:
  obtains (refused) e where "handleUnified d rq = refused e"
  | (crashed) "handleUnified d rq = \<lparr>gr_reply = Crashed, gr_calls = [], gr_events = []\<rparr>"
  | (admitted) ctx parsed p slug m where "authorizeKey (d_sha d) (d_resolve d) (d_now d) (rq_headers rq) = Inr ctx"
      "parseStage d rq = Inr parsed" "routeStage parsed = Inr (p, slug, m)"
      "allowStage ctx p slug m (jget parsed ''stream'' = Some (JBool True)) = None"
      "handleUnified d rq = admitUnified d rq p slug ctx parsed m"
proof (cases "authorizeKey (d_sha d) (d_resolve d) (d_now d) (rq_headers rq)")
  case (Inl e)
  then show thesis using refused [of e] by (simp add: handleUnified_def)
next
  case (Inr ctx)
  note key = Inr
  show thesis
  proof (cases "parseStage d rq")
    case (Inl e)
    with key show thesis using crashed refused by (cases e) (simp_all add: handleUnified_def)
  next
    case (Inr parsed)
    note parsed = Inr
    show thesis
    proof (cases "routeStage parsed")
      case (Inl e)
      with key parsed show thesis using refused [of e] by (simp add: handleUnified_def)
    next
      case (Inr pm)
      then obtain p slug m where route: "routeStage parsed = Inr (p, slug, m)" by (cases pm) auto
      show thesis
      proof (cases "allowStage ctx p slug m (jget parsed ''stream'' = Some (JBool True))")
        case None
        with key parsed route show thesis using admitted [OF key parsed route None] by (simp add: handleUnified_def)
      next
        case (Some e)
        with key parsed route show thesis using refused [of e] by (simp add: handleUnified_def)
      qed
    qed
  qed
qed

lemma gr_calls_sendUnified [simp]: "gr_calls (sendUnified d rq p ctx parsed m cred) = [sentCall d rq p parsed m cred]"
  using sendUnified_metered [of ctx p d rq parsed m cred] by (simp add: metered_def)

section \<open>Properties\<close>

text \<open>
  C15. The unified endpoint authorizes like the native one, and strictly. What it sends upstream was asked
  for with an active, unexpired key that allows the provider, within its rate limit, and with a model
  that the key's allowlist, when there is one, contains; it goes to the provider's address with the
  credential of the key's workspace, and never carries the virtual key.
\<close>

theorem unified_request_authorized:
  assumes "call \<in> set (gr_calls (handleUnified d rq))"
  shows "\<exists>p slug m k ctx cred parsed. parseStage d rq = Inr parsed \<and> routeStage parsed = Inr (p, slug, m)
    \<and> extractKey (rq_headers rq) = Some k \<and> d_resolve d (d_sha d k) = Some ctx
    \<and> kc_status ctx = ACTIVE \<and> \<not> keyExpired (d_now d) ctx
    \<and> (providerAllowlist ctx = [] \<or> p \<in> set (providerAllowlist ctx))
    \<and> modelAllowed ctx m
    \<and> withinRate d ctx
    \<and> d_getDefault d (kc_workspaceId ctx) p (credentialAllowlist ctx) = Some (Some cred)
    \<and> gr_calls (handleUnified d rq) = [call] \<and> call = sentCall d rq p parsed m cred
    \<and> list_all (\<lambda>(n, v). n \<in> set authHeaders \<longrightarrow>
         (n, v) \<in> set (up_headers (buildUpstream (getAdapter (d_parse d) p) [] (resolved cred)))) (uc_headers call)"
proof (cases d rq rule: handleUnified_cases)
  case (admitted ctx parsed p slug m)
  from assms admitted(5) admitUnified_cases [of d rq p slug ctx parsed m]
  obtain cred where cred: "withinRate d ctx" "credentialStage d p ctx = Some cred"
    and call: "call = sentCall d rq p parsed m cred" and calls: "gr_calls (handleUnified d rq) = [call]" by auto
  define H where "H = up_headers (buildUpstream (getAdapter (d_parse d) p) [] (resolved cred))"
  have up: "up_headers (buildUpstream (getAdapter (d_parse d) p) path (resolved cred)) = H" for path
    unfolding H_def by (cases p) (simp_all add: openaiAdapter_def deepseekAdapter_def openrouterAdapter_def minimaxAdapter_def
        createOpenAiCompatibleAdapter_def ollamaAdapter_def anthropicAdapter_def geminiAdapter_def)
  have "d_getDefault d (kc_workspaceId ctx) p (credentialAllowlist ctx) = Some (Some cred)"
    using cred(2) by (simp add: credentialStage_def split: option.splits)
  moreover obtain k where "extractKey (rq_headers rq) = Some k" "d_resolve d (d_sha d k) = Some ctx"
    "kc_status ctx = ACTIVE" "\<not> keyExpired (d_now d) ctx"
    using authorizeKey_Inr [OF admitted(1)] .
  moreover have "list_all (\<lambda>(n, v). n \<in> set authHeaders \<longrightarrow>
         (n, v) \<in> set (up_headers (buildUpstream (getAdapter (d_parse d) p) [] (resolved cred)))) (uc_headers call)"
    using authHeaders_from_adapter [of _ _ "rq_headers rq"]
    by (auto simp: list_all_iff call sentCall_def unifiedCall_def authHeaders_def up)
  ultimately show ?thesis
    using admitted(2,3) allowStage_None(1,2) [OF admitted(4)] cred(1) calls call
    by (intro exI [of _ p] exI [of _ slug] exI [of _ m] exI [of _ k] exI [of _ ctx] exI [of _ cred] exI [of _ parsed]) simp
qed (use assms in auto)

text \<open>Every chunk of the upstream is answered as the same text delta; used to look at the translation.\<close>

definition echoJson :: "string \<Rightarrow> json" where
  "echoJson s = JObj [(''type'', JStr ''content_block_delta''), (''model'', JStr ''anthropic/m''),
                      (''delta'', JObj [(''type'', JStr ''text_delta''), (''text'', JStr s)])]"

definition echoDeps :: gw_deps where
  "echoDeps = demoDeps\<lparr>d_parse := \<lambda>s. Some (echoJson s), d_stringify := \<lambda>j. outText (Chunk j)\<rparr>"

definition chatRequest :: gw_request where
  "chatRequest = demoRequest\<lparr>rq_method := ''POST'', rq_body := Some ([''{}''], False)\<rparr>"

lemma echo_route: "routeStage (echoJson s) = Inr (ANTHROPIC, ''anthropic'', ''m'')"
proof -
  have "strField (Some (echoJson s)) ''model'' = ''anthropic/m''" by (simp add: echoJson_def strField_def jgetOpt_def)
  moreover have "indexOf ''anthropic/m'' ''/'' = Some 9" "providerOfSlug (toLowerCase ''anthropic'') = Some ANTHROPIC"
    "toLowerCase ''anthropic'' = ''anthropic''" by code_simp+
  ultimately show ?thesis by (simp add: routeStage_def)
qed

lemma echo_parse: "parseStage echoDeps chatRequest = Inr (echoJson (utf8Text ''{}''))"
  by (simp add: parseStage_def chatRequest_def readAll_def MAX_REQUEST_BODY_def echoDeps_def)
    (simp add: echoJson_def)

lemma chat_call: "\<exists>c. c \<in> set (gr_calls (handleUnified echoDeps chatRequest))"
proof -
  have key: "authorizeKey (d_sha echoDeps) (d_resolve echoDeps) (d_now echoDeps) (rq_headers chatRequest) = Inr demoContext"
    using demo_key by (simp add: echoDeps_def chatRequest_def)
  have allow: "allowStage demoContext ANTHROPIC slug m ws = None" for slug m ws
    by (simp add: allowStage_def demoContext_def)
  have "withinRate echoDeps demoContext" by (simp add: withinRate_def rateStage_def demoContext_def)
  moreover have "credentialStage echoDeps ANTHROPIC demoContext \<noteq> None"
    by (simp add: credentialStage_def echoDeps_def demoDeps_def)
  ultimately have "\<exists>cred. admitUnified echoDeps chatRequest ANTHROPIC ''anthropic'' demoContext parsed ''m''
      = sendUnified echoDeps chatRequest ANTHROPIC demoContext parsed ''m'' cred" for parsed
    by (auto simp: admitUnified_def withinRate_def Let_def split: option.splits)
  then obtain cred where "admitUnified echoDeps chatRequest ANTHROPIC ''anthropic'' demoContext (echoJson (utf8Text ''{}'')) ''m''
      = sendUnified echoDeps chatRequest ANTHROPIC demoContext (echoJson (utf8Text ''{}'')) ''m'' cred" by blast
  then have "handleUnified echoDeps chatRequest
      = sendUnified echoDeps chatRequest ANTHROPIC demoContext (echoJson (utf8Text ''{}'')) ''m'' cred"
    by (simp add: handleUnified_def key echo_parse echo_route allow)
  then show ?thesis by simp
qed

theorem unified_request_authorized_witness:
  "\<exists>k ctx m. extractKey (rq_headers chatRequest) = Some k \<and> d_resolve echoDeps (d_sha echoDeps k) = Some ctx
     \<and> kc_status ctx = ACTIVE \<and> modelAllowed ctx m"
  using chat_call unified_request_authorized by blast

text \<open>
  The unified endpoint meters once. An answered request that went upstream produced exactly one event,
  attributed to its key; one that did not produced none, or one that says it was blocked by the rate
  limit; a crash leaves none.
\<close>

lemma unified_one_event_per_request:
  assumes "r = handleUnified d rq"
    and "authorizeKey (d_sha d) (d_resolve d) (d_now d) (rq_headers rq) = Inr ctx" "parseStage d rq = Inr parsed"
    and "routeStage parsed = Inr (p, slug, m)"
  shows "if gr_reply r = Crashed then gr_events r = []
    else if gr_calls r \<noteq> [] then \<exists>e. gr_events r = [e] \<and> attributed ctx p e
    else gr_events r = [] \<or> (\<exists>e. gr_events r = [e] \<and> attributed ctx p e \<and> status e = BLOCKED_RATELIMIT)"
proof (cases d rq rule: handleUnified_cases)
  case (admitted ctx' parsed' p' slug' m')
  then have eq: "ctx' = ctx" "parsed' = parsed" "p' = p" "slug' = slug" "m' = m" using assms by auto
  from admitUnified_cases [of d rq p slug ctx parsed m]
  consider (ref) e where "r = refused e"
    | (blocked) e w where "r = conclude d (unifiedInfo d rq p ctx m) newFinalizer blockedArgs (Refused e w) []"
    | (sent) cred where "r = sendUnified d rq p ctx parsed m cred"
    using admitted(5) by (auto simp: assms(1) eq)
  then show ?thesis
  proof cases
    case blocked
    with conclude_cases [OF finalizer_fresh(1), of d "unifiedInfo d rq p ctx m" blockedArgs "Refused e w" "[]"]
    show ?thesis
      using usageEvent_fields(1) [of "unifiedInfo d rq p ctx m"] by (auto simp: usageEvent_fields(2) blockedArgs_def)
  next
    case sent
    with sendUnified_metered [of ctx p d rq parsed m cred] show ?thesis by (auto simp: metered_def)
  qed simp
qed (simp_all add: assms(1))

text \<open>
  A character cut by the network reaches the client as replacement characters: the same upstream bytes
  give two different translations.
\<close>

lemma split_character_garbled:
  "snd (runTap [CHR 0x0A, CHR 0x0A] (unifiedStep echoDeps (anthropicAdapter (d_parse echoDeps)) ANTHROPIC ''m'' 0) True
        (startExtractor (anthropicAdapter (d_parse echoDeps)), False) [''data: '' @ [CHR 0xC3], [CHR 0xA9, CHR 0x0A, CHR 0x0A]] True)
   \<noteq> snd (runTap [CHR 0x0A, CHR 0x0A] (unifiedStep echoDeps (anthropicAdapter (d_parse echoDeps)) ANTHROPIC ''m'' 0) True
        (startExtractor (anthropicAdapter (d_parse echoDeps)), False) [''data: '' @ [CHR 0xC3, CHR 0xA9, CHR 0x0A, CHR 0x0A]] True)"
  by code_simp

end
