(* ===== verification/RateLimit.thy ===== *)
theory RateLimit
  imports GatewayCore
begin

text \<open>
  The per-key rate limiters of the gateway (\<open>apps/gateway/src/ratelimit.ts\<close>): fixed windows of sixty
  seconds, counted in Redis (shared by the replicas) or in a process-local map. The interface both
  implement is the locale \<open>fixed_window\<close>; its client lemma bounds what a key may do in one window.
\<close>

section \<open>Windows\<close>

text \<open>\<open>Math.ceil(ms / 1000)\<close> is written with the integer division of the negated number.\<close>

definition windowInfo :: "millis \<Rightarrow> int \<times> int" where
  "windowInfo nowMs =
     (let window = nowMs div 60000 in (window, - ((nowMs - (window + 1) * 60000) div 1000)))"

section \<open>The Redis limiter\<close>

text \<open>
  The counter store: keys with a count and, once \<open>EXPIRE\<close> was called, the instant at which the key
  disappears. \<open>INCR\<close> starts a missing or expired key at 1 without an expiry and keeps the expiry of a live
  one; \<open>EXPIRE\<close> sets it.
\<close>

type_synonym counters = "(string, int \<times> millis option) omap"

definition liveCount :: "counters \<Rightarrow> millis \<Rightarrow> string \<Rightarrow> (int \<times> millis option) option" where
  "liveCount r now k =
     (case map_of r k of
        Some (n, Some d) \<Rightarrow> (if now < d then Some (n, Some d) else None)
      | x \<Rightarrow> x)"

definition redisIncr :: "millis \<Rightarrow> string \<Rightarrow> counters \<Rightarrow> int \<times> counters" where
  "redisIncr now k r =
     (case liveCount r now k of
        None \<Rightarrow> (1, AList.update k (1, None) r)
      | Some (n, d) \<Rightarrow> (n + 1, AList.update k (n + 1, d) r))"

definition redisExpire :: "millis \<Rightarrow> string \<Rightarrow> int \<Rightarrow> counters \<Rightarrow> counters" where
  "redisExpire now k secs r =
     (case liveCount r now k of
        None \<Rightarrow> r
      | Some (n, d) \<Rightarrow> AList.update k (n, Some (now + 1000 * secs)) r)"

text \<open>Which Redis call fails, if any.\<close>

datatype redis_fault = NoFault | IncrFails | ExpireFails

definition failOpen :: rate_decision where
  "failOpen = \<lparr>allowed = True, retryAfterS = 0\<rparr>"

definition redisKey :: "string \<Rightarrow> int \<Rightarrow> string" where
  "redisKey bucketKey window = ''rl:'' @ bucketKey @ '':'' @ showInt window"

definition redisCheck ::
  "redis_fault \<Rightarrow> millis \<Rightarrow> string \<Rightarrow> int \<Rightarrow> counters \<Rightarrow> rate_decision \<times> counters" where
  "redisCheck fault now bucketKey rpm r =
     (let (window, retryAfter) = windowInfo now; k = redisKey bucketKey window in
      if fault = IncrFails then (failOpen, r)
      else (let (count, r1) = redisIncr now k r;
                decision = \<lparr>allowed = count \<le> rpm, retryAfterS = retryAfter\<rparr> in
            if count = 1
            then (if fault = ExpireFails then (failOpen, r1) else (decision, redisExpire now k 120 r1))
            else (decision, r1)))"

section \<open>The in-memory limiter\<close>

definition memoryKey :: "string \<Rightarrow> int \<Rightarrow> string" where
  "memoryKey bucketKey window = bucketKey @ '':'' @ showInt window"

definition memoryCheck :: "millis \<Rightarrow> string \<Rightarrow> int \<Rightarrow> (string, int) omap \<Rightarrow> rate_decision \<times> (string, int) omap" where
  "memoryCheck now bucketKey rpm counts =
     (let (window, retryAfter) = windowInfo now;
          key = memoryKey bucketKey window;
          count = (case map_of counts key of None \<Rightarrow> 0 | Some n \<Rightarrow> n) + 1;
          counts1 = AList.update key count counts;
          counts2 = (if 10000 < length counts1 then [] else counts1)
      in (\<lparr>allowed = count \<le> rpm, retryAfterS = retryAfter\<rparr>, counts2))"

section \<open>Sequences of checks\<close>

text \<open>
  A sequence of checks gives instants, keys and limits. How many of those on a key in a window are
  asked for and allowed.
\<close>

fun admitted ::
  "(millis \<Rightarrow> string \<Rightarrow> int \<Rightarrow> 's \<Rightarrow> rate_decision \<times> 's) \<Rightarrow> string \<Rightarrow> int \<Rightarrow> (millis \<times> string \<times> int) list \<Rightarrow> 's \<Rightarrow> int" where
  "admitted check k w [] s = 0"
| "admitted check k w ((now, k', limit) # cs) s =
     (if k' = k \<and> now div 60000 = w \<and> allowed (fst (check now k' limit s)) then 1 else 0)
     + admitted check k w cs (snd (check now k' limit s))"

fun asked :: "string \<Rightarrow> int \<Rightarrow> (millis \<times> string \<times> int) list \<Rightarrow> int" where
  "asked k w [] = 0"
| "asked k w ((now, k', limit) # cs) = (if k' = k \<and> now div 60000 = w then 1 else 0) + asked k w cs"

lemma asked_nonneg: "0 \<le> asked k w cs"
  by (induction k w cs rule: asked.induct) auto

section \<open>The interface\<close>

text \<open>
  A limiter keeps, for a key and a window, how often it was asked. In a state that satisfies the
  invariant and has room for the key, a check counts itself, nothing else, and allows the request
  when the count is within the limit.
\<close>

locale fixed_window =
  fixes check :: "millis \<Rightarrow> string \<Rightarrow> int \<Rightarrow> 's \<Rightarrow> rate_decision \<times> 's"
    and used :: "'s \<Rightarrow> string \<Rightarrow> int \<Rightarrow> int"
    and inv :: "'s \<Rightarrow> bool"
    and room :: "'s \<Rightarrow> string \<Rightarrow> int \<Rightarrow> bool"
  assumes used_nonneg: "inv s \<Longrightarrow> 0 \<le> used s k w"
    and check_inv: "inv s \<Longrightarrow> room s k (now div 60000) \<Longrightarrow> inv (snd (check now k limit s))"
    and check_used: "inv s \<Longrightarrow> room s k (now div 60000) \<Longrightarrow>
      used (snd (check now k limit s)) k' w' = used s k' w' + (if k' = k \<and> w' = now div 60000 then 1 else 0)"
    and check_allowed: "inv s \<Longrightarrow> room s k (now div 60000) \<Longrightarrow>
      allowed (fst (check now k limit s)) \<longleftrightarrow> used s k (now div 60000) < limit"
begin

fun roomy :: "(millis \<times> string \<times> int) list \<Rightarrow> 's \<Rightarrow> bool" where
  "roomy [] s = True"
| "roomy ((now, k, limit) # cs) s \<longleftrightarrow> room s k (now div 60000) \<and> roomy cs (snd (check now k limit s))"

text \<open>Exactly the first requests of a window pass, up to the limit.\<close>

lemma admitted_exact:
  "inv s \<Longrightarrow> roomy cs s \<Longrightarrow> list_all (\<lambda>(now, k', l). k' = k \<longrightarrow> l = limit) cs \<Longrightarrow>
   admitted check k w cs s = min (asked k w cs) (max 0 (limit - used s k w))"
proof (induction cs arbitrary: s)
  case (Cons c cs)
  obtain now k' l where c: "c = (now, k', l)" by (cases c)
  let ?s' = "snd (check now k' l s)"
  have r: "inv s" "room s k' (now div 60000)" using Cons.prems c by auto
  have IH: "admitted check k w cs ?s' = min (asked k w cs) (max 0 (limit - used ?s' k w))"
    by (rule Cons.IH) (use Cons.prems check_inv [OF r] c in auto)
  show ?case
    using check_used [OF r, of l k w] check_allowed [OF r, of l] used_nonneg [OF r(1), of k w] Cons.prems c IH
      asked_nonneg [of k w cs]
    by (auto simp: min_def)
qed simp

end

section \<open>Both limiters implement it\<close>

lemma showInt_no_colon: "CHR '':'' \<notin> set (showInt i)"
proof -
  have "CHR '':'' \<notin> set (showNat n)" for n
    using showNat_digits [of n] by (auto simp: list_all_iff isDigit_def)
  then show ?thesis by (simp add: showInt_def)
qed

lemma showInt_inj: "showInt i = showInt j \<longleftrightarrow> i = j"
proof -
  have "hd (showNat n) \<noteq> CHR ''-''" for n
    using showNat_digits [of n] by (cases "showNat n") (auto simp: isDigit_def)
  then show ?thesis by (auto simp: showInt_def) (metis list.sel(1))+
qed

lemma memoryKey_inj: "memoryKey k w = memoryKey k' w' \<longleftrightarrow> k = k' \<and> w = w'"
proof
  assume "memoryKey k w = memoryKey k' w'"
  then have "rev (showInt w) @ CHR '':'' # rev k = rev (showInt w') @ CHR '':'' # rev k'"
    unfolding memoryKey_def by (metis append_Cons append_Nil append_assoc rev.simps(2) rev_append rev_singleton_conv rev_rev_ident)
  then show "k = k' \<and> w = w'"
    using showInt_no_colon by (subst (asm) sep_block_inj) (auto simp: showInt_inj)
qed simp

lemma redisKey_inj: "redisKey k w = redisKey k' w' \<longleftrightarrow> k = k' \<and> w = w'"
  using memoryKey_inj [of k w k' w'] by (simp add: redisKey_def memoryKey_def)

text \<open>A counter of a window does not disappear before the window ends.\<close>

definition countersOk :: "counters \<Rightarrow> bool" where
  "countersOk r \<longleftrightarrow>
     (\<forall>k w n d. map_of r (redisKey k w) = Some (n, d) \<longrightarrow>
        1 \<le> n \<and> (case d of None \<Rightarrow> True | Some t \<Rightarrow> (w + 1) * 60000 \<le> t))"

definition redisUsed :: "counters \<Rightarrow> string \<Rightarrow> int \<Rightarrow> int" where
  "redisUsed r k w = (case map_of r (redisKey k w) of None \<Rightarrow> 0 | Some (n, d) \<Rightarrow> n)"

lemma in_window: "now < (now div 60000 + 1) * (60000 :: int)" "(now div 60000 + 1) * 60000 \<le> now + 120000"
  by presburger+

lemma retry_window:
  defines "wait \<equiv> \<lambda>now :: int. - ((now - (now div 60000 + 1) * 60000) div 1000)"
  shows "1 \<le> wait now" "wait now \<le> 60" "(now + 1000 * wait now) div 60000 = now div 60000 + 1"
proof -
  define q m where "q = now div 60000" and "m = now mod 60000"
  have now: "now = 60000 * q + m" "0 \<le> m" "m < 60000" by (simp_all add: q_def m_def)
  have "now - (now div 60000 + 1) * 60000 = m - 60000" using now(1) by (simp add: q_def)
  then have w: "wait now = - ((m - 60000) div 1000)" by (simp add: wait_def)
  have "m - 60000 = 1000 * ((m - 60000) div 1000) + (m - 60000) mod 1000" by simp
  moreover have "0 \<le> (m - 60000) mod 1000" "(m - 60000) mod 1000 < 1000" by simp_all
  ultimately have b: "60000 - m \<le> 1000 * wait now" "1000 * wait now < 61000 - m" unfolding w by linarith+
  show "1 \<le> wait now" "wait now \<le> 60" using b now by linarith+
  have "(now + 1000 * wait now) div 60000 = (60000 * (q + 1) + (m + 1000 * wait now - 60000)) div 60000"
    using now(1) by (simp add: algebra_simps)
  also have "\<dots> = q + 1" using b by (simp add: div_add1_eq [of "60000 * (q + 1)"] div_pos_pos_trivial mod_pos_pos_trivial)
  finally show "(now + 1000 * wait now) div 60000 = now div 60000 + 1" by (simp add: q_def)
qed

lemma redisCheck_simp:
  assumes "countersOk r"
  shows "redisCheck NoFault now k limit r =
    (let n = redisUsed r k (now div 60000) + 1; key = redisKey k (now div 60000) in
     (\<lparr>allowed = n \<le> limit, retryAfterS = snd (windowInfo now)\<rparr>,
      AList.update key (n, if n = 1 then Some (now + 120000) else snd (the (map_of r key))) r))"
proof (cases "map_of r (redisKey k (now div 60000))")
  case None
  then show ?thesis
    by (simp add: redisCheck_def windowInfo_def redisIncr_def redisExpire_def liveCount_def redisUsed_def Let_def update_Some_unfold)
next
  case (Some nd)
  then obtain n d where nd: "map_of r (redisKey k (now div 60000)) = Some (n, d)" by (cases nd) auto
  with assms have ok: "1 \<le> n" "case d of None \<Rightarrow> True | Some t \<Rightarrow> (now div 60000 + 1) * 60000 \<le> t"
    by (auto simp: countersOk_def)
  from ok(2) in_window(1) [of now] have "liveCount r now (redisKey k (now div 60000)) = Some (n, d)"
    by (auto simp: liveCount_def nd split: option.splits)
  with ok(1) nd show ?thesis
    by (simp add: redisCheck_def windowInfo_def redisIncr_def redisUsed_def Let_def)
qed

interpretation redis_limiter: fixed_window "redisCheck NoFault" redisUsed countersOk "\<lambda>s k w. True"
proof
  fix s k w
  assume "countersOk s"
  then show "0 \<le> redisUsed s k w" by (force simp: countersOk_def redisUsed_def split: option.split)
next
  fix s :: counters and k and now limit :: int
  assume ok: "countersOk s"
  let ?w = "now div 60000"
  show "countersOk (snd (redisCheck NoFault now k limit s))"
  proof (cases "map_of s (redisKey k ?w)")
    case None
    then show ?thesis
      using ok in_window(2) [of now]
      by (auto simp: redisCheck_simp countersOk_def Let_def update_conv' redisKey_inj redisUsed_def)
  next
    case (Some nd)
    then obtain n d where nd: "map_of s (redisKey k ?w) = Some (n, d)" by (cases nd) auto
    with ok have "1 \<le> n" "0 \<le> n" "case d of None \<Rightarrow> True | Some t \<Rightarrow> (?w + 1) * 60000 \<le> t" by (fastforce simp: countersOk_def)+
    with ok nd show ?thesis
      by (auto simp: redisCheck_simp countersOk_def Let_def update_conv' redisKey_inj redisUsed_def)
  qed
next
  fix s k now limit k' w'
  assume "countersOk s"
  then show "redisUsed (snd (redisCheck NoFault now k limit s)) k' w'
      = redisUsed s k' w' + (if k' = k \<and> w' = now div 60000 then 1 else 0)"
    by (simp add: redisCheck_simp Let_def) (simp add: redisUsed_def update_conv' redisKey_inj)
next
  fix s k now limit
  assume "countersOk s"
  then show "allowed (fst (redisCheck NoFault now k limit s)) = (redisUsed s k (now div 60000) < limit)"
    by (auto simp: redisCheck_simp Let_def)
qed

definition memoryUsed :: "(string, int) omap \<Rightarrow> string \<Rightarrow> int \<Rightarrow> int" where
  "memoryUsed m k w = (case map_of m (memoryKey k w) of None \<Rightarrow> 0 | Some n \<Rightarrow> n)"

definition memoryRoom :: "(string, int) omap \<Rightarrow> string \<Rightarrow> int \<Rightarrow> bool" where
  "memoryRoom m k w \<longleftrightarrow> length (AList.update (memoryKey k w) 0 m) \<le> 10000"

lemma memoryCheck_simp:
  assumes "memoryRoom m k (now div 60000)"
  shows "memoryCheck now k limit m =
    (let n = memoryUsed m k (now div 60000) + 1 in
     (\<lparr>allowed = n \<le> limit, retryAfterS = snd (windowInfo now)\<rparr>, AList.update (memoryKey k (now div 60000)) n m))"
  using assms by (simp add: length_update memoryCheck_def memoryRoom_def memoryUsed_def windowInfo_def Let_def)

interpretation memory_limiter: fixed_window memoryCheck memoryUsed "\<lambda>m. \<forall>v\<in>ran (map_of m). 0 \<le> v" memoryRoom
proof
  fix s :: "(string, int) omap" and k now limit
  assume "\<forall>v\<in>ran (map_of s). 0 \<le> v" "memoryRoom s k (now div 60000)"
  then show "\<forall>v\<in>ran (map_of (snd (memoryCheck now k limit s))). 0 \<le> v"
    by (auto simp: memoryCheck_simp Let_def update_conv' ran_def memoryUsed_def split: if_splits option.splits)
qed (auto simp: memoryCheck_simp memoryUsed_def ran_def Let_def update_conv' memoryKey_inj split: option.split)

text \<open>The crude bound of the in-memory variant forgets every count when it is passed.\<close>

lemma memory_limiter_forgets:
  "\<not> memoryRoom m k (now div 60000) \<Longrightarrow> snd (memoryCheck now k limit m) = []"
  by (simp add: length_update memoryCheck_def memoryRoom_def windowInfo_def Let_def)

text \<open>A failing Redis never blocks a request.\<close>

lemma redisCheck_fails_open: "fault = IncrFails \<Longrightarrow> redisCheck fault now k limit r = (failOpen, r)"
  by (simp add: redisCheck_def split: prod.split)

section \<open>Properties\<close>

text \<open>
  C16. The rate limit is exact. While Redis answers, for any interleaving of checks on any keys, exactly
  the first \<open>limit\<close> requests of a key in each one-minute window are let through: the bound holds and no
  request within it is refused. The reply to a refused request names a waiting time of one to sixty
  seconds, after which the window has changed.
\<close>

theorem rate_limit_exact:
  assumes "list_all (\<lambda>(now, k', l). k' = k \<longrightarrow> l = limit) checks" "0 \<le> limit"
  shows "admitted (redisCheck NoFault) k w checks [] = min (asked k w checks) limit
    \<and> (let wait = retryAfterS (fst (redisCheck NoFault now k limit [])) in
       1 \<le> wait \<and> wait \<le> 60 \<and> (now + 1000 * wait) div 60000 = now div 60000 + 1)"
proof
  have roomy: "redis_limiter.roomy checks s" for s by (induction checks arbitrary: s) auto
  have "countersOk []" by (simp add: countersOk_def)
  from redis_limiter.admitted_exact [OF this roomy assms(1), of w] assms(2)
  show "admitted (redisCheck NoFault) k w checks [] = min (asked k w checks) limit"
    by (simp add: redisUsed_def)
  have "retryAfterS (fst (redisCheck NoFault now k limit [])) = - ((now - (now div 60000 + 1) * 60000) div 1000)"
    by (simp add: redisCheck_simp countersOk_def windowInfo_def Let_def)
  then show "let wait = retryAfterS (fst (redisCheck NoFault now k limit [])) in
       1 \<le> wait \<and> wait \<le> 60 \<and> (now + 1000 * wait) div 60000 = now div 60000 + 1"
    using retry_window [of now] by (simp add: Let_def)
qed

theorem rate_limit_exact_witness:
  "admitted (redisCheck NoFault) ''vk:a'' 0 [(1, ''vk:a'', 2), (2, ''vk:b'', 9), (3, ''vk:a'', 2), (4, ''vk:a'', 2)] [] = 2"
  using rate_limit_exact [of "''vk:a''" 2 "[(1, ''vk:a'', 2), (2, ''vk:b'', 9), (3, ''vk:a'', 2), (4, ''vk:a'', 2)]" 0 5]
  by simp

end
