(* ===== verification/Sink.thy ===== *)
theory Sink
  imports Rollups "HOL-Library.Multiset"
begin

text \<open>
  The gateway's event sink (\<open>apps/gateway/src/sink.ts\<close>) over the stream of
  \<open>packages/queue\<close> (\<open>publishUsageEvent\<close>). Publishing is asynchronous: an emitted event is in flight until
  its \<open>XADD\<close> is settled; a failed one goes to a bounded buffer that a single loop drains. The state
  machine below has one step per settled promise, so that every interleaving of the event loop is a
  sequence of steps. A publish can also fail after Redis appended the entry (a lost reply).
\<close>

section \<open>State and steps\<close>

record sink =
  buffer :: "usage_event list"
  flushing :: bool
  droppedCount :: nat

definition newSink :: sink where
  "newSink = \<lparr>buffer = [], flushing = False, droppedCount = 0\<rparr>"

text \<open>How a publish ends: appended and acknowledged, not appended, or appended with the reply lost.\<close>

datatype publish_result = Acked | NotAppended | LostReply

definition appended :: "publish_result \<Rightarrow> usage_event \<Rightarrow> usage_event list" where
  "appended r e = (if r = NotAppended then [] else [e])"

definition bufferEvent :: "nat \<Rightarrow> usage_event \<Rightarrow> sink \<Rightarrow> sink" where
  "bufferEvent maxBuffer e s =
     (if maxBuffer \<le> length (buffer s) then s\<lparr>droppedCount := droppedCount s + 1\<rparr>
      else s\<lparr>buffer := buffer s @ [e], flushing := True\<rparr>)"

text \<open>The rejection handler of \<open>emit\<close>'s publish.\<close>

definition settleEmit :: "nat \<Rightarrow> publish_result \<Rightarrow> usage_event \<Rightarrow> sink \<Rightarrow> sink" where
  "settleEmit maxBuffer r e s = (if r = Acked then s else bufferEvent maxBuffer e s)"

text \<open>One turn of the flush loop: the head is published again and removed once acknowledged.\<close>

definition flushTurn :: "publish_result \<Rightarrow> sink \<Rightarrow> sink" where
  "flushTurn r s =
     (case buffer s of
        [] \<Rightarrow> s\<lparr>flushing := False\<rparr>
      | e # rest \<Rightarrow> (if r = Acked then s\<lparr>buffer := rest, flushing := rest \<noteq> []\<rparr> else s))"

text \<open>
  The system: the sink, the publishes in flight, the Redis stream, and, as history, what was emitted and
  what was dropped.
\<close>

record sink_system =
  sys_sink :: sink
  inFlight :: "usage_event list"
  stream :: "usage_event list"
  emitted :: "usage_event list"
  lost :: "usage_event list"

definition initSystem :: sink_system where
  "initSystem = \<lparr>sys_sink = newSink, inFlight = [], stream = [], emitted = [], lost = []\<rparr>"

inductive sink_step :: "nat \<Rightarrow> sink_system \<Rightarrow> sink_system \<Rightarrow> bool" for maxBuffer where
  emit: "sink_step maxBuffer y (y\<lparr>inFlight := inFlight y @ [e], emitted := emitted y @ [e]\<rparr>)"
| settle: "inFlight y = a @ e # b \<Longrightarrow>
    sink_step maxBuffer y
      (y\<lparr>inFlight := a @ b, stream := stream y @ appended r e,
         sys_sink := settleEmit maxBuffer r e (sys_sink y),
         lost := lost y @ (if r \<noteq> Acked \<and> maxBuffer \<le> length (buffer (sys_sink y)) then [e] else [])\<rparr>)"
| flush: "flushing (sys_sink y) \<Longrightarrow> buffer (sys_sink y) = e # rest \<Longrightarrow>
    sink_step maxBuffer y (y\<lparr>stream := stream y @ appended r e, sys_sink := flushTurn r (sys_sink y)\<rparr>)"

inductive_cases sink_stepE [elim]: "sink_step maxBuffer y y'"

section \<open>Invariant\<close>

definition sinkInv :: "nat \<Rightarrow> sink_system \<Rightarrow> bool" where
  "sinkInv maxBuffer y \<longleftrightarrow>
     length (buffer (sys_sink y)) \<le> maxBuffer
     \<and> (flushing (sys_sink y) \<longleftrightarrow> buffer (sys_sink y) \<noteq> [])
     \<and> droppedCount (sys_sink y) = length (lost y)
     \<and> mset (emitted y) \<subseteq># mset (inFlight y) + mset (stream y) + mset (buffer (sys_sink y)) + mset (lost y)
     \<and> set (stream y) \<subseteq> set (emitted y) \<and> set (inFlight y) \<subseteq> set (emitted y) \<and> set (buffer (sys_sink y)) \<subseteq> set (emitted y)"

lemma sinkInv_init: "sinkInv maxBuffer initSystem"
  by (simp add: sinkInv_def initSystem_def newSink_def)

lemmas sink_defs = sinkInv_def settleEmit_def bufferEvent_def flushTurn_def appended_def

lemma sinkInv_step: "sink_step maxBuffer y y' \<Longrightarrow> sinkInv maxBuffer y \<Longrightarrow> sinkInv maxBuffer y'"
proof (induction rule: sink_step.induct)
  case (emit y e)
  then show ?case by (auto simp: sinkInv_def ac_simps)
next
  case (settle y a e b r)
  let ?B = "buffer (sys_sink y)"
  have sub: "mset (emitted y) \<subseteq># mset (inFlight y) + mset (stream y) + mset ?B + mset (lost y)"
    using settle by (simp add: sinkInv_def)
  have "mset (emitted y) \<subseteq># mset (a @ b) + mset (stream y @ appended r e)
      + mset (buffer (settleEmit maxBuffer r e (sys_sink y)))
      + mset (lost y @ (if r \<noteq> Acked \<and> maxBuffer \<le> length ?B then [e] else []))"
    by (rule subset_mset.order_trans [OF sub])
      (cases r; auto simp: settle(1) settleEmit_def bufferEvent_def appended_def add_mset_commute)
  then show ?case using settle by (cases r) (auto simp: sink_defs)
next
  case (flush y e rest r)
  have sub: "mset (emitted y) \<subseteq># mset (inFlight y) + mset (stream y) + mset (e # rest) + mset (lost y)"
    using flush by (simp add: sinkInv_def)
  have "mset (emitted y) \<subseteq># mset (inFlight y) + mset (stream y @ appended r e)
      + mset (buffer (flushTurn r (sys_sink y))) + mset (lost y)"
    by (rule subset_mset.order_trans [OF sub]) (cases r; auto simp: flush(2) flushTurn_def appended_def)
  then show ?case using flush by (cases r) (auto simp: sink_defs)
qed

lemma sinkInv_reach: "(sink_step maxBuffer)\<^sup>*\<^sup>* initSystem y \<Longrightarrow> sinkInv maxBuffer y"
  by (induction rule: rtranclp_induct) (auto simp: sinkInv_init intro: sinkInv_step)

text \<open>Once Redis is back, each turn of the loop shortens the buffer.\<close>

lemma flushTurn_shrinks: "buffer s = e # rest \<Longrightarrow> buffer (flushTurn Acked s) = rest"
  by (simp add: flushTurn_def)

lemma flush_drains:
  assumes "length (buffer (sys_sink y)) = n" "sinkInv maxBuffer y"
  shows "\<exists>y'. (sink_step maxBuffer)\<^sup>*\<^sup>* y y' \<and> buffer (sys_sink y') = []
    \<and> stream y' = stream y @ buffer (sys_sink y) \<and> lost y' = lost y \<and> inFlight y' = inFlight y \<and> emitted y' = emitted y"
  using assms
proof (induction n arbitrary: y)
  case (Suc n)
  then obtain e rest where b: "buffer (sys_sink y) = e # rest" "length rest = n" by (cases "buffer (sys_sink y)") auto
  with Suc.prems have fl: "flushing (sys_sink y)" by (simp add: sinkInv_def)
  let ?y = "y\<lparr>stream := stream y @ appended Acked e, sys_sink := flushTurn Acked (sys_sink y)\<rparr>"
  have step: "sink_step maxBuffer y ?y" by (rule sink_step.flush [OF fl b(1)])
  have "sinkInv maxBuffer ?y" by (rule sinkInv_step [OF step Suc.prems(2)])
  moreover have "length (buffer (sys_sink ?y)) = n" using b flushTurn_shrinks [OF b(1)] by simp
  ultimately obtain y' where "(sink_step maxBuffer)\<^sup>*\<^sup>* ?y y'" "buffer (sys_sink y') = []"
    "stream y' = stream ?y @ buffer (sys_sink ?y)" "lost y' = lost ?y" "inFlight y' = inFlight ?y" "emitted y' = emitted ?y"
    using Suc.IH by blast
  with step show ?case
    by (intro exI [of _ y']) (auto simp: b appended_def flushTurn_def intro: converse_rtranclp_into_rtranclp)
qed auto

section \<open>Properties\<close>

text \<open>
  C4. No usage event disappears silently. In every state reachable by emitting, settling and flushing in
  any order, with any publish failing or losing its reply: each emitted event is in flight, in the
  stream, in the buffer or counted as dropped (as many times as it was emitted); the stream holds only
  emitted events; the buffer is bounded; the flush loop runs exactly when there is something to flush;
  and, if Redis answers, it can move the whole buffer to the stream.
\<close>

theorem sink_conserves:
  assumes "(sink_step maxBuffer)\<^sup>*\<^sup>* initSystem y"
  shows "mset (emitted y) \<subseteq># mset (inFlight y) + mset (stream y) + mset (buffer (sys_sink y)) + mset (lost y)
    \<and> droppedCount (sys_sink y) = length (lost y)
    \<and> set (stream y) \<subseteq> set (emitted y)
    \<and> length (buffer (sys_sink y)) \<le> maxBuffer
    \<and> (flushing (sys_sink y) \<longleftrightarrow> buffer (sys_sink y) \<noteq> [])
    \<and> (\<exists>y'. (sink_step maxBuffer)\<^sup>*\<^sup>* y y' \<and> buffer (sys_sink y') = [] \<and> stream y' = stream y @ buffer (sys_sink y))"
proof -
  have inv: "sinkInv maxBuffer y" by (rule sinkInv_reach [OF assms])
  then obtain y' where "(sink_step maxBuffer)\<^sup>*\<^sup>* y y'" "buffer (sys_sink y') = []" "stream y' = stream y @ buffer (sys_sink y)"
    using flush_drains [OF refl] by blast
  with inv show ?thesis unfolding sinkInv_def by blast
qed

definition emittedOnce :: sink_system where
  "emittedOnce = initSystem\<lparr>inFlight := [sampleEvent ''a'' 5 10 ''0.5''], emitted := [sampleEvent ''a'' 5 10 ''0.5'']\<rparr>"

lemma emittedOnce_reach: "(sink_step 1)\<^sup>*\<^sup>* initSystem emittedOnce"
  using sink_step.emit [of 1 initSystem "sampleEvent ''a'' 5 10 ''0.5''"]
  by (simp add: emittedOnce_def) (simp add: initSystem_def r_into_rtranclp)

theorem sink_conserves_witness:
  "mset (emitted emittedOnce) \<subseteq># mset (inFlight emittedOnce) + mset (stream emittedOnce)
     + mset (buffer (sys_sink emittedOnce)) + mset (lost emittedOnce)
   \<and> length (emitted emittedOnce) = 1"
  using sink_conserves [OF emittedOnce_reach] by (simp add: emittedOnce_def)

text \<open>
  A lost reply duplicates an event. From the initial state, one emission whose first publish loses
  its reply reaches a state in which the stream holds the same event twice and nothing is pending.
\<close>

lemma lost_reply_duplicates:
  "\<exists>y. (sink_step 10000)\<^sup>*\<^sup>* initSystem y \<and> emitted y = [e] \<and> stream y = [e, e] \<and> inFlight y = [] \<and> buffer (sys_sink y) = []"
proof -
  let ?y1 = "initSystem\<lparr>inFlight := [e], emitted := [e]\<rparr>"
  let ?y2 = "?y1\<lparr>inFlight := [], stream := [e], sys_sink := newSink\<lparr>buffer := [e], flushing := True\<rparr>\<rparr>"
  let ?y3 = "?y2\<lparr>stream := [e, e], sys_sink := newSink\<rparr>"
  have 1: "sink_step 10000 initSystem ?y1" using sink_step.emit [of 10000 initSystem e] by (simp add: initSystem_def)
  have 2: "sink_step 10000 ?y1 ?y2"
    using sink_step.settle [of ?y1 "[]" e "[]" 10000 LostReply]
    by (simp add: initSystem_def newSink_def settleEmit_def bufferEvent_def appended_def)
  have 3: "sink_step 10000 ?y2 ?y3"
    using sink_step.flush [of ?y2 e "[]" 10000 Acked] by (simp add: flushTurn_def appended_def newSink_def)
  from 1 2 3 have "(sink_step 10000)\<^sup>*\<^sup>* initSystem ?y3" by (meson r_into_rtranclp rtranclp_trans)
  then show ?thesis by (intro exI [of _ ?y3]) (simp add: newSink_def)
qed

end
