(* ===== verification/Tables.thy ===== *)
theory Tables
  imports Guards GatewayCore
begin

text \<open>
  The rows of the control plane's tables (\<open>packages/db/prisma/schema.prisma\<close>) as far as the handlers read
  or write them, and the queries they use: a table is a list of rows in insertion order, \<open>findFirst\<close> the
  first row that satisfies a condition, \<open>updateMany\<close> and \<open>deleteMany\<close> a map and a filter that also
  count. Unique keys that the database enforces are hypotheses of the lemmas that need them.
\<close>

section \<open>Rows\<close>

datatype user_status = UserActive | Deactivated
datatype project_status = ProjectActive | Archived
datatype cred_status = CredActive | Disabled

record user =
  us_id :: string
  us_email :: string
  us_passwordHash :: "string option"
  us_name :: string
  us_status :: user_status

record session =
  se_id :: string
  se_userId :: string
  familyId :: string
  se_tokenHash :: string
  se_expiresAt :: millis
  revokedAt :: "millis option"

record team =
  tm_id :: string
  tm_workspaceId :: string
  tm_name :: string
  tm_slug :: string
  tm_description :: "string option"
  tm_createdAt :: millis

record team_member =
  tmm_teamId :: string
  tmm_userId :: string
  tmm_role :: team_role
  tmm_createdAt :: millis

record project =
  pj_id :: string
  pj_workspaceId :: string
  pj_teamId :: "string option"
  pj_name :: string
  pj_slug :: string
  pj_description :: "string option"
  pj_tags :: "string list"
  pj_status :: project_status
  pj_createdAt :: millis

record invitation =
  iv_id :: string
  iv_workspaceId :: string
  iv_email :: string
  iv_role :: workspace_role
  iv_tokenHash :: string
  invitedById :: string
  iv_expiresAt :: millis
  acceptedAt :: "millis option"

record credential =
  cr_id :: string
  cr_workspaceId :: string
  cr_provider :: provider
  cr_name :: string
  encryptedSecret :: "byte list option"
  secretLast4 :: "string option"
  cr_baseUrl :: "string option"
  cr_modelAllowlist :: "string list"
  isDefault :: bool
  cr_status :: cred_status
  cr_createdAt :: millis

record virtual_key =
  vk_id :: string
  vk_workspaceId :: string
  vk_projectId :: string
  vk_userId :: string
  vk_name :: string
  keyHash :: string
  keyLast4 :: string
  vk_providers :: "provider list"
  vk_credentials :: "string list"
  vk_models :: "string list"
  vk_rpmLimit :: "int option"
  vk_expiresAt :: "millis option"
  vk_status :: key_status
  vk_lastUsedAt :: "millis option"
  vk_createdAt :: millis

text \<open>
  The money of the price tables is in columns of type \<open>DECIMAL(12,6)\<close>; a field holds the number of millionths.
\<close>

type_synonym micros = int

record model_price =
  mp_id :: string
  mp_provider :: provider
  mp_modelPattern :: string
  mp_input :: micros
  mp_output :: micros
  mp_cacheRead :: micros
  mp_cacheWrite :: micros
  effectiveFrom :: millis
  effectiveTo :: "millis option"
  mp_source :: price_source

record price_override =
  po_id :: string
  po_workspaceId :: string
  po_provider :: provider
  po_modelPattern :: string
  po_input :: micros
  po_output :: micros
  po_cacheRead :: micros
  po_cacheWrite :: micros
  po_createdAt :: millis

record database =
  users :: "user list"
  sessions :: "session list"
  workspaces :: "workspace list"
  wmembers :: "workspace_member list"
  teams :: "team list"
  teamMembers :: "team_member list"
  projects :: "project list"
  invitations :: "invitation list"
  credentials :: "credential list"
  virtualKeys :: "virtual_key list"
  modelPriceRows :: "model_price list"
  overrideRows :: "price_override list"

text \<open>No rows: the witnesses start from here.\<close>

definition emptyDatabase :: database where
  "emptyDatabase = \<lparr>users = [], sessions = [], workspaces = [], wmembers = [], teams = [], teamMembers = [],
     projects = [], invitations = [], credentials = [], virtualKeys = [],
     modelPriceRows = [], overrideRows = []\<rparr>"

text \<open>The dash of some messages, in UTF-8.\<close>

abbreviation emDash :: string where "emDash \<equiv> [CHR 0xE2, CHR 0x80, CHR 0x94]"

section \<open>Errors of the API (server.ts)\<close>

text \<open>
  What a handler can throw: a rejected request schema, a domain error, an error with a status of its own,
  anything else (a failed query).
\<close>

datatype api_error = ZodFailed | Domain domain_error | HttpError int string | Internal

text \<open>The error handler: the status and the title of the problem document.\<close>

definition problemStatus :: "api_error \<Rightarrow> int" where
  "problemStatus e =
     (case e of
        ZodFailed \<Rightarrow> 400
      | Domain x \<Rightarrow> httpStatusOf x
      | HttpError st msg \<Rightarrow> (if 400 \<le> st then st else 500)
      | Internal \<Rightarrow> 500)"

definition problemTitle :: "api_error \<Rightarrow> string" where
  "problemTitle e =
     (case e of
        ZodFailed \<Rightarrow> ''validation_failed''
      | Domain x \<Rightarrow> errorCode x
      | HttpError st msg \<Rightarrow> (if 500 \<le> problemStatus e then ''Internal Server Error'' else msg)
      | Internal \<Rightarrow> ''Internal Server Error'')"

text \<open>A server error never shows its message.\<close>

lemma problemTitle_hides: "500 \<le> problemStatus e \<Longrightarrow> problemTitle e = ''Internal Server Error''"
proof -
  have "httpStatusOf x < 500" for x by (cases x) simp_all
  then show "500 \<le> problemStatus e \<Longrightarrow> problemTitle e = ''Internal Server Error''"
    by (cases e) (auto simp: problemTitle_def problemStatus_def not_le [symmetric])
qed

section \<open>Queries\<close>

definition updateWhere :: "('r \<Rightarrow> bool) \<Rightarrow> ('r \<Rightarrow> 'r) \<Rightarrow> 'r list \<Rightarrow> 'r list" where
  "updateWhere P f rows = map (\<lambda>r. if P r then f r else r) rows"

definition deleteWhere :: "('r \<Rightarrow> bool) \<Rightarrow> 'r list \<Rightarrow> 'r list" where
  "deleteWhere P rows = filter (\<lambda>r. \<not> P r) rows"

definition countWhere :: "('r \<Rightarrow> bool) \<Rightarrow> 'r list \<Rightarrow> nat" where
  "countWhere P rows = length (filter P rows)"

lemma find_NoneD: "find P xs = None \<longleftrightarrow> (\<forall>x\<in>set xs. \<not> P x)"
  by (induction xs) auto

lemma updateWhere_cases: "r' \<in> set (updateWhere P f rows) \<longleftrightarrow> (\<exists>r\<in>set rows. r' = (if P r then f r else r))"
  by (auto simp: updateWhere_def)

lemma updateWhere_keep: "(\<And>r. g (f r) = g r) \<Longrightarrow> map g (updateWhere P f rows) = map g rows"
  by (induction rows) (auto simp: updateWhere_def)

lemma set_deleteWhere [simp]: "set (deleteWhere P rows) = {r \<in> set rows. \<not> P r}"
  by (auto simp: deleteWhere_def)

lemma updateWhere_simps [simp]:
  "updateWhere P f [] = []"
  "updateWhere P f (r # rs) = (if P r then f r else r) # updateWhere P f rs"
  by (simp_all add: updateWhere_def)

lemma updateWhere_all:
  "(\<And>r. Q (f r) = Q r) \<Longrightarrow> (\<forall>r\<in>set (updateWhere P f rows). Q r) = (\<forall>r\<in>set rows. Q r)"
  by (induction rows) auto

lemma updateWhere_append: "updateWhere P f (a @ b) = updateWhere P f a @ updateWhere P f b"
  by (simp add: updateWhere_def)


section \<open>Routes of a workspace\<close>

text \<open>
  The pre-handlers \<open>[authenticate, makeWorkspaceGuard(prisma, role)]\<close> of a route, then its handler. A route
  answers with the new state, also when it fails, and a result.
\<close>

definition guarded ::
  "workspace_role \<Rightarrow> authed_user option \<Rightarrow> string \<Rightarrow> database \<Rightarrow>
   (authed_user \<Rightarrow> workspace_context \<Rightarrow> database \<times> (api_error + 'v)) \<Rightarrow> database \<times> (api_error + 'v)" where
  "guarded minRole user ws db handler =
     (case user of
        None \<Rightarrow> (db, Inl (Domain (UnauthorizedError ''Authentication required'')))
      | Some u \<Rightarrow>
          (case workspaceGuard (workspaces db) (wmembers db) minRole (Some u) ws of
             Inl e \<Rightarrow> (db, Inl (Domain e))
           | Inr ctx \<Rightarrow> handler u ctx))"

lemma guarded_cases:
  assumes "guarded minRole user ws db h = (db', r)"
  obtains (refused) e where "db' = db" "r = Inl (Domain e)"
  | (admitted) u ctx where "user = Some u" "memberOf (wmembers db) (au_id u) (ctx_workspaceId ctx) (ctx_role ctx)"
      "minRole \<le> ctx_role ctx" "h u ctx = (db', r)"
proof (cases user)
  case None
  with assms show thesis by (auto simp: guarded_def intro: refused)
next
  case (Some u)
  show thesis
  proof (cases "workspaceGuard (workspaces db) (wmembers db) minRole (Some u) ws")
    case (Inl e)
    with assms Some show thesis by (auto simp: guarded_def intro: refused)
  next
    case (Inr ctx)
    then obtain "memberOf (wmembers db) (au_id u) (ctx_workspaceId ctx) (ctx_role ctx)" "minRole \<le> ctx_role ctx"
      by (auto elim: guard_sound)
    with assms Some Inr show thesis by (intro admitted [of u ctx]) (auto simp: guarded_def)
  qed
qed

text \<open>The guards of a route, for evaluating it on an example.\<close>

lemmas guard_defs = guarded_def workspaceGuard_def guardMatches_def isUuid_def hasMinimumRole_def

end
