(* ===== verification/Sessions.thy ===== *)
theory Sessions
  imports Tables
begin

text \<open>
  Accounts and sessions of the API (\<open>apps/api/src/modules/auth.ts\<close>): registration, login, refresh-token
  rotation with reuse detection, logout. Hashing, identifiers, tokens and the clock are arguments. The
  rotation is shown to keep at most one live token per family and to kill a family whose token is
  presented twice.
\<close>

section \<open>Requests (auth.ts)\<close>

record register_body =
  rb_email :: string
  rb_password :: string
  rb_name :: string
  rb_workspaceName :: "string option"

text \<open>\<open>isEmail\<close> is the schema library's address check.\<close>

definition registerSchema :: "(string \<Rightarrow> bool) \<Rightarrow> register_body \<Rightarrow> register_body option" where
  "registerSchema isEmail b =
     (if isEmail (rb_email b) \<and> 8 \<le> length (rb_password b) \<and> length (rb_password b) \<le> 200
         \<and> rb_name b \<noteq> [] \<and> length (rb_name b) \<le> 100
         \<and> (case rb_workspaceName b of None \<Rightarrow> True | Some w \<Rightarrow> w \<noteq> [] \<and> length w \<le> 100)
      then Some (b\<lparr>rb_email := toLowerCase (rb_email b)\<rparr>) else None)"

definition loginSchema :: "(string \<Rightarrow> bool) \<Rightarrow> string \<times> string \<Rightarrow> (string \<times> string) option" where
  "loginSchema isEmail b = (case b of (email, password) \<Rightarrow> if isEmail email then Some (toLowerCase email, password) else None)"

section \<open>Operations (auth.ts)\<close>

definition isSlugChar :: "char \<Rightarrow> bool" where
  "isSlugChar c \<longleftrightarrow> isDigit c \<or> (let n = of_char c :: nat in 97 \<le> n \<and> n \<le> 122)"

text \<open>\<open>s.replace(/[^a-z0-9]+/g, "-")\<close>: each maximal run of other characters becomes one dash.\<close>

fun dashRuns :: "string \<Rightarrow> string" where
  "dashRuns [] = []"
| "dashRuns (c # s) =
     (if isSlugChar c then c # dashRuns s
      else (case s of [] \<Rightarrow> ''-'' | d # r \<Rightarrow> if isSlugChar d then CHR ''-'' # dashRuns s else dashRuns s))"

definition stripDashes :: "string \<Rightarrow> string" where
  "stripDashes s = rev (dropWhile (\<lambda>c. c = CHR ''-'') (rev (dropWhile (\<lambda>c. c = CHR ''-'') s)))"

definition slugify :: "nat \<Rightarrow> string \<Rightarrow> string \<Rightarrow> string" where
  "slugify limit fallback name =
     (let base = take limit (stripDashes (dashRuns (toLowerCase name))) in if base \<noteq> [] then base else fallback)"

text \<open>\<open>suffix\<close> stands for the five random characters.\<close>

definition uniqueSlug :: "workspace list \<Rightarrow> string \<Rightarrow> string \<Rightarrow> string" where
  "uniqueSlug wss suffix name =
     (let base = slugify 40 ''workspace'' name in
      if list_ex (\<lambda>w. ws_slug w = base) wss then base @ ''-'' @ suffix else base)"

record fresh =
  fr_user :: string
  fr_workspace :: string
  fr_member :: string
  fr_session :: string
  fr_family :: string
  fr_suffix :: string
  fr_refresh :: minted_token

text \<open>A new live session of the family; its token goes into the cookie.\<close>

definition newSession :: "millis \<Rightarrow> fresh \<Rightarrow> string \<Rightarrow> string \<Rightarrow> session" where
  "newSession now fr uid fam =
     \<lparr>se_id = fr_session fr, se_userId = uid, familyId = fam, se_tokenHash = mt_hash (fr_refresh fr),
      se_expiresAt = now + REFRESH_TOKEN_TTL_S * 1000, revokedAt = None\<rparr>"

definition issueSession :: "millis \<Rightarrow> fresh \<Rightarrow> string \<Rightarrow> string \<Rightarrow> database \<Rightarrow> database \<times> string" where
  "issueSession now fr uid fam db =
     (db\<lparr>sessions := sessions db @ [newSession now fr uid fam]\<rparr>, mt_token (fr_refresh fr))"

definition findUser :: "string \<Rightarrow> database \<Rightarrow> user option" where
  "findUser email db = find (\<lambda>u. us_email u = email) (users db)"

text \<open>\<open>hash\<close> is \<open>hashPassword\<close>. The rows are created in one transaction, the session after it.\<close>

definition register ::
  "(string \<Rightarrow> bool) \<Rightarrow> (string \<Rightarrow> string option) \<Rightarrow> millis \<Rightarrow> fresh \<Rightarrow> register_body \<Rightarrow> database \<Rightarrow>
   api_error + database \<times> string" where
  "register isEmail hash now fr body0 db =
     (case registerSchema isEmail body0 of
        None \<Rightarrow> Inl ZodFailed
      | Some body \<Rightarrow>
          (if findUser (rb_email body) db \<noteq> None
           then Inl (Domain (ConflictError ''An account with this email already exists''))
           else (case hash (rb_password body) of
                   None \<Rightarrow> Inl Internal
                 | Some h \<Rightarrow>
                     (let wname = (case rb_workspaceName body of Some w \<Rightarrow> w | None \<Rightarrow> rb_name body @ [CHR 0x27] @ ''s Workspace'');
                          u = \<lparr>us_id = fr_user fr, us_email = rb_email body, us_passwordHash = Some h, us_name = rb_name body,
                               us_status = UserActive\<rparr>;
                          w = \<lparr>ws_id = fr_workspace fr, ws_name = wname, ws_slug = uniqueSlug (workspaces db) (fr_suffix fr) wname,
                               ws_deletedAt = None\<rparr>;
                          m = \<lparr>wm_id = fr_member fr, wm_workspaceId = fr_workspace fr, wm_userId = fr_user fr, wm_role = OWNER\<rparr>
                      in if list_ex (\<lambda>x. ws_slug x = ws_slug w) (workspaces db) then Inl Internal
                         else Inr (issueSession now fr (us_id u) (fr_family fr)
                                (db\<lparr>users := users db @ [u], workspaces := workspaces db @ [w], wmembers := wmembers db @ [m]\<rparr>))))))"

text \<open>\<open>verify\<close> is \<open>verifyPassword\<close>, \<^term>\<open>None\<close> when it raises.\<close>

definition login ::
  "(string \<Rightarrow> bool) \<Rightarrow> (string \<Rightarrow> string \<Rightarrow> bool option) \<Rightarrow> millis \<Rightarrow> fresh \<Rightarrow> string \<times> string \<Rightarrow> database \<Rightarrow>
   api_error + database \<times> string" where
  "login isEmail verify now fr body0 db =
     (let bad = Inl (Domain (UnauthorizedError ''Invalid email or password'')) in
      case loginSchema isEmail body0 of
        None \<Rightarrow> Inl ZodFailed
      | Some (email, password) \<Rightarrow>
          (case findUser email db of
             None \<Rightarrow> bad
           | Some u \<Rightarrow>
               (if us_status u \<noteq> UserActive then bad
                else (case us_passwordHash u of
                        None \<Rightarrow> bad
                      | Some h \<Rightarrow>
                          (if h = [] then bad
                           else (case verify password h of
                                   None \<Rightarrow> Inl Internal
                                 | Some ok \<Rightarrow> (if \<not> ok then bad else Inr (issueSession now fr (us_id u) (fr_family fr) db))))))))"

definition findSession :: "string \<Rightarrow> database \<Rightarrow> session option" where
  "findSession h db = find (\<lambda>s. se_tokenHash s = h) (sessions db)"

definition revokeFamily :: "millis \<Rightarrow> string \<Rightarrow> database \<Rightarrow> database" where
  "revokeFamily now fam db =
     db\<lparr>sessions := updateWhere (\<lambda>s. familyId s = fam \<and> revokedAt s = None) (\<lambda>s. s\<lparr>revokedAt := Some now\<rparr>) (sessions db)\<rparr>"

text \<open>The writes of a rotation, given the session that was read: its row, then a new one.\<close>

definition revokeSession :: "millis \<Rightarrow> session \<Rightarrow> database \<Rightarrow> database" where
  "revokeSession now s db =
     db\<lparr>sessions := updateWhere (\<lambda>x. se_id x = se_id s) (\<lambda>x. x\<lparr>revokedAt := Some now\<rparr>) (sessions db)\<rparr>"

definition rotateSession :: "millis \<Rightarrow> fresh \<Rightarrow> session \<Rightarrow> database \<Rightarrow> database \<times> string" where
  "rotateSession now fr s db = issueSession now fr (se_userId s) (familyId s) (revokeSession now s db)"

text \<open>
  A refresh in progress. The handler reads the session in one statement and writes in others, and other requests run
  between them: the cookie as presented; the family to revoke; the session that was read as live, before its row
  is updated and after; the answer.
\<close>

datatype refresh_phase =
    Presented "string option"
  | Killing string
  | Rotating session
  | Issuing session
  | Answered "api_error + string"

definition reused :: "api_error" where
  "reused = Domain (UnauthorizedError ''Session revoked'')"

text \<open>The read and what the handler decides on it.\<close>

definition refreshRead :: "(string \<Rightarrow> string) \<Rightarrow> millis \<Rightarrow> string option \<Rightarrow> database \<Rightarrow> refresh_phase" where
  "refreshRead sha256Hex now cookie db =
     (let fail = (\<lambda>m. Answered (Inl (Domain (UnauthorizedError m)))) in
      case cookie of
        None \<Rightarrow> fail ''No refresh token''
      | Some presented \<Rightarrow>
          (if presented = [] then fail ''No refresh token''
           else (case findSession (sha256Hex presented) db of
                   None \<Rightarrow> fail ''Session expired''
                 | Some s \<Rightarrow>
                     (if se_expiresAt s < now then fail ''Session expired''
                      else if revokedAt s \<noteq> None then Killing (familyId s)
                      else Rotating s))))"

text \<open>The next statement of a refresh, at its own time.\<close>

fun advanceRefresh ::
  "(string \<Rightarrow> string) \<Rightarrow> millis \<Rightarrow> fresh \<Rightarrow> refresh_phase \<Rightarrow> database \<Rightarrow> database \<times> refresh_phase" where
  "advanceRefresh sha now fr (Presented cookie) db = (db, refreshRead sha now cookie db)"
| "advanceRefresh sha now fr (Killing fam) db = (revokeFamily now fam db, Answered (Inl reused))"
| "advanceRefresh sha now fr (Rotating s) db = (revokeSession now s db, Issuing s)"
| "advanceRefresh sha now fr (Issuing s) db =
     (case issueSession now fr (se_userId s) (familyId s) db of (db', token) \<Rightarrow> (db', Answered (Inr token)))"
| "advanceRefresh sha now fr (Answered r) db = (db, Answered r)"

text \<open>
  A refresh that nothing interrupts: the new state (also on errors, which may have written) and a token or an error.
\<close>

definition refreshSession ::
  "(string \<Rightarrow> string) \<Rightarrow> millis \<Rightarrow> fresh \<Rightarrow> string option \<Rightarrow> database \<Rightarrow> database \<times> (api_error + string)" where
  "refreshSession sha now fr cookie db =
     (let (db1, p1) = advanceRefresh sha now fr (Presented cookie) db;
          (db2, p2) = advanceRefresh sha now fr p1 db1;
          (db3, p3) = advanceRefresh sha now fr p2 db2
      in (db3, case p3 of Answered r \<Rightarrow> r | _ \<Rightarrow> Inl Internal))"

definition logout :: "(string \<Rightarrow> string) \<Rightarrow> millis \<Rightarrow> string option \<Rightarrow> database \<Rightarrow> database" where
  "logout sha256Hex now cookie db =
     (case cookie of
        None \<Rightarrow> db
      | Some presented \<Rightarrow>
          (if presented = [] then db
           else db\<lparr>sessions := updateWhere (\<lambda>s. se_tokenHash s = sha256Hex presented) (\<lambda>s. s\<lparr>revokedAt := Some now\<rparr>) (sessions db)\<rparr>))"

record me_view =
  me_user :: "string \<times> string \<times> string"
  me_isSuperAdmin :: bool
  me_memberships :: "((string \<times> string \<times> string) \<times> workspace_role) list"

definition me :: "string list \<Rightarrow> string \<Rightarrow> database \<Rightarrow> api_error + me_view" where
  "me superAdmins uid db =
     (case find (\<lambda>u. us_id u = uid) (users db) of
        None \<Rightarrow> Inl Internal
      | Some u \<Rightarrow>
          Inr \<lparr>me_user = (us_id u, us_email u, us_name u),
               me_isSuperAdmin = (toLowerCase (us_email u) \<in> set superAdmins),
               me_memberships =
                 [((ws_id w, ws_name w, ws_slug w), wm_role m). m \<leftarrow> wmembers db, w \<leftarrow> workspaces db,
                    wm_userId m = uid \<and> ws_id w = wm_workspaceId m \<and> ws_deletedAt w = None]\<rparr>)"

section \<open>The life of a session\<close>

definition liveIn :: "string \<Rightarrow> session \<Rightarrow> bool" where
  "liveIn fam s \<longleftrightarrow> familyId s = fam \<and> revokedAt s = None"

definition liveSessions :: "string \<Rightarrow> database \<Rightarrow> session list" where
  "liveSessions fam db = filter (liveIn fam) (sessions db)"

text \<open>Identifiers, families and hashes that are not in use.\<close>

definition freshSession :: "fresh \<Rightarrow> database \<Rightarrow> bool" where
  "freshSession fr db \<longleftrightarrow> fr_session fr \<notin> set (map se_id (sessions db))
     \<and> mt_hash (fr_refresh fr) \<notin> set (map se_tokenHash (sessions db))"

definition freshFamily :: "fresh \<Rightarrow> database \<Rightarrow> bool" where
  "freshFamily fr db \<longleftrightarrow> freshSession fr db \<and> fr_family fr \<notin> set (map familyId (sessions db))"

text \<open>A row apart from its revocation; what a refresh that read it still relies on.\<close>

definition sameSession :: "session \<Rightarrow> session \<Rightarrow> bool" where
  "sameSession a b \<longleftrightarrow> se_id a = se_id b \<and> se_tokenHash a = se_tokenHash b \<and> familyId a = familyId b \<and> se_expiresAt a = se_expiresAt b"

lemma sessions_issue [simp]:
  "sessions (fst (issueSession now fr uid fam db)) = sessions db @ [newSession now fr uid fam]"
  by (simp add: issueSession_def)

lemma register_sessions:
  "register isEmail hash now fr b db = Inr (db', t) \<Longrightarrow>
   \<exists>uid. sessions db' = sessions db @ [newSession now fr uid (fr_family fr)]"
  by (auto simp: register_def issueSession_def Let_def split: option.split_asm if_split_asm)

lemma login_sessions:
  "login isEmail verify now fr b db = Inr (db', t) \<Longrightarrow>
   \<exists>uid. sessions db' = sessions db @ [newSession now fr uid (fr_family fr)]"
  by (auto simp: login_def issueSession_def Let_def split: option.split_asm prod.split_asm if_split_asm)

abbreviation revoking :: "millis \<Rightarrow> (session \<Rightarrow> bool) \<Rightarrow> session list \<Rightarrow> session list" where
  "revoking now P \<equiv> updateWhere P (\<lambda>s. s\<lparr>revokedAt := Some now\<rparr>)"

lemma revoking_keeps [simp]:
  "map se_id (revoking now P ss) = map se_id ss"
  "map se_tokenHash (revoking now P ss) = map se_tokenHash ss"
  "map familyId (revoking now P ss) = map familyId ss"
  by (simp_all add: updateWhere_keep)

lemma revoking_none [simp]: "revoking now (\<lambda>s. False) ss = ss"
  by (simp add: updateWhere_def)

lemma liveIn_revoked [simp]: "\<not> liveIn fam (s\<lparr>revokedAt := Some now\<rparr>)"
  by (simp add: liveIn_def)

lemma revoking_live: "length (filter (liveIn fam) (revoking now P ss)) \<le> length (filter (liveIn fam) ss)"
  by (induction ss) (auto simp: liveIn_def)

lemma live_revoking: "filter (liveIn fam) (revoking now P ss) = filter (\<lambda>s. liveIn fam s \<and> \<not> P s) ss"
  by (induction ss) (auto simp: liveIn_def)

lemma findSession_mem: "findSession h db = Some s \<Longrightarrow> s \<in> set (sessions db) \<and> se_tokenHash s = h"
  unfolding findSession_def by (rule find_SomeD)

text \<open>A refresh that is not interrupted, in one piece.\<close>

lemma refreshSession_eq:
  "refreshSession sha now fr cookie db =
     (case refreshRead sha now cookie db of
        Killing fam \<Rightarrow> (revokeFamily now fam db, Inl reused)
      | Rotating s \<Rightarrow> (let (db', token) = rotateSession now fr s db in (db', Inr token))
      | Answered r \<Rightarrow> (db, r)
      | _ \<Rightarrow> (db, Inl Internal))"
  by (auto simp: refreshSession_def refreshRead_def rotateSession_def issueSession_def Let_def split: option.split)

section \<open>Interleaved requests\<close>

text \<open>
  The session table and the refreshes under way. Registrations, logins and logouts write sessions in one statement
  each; a refresh is begun and advanced statement by statement.
\<close>

record auth_server =
  as_db :: database
  as_refreshes :: "refresh_phase list"

definition perform :: "(string \<Rightarrow> string) \<Rightarrow> millis \<Rightarrow> fresh \<Rightarrow> nat \<Rightarrow> auth_server \<Rightarrow> auth_server" where
  "perform sha now fr k w =
     (case advanceRefresh sha now fr (as_refreshes w ! k) (as_db w) of
        (db', ph) \<Rightarrow> w\<lparr>as_db := db', as_refreshes := (as_refreshes w)[k := ph]\<rparr>)"

inductive auth_step :: "(string \<Rightarrow> string) \<Rightarrow> auth_server \<Rightarrow> auth_server \<Rightarrow> bool" for sha where
  registers: "register isEmail hash now fr b (as_db w) = Inr (db', t) \<Longrightarrow> freshFamily fr (as_db w) \<Longrightarrow>
     auth_step sha w (w\<lparr>as_db := db'\<rparr>)"
| logs_in: "login isEmail verify now fr b (as_db w) = Inr (db', t) \<Longrightarrow> freshFamily fr (as_db w) \<Longrightarrow>
     auth_step sha w (w\<lparr>as_db := db'\<rparr>)"
| logs_out: "auth_step sha w (w\<lparr>as_db := logout sha now c (as_db w)\<rparr>)"
| begins: "auth_step sha w (w\<lparr>as_refreshes := as_refreshes w @ [Presented c]\<rparr>)"
| advances: "k < length (as_refreshes w) \<Longrightarrow> freshSession fr (as_db w) \<Longrightarrow> auth_step sha w (perform sha now fr k w)"

text \<open>The refreshes of a family between their read and their last write.\<close>

fun rotates :: "string \<Rightarrow> refresh_phase \<Rightarrow> bool" where
  "rotates fam (Rotating s) = (familyId s = fam)"
| "rotates fam (Issuing s) = (familyId s = fam)"
| "rotates fam _ = False"

fun phaseOk :: "database \<Rightarrow> refresh_phase \<Rightarrow> bool" where
  "phaseOk db (Rotating s) = list_ex (sameSession s) (sessions db)"
| "phaseOk db (Issuing s) = list_ex (sameSession s) (sessions db)"
| "phaseOk db (Killing fam) = (fam \<in> set (map familyId (sessions db)))"
| "phaseOk db _ = True"

definition tableOk :: "database \<Rightarrow> bool" where
  "tableOk db \<longleftrightarrow> distinct (map se_id (sessions db)) \<and> distinct (map se_tokenHash (sessions db))"

definition serverOk :: "auth_server \<Rightarrow> bool" where
  "serverOk w \<longleftrightarrow> tableOk (as_db w) \<and> list_all (phaseOk (as_db w)) (as_refreshes w)"

text \<open>How a step changes the table: sessions are revoked, and at most one is added, to a new family or by a rotation.\<close>

definition tableStep :: "auth_server \<Rightarrow> database \<Rightarrow> bool" where
  "tableStep w db' \<longleftrightarrow>
     (\<exists>now P new. sessions db' = revoking now P (sessions (as_db w)) @ new
        \<and> (new = [] \<or> (\<exists>fr now uid fam. new = [newSession now fr uid fam] \<and> freshSession fr (as_db w)
             \<and> (fam \<notin> set (map familyId (sessions (as_db w))) \<or> list_ex (\<lambda>ph. \<exists>s. ph = Issuing s \<and> familyId s = fam) (as_refreshes w)))))"

lemma tableStepE:
  assumes "tableStep w db'"
  obtains now P new where "sessions db' = revoking now P (sessions (as_db w)) @ new"
    "new = [] \<or> (\<exists>fr now uid fam. new = [newSession now fr uid fam] \<and> freshSession fr (as_db w)
       \<and> (fam \<notin> set (map familyId (sessions (as_db w))) \<or> list_ex (\<lambda>ph. \<exists>s. ph = Issuing s \<and> familyId s = fam) (as_refreshes w)))"
  using assms unfolding tableStep_def by blast

lemma tableStep_revokes: "sessions db' = revoking now P (sessions (as_db w)) \<Longrightarrow> tableStep w db'"
  unfolding tableStep_def by (metis append_Nil2)

lemma tableStep_same: "sessions db' = sessions (as_db w) \<Longrightarrow> tableStep w db'"
  by (rule tableStep_revokes [where P = "\<lambda>s. False"]) simp

lemma tableStep_starts:
  "sessions db' = sessions (as_db w) @ [newSession now fr uid (fr_family fr)] \<Longrightarrow> freshFamily fr (as_db w) \<Longrightarrow> tableStep w db'"
  unfolding tableStep_def freshFamily_def
  by (intro exI [of _ now] exI [of _ "\<lambda>s. False"] exI [of _ "[newSession now fr uid (fr_family fr)]"]) auto

lemma advance_table:
  assumes "k < length (as_refreshes w)" "freshSession fr (as_db w) \<or> (\<forall>s. as_refreshes w ! k \<noteq> Issuing s)"
  shows "tableStep w (fst (advanceRefresh sha now fr (as_refreshes w ! k) (as_db w)))"
proof (cases "as_refreshes w ! k")
  case (Issuing s)
  have "list_ex (\<lambda>ph. \<exists>x. ph = Issuing x \<and> familyId x = familyId s) (as_refreshes w)"
    using assms(1) Issuing by (force simp: list_ex_iff in_set_conv_nth)
  moreover have "sessions (fst (advanceRefresh sha now fr (as_refreshes w ! k) (as_db w)))
      = revoking now (\<lambda>s. False) (sessions (as_db w)) @ [newSession now fr (se_userId s) (familyId s)]"
    by (simp add: Issuing split: prod.split) (metis fst_conv sessions_issue)
  moreover have "freshSession fr (as_db w)" using assms(2) Issuing by simp
  ultimately show ?thesis unfolding tableStep_def by blast
qed (auto intro: tableStep_same tableStep_revokes simp: revokeFamily_def revokeSession_def)

lemma auth_step_table:
  assumes "auth_step sha w w'"
  shows "tableStep w (as_db w')"
  using assms
proof cases
  case (registers isEmail hash now fr b db' t)
  with register_sessions [OF registers(2)] show ?thesis by (auto intro: tableStep_starts)
next
  case (logs_in isEmail verify now fr b db' t)
  with login_sessions [OF logs_in(2)] show ?thesis by (auto intro: tableStep_starts)
next
  case (logs_out now c)
  then show ?thesis by (auto simp: logout_def split: option.split intro: tableStep_same tableStep_revokes)
next
  case (advances k fr now)
  with advance_table [OF advances(2), of fr] show ?thesis by (simp add: perform_def split: prod.split) (metis fst_conv)
qed (simp add: tableStep_same)

lemma tableStep_ok:
  assumes "tableStep w db'" "tableOk (as_db w)"
  shows "tableOk db'"
  using assms(1)
proof (cases rule: tableStepE)
  case (1 now P new)
  from 1(2) assms(2) show ?thesis by (elim disjE exE) (simp_all add: 1(1) tableOk_def freshSession_def newSession_def)
qed

lemma sameSession_revoked [simp]: "sameSession a (b\<lparr>revokedAt := x\<rparr>) = sameSession a b"
  by (simp add: sameSession_def)

lemma sameSession_refl [simp]: "sameSession a a"
  by (simp add: sameSession_def)

text \<open>Rows stay, apart from being revoked; a revoked row stays revoked.\<close>

lemma tableStep_row:
  assumes "tableStep w db'" "s \<in> set (sessions (as_db w))"
  obtains s' where "s' \<in> set (sessions db')" "sameSession s s'" "revokedAt s \<noteq> None \<longrightarrow> revokedAt s' \<noteq> None"
proof -
  from assms(1) obtain now P new where eq: "sessions db' = revoking now P (sessions (as_db w)) @ new" by (rule tableStepE)
  show thesis
  proof (rule that)
    show "(if P s then s\<lparr>revokedAt := Some now\<rparr> else s) \<in> set (sessions db')" using assms(2) by (auto simp: eq updateWhere_cases)
  qed auto
qed

lemma sameSession_trans: "sameSession a b \<Longrightarrow> sameSession b c \<Longrightarrow> sameSession a c"
  by (simp add: sameSession_def)

lemma tableStep_families:
  assumes "tableStep w db'"
  shows "set (map familyId (sessions (as_db w))) \<subseteq> set (map familyId (sessions db'))"
  using assms by (rule tableStepE) (simp del: set_map)

lemma phaseOk_kept:
  assumes "tableStep w db'" "phaseOk (as_db w) ph"
  shows "phaseOk db' ph"
proof -
  have kept: "list_ex (sameSession s) (sessions db')" if ex: "list_ex (sameSession s) (sessions (as_db w))" for s
  proof -
    from ex obtain r where r: "r \<in> set (sessions (as_db w))" "sameSession s r" by (auto simp: list_ex_iff)
    from tableStep_row [OF assms(1) r(1)] obtain r' where "r' \<in> set (sessions db')" "sameSession r r'" by blast
    with r(2) show ?thesis unfolding list_ex_iff by (blast intro: sameSession_trans)
  qed
  have "fam \<in> set (map familyId (sessions db'))" if "fam \<in> set (map familyId (sessions (as_db w)))" for fam
    using that tableStep_families [OF assms(1)] by blast
  with kept assms(2) show ?thesis by (cases ph) auto
qed

lemma read_cases:
  assumes "refreshRead sha now c db = ph"
  obtains (answered) r where "ph = Answered (Inl r)"
  | (killing) t s where "c = Some t" "findSession (sha t) db = Some s" "revokedAt s \<noteq> None" "ph = Killing (familyId s)"
  | (rotating) t s where "c = Some t" "findSession (sha t) db = Some s" "revokedAt s = None" "ph = Rotating s"
  using assms by (auto simp: refreshRead_def split: option.split_asm if_split_asm)

lemma advance_phase:
  assumes "phaseOk db ph" "advanceRefresh sha now fr ph db = (db', ph')" "tableStep w db'" "as_db w = db"
  shows "phaseOk db' ph'"
proof (cases ph)
  case (Presented c)
  with assms(2) have eq: "db' = db" "refreshRead sha now c db = ph'" by auto
  from eq(2) show ?thesis
    by (cases rule: read_cases) (use findSession_mem [of _ db] in \<open>force simp: eq(1) list_ex_iff\<close>)+
next
  case (Rotating s)
  then have "phaseOk db' ph" using phaseOk_kept [OF assms(3)] assms(1,4) by blast
  with Rotating assms(2) show ?thesis by auto
qed (use assms(2) in \<open>auto split: prod.splits\<close>)

lemma serverOk_perform:
  assumes "serverOk w" "k < length (as_refreshes w)" "freshSession fr (as_db w) \<or> (\<forall>s. as_refreshes w ! k \<noteq> Issuing s)"
  shows "serverOk (perform sha now fr k w)"
proof -
  obtain db' ph where adv: "advanceRefresh sha now fr (as_refreshes w ! k) (as_db w) = (db', ph)" by force
  have table: "tableStep w db'" using advance_table [OF assms(2,3), of sha now] by (simp add: adv)
  have "phaseOk (as_db w) (as_refreshes w ! k)" using assms(1,2) by (simp add: serverOk_def list_all_length)
  from advance_phase [OF this adv table refl] have "phaseOk db' ph" .
  moreover have "list_all (phaseOk db') (as_refreshes w)"
    using assms(1) phaseOk_kept [OF table] by (auto simp: serverOk_def list_all_iff)
  ultimately have "list_all (phaseOk db') ((as_refreshes w)[k := ph])"
    using set_update_subset_insert [of "as_refreshes w" k ph] by (auto simp: list_all_iff)
  with tableStep_ok [OF table] assms(1) show ?thesis by (simp add: serverOk_def perform_def adv)
qed

lemma serverOk_step:
  assumes "auth_step sha w w'" "serverOk w"
  shows "serverOk w'"
proof -
  note table = auth_step_table [OF assms(1)]
  have kept: "list_all (phaseOk (as_db w')) (as_refreshes w)"
    using assms(2) phaseOk_kept [OF table] by (auto simp: serverOk_def list_all_iff)
  have ok: "tableOk (as_db w')" using tableStep_ok [OF table] assms(2) by (simp add: serverOk_def)
  from assms(1) show ?thesis
  proof cases
    case (advances k fr now)
    with serverOk_perform [OF assms(2) advances(2)] show ?thesis by blast
  qed (use kept ok in \<open>simp_all add: serverOk_def\<close>)
qed

text \<open>A token whose session has been revoked, for good.\<close>

definition spent :: "string \<Rightarrow> string \<Rightarrow> millis \<Rightarrow> database \<Rightarrow> bool" where
  "spent h fam expiry db \<longleftrightarrow>
     list_ex (\<lambda>s. se_tokenHash s = h \<and> familyId s = fam \<and> se_expiresAt s = expiry \<and> revokedAt s \<noteq> None) (sessions db)"

lemma spent_step:
  assumes "auth_step sha w w'" "spent h fam x (as_db w)"
  shows "spent h fam x (as_db w')"
proof -
  from assms(2) obtain s where s: "s \<in> set (sessions (as_db w))" "se_tokenHash s = h" "familyId s = fam" "se_expiresAt s = x" "revokedAt s \<noteq> None"
    by (auto simp: spent_def list_ex_iff)
  from tableStep_row [OF auth_step_table [OF assms(1)] s(1)] obtain s' where
    "s' \<in> set (sessions (as_db w'))" "sameSession s s'" "revokedAt s \<noteq> None \<longrightarrow> revokedAt s' \<noteq> None" .
  with s show ?thesis by (auto simp: spent_def list_ex_iff sameSession_def)
qed

text \<open>A family without a live session and without a rotation under way never has a live session again.\<close>

definition sealed :: "string \<Rightarrow> auth_server \<Rightarrow> bool" where
  "sealed fam w \<longleftrightarrow> fam \<in> set (map familyId (sessions (as_db w))) \<and> liveSessions fam (as_db w) = []
     \<and> \<not> list_ex (rotates fam) (as_refreshes w)"

lemma read_rotates:
  "refreshRead sha now c db = ph \<Longrightarrow> rotates fam ph \<Longrightarrow> liveSessions fam db \<noteq> []"
  by (erule read_cases) (auto simp: liveSessions_def liveIn_def filter_empty_conv dest!: findSession_mem)

lemma sealed_table:
  assumes "tableStep w db'" "sealed fam w"
  shows "fam \<in> set (map familyId (sessions db')) \<and> liveSessions fam db' = []"
proof -
  from assms(1) obtain now P new where eq: "sessions db' = revoking now P (sessions (as_db w)) @ new"
    and new: "new = [] \<or> (\<exists>fr now uid fam. new = [newSession now fr uid fam] \<and> freshSession fr (as_db w)
       \<and> (fam \<notin> set (map familyId (sessions (as_db w))) \<or> list_ex (\<lambda>ph. \<exists>s. ph = Issuing s \<and> familyId s = fam) (as_refreshes w)))"
    by (rule tableStepE)
  have fam: "fam \<in> set (map familyId (sessions (as_db w)))" "\<not> list_ex (rotates fam) (as_refreshes w)"
    using assms(2) by (simp_all add: sealed_def)
  have "filter (liveIn fam) new = []"
    using new
  proof (elim disjE exE conjE)
    fix fr now uid f assume "new = [newSession now fr uid f]" "f \<notin> set (map familyId (sessions (as_db w)))"
    with fam(1) show ?thesis by (auto simp: liveIn_def newSession_def)
  next
    fix fr now uid f assume "new = [newSession now fr uid f]" "list_ex (\<lambda>ph. \<exists>s. ph = Issuing s \<and> familyId s = f) (as_refreshes w)"
    with fam(2) show ?thesis by (auto simp: liveIn_def newSession_def list_ex_iff)
  qed simp
  moreover have "filter (liveIn fam) (revoking now P (sessions (as_db w))) = []"
    using assms(2) by (auto simp: live_revoking sealed_def liveSessions_def filter_empty_conv)
  moreover have "fam \<in> set (map familyId (sessions db'))" using tableStep_families [OF assms(1)] assms(2) unfolding sealed_def by blast
  ultimately show ?thesis by (simp add: eq liveSessions_def)
qed

lemma sealed_step:
  assumes "auth_step sha w w'" "sealed fam w"
  shows "sealed fam w'"
proof -
  note table = sealed_table [OF auth_step_table [OF assms(1)] assms(2)]
  from assms(1) have "\<not> list_ex (rotates fam) (as_refreshes w')"
  proof cases
    case (advances k fr now)
    obtain db' ph where adv: "advanceRefresh sha now fr (as_refreshes w ! k) (as_db w) = (db', ph)" by force
    have w': "as_db w' = db'" "as_refreshes w' = (as_refreshes w)[k := ph]" by (simp_all add: advances(1) perform_def adv)
    have "\<not> rotates fam (as_refreshes w ! k)" using assms(2) advances(2) by (auto simp: sealed_def list_ex_iff)
    with adv have "\<not> rotates fam ph"
      using assms(2) read_rotates [of sha now _ "as_db w" ph fam]
      by (cases "as_refreshes w ! k") (auto simp: sealed_def split: prod.splits)
    with assms(2) w' show ?thesis
      using set_update_subset_insert [of "as_refreshes w" k ph] by (auto simp: sealed_def list_ex_iff)
  qed (use assms(2) in \<open>simp_all add: sealed_def\<close>)
  with table show ?thesis by (simp add: sealed_def)
qed

lemma auth_steps:
  assumes "(auth_step sha)\<^sup>*\<^sup>* w w'"
  shows "serverOk w \<Longrightarrow> serverOk w'" "spent h fam x (as_db w) \<Longrightarrow> spent h fam x (as_db w')" "sealed fam w \<Longrightarrow> sealed fam w'"
  using assms by induction (auto intro: serverOk_step spent_step sealed_step)

lemma findSession_unique:
  assumes "tableOk db" "s \<in> set (sessions db)" "se_tokenHash s = h"
  shows "findSession h db = Some s"
proof -
  have "findSession h db \<noteq> None" using assms(2,3) by (auto simp: findSession_def find_NoneD)
  then obtain s' where s': "findSession h db = Some s'" by blast
  from findSession_mem [OF this] assms have "s' = s" by (auto simp: tableOk_def distinct_map dest: inj_onD)
  with s' show ?thesis by simp
qed

text \<open>Presenting a spent token is read as reuse, and the family's update leaves no live session in it.\<close>

lemma read_spent:
  assumes "spent (sha t) fam x db" "tableOk db" "now \<le> x" "t \<noteq> []"
  shows "refreshRead sha now (Some t) db = Killing fam"
proof -
  from assms(1) obtain s where s: "s \<in> set (sessions db)" "se_tokenHash s = sha t" "familyId s = fam" "se_expiresAt s = x" "revokedAt s \<noteq> None"
    by (auto simp: spent_def list_ex_iff)
  with findSession_unique [OF assms(2) s(1,2)] assms(3,4) show ?thesis by (simp add: refreshRead_def)
qed

lemma killed_family: "liveSessions fam (revokeFamily now fam db) = []"
  by (simp add: liveSessions_def revokeFamily_def live_revoking) (auto simp: filter_empty_conv liveIn_def)

lemma rotation_spends:
  assumes "list_ex (sameSession s) (sessions db)" "tableOk db"
  shows "spent (se_tokenHash s) (familyId s) (se_expiresAt s) (revokeSession now s db)"
proof -
  from assms(1) obtain s' where s': "s' \<in> set (sessions db)" "sameSession s s'" by (auto simp: list_ex_iff)
  then have "s'\<lparr>revokedAt := Some now\<rparr> \<in> set (sessions (revokeSession now s db))"
    by (auto simp: revokeSession_def updateWhere_cases sameSession_def)
  with s'(2) show ?thesis
    unfolding spent_def list_ex_iff by (intro bexI [where x = "s'\<lparr>revokedAt := Some now\<rparr>"]) (simp_all add: sameSession_def)
qed

section \<open>Rotation with reuse detection\<close>

text \<open>
  C9. Refresh-token rotation, with requests interleaved statement by statement. Once a refresh has revoked the session of
  the token it exchanges, then whatever registrations, logins, logouts and other refreshes do in between, presenting
  the token again before it expires is read as reuse; when that request's update has run it is refused and no session of
  the family is live. Unless another refresh of the family was then between its read and its insert, no session of
  the family is ever live again and none of its tokens is exchanged again. (Such an overlapping refresh still adds its new
  session: \<open>concurrent_refresh_forks_family\<close>.)
\<close>

theorem refresh_reuse_kills_family:
  assumes "serverOk w1" "k1 < length (as_refreshes w1)" "as_refreshes w1 ! k1 = Rotating s" "se_tokenHash s = sha t" "t \<noteq> []"
    and "(auth_step sha)\<^sup>*\<^sup>* (perform sha now1 fr1 k1 w1) w2"
    and "k < length (as_refreshes w2)" "as_refreshes w2 ! k = Presented (Some t)" "now2 \<le> se_expiresAt s"
    and "(auth_step sha)\<^sup>*\<^sup>* (perform sha now2 fr2 k w2) w3"
    and "k < length (as_refreshes w3)" "as_refreshes w3 ! k = Killing (familyId s)" "w4 = perform sha now3 fr3 k w3"
    and "(auth_step sha)\<^sup>*\<^sup>* w4 w5"
  shows "as_refreshes (perform sha now2 fr2 k w2) ! k = Killing (familyId s)
    \<and> as_refreshes w4 ! k = Answered (Inl reused) \<and> liveSessions (familyId s) (as_db w4) = []
    \<and> (\<not> list_ex (rotates (familyId s)) (as_refreshes w4) \<longrightarrow>
         liveSessions (familyId s) (as_db w5) = []
         \<and> (\<forall>now' t' s'. findSession (sha t') (as_db w5) = Some s' \<longrightarrow> familyId s' = familyId s \<longrightarrow>
              refreshRead sha now' (Some t') (as_db w5) \<noteq> Rotating s'))"
proof -
  have row: "list_ex (sameSession s) (sessions (as_db w1))" and table: "tableOk (as_db w1)"
    using assms(1-3) by (force simp: serverOk_def list_all_length)+
  let ?w1 = "perform sha now1 fr1 k1 w1" and ?w2 = "perform sha now2 fr2 k w2" and ?fam = "familyId s"
  have ok1: "serverOk ?w1" using serverOk_perform [OF assms(1,2)] assms(3) by simp
  have "as_db ?w1 = revokeSession now1 s (as_db w1)" by (simp add: perform_def assms(3))
  then have sp: "spent (sha t) ?fam (se_expiresAt s) (as_db ?w1)" using rotation_spends [OF row table] assms(4) by simp
  note sp2 = auth_steps(2) [OF assms(6) sp] and ok2 = auth_steps(1) [OF assms(6) ok1]
  have read: "refreshRead sha now2 (Some t) (as_db w2) = Killing ?fam"
    using read_spent [where sha = sha and t = t, OF sp2 _ assms(9,5)] ok2 by (simp add: serverOk_def)
  have ok3: "serverOk w3" using serverOk_perform [OF ok2 assms(7)] assms(8) auth_steps(1) [OF assms(10)] by simp
  have w4: "as_db w4 = revokeFamily now3 ?fam (as_db w3)" "as_refreshes w4 = (as_refreshes w3)[k := Answered (Inl reused)]"
    by (simp_all add: assms(12,13) perform_def)
  have "?fam \<in> set (map familyId (sessions (as_db w3)))"
    using ok3 assms(11,12) by (fastforce simp: serverOk_def list_all_length)
  then have fam: "?fam \<in> set (map familyId (sessions (as_db w4)))" by (simp add: w4 revokeFamily_def del: set_map)
  have "sealed ?fam w5" if "\<not> list_ex (rotates ?fam) (as_refreshes w4)"
    using that fam auth_steps(3) [OF assms(14)] by (simp add: sealed_def w4(1) killed_family)
  then have "liveSessions ?fam (as_db w5) = []" if "\<not> list_ex (rotates ?fam) (as_refreshes w4)" using that by (simp add: sealed_def)
  moreover from this have "refreshRead sha now' (Some t') (as_db w5) \<noteq> Rotating s'"
    if "\<not> list_ex (rotates ?fam) (as_refreshes w4)" "familyId s' = ?fam" for now' t' s'
    using that read_rotates [of sha now' "Some t'" "as_db w5" "Rotating s'" ?fam] by auto
  ultimately show ?thesis
    using assms(7,8,11) read by (simp add: w4 killed_family) (simp add: perform_def)
qed

text \<open>
  Ada's token is exchanged and the stolen copy presented: the two statements of the exchange, a logout without a cookie, the
  second request's read and update.
\<close>

definition ada_db :: database where
  "ada_db = emptyDatabase\<lparr>users := [\<lparr>us_id = ''u'', us_email = ''ada'', us_passwordHash = None, us_name = ''Ada'', us_status = Deactivated\<rparr>],
     sessions := [\<lparr>se_id = ''s1'', se_userId = ''u'', familyId = ''f'', se_tokenHash = ''T1'', se_expiresAt = 1000, revokedAt = None\<rparr>]\<rparr>"

definition ada_fresh :: fresh where
  "ada_fresh = \<lparr>fr_user = ''-'', fr_workspace = ''-'', fr_member = ''-'', fr_session = ''s2'', fr_family = ''-'', fr_suffix = ''-'',
     fr_refresh = \<lparr>mt_token = ''T2'', mt_hash = ''T2'', mt_last4 = ''T2''\<rparr>\<rparr>"

lemmas ada_defs = ada_db_def ada_fresh_def emptyDatabase_def refreshSession_def refreshRead_def issueSession_def newSession_def
  findSession_def logout_def revokeFamily_def revokeSession_def reused_def

definition ada_server :: auth_server where
  "ada_server = \<lparr>as_db = ada_db, as_refreshes =
     [Rotating \<lparr>se_id = ''s1'', se_userId = ''u'', familyId = ''f'', se_tokenHash = ''T1'', se_expiresAt = 1000, revokedAt = None\<rparr>,
      Presented (Some ''T1'')]\<rparr>"

lemma refresh_reuse_kills_family_witness:
  defines "w1 \<equiv> perform (\<lambda>x. x) 10 ada_fresh 0 ada_server"
  defines "w2 \<equiv> perform (\<lambda>x. x) 20 ada_fresh 0 w1"
  defines "w3 \<equiv> perform (\<lambda>x. x) 30 ada_fresh 1 w2"
  defines "w4 \<equiv> perform (\<lambda>x. x) 40 ada_fresh 1 w3"
  shows "length (liveSessions ''f'' (as_db w2)) = 1 \<and> as_refreshes w4 ! 1 = Answered (Inl reused) \<and> liveSessions ''f'' (as_db w4) = []
    \<and> (\<forall>s. refreshRead (\<lambda>x. x) 50 (Some ''T2'') (as_db w4) \<noteq> Rotating s)"
proof -
  let ?s = "\<lparr>se_id = ''s1'', se_userId = ''u'', familyId = ''f'', se_tokenHash = ''T1'', se_expiresAt = 1000, revokedAt = None\<rparr>"
  have ok: "serverOk ada_server" by (simp add: ada_server_def ada_defs serverOk_def tableOk_def)
  have 1: "(auth_step (\<lambda>x. x))\<^sup>*\<^sup>* w1 w2"
    unfolding w2_def by (rule r_into_rtranclp, rule advances) (simp_all add: w1_def ada_server_def perform_def ada_defs freshSession_def)
  have 2: "as_refreshes w3 ! 1 = Killing ''f''" "length (as_refreshes w3) = 2" "length (liveSessions ''f'' (as_db w2)) = 1"
    "\<not> list_ex (rotates ''f'') (as_refreshes w4)" "as_refreshes w2 ! 1 = Presented (Some ''T1'')" "length (as_refreshes w2) = 2"
    "findSession ''T2'' (as_db w4) = Some \<lparr>se_id = ''s2'', se_userId = ''u'', familyId = ''f'', se_tokenHash = ''T2'',
       se_expiresAt = 20 + REFRESH_TOKEN_TTL_S * 1000, revokedAt = Some 40\<rparr>"
    by (simp_all add: w4_def w3_def w2_def w1_def ada_server_def perform_def ada_defs liveSessions_def liveIn_def)
  note kills = refresh_reuse_kills_family [where sha = "\<lambda>x. x" and s = ?s and t = "''T1''" and ?k1.0 = 0 and k = 1 and ?fr1.0 = ada_fresh and ?now1.0 = 10,
      OF ok _ _ _ _ 1 [unfolded w1_def]]
  show ?thesis
    using kills [where ?now2.0 = 30 and ?fr2.0 = ada_fresh and ?w3.0 = w3 and ?w4.0 = w4 and ?w5.0 = w4 and ?now3.0 = 40 and ?fr3.0 = ada_fresh] 2
    by (fastforce simp: ada_server_def w3_def w4_def refreshRead_def split: if_splits)
qed

section \<open>Gaps\<close>

text \<open>A refresh never looks at the user: a deactivated account keeps its session for as long as it refreshes it.\<close>

lemma refresh_ignores_deactivation:
  "us_status (users ada_db ! 0) = Deactivated
   \<and> snd (refreshSession (\<lambda>x. x) 10 ada_fresh (Some ''T1'') ada_db) = Inr ''T2''"
  by (simp add: ada_defs)

text \<open>
  Two refreshes of one token that both read the session before either writes: the update does not ask whether the
  session is still live, so both succeed and the family has two live tokens; no reuse is detected.
\<close>

lemma concurrent_refresh_forks_family:
  "let fr3 = ada_fresh\<lparr>fr_session := ''s3'', fr_refresh := \<lparr>mt_token = ''T3'', mt_hash = ''T3'', mt_last4 = ''T3''\<rparr>\<rparr>;
       w0 = ada_server\<lparr>as_refreshes := [Presented (Some ''T1''), Presented (Some ''T1'')]\<rparr>;
       w1 = perform (\<lambda>x. x) 11 fr3 1 (perform (\<lambda>x. x) 10 ada_fresh 0 w0);
       w2 = perform (\<lambda>x. x) 11 fr3 1 (perform (\<lambda>x. x) 10 ada_fresh 0 w1);
       w3 = perform (\<lambda>x. x) 11 fr3 1 (perform (\<lambda>x. x) 10 ada_fresh 0 w2)
   in as_refreshes w3 = [Answered (Inr ''T2''), Answered (Inr ''T3'')] \<and> length (liveSessions ''f'' (as_db w3)) = 2"
  by code_simp

end
