(* ===== verification/Members.thy ===== *)
theory Members
  imports Sessions
begin

text \<open>
  Invitations and members of a workspace (\<open>apps/api/src/modules/invitations.ts\<close>, with the mail of
  \<open>apps/api/src/lib/mailer.ts\<close>): invite, re-issue, withdraw and accept an invitation, change a role, remove a
  member. Every workspace is shown to keep an owner, and no operation makes one.
\<close>

section \<open>The invitation mail (mailer.ts)\<close>

definition escapeChar :: "char \<Rightarrow> string" where
  "escapeChar c =
     (if c = CHR ''&'' then ''&amp;'' else if c = CHR ''<'' then ''&lt;'' else if c = CHR ''>'' then ''&gt;''
      else if c = CHR 0x22 then ''&quot;'' else if c = CHR 0x27 then ''&#39;'' else [c])"

definition escapeHtml :: "string \<Rightarrow> string" where
  "escapeHtml s = concat (map escapeChar s)"

record mail =
  ml_to :: string
  ml_subject :: string
  ml_html :: string
  ml_text :: string

abbreviation nl :: string where "nl \<equiv> [CHR 0x0A]"
abbreviation dq :: string where "dq \<equiv> [CHR 0x22]"
abbreviation sq :: string where "sq \<equiv> [CHR 0x27]"

definition inviteEmail :: "string \<Rightarrow> string \<Rightarrow> string \<Rightarrow> string \<Rightarrow> mail" where
  "inviteEmail to wname inviter acceptUrl =
     \<lparr>ml_to = to,
      ml_subject = inviter @ '' invited you to '' @ wname @ '' on TokenLedger'',
      ml_html = nl @ ''      <div style='' @ dq @ ''font-family:sans-serif;max-width:480px'' @ dq @ ''>'' @ nl
        @ ''        <h2>You'' @ sq @ ''re invited to '' @ escapeHtml wname @ ''</h2>'' @ nl
        @ ''        <p>'' @ escapeHtml inviter @ '' invited you to their TokenLedger workspace.</p>'' @ nl
        @ ''        <p><a href='' @ dq @ acceptUrl @ dq @ '' style='' @ dq
        @ ''background:#3b5bdb;color:#fff;padding:10px 18px;border-radius:6px;text-decoration:none'' @ dq
        @ ''>Accept invitation</a></p>'' @ nl
        @ ''        <p style='' @ dq @ ''color:#888;font-size:12px'' @ dq @ ''>This link expires in 7 days. If you weren'' @ sq
        @ ''t expecting this, ignore this email.</p>'' @ nl @ ''      </div>'',
      ml_text = inviter @ '' invited you to the '' @ dq @ wname @ dq @ '' workspace on TokenLedger.'' @ nl @ nl
        @ ''Accept the invitation: '' @ acceptUrl @ nl @ nl @ ''This link expires in 7 days.''\<rparr>"

text \<open>No markup survives, and nothing is lost: escaping is injective.\<close>

lemma escapeHtml_inert: "set (escapeHtml s) \<inter> {CHR ''<'', CHR ''>'', CHR 0x22, CHR 0x27} = {}"
  by (induction s) (auto simp: escapeHtml_def escapeChar_def)

lemma escapeChar_prefix_free: "escapeChar c @ x = escapeChar d @ y \<Longrightarrow> c = d \<and> x = y"
  by (auto simp: escapeChar_def split: if_split_asm)

lemma escapeHtml_inj: "escapeHtml s = escapeHtml t \<Longrightarrow> s = t"
proof (induction s arbitrary: t)
  case Nil
  then show ?case by (cases t) (auto simp: escapeHtml_def escapeChar_def split: if_split_asm)
next
  case (Cons c s)
  then obtain d t' where t: "t = d # t'" by (cases t) (auto simp: escapeHtml_def escapeChar_def split: if_split_asm)
  with Cons.prems have "escapeChar c @ escapeHtml s = escapeChar d @ escapeHtml t'" by (simp add: escapeHtml_def)
  from escapeChar_prefix_free [OF this] Cons.IH t show ?case by simp
qed

section \<open>Requests (invitations.ts)\<close>

abbreviation INVITE_TTL_MS :: millis where "INVITE_TTL_MS \<equiv> 7 * 24 * 60 * 60 * 1000"

text \<open>\<open>z.enum(["ADMIN", "MEMBER", "VIEWER"])\<close>: OWNER cannot be asked for.\<close>

definition grantableRole :: "string \<Rightarrow> workspace_role option" where
  "grantableRole s = (if s = ''ADMIN'' then Some ADMIN else if s = ''MEMBER'' then Some MEMBER
     else if s = ''VIEWER'' then Some VIEWER else None)"

definition inviteSchema :: "(string \<Rightarrow> bool) \<Rightarrow> string \<Rightarrow> string option \<Rightarrow> (string \<times> workspace_role) option" where
  "inviteSchema isEmail email role =
     (if \<not> isEmail email then None
      else case role of
             None \<Rightarrow> Some (toLowerCase email, MEMBER)
           | Some s \<Rightarrow> map_option (\<lambda>r. (toLowerCase email, r)) (grantableRole s))"

definition acceptSchema :: "string option \<Rightarrow> string option \<Rightarrow> bool" where
  "acceptSchema name password \<longleftrightarrow>
     (case name of None \<Rightarrow> True | Some s \<Rightarrow> 1 \<le> length s \<and> length s \<le> 100)
     \<and> (case password of None \<Rightarrow> True | Some s \<Rightarrow> 8 \<le> length s \<and> length s \<le> 200)"

section \<open>Invitations (invitations.ts)\<close>

record invitation_view =
  ivv_id :: string
  ivv_email :: string
  ivv_role :: workspace_role
  ivv_expiresAt :: millis
  ivv_acceptUrl :: string

definition invitationView :: "string \<Rightarrow> string \<Rightarrow> invitation \<Rightarrow> invitation_view" where
  "invitationView publicUrl token v =
     \<lparr>ivv_id = iv_id v, ivv_email = iv_email v, ivv_role = iv_role v, ivv_expiresAt = iv_expiresAt v,
      ivv_acceptUrl = publicUrl @ ''/invite/'' @ token\<rparr>"

definition pending :: "millis \<Rightarrow> invitation \<Rightarrow> bool" where
  "pending now v \<longleftrightarrow> acceptedAt v = None \<and> now < iv_expiresAt v"

definition isMemberEmail :: "string \<Rightarrow> string \<Rightarrow> database \<Rightarrow> bool" where
  "isMemberEmail wsid email db =
     list_ex (\<lambda>m. wm_workspaceId m = wsid \<and> list_ex (\<lambda>u. us_id u = wm_userId m \<and> us_email u = email) (users db)) (wmembers db)"

text \<open>The three queries of \<open>Promise.all\<close> run whatever the others do.\<close>

definition invite ::
  "(string \<Rightarrow> bool) \<Rightarrow> string \<Rightarrow> millis \<Rightarrow> string \<Rightarrow> minted_token \<Rightarrow> authed_user option \<Rightarrow> string \<Rightarrow>
   string \<times> string option \<Rightarrow> database \<Rightarrow> database \<times> (api_error + invitation_view \<times> mail)" where
  "invite isEmail publicUrl now iid minted user ws body0 db =
     guarded ADMIN user ws db (\<lambda>u ctx.
       (let wsid = ctx_workspaceId ctx in
        case inviteSchema isEmail (fst body0) (snd body0) of
          None \<Rightarrow> (db, Inl ZodFailed)
        | Some (email, role) \<Rightarrow>
            (if isMemberEmail wsid email db
             then (db, Inl (Domain (ConflictError ''This user is already a workspace member'')))
             else if list_ex (\<lambda>v. iv_workspaceId v = wsid \<and> iv_email v = email \<and> pending now v) (invitations db)
             then (db, Inl (Domain (ConflictError ''An invitation for this email is already pending'')))
             else (let v = \<lparr>iv_id = iid, iv_workspaceId = wsid, iv_email = email, iv_role = role, iv_tokenHash = mt_hash minted,
                            invitedById = au_id u, iv_expiresAt = now + INVITE_TTL_MS, acceptedAt = None\<rparr>;
                       db' = db\<lparr>invitations := invitations db @ [v]\<rparr>;
                       view = invitationView publicUrl (mt_token minted) v
                   in case (find (\<lambda>w. ws_id w = wsid) (workspaces db), find (\<lambda>x. us_id x = au_id u) (users db)) of
                        (Some w, Some x) \<Rightarrow> (db', Inr (view, inviteEmail email (ws_name w) (us_name x) (ivv_acceptUrl view)))
                      | _ \<Rightarrow> (db', Inl Internal)))))"

definition relink ::
  "string \<Rightarrow> millis \<Rightarrow> minted_token \<Rightarrow> authed_user option \<Rightarrow> string \<Rightarrow> string \<Rightarrow> database \<Rightarrow>
   database \<times> (api_error + invitation_view)" where
  "relink publicUrl now minted user ws iid db =
     guarded ADMIN user ws db (\<lambda>u ctx.
       (case find (\<lambda>v. iv_id v = iid \<and> iv_workspaceId v = ctx_workspaceId ctx \<and> pending now v) (invitations db) of
          None \<Rightarrow> (db, Inl (Domain (NotFoundError ''Invitation'' (Some iid))))
        | Some v \<Rightarrow>
            (db\<lparr>invitations := updateWhere (\<lambda>v. iv_id v = iid) (\<lambda>v. v\<lparr>iv_tokenHash := mt_hash minted\<rparr>) (invitations db)\<rparr>,
             Inr (invitationView publicUrl (mt_token minted) v))))"

definition withdraw :: "authed_user option \<Rightarrow> string \<Rightarrow> string \<Rightarrow> database \<Rightarrow> database \<times> (api_error + unit)" where
  "withdraw user ws iid db =
     guarded ADMIN user ws db (\<lambda>u ctx.
       (let P = (\<lambda>v. iv_id v = iid \<and> iv_workspaceId v = ctx_workspaceId ctx \<and> acceptedAt v = None) in
        if countWhere P (invitations db) = 0 then (db, Inl (Domain (NotFoundError ''Invitation'' (Some iid))))
        else (db\<lparr>invitations := deleteWhere P (invitations db)\<rparr>, Inr ())))"

section \<open>Members (invitations.ts)\<close>

definition isMember :: "string \<Rightarrow> string \<Rightarrow> workspace_member \<Rightarrow> bool" where
  "isMember wsid uid m \<longleftrightarrow> wm_workspaceId m = wsid \<and> wm_userId m = uid"

definition isOwnerOf :: "string \<Rightarrow> workspace_member \<Rightarrow> bool" where
  "isOwnerOf wsid m \<longleftrightarrow> wm_workspaceId m = wsid \<and> wm_role m = OWNER"

text \<open>The reads and checks before the write: the member concerned, unless it is the last owner.\<close>

definition targetMember :: "string \<Rightarrow> string \<Rightarrow> string \<Rightarrow> database \<Rightarrow> domain_error + workspace_member" where
  "targetMember lastOwner wsid uid db =
     (case find (isMember wsid uid) (wmembers db) of
        None \<Rightarrow> Inl (NotFoundError ''Workspace member'' (Some uid))
      | Some m \<Rightarrow>
          (if wm_role m = OWNER \<and> countWhere (isOwnerOf wsid) (wmembers db) \<le> 1 then Inl (ValidationError lastOwner)
           else Inr m))"

definition setRole :: "string \<Rightarrow> string \<Rightarrow> workspace_role \<Rightarrow> database \<Rightarrow> database" where
  "setRole wsid uid r db = db\<lparr>wmembers := updateWhere (isMember wsid uid) (\<lambda>m. m\<lparr>wm_role := r\<rparr>) (wmembers db)\<rparr>"

definition dropMember :: "string \<Rightarrow> string \<Rightarrow> database \<Rightarrow> database" where
  "dropMember wsid uid db = db\<lparr>wmembers := deleteWhere (isMember wsid uid) (wmembers db)\<rparr>"

text \<open>The requested role is never OWNER, so the second half of the handler's condition always holds.\<close>

definition updateMember ::
  "authed_user option \<Rightarrow> string \<Rightarrow> string \<Rightarrow> string \<Rightarrow> database \<Rightarrow> database \<times> (api_error + workspace_member)" where
  "updateMember user ws uid role db =
     guarded ADMIN user ws db (\<lambda>u ctx.
       (case grantableRole role of
          None \<Rightarrow> (db, Inl ZodFailed)
        | Some r \<Rightarrow>
            (case targetMember (''Cannot demote the last OWNER '' @ emDash @ '' promote another member to OWNER first'')
                (ctx_workspaceId ctx) uid db of
               Inl e \<Rightarrow> (db, Inl (Domain e))
             | Inr m \<Rightarrow> (setRole (ctx_workspaceId ctx) uid r db, Inr (m\<lparr>wm_role := r\<rparr>)))))"

definition removeMember :: "authed_user option \<Rightarrow> string \<Rightarrow> string \<Rightarrow> database \<Rightarrow> database \<times> (api_error + unit)" where
  "removeMember user ws uid db =
     guarded VIEWER user ws db (\<lambda>u ctx.
       (if uid \<noteq> au_id u \<and> \<not> hasMinimumRole (ctx_role ctx) ADMIN
        then (db, Inl (Domain (ForbiddenError ''Only workspace admins can remove other members'')))
        else case targetMember (''Cannot remove the last OWNER '' @ emDash @ '' transfer ownership before leaving'')
                 (ctx_workspaceId ctx) uid db of
               Inl e \<Rightarrow> (db, Inl (Domain e))
             | Inr m \<Rightarrow> (dropMember (ctx_workspaceId ctx) uid db, Inr ())))"

section \<open>Accepting (invitations.ts)\<close>

definition findValidInvitation :: "(string \<Rightarrow> string) \<Rightarrow> millis \<Rightarrow> string \<Rightarrow> database \<Rightarrow> domain_error + invitation" where
  "findValidInvitation sha now token db =
     (let bad = Inl (UnauthorizedError ''This invitation is invalid or has expired'') in
      case find (\<lambda>v. iv_tokenHash v = sha token) (invitations db) of
        None \<Rightarrow> bad
      | Some v \<Rightarrow> (if acceptedAt v \<noteq> None \<or> iv_expiresAt v < now then bad else Inr v))"

text \<open>Email, role, workspace and whether an account exists.\<close>

definition showInvitation ::
  "(string \<Rightarrow> string) \<Rightarrow> millis \<Rightarrow> string \<Rightarrow> database \<Rightarrow> api_error + string \<times> workspace_role \<times> workspace option \<times> bool" where
  "showInvitation sha now token db =
     (case findValidInvitation sha now token db of
        Inl e \<Rightarrow> Inl (Domain e)
      | Inr v \<Rightarrow> Inr (iv_email v, iv_role v, find (\<lambda>w. ws_id w = iv_workspaceId v) (workspaces db),
                     findUser (iv_email v) db \<noteq> None))"

text \<open>The account an acceptance is for, created when there is none.\<close>

definition acceptingUser ::
  "(string \<Rightarrow> string option) \<Rightarrow> string \<Rightarrow> string \<Rightarrow> string option \<Rightarrow> string option \<Rightarrow> database \<Rightarrow>
   database \<times> (api_error + string)" where
  "acceptingUser hash newId email name password db =
     (case findUser email db of
        Some u \<Rightarrow> (db, Inr (us_id u))
      | None \<Rightarrow>
          (case (name, password) of
             (Some n, Some p) \<Rightarrow>
               (case hash p of
                  None \<Rightarrow> (db, Inl Internal)
                | Some h \<Rightarrow>
                    (db\<lparr>users := users db @ [\<lparr>us_id = newId, us_email = email, us_passwordHash = Some h, us_name = n,
                                             us_status = UserActive\<rparr>]\<rparr>, Inr newId))
           | _ \<Rightarrow> (db, Inl (Domain (ValidationError ''name and password are required to create your account'')))))"

text \<open>The transaction: a second membership of one user breaks a unique key and changes nothing.\<close>

definition joinWorkspace :: "millis \<Rightarrow> string \<Rightarrow> string \<Rightarrow> invitation \<Rightarrow> database \<Rightarrow> database option" where
  "joinWorkspace now memberId uid v db =
     (if list_ex (isMember (iv_workspaceId v) uid) (wmembers db) then None
      else Some (db\<lparr>wmembers := wmembers db @ [\<lparr>wm_id = memberId, wm_workspaceId = iv_workspaceId v, wm_userId = uid, wm_role = iv_role v\<rparr>],
                    invitations := updateWhere (\<lambda>x. iv_id x = iv_id v) (\<lambda>x. x\<lparr>acceptedAt := Some now\<rparr>) (invitations db)\<rparr>))"

definition accept ::
  "(string \<Rightarrow> string) \<Rightarrow> (string \<Rightarrow> string option) \<Rightarrow> millis \<Rightarrow> string \<Rightarrow> string \<Rightarrow> string \<Rightarrow> string option \<Rightarrow> string option \<Rightarrow>
   database \<Rightarrow> database \<times> (api_error + workspace option \<times> bool)" where
  "accept sha hash now newId memberId token name password db =
     (if \<not> acceptSchema name password then (db, Inl ZodFailed)
      else case findValidInvitation sha now token db of
             Inl e \<Rightarrow> (db, Inl (Domain e))
           | Inr v \<Rightarrow>
               (case acceptingUser hash newId (iv_email v) name password db of
                  (db1, Inl e) \<Rightarrow> (db1, Inl e)
                | (db1, Inr uid) \<Rightarrow>
                    (case joinWorkspace now memberId uid v db1 of
                       None \<Rightarrow> (db1, Inl Internal)
                     | Some db2 \<Rightarrow> (db2, Inr (find (\<lambda>w. ws_id w = iv_workspaceId v) (workspaces db), name \<noteq> None)))))"


section \<open>What the operations write\<close>

lemma grantable_not_owner: "grantableRole s = Some r \<Longrightarrow> r \<noteq> OWNER"
  by (auto simp: grantableRole_def split: if_split_asm)

lemma inviteSchema_not_owner: "inviteSchema isEmail e r = Some (e', r') \<Longrightarrow> r' \<noteq> OWNER"
  by (auto simp: inviteSchema_def dest: grantable_not_owner split: if_split_asm option.split_asm)

lemma targetMember_Inr:
  assumes "targetMember msg wsid uid db = Inr m"
  shows "m \<in> set (wmembers db)" "isMember wsid uid m"
    "wm_role m = OWNER \<Longrightarrow> 2 \<le> countWhere (isOwnerOf wsid) (wmembers db)"
  using assms find_SomeD [of "isMember wsid uid" "wmembers db"]
  by (auto simp: targetMember_def split: option.split_asm if_split_asm)

lemma invite_effect:
  assumes "invite isEmail publicUrl now iid minted user ws b db = (db', r)"
  shows "db' = db \<or> (\<exists>v. db' = db\<lparr>invitations := invitations db @ [v]\<rparr> \<and> iv_role v \<noteq> OWNER)"
  using assms unfolding invite_def
proof (cases rule: guarded_cases)
  case (admitted u ctx)
  show ?thesis
  proof (cases "inviteSchema isEmail (fst b) (snd b)")
    case (Some er)
    obtain e rl where er: "er = (e, rl)" by force
    with Some have "rl \<noteq> OWNER" by (auto dest: inviteSchema_not_owner)
    with admitted(4) Some er show ?thesis by (auto simp: Let_def split: if_split_asm option.split_asm)
  qed (use admitted in auto)
qed simp

lemma relink_effect:
  assumes "relink publicUrl now minted user ws iid db = (db', r)"
  shows "\<exists>P. db' = db\<lparr>invitations := updateWhere P (\<lambda>v. v\<lparr>iv_tokenHash := mt_hash minted\<rparr>) (invitations db)\<rparr>"
  using assms unfolding relink_def
proof (cases rule: guarded_cases)
  case refused
  then show ?thesis by (intro exI [of _ "\<lambda>_. False"]) (simp add: updateWhere_def)
next
  case (admitted u ctx)
  show ?thesis
  proof (cases "db' = db")
    case True
    then show ?thesis by (intro exI [of _ "\<lambda>_. False"]) (simp add: updateWhere_def)
  next
    case False
    with admitted(4) show ?thesis by (auto split: option.split_asm)
  qed
qed

lemma withdraw_effect:
  assumes "withdraw user ws iid db = (db', r)"
  shows "db' = db \<or> (\<exists>P. db' = db\<lparr>invitations := deleteWhere P (invitations db)\<rparr>)"
  using assms unfolding withdraw_def
  by (cases rule: guarded_cases) (auto simp: Let_def split: if_split_asm)

lemma updateMember_effect:
  assumes "updateMember user ws uid role db = (db', r)" "db' \<noteq> db"
  obtains u wsid rl msg m r' where "user = Some u" "memberOf (wmembers db) (au_id u) wsid rl" "ADMIN \<le> rl"
    "targetMember msg wsid uid db = Inr m" "r' \<noteq> OWNER" "db' = setRole wsid uid r' db"
  using assms(1) unfolding updateMember_def
proof (cases rule: guarded_cases)
  case (admitted u ctx)
  with assms(2) that show thesis
    by (auto split: option.split_asm sum.split_asm dest: grantable_not_owner)
qed (use assms(2) in simp)

lemma removeMember_effect:
  assumes "removeMember user ws uid db = (db', r)" "db' \<noteq> db"
  obtains u wsid rl msg m where "user = Some u" "memberOf (wmembers db) (au_id u) wsid rl" "uid = au_id u \<or> ADMIN \<le> rl"
    "targetMember msg wsid uid db = Inr m" "db' = dropMember wsid uid db"
  using assms(1) unfolding removeMember_def
proof (cases rule: guarded_cases)
  case (admitted u ctx)
  with assms(2) that show thesis
    by (auto simp: hasMinimumRole_iff split: sum.split_asm if_split_asm)
qed (use assms(2) in simp)

lemma findValidInvitation_Inr:
  "findValidInvitation sha now token db = Inr v \<Longrightarrow>
   v \<in> set (invitations db) \<and> iv_tokenHash v = sha token \<and> acceptedAt v = None \<and> now \<le> iv_expiresAt v"
  using find_SomeD [of "\<lambda>v. iv_tokenHash v = sha token" "invitations db"]
  by (auto simp: findValidInvitation_def Let_def not_less split: option.split_asm if_split_asm)

lemma acceptingUser_keeps:
  "acceptingUser hash newId email name password db = (db', r) \<Longrightarrow>
   wmembers db' = wmembers db \<and> invitations db' = invitations db"
  by (auto simp: acceptingUser_def split: option.split_asm)

lemma accept_effect:
  assumes "accept sha hash now newId memberId token name password db = (db', r)"
  shows "wmembers db' = wmembers db \<and> invitations db' = invitations db
    \<or> (\<exists>v m P. v \<in> set (invitations db) \<and> wm_role m = iv_role v \<and> \<not> list_ex (isMember (wm_workspaceId m) (wm_userId m)) (wmembers db)
        \<and> wmembers db' = wmembers db @ [m] \<and> invitations db' = updateWhere P (\<lambda>x. x\<lparr>acceptedAt := Some now\<rparr>) (invitations db))"
proof (cases "findValidInvitation sha now token db")
  case (Inl e)
  with assms show ?thesis by (auto simp: accept_def split: if_split_asm)
next
  case (Inr v)
  obtain db1 q where q: "acceptingUser hash newId (iv_email v) name password db = (db1, q)" by force
  note keeps = acceptingUser_keeps [OF q]
  show ?thesis
  proof (cases "acceptSchema name password \<and> (\<exists>uid. q = Inr uid \<and> joinWorkspace now memberId uid v db1 \<noteq> None)")
    case False
    with assms Inr q keeps show ?thesis
      by (auto simp: accept_def split: if_split_asm sum.split_asm option.split_asm)
  next
    case True
    then obtain uid db2 where j: "q = Inr uid" "joinWorkspace now memberId uid v db1 = Some db2" "acceptSchema name password" by auto
    with assms Inr q have "db' = db2" by (simp add: accept_def)
    let ?m = "\<lparr>wm_id = memberId, wm_workspaceId = iv_workspaceId v, wm_userId = uid, wm_role = iv_role v\<rparr>"
    have "\<not> list_ex (isMember (wm_workspaceId ?m) (wm_userId ?m)) (wmembers db)" "wmembers db' = wmembers db @ [?m]"
      "invitations db' = updateWhere (\<lambda>x. iv_id x = iv_id v) (\<lambda>x. x\<lparr>acceptedAt := Some now\<rparr>) (invitations db)"
      using j(2) \<open>db' = db2\<close> keeps by (auto simp: joinWorkspace_def split: if_split_asm)
    with findValidInvitation_Inr [OF Inr] show ?thesis
      by (intro disjI2 exI [of _ v] exI [of _ ?m]) auto
  qed
qed


section \<open>Every workspace keeps an owner\<close>

inductive member_step :: "database \<Rightarrow> database \<Rightarrow> bool" where
  registers: "register isEmail hash now fr b db = Inr (db', t) \<Longrightarrow>
    fr_workspace fr \<notin> set (map wm_workspaceId (wmembers db)) \<Longrightarrow> member_step db db'"
| invites: "invite isEmail publicUrl now iid minted user ws b db = (db', ri) \<Longrightarrow> member_step db db'"
| relinks: "relink publicUrl now minted user ws iid db = (db', rl) \<Longrightarrow> member_step db db'"
| withdraws: "withdraw user ws iid db = (db', rw) \<Longrightarrow> member_step db db'"
| changes: "updateMember user ws uid role db = (db', ru) \<Longrightarrow> member_step db db'"
| removes: "removeMember user ws uid db = (db', rr) \<Longrightarrow> member_step db db'"
| accepts: "accept sha hash now newId memberId token name password db = (db', ra) \<Longrightarrow> member_step db db'"

text \<open>The unique key of the member table, and no open way to OWNER.\<close>

definition memberKey :: "workspace_member \<Rightarrow> string \<times> string" where
  "memberKey m = (wm_workspaceId m, wm_userId m)"

definition membersOk :: "database \<Rightarrow> bool" where
  "membersOk db \<longleftrightarrow> distinct (map memberKey (wmembers db)) \<and> (\<forall>v\<in>set (invitations db). iv_role v \<noteq> OWNER)"

definition ownersOf :: "string \<Rightarrow> database \<Rightarrow> workspace_member list" where
  "ownersOf wsid db = filter (isOwnerOf wsid) (wmembers db)"

lemma isMember_key: "isMember wsid uid m \<longleftrightarrow> memberKey m = (wsid, uid)"
  by (auto simp: isMember_def memberKey_def)

lemma member_step_cases:
  assumes "member_step db db'" "membersOk db"
  obtains (keep) "wmembers db' = wmembers db" "\<forall>v\<in>set (invitations db'). iv_role v \<noteq> OWNER"
  | (add) m where "wmembers db' = wmembers db @ [m]" "memberKey m \<notin> set (map memberKey (wmembers db))"
      "wm_role m = OWNER \<Longrightarrow> wm_workspaceId m \<notin> set (map wm_workspaceId (wmembers db))"
      "\<forall>v\<in>set (invitations db'). iv_role v \<noteq> OWNER"
  | (change) msg wsid uid m r where "targetMember msg wsid uid db = Inr m" "r \<noteq> OWNER" "db' = setRole wsid uid r db"
  | (remove) msg wsid uid m where "targetMember msg wsid uid db = Inr m" "db' = dropMember wsid uid db"
  using assms(1)
proof cases
  case (registers isEmail hash now fr b t)
  then obtain uid where "wmembers db' = wmembers db @ [\<lparr>wm_id = fr_member fr, wm_workspaceId = fr_workspace fr, wm_userId = uid, wm_role = OWNER\<rparr>]"
      "invitations db' = invitations db"
    by (auto simp: register_def issueSession_def Let_def split: option.split_asm if_split_asm)
  with registers(2) assms(2) add show thesis by (force simp: memberKey_def membersOk_def)
next
  case (invites isEmail publicUrl now iid minted user ws b r)
  from invite_effect [OF this] assms(2) keep show thesis by (auto simp: membersOk_def)
next
  case (relinks publicUrl now minted user ws iid r)
  then obtain P where "db' = db\<lparr>invitations := updateWhere P (\<lambda>v. v\<lparr>iv_tokenHash := mt_hash minted\<rparr>) (invitations db)\<rparr>"
    using relink_effect by blast
  moreover have "\<forall>v\<in>set (updateWhere P (\<lambda>v. v\<lparr>iv_tokenHash := mt_hash minted\<rparr>) (invitations db)). iv_role v \<noteq> OWNER"
    using assms(2) by (subst updateWhere_all) (simp_all add: membersOk_def)
  ultimately show thesis using keep by simp
next
  case (withdraws user ws iid r)
  from withdraw_effect [OF this] assms(2) keep show thesis by (auto simp: membersOk_def)
next
  case (changes user ws uid role r)
  then show thesis using change keep assms(2)
    by (cases "db' = db") (auto simp: membersOk_def elim: updateMember_effect)
next
  case (removes user ws uid r)
  then show thesis using remove keep assms(2)
    by (cases "db' = db") (auto simp: membersOk_def elim: removeMember_effect)
next
  case (accepts sha hash now newId memberId token name password r)
  from accept_effect [OF this] show thesis
  proof (elim disjE exE conjE)
    fix v m P
    assume a: "v \<in> set (invitations db)" "wm_role m = iv_role v" "\<not> list_ex (isMember (wm_workspaceId m) (wm_userId m)) (wmembers db)"
      "wmembers db' = wmembers db @ [m]" "invitations db' = updateWhere P (\<lambda>x. x\<lparr>acceptedAt := Some now\<rparr>) (invitations db)"
    have "wm_role m \<noteq> OWNER" using a(1,2) assms(2) by (auto simp: membersOk_def)
    moreover have "memberKey m \<notin> set (map memberKey (wmembers db))"
      using a(3) by (auto simp: list_ex_iff isMember_key) (metis memberKey_def)
    moreover have "\<forall>v\<in>set (invitations db'). iv_role v \<noteq> OWNER"
      unfolding a(5) using assms(2) by (subst updateWhere_all) (simp_all add: membersOk_def)
    ultimately show thesis using a(4) add by blast
  qed (use assms(2) keep in \<open>auto simp: membersOk_def\<close>)
qed

text \<open>Deleting a unique key removes one row at most, and no other row.\<close>

lemma deleteWhere_at_most_one:
  assumes "distinct (map f xs)"
  shows "length (filter Q xs) \<le> Suc (length (filter Q (deleteWhere (\<lambda>x. f x = k) xs)))"
  using assms
proof (induction xs)
  case (Cons x xs)
  show ?case
  proof (cases "f x = k")
    case True
    with Cons.prems have "\<forall>y\<in>set xs. f y \<noteq> k" by (metis distinct.simps(2) image_eqI list.map(2) list.set_map)
    then have "deleteWhere (\<lambda>x. f x = k) xs = xs" by (simp add: deleteWhere_def)
    with True show ?thesis by (simp add: deleteWhere_def)
  next
    case False
    with Cons show ?thesis by (simp add: deleteWhere_def)
  qed
qed (simp add: deleteWhere_def)

lemma deleteWhere_other:
  assumes "distinct (map f xs)" "m \<in> set xs" "f m = k" "\<not> Q m"
  shows "filter Q (deleteWhere (\<lambda>x. f x = k) xs) = filter Q xs"
proof -
  have "Q x \<Longrightarrow> f x \<noteq> k" if "x \<in> set xs" for x
    using assms that by (metis distinct_map inj_onD)
  then have "filter (\<lambda>x. Q x \<and> f x \<noteq> k) xs = filter Q xs" by (intro filter_cong) auto
  then show ?thesis by (simp add: deleteWhere_def conj_commute)
qed

lemma ownersOf_setRole:
  "r \<noteq> OWNER \<Longrightarrow> ownersOf ws (setRole wsid uid r db) = ownersOf ws (dropMember wsid uid db)"
proof -
  assume "r \<noteq> OWNER"
  then have "filter (isOwnerOf ws) (updateWhere P (\<lambda>m. m\<lparr>wm_role := r\<rparr>) xs) = filter (isOwnerOf ws) (deleteWhere P xs)" for P xs
    by (induction xs) (auto simp: deleteWhere_def isOwnerOf_def)
  then show ?thesis by (simp add: ownersOf_def setRole_def dropMember_def)
qed

lemma ownersOf_dropMember:
  assumes "membersOk db" "targetMember msg wsid uid db = Inr m" "ownersOf ws db \<noteq> []"
  shows "ownersOf ws (dropMember wsid uid db) \<noteq> []"
proof -
  note t = targetMember_Inr [OF assms(2)]
  have key: "isMember wsid uid = (\<lambda>x. memberKey x = (wsid, uid))" by (rule ext) (rule isMember_key)
  have d: "distinct (map memberKey (wmembers db))" using assms(1) by (simp add: membersOk_def)
  show ?thesis
  proof (cases "isOwnerOf ws m")
    case False
    have "memberKey m = (wsid, uid)" using t(2) by (simp add: isMember_key)
    from deleteWhere_other [where Q = "isOwnerOf ws", OF d t(1) this False] assms(3) show ?thesis by (simp add: ownersOf_def dropMember_def key)
  next
    case True
    with t have "wsid = ws" "2 \<le> length (ownersOf ws db)"
      by (auto simp: isOwnerOf_def isMember_def countWhere_def ownersOf_def)
    with deleteWhere_at_most_one [OF d, of "isOwnerOf ws" "(wsid, uid)"]
    have "1 \<le> length (filter (isOwnerOf ws) (deleteWhere (isMember wsid uid) (wmembers db)))"
      unfolding key ownersOf_def by linarith
    then show ?thesis by (auto simp: ownersOf_def dropMember_def)
  qed
qed

lemma membersOk_step: "member_step db db' \<Longrightarrow> membersOk db \<Longrightarrow> membersOk db'"
proof (erule member_step_cases, assumption, goal_cases)
  case (3 msg wsid uid m r)
  have "map memberKey (wmembers (setRole wsid uid r db)) = map memberKey (wmembers db)"
    unfolding setRole_def by (simp add: updateWhere_keep memberKey_def)
  with 3 show ?case by (simp add: membersOk_def setRole_def del: map_eq_conv)
next
  case (4 msg wsid uid m)
  then show ?case by (simp add: membersOk_def dropMember_def deleteWhere_def distinct_map_filter)
qed (simp_all add: membersOk_def)

lemma owners_step:
  assumes "member_step db db'" "membersOk db" "ownersOf ws db \<noteq> []"
  shows "ownersOf ws db' \<noteq> [] \<and> set (ownersOf ws db') \<subseteq> set (ownersOf ws db)"
  using assms(1,2)
proof (cases rule: member_step_cases)
  case keep
  with assms(3) show ?thesis by (simp add: ownersOf_def)
next
  case (add m)
  from assms(3) have "ws \<in> set (map wm_workspaceId (wmembers db))"
    by (auto simp: ownersOf_def isOwnerOf_def filter_empty_conv)
  with add have "\<not> isOwnerOf ws m" by (auto simp: isOwnerOf_def)
  with add assms(3) show ?thesis by (simp add: ownersOf_def)
next
  case (change msg wsid uid m r)
  then show ?thesis using ownersOf_dropMember [OF assms(2) change(1) assms(3)] ownersOf_setRole [OF change(2)]
    by (auto simp: ownersOf_def dropMember_def)
next
  case (remove msg wsid uid m)
  then show ?thesis using ownersOf_dropMember [OF assms(2) remove(1) assms(3)]
    by (auto simp: ownersOf_def dropMember_def)
qed

text \<open>
  C12. Every workspace keeps an owner. Whatever sequence of registrations, invitations, acceptances, role changes and
  removals is carried out one after the other, a workspace that has an owner always has one, and nobody
  becomes an owner of it who was not one before.
\<close>

theorem workspace_keeps_owner:
  assumes "member_step\<^sup>*\<^sup>* db db'" "membersOk db" "ownersOf ws db \<noteq> []"
  shows "ownersOf ws db' \<noteq> [] \<and> set (ownersOf ws db') \<subseteq> set (ownersOf ws db)"
proof -
  from assms have "membersOk db' \<and> ownersOf ws db' \<noteq> [] \<and> set (ownersOf ws db') \<subseteq> set (ownersOf ws db)"
  proof (induction rule: rtranclp_induct)
    case (step db1 db2)
    then show ?case using owners_step [OF step(2), where ws = ws] membersOk_step [OF step(2)] by blast
  qed simp
  then show ?thesis by blast
qed


text \<open>Olga owns a workspace together with Otto; he leaves, and she cannot.\<close>

definition member_row :: "string \<Rightarrow> workspace_role \<Rightarrow> workspace_member" where
  "member_row uid r = \<lparr>wm_id = ''m'' @ uid, wm_workspaceId = ''w1'', wm_userId = uid, wm_role = r\<rparr>"

definition org_db :: database where
  "org_db = emptyDatabase\<lparr>workspaces := [acme], wmembers := [member_row ''olga'' OWNER, member_row ''otto'' OWNER]\<rparr>"

lemmas org_defs = org_db_def member_row_def acme_def emptyDatabase_def guarded_def workspaceGuard_def guardMatches_def isUuid_def
  hasMinimumRole_def removeMember_def targetMember_def dropMember_def deleteWhere_def countWhere_def isMember_def isOwnerOf_def ownersOf_def

lemma otto_leaves:
  "removeMember (Some \<lparr>au_id = ''otto'', au_email = ''o''\<rparr>) ''acme'' ''otto'' org_db
   = (org_db\<lparr>wmembers := [member_row ''olga'' OWNER]\<rparr>, Inr ())"
  by (simp add: org_defs)

lemma workspace_keeps_owner_witness:
  "ownersOf ''w1'' (org_db\<lparr>wmembers := [member_row ''olga'' OWNER]\<rparr>) \<noteq> []
   \<and> (\<exists>e. removeMember (Some \<lparr>au_id = ''olga'', au_email = ''o''\<rparr>) ''acme'' ''olga'' (org_db\<lparr>wmembers := [member_row ''olga'' OWNER]\<rparr>)
        = (org_db\<lparr>wmembers := [member_row ''olga'' OWNER]\<rparr>, Inl e))"
proof -
  have 1: "member_step\<^sup>*\<^sup>* org_db (org_db\<lparr>wmembers := [member_row ''olga'' OWNER]\<rparr>)"
    by (rule r_into_rtranclp) (rule removes [OF otto_leaves])
  have 2: "membersOk org_db" "ownersOf ''w1'' org_db \<noteq> []"
    by (simp_all add: org_defs membersOk_def memberKey_def)
  from workspace_keeps_owner [OF 1 2] show ?thesis by (simp add: org_defs)
qed

section \<open>Authorization\<close>

text \<open>A role is changed, and somebody else is removed, only by an admin of that very workspace.\<close>

lemma member_change_authorized:
  assumes "updateMember user ws uid role db = (db', ru) \<or> removeMember user ws uid db = (db', rr)" "db' \<noteq> db"
  obtains u wsid rl where "user = Some u" "memberOf (wmembers db) (au_id u) wsid rl" "uid = au_id u \<or> ADMIN \<le> rl"
    "filter (\<lambda>m. \<not> isMember wsid uid m) (wmembers db') = filter (\<lambda>m. \<not> isMember wsid uid m) (wmembers db)"
proof -
  have keep: "filter (\<lambda>m. \<not> isMember w uid m) (updateWhere (isMember w uid) (\<lambda>m. m\<lparr>wm_role := r\<rparr>) xs)
      = filter (\<lambda>m. \<not> isMember w uid m) xs" for w r xs
    by (induction xs) (auto simp: isMember_def)
  from assms(1) show thesis
  proof
    assume "updateMember user ws uid role db = (db', ru)"
    then show thesis
      by (rule updateMember_effect [OF _ assms(2)]) (rule that, auto simp: setRole_def keep)
  next
    assume "removeMember user ws uid db = (db', rr)"
    then show thesis
      by (rule removeMember_effect [OF _ assms(2)]) (rule that, auto simp: dropMember_def deleteWhere_def)
  qed
qed

section \<open>Gaps\<close>

text \<open>
  The owner count and the write are separate statements: when both owners leave at once, both counts see two owners
  and the workspace is left without one.
\<close>

lemma concurrent_leave_orphans:
  "(\<exists>m1 m2. targetMember msg ''w1'' ''olga'' org_db = Inr m1 \<and> targetMember msg ''w1'' ''otto'' org_db = Inr m2)
   \<and> ownersOf ''w1'' (dropMember ''w1'' ''otto'' (dropMember ''w1'' ''olga'' org_db)) = []"
  by (simp add: org_defs)

text \<open>\<open>accountCreated\<close> reports whether a name was sent, also when the account existed before.\<close>

lemma accept_reports_name:
  assumes "accept sha hash now newId memberId token (Some n) password db = (db', Inr (w, created))"
  shows "created"
  using assms
  by (auto simp: accept_def split: if_split_asm sum.split_asm prod.split_asm option.split_asm)

text \<open>An invitation is good for one membership: once accepted it is refused.\<close>

lemma accepted_invitation_refused:
  assumes "distinct (map iv_tokenHash (invitations db))"
    and "accept sha hash now newId memberId token name password db = (db', Inr r)"
  shows "findValidInvitation sha now' token db' = Inl (UnauthorizedError ''This invitation is invalid or has expired'')"
proof -
  obtain v where v: "findValidInvitation sha now token db = Inr v"
    using assms(2) by (auto simp: accept_def split: if_split_asm sum.split_asm)
  obtain db1 q where q: "acceptingUser hash newId (iv_email v) name password db = (db1, q)" by force
  with v assms(2) obtain uid where j: "joinWorkspace now memberId uid v db1 = Some db'"
    by (auto simp: accept_def split: if_split_asm sum.split_asm option.split_asm)
  then have inv: "invitations db' = updateWhere (\<lambda>x. iv_id x = iv_id v) (\<lambda>x. x\<lparr>acceptedAt := Some now\<rparr>) (invitations db)"
    using acceptingUser_keeps [OF q] by (auto simp: joinWorkspace_def split: if_split_asm)
  note f = findValidInvitation_Inr [OF v]
  have "acceptedAt x \<noteq> None" if "x \<in> set (invitations db')" "iv_tokenHash x = sha token" for x
  proof -
    from that(1) obtain y where y: "y \<in> set (invitations db)" "x = (if iv_id y = iv_id v then y\<lparr>acceptedAt := Some now\<rparr> else y)"
      unfolding inv updateWhere_cases by blast
    with that(2) f have "iv_tokenHash y = iv_tokenHash v" by (auto split: if_split_asm)
    with y(1) f assms(1) have "y = v" by (metis distinct_map inj_onD)
    with y(2) show ?thesis by simp
  qed
  then show ?thesis
    using find_SomeD [of "\<lambda>v. iv_tokenHash v = sha token" "invitations db'"]
    by (auto simp: findValidInvitation_def Let_def split: option.splits)
qed

end
