(* ===== verification/KeyStores.thy ===== *)
theory KeyStores
  imports Tables
begin

text \<open>
  The stores the gateway reads (\<open>apps/gateway/src/stores/\<close>): virtual keys and provider credentials in
  Postgres (\<open>db.ts\<close>), the two-tier cache in front of the keys (\<open>cached.ts\<close>) and the in-memory variants
  (\<open>memory.ts\<close>). The cache is shown to answer with the database's content of at most sixty-five seconds
  ago, and with the current content after an invalidation.
\<close>

section \<open>Postgres values (db.ts)\<close>

text \<open>What the driver hands back for an array column: an array, the raw literal, or something else.\<close>

datatype pg_value = PgArray "string list" | PgText string | PgOther

text \<open>\<open>s.replace(/^a|b$/g, "")\<close>: one leading \<open>a\<close> and one trailing \<open>b\<close> are removed.\<close>

definition stripEnds :: "char \<Rightarrow> char \<Rightarrow> string \<Rightarrow> string" where
  "stripEnds a b s =
     (let s1 = (case s of c # r \<Rightarrow> if c = a then r else s | [] \<Rightarrow> []) in
      if s1 \<noteq> [] \<and> last s1 = b then butlast s1 else s1)"

definition parsePgArray :: "pg_value \<Rightarrow> string list" where
  "parsePgArray v =
     (case v of
        PgArray xs \<Rightarrow> xs
      | PgText s \<Rightarrow>
          (let inner = stripEnds CHR ''{'' CHR ''}'' s in
           if inner = [] then [] else map (stripEnds CHR ''\"'' CHR ''\"'') (splitOn CHR '','' inner))
      | PgOther \<Rightarrow> [])"

text \<open>The literal Postgres prints for an array of enum values, which need no quotes.\<close>

definition enumLiteral :: "provider list \<Rightarrow> pg_value" where
  "enumLiteral ps = PgText (''{'' @ joinWith '','' (map providerName ps) @ ''}'')"

definition providerOf :: "string \<Rightarrow> provider option" where
  "providerOf s = find (\<lambda>p. providerName p = s) PROVIDERS"

section \<open>The key store (db.ts)\<close>

record vk_row =
  row_key :: virtual_key
  row_teamId :: "string option"
  row_providers :: pg_value

text \<open>The query: the rows of a hash, joined with their project.\<close>

definition selectKey :: "database \<Rightarrow> string \<Rightarrow> vk_row list" where
  "selectKey db h =
     [\<lparr>row_key = k, row_teamId = pj_teamId p, row_providers = enumLiteral (vk_providers k)\<rparr>.
        k \<leftarrow> virtualKeys db, p \<leftarrow> projects db, pj_id p = vk_projectId k \<and> keyHash k = h]"

definition pgKeyResolve :: "database \<Rightarrow> string \<Rightarrow> key_context option" where
  "pgKeyResolve db h =
     (case selectKey db h of
        [] \<Rightarrow> None
      | row # _ \<Rightarrow>
          (let k = row_key row in
           Some \<lparr>vkId = vk_id k, kc_workspaceId = vk_workspaceId k, kc_projectId = vk_projectId k,
                 kc_teamId = (case row_teamId row of Some t \<Rightarrow> (if t \<noteq> [] then Some t else None) | None \<Rightarrow> None),
                 kc_userId = vk_userId k, kc_status = vk_status k, kc_expiresAt = vk_expiresAt k,
                 providerAllowlist = List.map_filter providerOf (parsePgArray (row_providers row)),
                 credentialAllowlist = parsePgArray (PgArray (vk_credentials k)),
                 modelAllowlist = parsePgArray (PgArray (vk_models k)),
                 rpmLimit = vk_rpmLimit k\<rparr>))"

section \<open>The credential store (db.ts)\<close>

text \<open>\<open>ORDER BY "isDefault" DESC, "createdAt" ASC LIMIT 1\<close>.\<close>

fun bestCredential :: "credential list \<Rightarrow> credential option" where
  "bestCredential [] = None"
| "bestCredential (c # cs) =
     (case bestCredential cs of
        None \<Rightarrow> Some c
      | Some d \<Rightarrow>
          (if isDefault d \<and> \<not> isDefault c \<or> (isDefault c = isDefault d \<and> cr_createdAt d < cr_createdAt c)
           then Some d else Some c))"

definition credentialMatches :: "string \<Rightarrow> provider \<Rightarrow> string list \<Rightarrow> credential \<Rightarrow> bool" where
  "credentialMatches ws p allowedIds c \<longleftrightarrow>
     cr_workspaceId c = ws \<and> cr_provider c = p \<and> cr_status c = CredActive
     \<and> (allowedIds = [] \<or> cr_id c \<in> set allowedIds)"

datatype store_error = NoMasterKey | CryptoFailed crypto_error

text \<open>\<open>bytesToString\<close> is \<open>toString("utf8")\<close> of the decrypted bytes, \<open>unseal\<close> the cipher's opening.\<close>

definition pgGetDefault ::
  "(byte list \<Rightarrow> byte list \<Rightarrow> byte list \<Rightarrow> byte list \<Rightarrow> byte list option) \<Rightarrow> (byte list \<Rightarrow> string) \<Rightarrow> key_ring option \<Rightarrow>
   credential list \<Rightarrow> string \<Rightarrow> provider \<Rightarrow> string list \<Rightarrow> store_error + credential_secret option" where
  "pgGetDefault unseal bytesToString ring creds ws p allowedIds =
     (case bestCredential (filter (credentialMatches ws p allowedIds) creds) of
        None \<Rightarrow> Inr None
      | Some row \<Rightarrow>
          (let result = (\<lambda>s. Some \<lparr>cs_credentialId = cr_id row, cs_secret = s,
                                 cs_baseUrl = (case cr_baseUrl row of Some u \<Rightarrow> (if u \<noteq> [] then Some u else None) | None \<Rightarrow> None)\<rparr>)
           in case encryptedSecret row of
                None \<Rightarrow> Inr (result None)
              | Some env \<Rightarrow>
                  (case ring of
                     None \<Rightarrow> Inl NoMasterKey
                   | Some r \<Rightarrow>
                       (case decryptSecret unseal env r of
                          Inl e \<Rightarrow> Inl (CryptoFailed e)
                        | Inr bs \<Rightarrow> Inr (result (Some (bytesToString bs)))))))"

section \<open>The in-memory stores (memory.ts)\<close>

definition memoryKeySet :: "string \<Rightarrow> key_context \<Rightarrow> (string, key_context) omap \<Rightarrow> (string, key_context) omap" where
  "memoryKeySet h ctx m = AList.update h ctx m"

definition memoryKeyResolve :: "(string, key_context) omap \<Rightarrow> string \<Rightarrow> key_context option" where
  "memoryKeyResolve m h = map_of m h"

definition memoryCredKey :: "string \<Rightarrow> provider \<Rightarrow> string" where
  "memoryCredKey ws p = ws @ '':'' @ providerName p"

definition memoryCredSet ::
  "string \<Rightarrow> provider \<Rightarrow> credential_secret \<Rightarrow> (string, credential_secret) omap \<Rightarrow> (string, credential_secret) omap" where
  "memoryCredSet ws p cred m = AList.update (memoryCredKey ws p) cred m"

definition memoryGetDefault :: "(string, credential_secret) omap \<Rightarrow> string \<Rightarrow> provider \<Rightarrow> credential_secret option" where
  "memoryGetDefault m ws p = map_of m (memoryCredKey ws p)"

section \<open>The cache (cached.ts)\<close>

definition REDIS_TTL_S :: int where
  "REDIS_TTL_S = 60"

definition LOCAL_TTL_MS :: int where
  "LOCAL_TTL_MS = 5000"

text \<open>
  The state: the process-local map and the Redis entries, each with its expiry. \<open>NEGATIVE\<close> is the text
  cached for an unknown key. A lookup reads and writes at one instant.
\<close>

definition NEGATIVE :: string where
  "NEGATIVE = [CHR 0xE2, CHR 0x88, CHR 0x85]"

record key_cache =
  local_tier :: "(string, key_context option \<times> millis) omap"
  redis_tier :: "(string, string \<times> millis) omap"

definition emptyCache :: key_cache where
  "emptyCache = \<lparr>local_tier = [], redis_tier = []\<rparr>"

definition redisGet :: "millis \<Rightarrow> string \<Rightarrow> key_cache \<Rightarrow> string option" where
  "redisGet now h c =
     (case map_of (redis_tier c) h of
        Some (v, d) \<Rightarrow> (if now < d then Some v else None)
      | None \<Rightarrow> None)"

text \<open>
  \<open>toJson\<close> and \<open>revive\<close> are the JSON codec of a context, with \<open>revive\<close> \<^term>\<open>None\<close> where it raises; \<open>getUp\<close> and
  \<open>setUp\<close> say whether the Redis calls succeed; \<open>inner\<close> is the wrapped store. A codec failure is caught
  with the Redis failures.
\<close>

definition localGet :: "millis \<Rightarrow> string \<Rightarrow> key_cache \<Rightarrow> key_context option option" where
  "localGet now h c =
     (case map_of (local_tier c) h of
        Some (v, d) \<Rightarrow> (if now < d then Some v else None)
      | None \<Rightarrow> None)"

definition localSet :: "millis \<Rightarrow> string \<Rightarrow> key_context option \<Rightarrow> key_cache \<Rightarrow> key_cache" where
  "localSet now h v c = c\<lparr>local_tier := AList.update h (v, now + LOCAL_TTL_MS) (local_tier c)\<rparr>"

definition cacheText :: "(key_context \<Rightarrow> string) \<Rightarrow> key_context option \<Rightarrow> string" where
  "cacheText toJson v = (case v of None \<Rightarrow> NEGATIVE | Some x \<Rightarrow> toJson x)"

definition redisSet :: "millis \<Rightarrow> string \<Rightarrow> string \<Rightarrow> key_cache \<Rightarrow> key_cache" where
  "redisSet now h t c = c\<lparr>redis_tier := AList.update h (t, now + 1000 * REDIS_TTL_S) (redis_tier c)\<rparr>"

text \<open>What the Redis branch finds: nothing usable, or a value.\<close>

definition fromRedis :: "(string \<Rightarrow> key_context option) \<Rightarrow> bool \<Rightarrow> millis \<Rightarrow> string \<Rightarrow> key_cache \<Rightarrow> key_context option option" where
  "fromRedis revive getUp now h c =
     (case (if getUp then redisGet now h c else None) of
        None \<Rightarrow> None
      | Some t \<Rightarrow> (if t = NEGATIVE then Some None else map_option Some (revive t)))"

definition cachedResolve ::
  "(key_context \<Rightarrow> string) \<Rightarrow> (string \<Rightarrow> key_context option) \<Rightarrow> (string \<Rightarrow> key_context option) \<Rightarrow> bool \<Rightarrow> bool \<Rightarrow>
   millis \<Rightarrow> string \<Rightarrow> key_cache \<Rightarrow> key_context option \<times> key_cache" where
  "cachedResolve toJson revive inner getUp setUp now h c =
     (case localGet now h c of
        Some v \<Rightarrow> (v, c)
      | None \<Rightarrow>
          (case fromRedis revive getUp now h c of
             Some v \<Rightarrow> (v, localSet now h v c)
           | None \<Rightarrow>
               (let v = inner h; c1 = localSet now h v c in
                (v, if setUp then redisSet now h (cacheText toJson v) c1 else c1))))"

definition invalidate :: "string \<Rightarrow> key_cache \<Rightarrow> key_cache" where
  "invalidate h c = c\<lparr>local_tier := AList.delete h (local_tier c)\<rparr>"

text \<open>The message handler: the local entry goes at once, the Redis entry if \<open>DEL\<close> succeeds.\<close>

definition onInvalidation :: "bool \<Rightarrow> string \<Rightarrow> key_cache \<Rightarrow> key_cache" where
  "onInvalidation delUp channel c =
     (let h = drop (length ''invalidate:vk:'') channel; c1 = invalidate h c in
      if delUp then c1\<lparr>redis_tier := AList.delete h (redis_tier c1)\<rparr> else c1)"

section \<open>The interface of a key store\<close>

text \<open>
  What the gateway relies on: a lookup answers with the content of the database at most \<open>lag\<close>
  milliseconds ago.
\<close>

locale key_store =
  fixes resolve :: "millis \<Rightarrow> string \<Rightarrow> 's \<Rightarrow> key_context option \<times> 's"
    and inv :: "millis \<Rightarrow> 's \<Rightarrow> bool"
    and content :: "millis \<Rightarrow> string \<Rightarrow> key_context option"
    and lag :: int
  assumes fresh: "inv now s \<Longrightarrow> \<exists>t. now - lag < t \<and> t \<le> now \<and> fst (resolve now h s) = content t h"
    and keeps: "inv now s \<Longrightarrow> inv now (snd (resolve now h s))"
begin

text \<open>A key that stays revoked is refused once the lag has passed.\<close>

lemma revoked_is_refused:
  assumes "inv now s" "extractKey hs = Some k" "t0 + lag \<le> now"
    and revoked: "\<And>t. t0 \<le> t \<Longrightarrow> \<exists>ctx. content t (sha k) = Some ctx \<and> kc_status ctx = REVOKED"
  shows "\<exists>e. authorizeKey sha (\<lambda>h. fst (resolve now h s)) now hs = Inl e \<and> ce_status e = 401 \<and> ce_type e = ''key_revoked''"
proof -
  obtain t where t: "now - lag < t" "fst (resolve now (sha k) s) = content t (sha k)"
    using fresh [OF assms(1)] by blast
  with assms(3) revoked [of t] obtain ctx where "fst (resolve now (sha k) s) = Some ctx" "kc_status ctx = REVOKED" by auto
  with assms(2) show ?thesis by (simp add: authorizeKey_def)
qed

end

interpretation pg_keys: key_store "\<lambda>now h u. (pgKeyResolve (dbAt now) h, u)" "\<lambda>now u. True" "\<lambda>now. pgKeyResolve (dbAt now)" 1
  for dbAt
proof
  fix now :: millis and h
  show "\<exists>t>now - 1. t \<le> now \<and> fst (pgKeyResolve (dbAt now) h, s) = pgKeyResolve (dbAt t) h" for s
    by (intro exI [of _ now]) simp
qed simp

interpretation memory_keys: key_store "\<lambda>now h m. (memoryKeyResolve m h, m)" "\<lambda>now m'. m' = m" "\<lambda>now. memoryKeyResolve m" 1
  for m
proof
  fix now :: millis and s h
  assume "s = m"
  then show "\<exists>t>now - 1. t \<le> now \<and> fst (memoryKeyResolve s h, s) = memoryKeyResolve m h"
    by (intro exI [of _ now]) simp
qed simp

section \<open>The cache is a key store\<close>

locale cached_keys =
  fixes toJson :: "key_context \<Rightarrow> string"
    and revive :: "string \<Rightarrow> key_context option"
    and content :: "millis \<Rightarrow> string \<Rightarrow> key_context option"
  assumes codec: "content t h = Some x \<Longrightarrow> revive (toJson x) = Some x \<and> toJson x \<noteq> NEGATIVE"
begin

text \<open>Every entry was the content of the database at an instant that bounds its expiry.\<close>

definition cacheInv :: "millis \<Rightarrow> key_cache \<Rightarrow> bool" where
  "cacheInv now c \<longleftrightarrow>
     (\<forall>h v d. map_of (local_tier c) h = Some (v, d) \<longrightarrow> (\<exists>t\<le>now. v = content t h \<and> d < t + 65000))
     \<and> (\<forall>h s d. map_of (redis_tier c) h = Some (s, d) \<longrightarrow> (\<exists>t\<le>now. s = cacheText toJson (content t h) \<and> d = t + 60000))"

lemma cacheInv_empty: "cacheInv now emptyCache"
  by (simp add: cacheInv_def emptyCache_def)

lemma cacheInv_later: "cacheInv now c \<Longrightarrow> now \<le> now' \<Longrightarrow> cacheInv now' c"
  unfolding cacheInv_def by (meson order_trans)

lemma localGet_fresh:
  "cacheInv now c \<Longrightarrow> localGet now h c = Some v \<Longrightarrow> \<exists>t. now - 65000 < t \<and> t \<le> now \<and> v = content t h"
proof -
  assume inv: "cacheInv now c" and "localGet now h c = Some v"
  then obtain d where "map_of (local_tier c) h = Some (v, d)" "now < d"
    by (auto simp: localGet_def split: option.splits if_splits)
  with inv obtain t where "t \<le> now" "v = content t h" "d < t + 65000" "now < d" unfolding cacheInv_def by blast
  then show ?thesis by (intro exI [of _ t]) auto
qed

lemma fromRedis_fresh:
  assumes "cacheInv now c" "fromRedis revive getUp now h c = Some v"
  shows "\<exists>t. now - 60000 < t \<and> t \<le> now \<and> v = content t h"
proof -
  from assms(2) obtain s d where s: "map_of (redis_tier c) h = Some (s, d)" "now < d"
    and v: "(if s = NEGATIVE then Some None else map_option Some (revive s)) = Some v"
    by (auto simp: fromRedis_def redisGet_def split: option.splits if_splits)
  with assms(1) obtain t where t: "t \<le> now" "s = cacheText toJson (content t h)" "d = t + 60000"
    unfolding cacheInv_def by blast
  have "v = content t h"
    using v t(2) codec [of t h] by (cases "content t h") (auto simp: cacheText_def split: if_splits)
  with t s(2) show ?thesis by (intro exI [of _ t]) auto
qed

lemma localSet_inv: "cacheInv now c \<Longrightarrow> now - 60000 < t \<Longrightarrow> t \<le> now \<Longrightarrow> cacheInv now (localSet now h (content t h) c)"
  by (auto simp: cacheInv_def localSet_def update_conv' LOCAL_TTL_MS_def intro!: exI [of _ t])

lemma redisSet_inv: "cacheInv now c \<Longrightarrow> cacheInv now (redisSet now h (cacheText toJson (content now h)) c)"
  by (auto simp: cacheInv_def redisSet_def update_conv' REDIS_TTL_S_def)

lemma onInvalidation_inv: "cacheInv now c \<Longrightarrow> cacheInv now (onInvalidation delUp ch c)"
  by (auto simp: cacheInv_def onInvalidation_def invalidate_def Let_def map_of_delete restrict_map_def delete_conv')

lemma cachedResolve_inv: "cacheInv now c \<Longrightarrow> cacheInv now (snd (cachedResolve toJson revive (content now) getUp setUp now h c))"
  using fromRedis_fresh [of now c getUp h] localSet_inv [of now c _ h] localSet_inv [of now c now h] redisSet_inv
  by (auto simp: cachedResolve_def Let_def split: option.split)

lemma cachedResolve_fresh:
  "cacheInv now c \<Longrightarrow>
   \<exists>t. now - 65000 < t \<and> t \<le> now \<and> fst (cachedResolve toJson revive (content now) getUp setUp now h c) = content t h"
  using localGet_fresh [of now c h] fromRedis_fresh [of now c getUp h]
  by (force simp: cachedResolve_def Let_def split: option.split)

text \<open>After an invalidation that reached both tiers, the next lookup reads the database.\<close>

lemma cachedResolve_after_invalidation:
  "fst (cachedResolve toJson revive inner getUp setUp now h (onInvalidation True (''invalidate:vk:'' @ h) c)) = inner h"
  by (simp add: cachedResolve_def localGet_def fromRedis_def redisGet_def onInvalidation_def invalidate_def Let_def delete_conv')

end

sublocale cached_keys \<subseteq> key_store
  "\<lambda>now h c. cachedResolve toJson revive (content now) getUp setUp now h c" cacheInv content 65000
  for getUp setUp
  by unfold_locales (simp_all add: cachedResolve_fresh cachedResolve_inv)

text \<open>The histories of a gateway's cache.\<close>

inductive cache_reach ::
  "(key_context \<Rightarrow> string) \<Rightarrow> (string \<Rightarrow> key_context option) \<Rightarrow> (millis \<Rightarrow> string \<Rightarrow> key_context option) \<Rightarrow>
   millis \<Rightarrow> key_cache \<Rightarrow> bool"
  for toJson revive content where
  boot: "cache_reach toJson revive content now emptyCache"
| tick: "cache_reach toJson revive content now c \<Longrightarrow> now \<le> now' \<Longrightarrow> cache_reach toJson revive content now' c"
| lookup: "cache_reach toJson revive content now c \<Longrightarrow>
    cache_reach toJson revive content now (snd (cachedResolve toJson revive (content now) getUp setUp now h c))"
| message: "cache_reach toJson revive content now c \<Longrightarrow>
    cache_reach toJson revive content now (onInvalidation delUp channel c)"

context cached_keys
begin

lemma reach_inv: "cache_reach toJson revive content now c \<Longrightarrow> cacheInv now c"
proof (induction rule: cache_reach.induct)
  case (tick now c now')
  then show ?case by (blast intro: cacheInv_later)
qed (auto intro: cacheInv_empty cachedResolve_inv onInvalidation_inv)

end

section \<open>Lemmas: the database stores\<close>

lemma providerOf_name [simp]: "providerOf (providerName p) = Some p"
  by (cases p) (simp_all add: providerOf_def PROVIDERS_def)

lemma providerName_plain: "CHR '','' \<notin> set (providerName p)" "providerName p \<noteq> []"
  "stripEnds CHR ''\"'' CHR ''\"'' (providerName p) = providerName p"
  by (cases p; simp add: stripEnds_def)+

lemma joinWith_eq_Nil: "joinWith '','' (map providerName ps) = [] \<longleftrightarrow> ps = []"
proof (cases ps)
  case (Cons p qs)
  then show ?thesis by (cases qs) (auto simp: providerName_plain)
qed simp

lemma stripEnds_braces: "stripEnds CHR ''{'' CHR ''}'' (''{'' @ s @ ''}'') = s"
  by (simp add: stripEnds_def)

text \<open>The defensive parser recovers what Postgres printed.\<close>

lemma parsePgArray_enumLiteral: "parsePgArray (enumLiteral ps) = map providerName ps"
proof (cases ps)
  case Nil
  then show ?thesis by (simp add: parsePgArray_def enumLiteral_def stripEnds_def)
next
  case (Cons p qs)
  have "splitOn CHR '','' (joinWith '','' (map providerName ps)) = map providerName ps"
    using Cons providerName_plain(1) by (intro splitOn_joinWith) auto
  then show ?thesis
    using Cons joinWith_eq_Nil [of ps] stripEnds_braces [of "joinWith '','' (map providerName ps)"]
    by (simp add: parsePgArray_def enumLiteral_def providerName_plain(3))
qed

lemma map_filter_providerOf [simp]: "List.map_filter providerOf (map providerName ps) = ps"
  by (induction ps) (simp_all add: List.map_filter_simps)

text \<open>A resolved context is a row of the table with the team of its project.\<close>

lemma pgKeyResolve_Some:
  assumes "pgKeyResolve db h = Some ctx"
  obtains k p where "k \<in> set (virtualKeys db)" "p \<in> set (projects db)" "pj_id p = vk_projectId k" "keyHash k = h"
    "vkId ctx = vk_id k" "kc_workspaceId ctx = vk_workspaceId k" "kc_userId ctx = vk_userId k" "kc_status ctx = vk_status k"
    "kc_expiresAt ctx = vk_expiresAt k" "providerAllowlist ctx = vk_providers k" "modelAllowlist ctx = vk_models k"
    "credentialAllowlist ctx = vk_credentials k" "rpmLimit ctx = vk_rpmLimit k" "kc_projectId ctx = vk_projectId k"
    "kc_teamId ctx = (case pj_teamId p of Some t \<Rightarrow> if t \<noteq> [] then Some t else None | None \<Rightarrow> None)"
proof -
  from assms obtain row rows where r: "selectKey db h = row # rows"
    by (auto simp: pgKeyResolve_def split: list.splits)
  then have "row \<in> set (selectKey db h)" by simp
  then obtain k p where kp: "k \<in> set (virtualKeys db)" "p \<in> set (projects db)" "pj_id p = vk_projectId k" "keyHash k = h"
    and row: "row = \<lparr>row_key = k, row_teamId = pj_teamId p, row_providers = enumLiteral (vk_providers k)\<rparr>"
    by (auto simp: selectKey_def)
  have "providerAllowlist ctx = vk_providers k"
    using assms r row by (simp add: pgKeyResolve_def Let_def parsePgArray_enumLiteral) auto
  then show thesis using that [OF kp] assms r row by (auto simp: pgKeyResolve_def Let_def parsePgArray_def)
qed

text \<open>The chosen credential: an eligible one, the default if there is one, else the oldest.\<close>

lemma bestCredential_None: "bestCredential cs = None \<longleftrightarrow> cs = []"
  by (induction cs) (auto split: option.splits)

definition preferred :: "credential \<Rightarrow> credential \<Rightarrow> bool" where
  "preferred c d \<longleftrightarrow> (isDefault d \<longrightarrow> isDefault c) \<and> (isDefault d = isDefault c \<longrightarrow> cr_createdAt c \<le> cr_createdAt d)"

lemma preferred_trans: "preferred a b \<Longrightarrow> preferred b c \<Longrightarrow> preferred a c"
  by (cases "isDefault a"; cases "isDefault b"; cases "isDefault c") (auto simp: preferred_def)

lemma bestCredential_Some: "bestCredential cs = Some c \<Longrightarrow> c \<in> set cs \<and> list_all (preferred c) cs"
proof (induction cs arbitrary: c)
  case (Cons x xs)
  show ?case
  proof (cases "bestCredential xs")
    case None
    with Cons.prems show ?thesis by (simp add: bestCredential_None preferred_def)
  next
    case (Some d)
    note IH = Cons.IH [OF Some]
    show ?thesis
    proof (cases "isDefault d \<and> \<not> isDefault x \<or> (isDefault x = isDefault d \<and> cr_createdAt d < cr_createdAt x)")
      case True
      with Cons.prems Some have "c = d" by simp
      moreover from True have "preferred d x" by (auto simp: preferred_def)
      ultimately show ?thesis using IH by simp
    next
      case False
      with Cons.prems Some have "c = x" by simp
      moreover from False have "preferred x d" by (auto simp: preferred_def)
      ultimately have "list_all (preferred c) xs"
        using IH preferred_trans [of x d] by (simp add: list_all_iff)
      moreover have "preferred x x" by (simp add: preferred_def)
      ultimately show ?thesis using \<open>c = x\<close> by simp
    qed
  qed
qed simp

lemma pgGetDefault_eligible:
  assumes "pgGetDefault unseal bts ring creds ws p ids = Inr (Some s)"
  shows "\<exists>c\<in>set creds. credentialMatches ws p ids c \<and> cs_credentialId s = cr_id c"
proof -
  from assms obtain c where c: "bestCredential (filter (credentialMatches ws p ids) creds) = Some c"
    by (auto simp: pgGetDefault_def split: option.splits)
  then have "c \<in> set creds" "credentialMatches ws p ids c" using bestCredential_Some [OF c] by auto
  moreover have "cs_credentialId s = cr_id c"
    using assms by (auto simp: pgGetDefault_def c Let_def split: option.split_asm sum.split_asm)
  ultimately show ?thesis by blast
qed

section \<open>Properties\<close>

text \<open>
  C13. Bounded staleness. In every history of lookups, invalidation messages and Redis failures, the
  cached store answers with what the database held at some instant of the last sixty-five seconds;
  and the first lookup after an invalidation that reached both tiers answers with what it holds now.
\<close>

theorem cache_staleness:
  assumes "\<And>t h x. content t h = Some x \<Longrightarrow> revive (toJson x) = Some x \<and> toJson x \<noteq> NEGATIVE"
    and "cache_reach toJson revive content now c"
  shows "(\<exists>t. now - 65000 < t \<and> t \<le> now
       \<and> fst (cachedResolve toJson revive (content now) getUp setUp now h c) = content t h)
    \<and> fst (cachedResolve toJson revive (content now) getUp setUp now h
             (onInvalidation True (''invalidate:vk:'' @ h) c)) = content now h"
proof -
  have keys: "cached_keys toJson revive content" using assms(1) by unfold_locales
  show ?thesis
    using cached_keys.cachedResolve_fresh [OF keys cached_keys.reach_inv [OF keys assms(2)]]
      cached_keys.cachedResolve_after_invalidation [OF keys]
    by blast
qed

text \<open>A key that is active at instant 0 and revoked from instant 1 on.\<close>

definition revokedAtOne :: "millis \<Rightarrow> string \<Rightarrow> key_context option" where
  "revokedAtOne t h = (if h = ''hash'' then Some (if t < 1 then demoContext else demoContext\<lparr>kc_status := REVOKED\<rparr>) else None)"

definition demoJson :: "key_context \<Rightarrow> string" where
  "demoJson x = (if kc_status x = ACTIVE then ''a'' else ''r'')"

definition demoRevive :: "string \<Rightarrow> key_context option" where
  "demoRevive s = Some (if s = ''a'' then demoContext else demoContext\<lparr>kc_status := REVOKED\<rparr>)"

interpretation demo_cache: cached_keys demoJson demoRevive revokedAtOne
  by unfold_locales
    (auto simp: revokedAtOne_def demoJson_def demoRevive_def demoContext_def NEGATIVE_def split: if_splits)

theorem cache_staleness_witness:
  "\<exists>t. 5 - 65000 < t \<and> t \<le> 5
     \<and> fst (cachedResolve demoJson demoRevive (revokedAtOne 5) True True 5 ''hash'' emptyCache) = revokedAtOne t ''hash''"
  by (rule cache_staleness [THEN conjunct1, OF demo_cache.codec cache_reach.boot])

text \<open>The bound is tight: without the message, a revoked key is accepted for more than 64.9 seconds.\<close>

lemma revoked_key_accepted:
  "\<exists>c. cache_reach demoJson demoRevive revokedAtOne 64998 c
     \<and> map_option kc_status (fst (cachedResolve demoJson demoRevive (revokedAtOne 64998) True True 64998 ''hash'' c)) = Some ACTIVE"
proof -
  let ?c0 = "snd (cachedResolve demoJson demoRevive (revokedAtOne 0) True True 0 ''hash'' emptyCache)"
  let ?c1 = "snd (cachedResolve demoJson demoRevive (revokedAtOne 59999) True True 59999 ''hash'' ?c0)"
  have "cache_reach demoJson demoRevive revokedAtOne 0 ?c0" by (intro cache_reach.lookup cache_reach.boot)
  then have "cache_reach demoJson demoRevive revokedAtOne 59999 ?c0" by (rule cache_reach.tick) simp
  then have "cache_reach demoJson demoRevive revokedAtOne 59999 ?c1" by (rule cache_reach.lookup)
  then have "cache_reach demoJson demoRevive revokedAtOne 64998 ?c1" by (rule cache_reach.tick) simp
  moreover have "map_option kc_status
      (fst (cachedResolve demoJson demoRevive (revokedAtOne 64998) True True 64998 ''hash'' ?c1)) = Some ACTIVE"
    by (simp add: cachedResolve_def localGet_def fromRedis_def redisGet_def localSet_def redisSet_def cacheText_def
        emptyCache_def revokedAtOne_def demoJson_def demoRevive_def demoContext_def NEGATIVE_def
        LOCAL_TTL_MS_def REDIS_TTL_S_def Let_def)
  ultimately show ?thesis by blast
qed

end
