(* ===== verification/Keys.thy ===== *)
theory Keys
  imports KeyStores
begin

text \<open>
  The virtual keys of the control plane (\<open>apps/api/src/modules/keys.ts\<close>): list, issue, edit, revoke, with
  the messages that reach the gateways' caches. Composed with the gateway's key check: an issued key is
  accepted for what it was issued for, and a revoked one never again.
\<close>

section \<open>Requests (keys.ts)\<close>

record issue_body =
  ib_projectId :: string
  ib_name :: string
  ib_userId :: "string option"
  ib_providers :: "string list"
  ib_credentials :: "string list"
  ib_models :: "string list"
  ib_rpm :: "int option"
  ib_expiresAt :: "millis option"

definition allowlistsOk :: "(string \<Rightarrow> bool) \<Rightarrow> string list \<Rightarrow> string list \<Rightarrow> bool" where
  "allowlistsOk zUuid creds models \<longleftrightarrow>
     list_all zUuid creds \<and> length creds \<le> 50 \<and> list_all (\<lambda>m. length m \<le> 100) models \<and> length models \<le> 100"

text \<open>\<open>zUuid\<close> is the schema library's check of an identifier.\<close>

definition issueSchema :: "(string \<Rightarrow> bool) \<Rightarrow> issue_body \<Rightarrow> bool" where
  "issueSchema zUuid b \<longleftrightarrow>
     zUuid (ib_projectId b) \<and> 1 \<le> length (ib_name b) \<and> length (ib_name b) \<le> 100
     \<and> (case ib_userId b of None \<Rightarrow> True | Some u \<Rightarrow> zUuid u)
     \<and> list_all (\<lambda>s. providerOf s \<noteq> None) (ib_providers b) \<and> allowlistsOk zUuid (ib_credentials b) (ib_models b)
     \<and> (case ib_rpm b of None \<Rightarrow> True | Some n \<Rightarrow> 1 \<le> n)"

text \<open>A patch: absent fields stay; the last two can also be cleared.\<close>

record key_patch =
  kp_name :: "string option"
  kp_credentials :: "string list option"
  kp_models :: "string list option"
  kp_rpm :: "int option option"
  kp_expiresAt :: "millis option option"

definition orElse :: "'a option \<Rightarrow> 'a \<Rightarrow> 'a" where
  "orElse x d = (case x of Some y \<Rightarrow> y | None \<Rightarrow> d)"

definition patchSchema :: "(string \<Rightarrow> bool) \<Rightarrow> key_patch \<Rightarrow> bool" where
  "patchSchema zUuid p \<longleftrightarrow>
     (case kp_name p of None \<Rightarrow> True | Some s \<Rightarrow> 1 \<le> length s \<and> length s \<le> 100)
     \<and> allowlistsOk zUuid (orElse (kp_credentials p) []) (orElse (kp_models p) [])
     \<and> (case kp_rpm p of Some (Some n) \<Rightarrow> 1 \<le> n | _ \<Rightarrow> True)"

section \<open>Operations (keys.ts)\<close>

text \<open>The columns a client may see: not the hash.\<close>

record key_view =
  kv_id :: string
  kv_name :: string
  kv_keyLast4 :: string
  kv_projectId :: string
  kv_userId :: string
  kv_providers :: "provider list"
  kv_credentials :: "string list"
  kv_models :: "string list"
  kv_rpm :: "int option"
  kv_expiresAt :: "millis option"
  kv_status :: key_status
  kv_lastUsedAt :: "millis option"
  kv_createdAt :: millis

definition keyView :: "virtual_key \<Rightarrow> key_view" where
  "keyView k =
     \<lparr>kv_id = vk_id k, kv_name = vk_name k, kv_keyLast4 = keyLast4 k, kv_projectId = vk_projectId k, kv_userId = vk_userId k,
      kv_providers = vk_providers k, kv_credentials = vk_credentials k, kv_models = vk_models k, kv_rpm = vk_rpmLimit k,
      kv_expiresAt = vk_expiresAt k, kv_status = vk_status k, kv_lastUsedAt = vk_lastUsedAt k, kv_createdAt = vk_createdAt k\<rparr>"

text \<open>\<open>Array.from(new Set(xs))\<close>: the first occurrences, in order.\<close>

definition uniq :: "'a list \<Rightarrow> 'a list" where
  "uniq xs = rev (remdups (rev xs))"

definition resolveProviderAllowlist ::
  "credential list \<Rightarrow> string \<Rightarrow> string list \<Rightarrow> provider list \<Rightarrow> domain_error + provider list" where
  "resolveProviderAllowlist creds wsid allowIds base =
     (if allowIds = [] then Inr base
      else (let rows = filter (\<lambda>c. cr_id c \<in> set allowIds \<and> cr_workspaceId c = wsid) creds in
            if length rows \<noteq> length allowIds
            then Inl (ValidationError ''One or more selected credentials were not found in this workspace'')
            else Inr (uniq (base @ map cr_provider rows))))"

definition isAdmin :: "workspace_context \<Rightarrow> bool" where
  "isAdmin ctx = hasMinimumRole (ctx_role ctx) ADMIN"

definition listKeys ::
  "authed_user option \<Rightarrow> string \<Rightarrow> database \<Rightarrow> database \<times> (api_error + key_view list)" where
  "listKeys user ws db =
     guarded MEMBER user ws db (\<lambda>u ctx.
       (db, Inr (map keyView (sort_key (\<lambda>k. - vk_createdAt k)
          (filter (\<lambda>k. vk_workspaceId k = ctx_workspaceId ctx \<and> (isAdmin ctx \<or> vk_userId k = au_id u)) (virtualKeys db))))))"

text \<open>The insertion: a limit that is no 32-bit integer or an unknown user makes it fail.\<close>

definition insertKey :: "virtual_key \<Rightarrow> database \<Rightarrow> database option" where
  "insertKey k db =
     (if (case vk_rpmLimit k of None \<Rightarrow> True | Some n \<Rightarrow> n < 2147483648) \<and> list_ex (\<lambda>u. us_id u = vk_userId k) (users db)
      then Some (db\<lparr>virtualKeys := virtualKeys db @ [k]\<rparr>) else None)"

definition newKey :: "millis \<Rightarrow> string \<Rightarrow> minted_token \<Rightarrow> string \<Rightarrow> string \<Rightarrow> provider list \<Rightarrow> issue_body \<Rightarrow> virtual_key" where
  "newKey now kid minted wsid uid ps body =
     \<lparr>vk_id = kid, vk_workspaceId = wsid, vk_projectId = ib_projectId body, vk_userId = uid, vk_name = ib_name body,
      keyHash = mt_hash minted, keyLast4 = mt_last4 minted, vk_providers = ps, vk_credentials = ib_credentials body,
      vk_models = ib_models body, vk_rpmLimit = ib_rpm body, vk_expiresAt = ib_expiresAt body, vk_status = ACTIVE,
      vk_lastUsedAt = None, vk_createdAt = now\<rparr>"

definition issueKey ::
  "(string \<Rightarrow> bool) \<Rightarrow> millis \<Rightarrow> string \<Rightarrow> minted_token \<Rightarrow> authed_user option \<Rightarrow> string \<Rightarrow> issue_body \<Rightarrow> database \<Rightarrow>
   database \<times> (api_error + key_view \<times> string)" where
  "issueKey zUuid now kid minted user ws body db =
     guarded MEMBER user ws db (\<lambda>u ctx.
       (let wsid = ctx_workspaceId ctx in
        if \<not> issueSchema zUuid body then (db, Inl ZodFailed)
        else if (case ib_userId body of None \<Rightarrow> False | Some x \<Rightarrow> x \<noteq> [] \<and> x \<noteq> au_id u) \<and> \<not> isAdmin ctx
        then (db, Inl (Domain (ForbiddenError ''Only admins may issue keys for other users'')))
        else if find (\<lambda>p. pj_id p = ib_projectId body \<and> pj_workspaceId p = wsid \<and> pj_status p = ProjectActive) (projects db) = None
        then (db, Inl (Domain (NotFoundError ''Project'' (Some (ib_projectId body)))))
        else case resolveProviderAllowlist (credentials db) wsid (ib_credentials body) (List.map_filter providerOf (ib_providers body)) of
               Inl e \<Rightarrow> (db, Inl (Domain e))
             | Inr ps \<Rightarrow>
                 (let k = newKey now kid minted wsid (orElse (ib_userId body) (au_id u)) ps body
                  in case insertKey k db of
                       None \<Rightarrow> (db, Inl Internal)
                     | Some db' \<Rightarrow> (db', Inr (keyView k, mt_token minted)))))"

text \<open>What goes to Redis, in order.\<close>

datatype redis_cmd = Del string | Publish string string

definition invalidation :: "string \<Rightarrow> string \<Rightarrow> redis_cmd list" where
  "invalidation h reason = [Del (''vk:'' @ h), Publish (''invalidate:vk:'' @ h) reason]"

definition ownedKey :: "string \<Rightarrow> authed_user \<Rightarrow> workspace_context \<Rightarrow> string \<Rightarrow> database \<Rightarrow> domain_error + virtual_key" where
  "ownedKey verb u ctx kid db =
     (case find (\<lambda>k. vk_id k = kid \<and> vk_workspaceId k = ctx_workspaceId ctx) (virtualKeys db) of
        None \<Rightarrow> Inl (NotFoundError ''Virtual key'' (Some kid))
      | Some k \<Rightarrow>
          (if vk_userId k \<noteq> au_id u \<and> \<not> isAdmin ctx
           then Inl (ForbiddenError (''Only the key owner or an admin may '' @ verb @ '' this key'')) else Inr k))"

definition patchFields :: "key_patch \<Rightarrow> provider list option \<Rightarrow> virtual_key \<Rightarrow> virtual_key" where
  "patchFields p ps k =
     k\<lparr>vk_name := orElse (kp_name p) (vk_name k), vk_credentials := orElse (kp_credentials p) (vk_credentials k),
       vk_providers := orElse ps (vk_providers k), vk_models := orElse (kp_models p) (vk_models k),
       vk_rpmLimit := orElse (kp_rpm p) (vk_rpmLimit k), vk_expiresAt := orElse (kp_expiresAt p) (vk_expiresAt k)\<rparr>"

definition patchKey ::
  "(string \<Rightarrow> bool) \<Rightarrow> authed_user option \<Rightarrow> string \<Rightarrow> string \<Rightarrow> key_patch \<Rightarrow> database \<Rightarrow>
   database \<times> (api_error + key_view \<times> redis_cmd list)" where
  "patchKey zUuid user ws kid p db =
     guarded MEMBER user ws db (\<lambda>u ctx.
       (if \<not> patchSchema zUuid p then (db, Inl ZodFailed)
        else case ownedKey ''edit'' u ctx kid db of
               Inl e \<Rightarrow> (db, Inl (Domain e))
             | Inr k \<Rightarrow>
                 (case (case kp_credentials p of
                          None \<Rightarrow> Inr None
                        | Some ids \<Rightarrow> (case resolveProviderAllowlist (credentials db) (ctx_workspaceId ctx) ids (vk_providers k) of
                                        Inl e \<Rightarrow> Inl e | Inr ps \<Rightarrow> Inr (Some ps))) of
                    Inl e \<Rightarrow> (db, Inl (Domain e))
                  | Inr ps \<Rightarrow>
                      (if (case kp_rpm p of Some (Some n) \<Rightarrow> n < 2147483648 | _ \<Rightarrow> True)
                       then (db\<lparr>virtualKeys := updateWhere (\<lambda>x. vk_id x = kid) (patchFields p ps) (virtualKeys db)\<rparr>,
                             Inr (keyView (patchFields p ps k), invalidation (keyHash k) ''updated''))
                       else (db, Inl Internal)))))"

definition revokeKey ::
  "authed_user option \<Rightarrow> string \<Rightarrow> string \<Rightarrow> database \<Rightarrow> database \<times> (api_error + redis_cmd list)" where
  "revokeKey user ws kid db =
     guarded MEMBER user ws db (\<lambda>u ctx.
       (case ownedKey ''revoke'' u ctx kid db of
          Inl e \<Rightarrow> (db, Inl (Domain e))
        | Inr k \<Rightarrow>
            (db\<lparr>virtualKeys := updateWhere (\<lambda>x. vk_id x = vk_id k) (\<lambda>x. x\<lparr>vk_status := REVOKED\<rparr>) (virtualKeys db)\<rparr>,
             Inr (invalidation (keyHash k) ''revoked''))))"

text \<open>How a gateway's cache takes the commands: Redis drops the entry, the subscriber handles the message.\<close>

definition deliver :: "redis_cmd \<Rightarrow> key_cache \<Rightarrow> key_cache" where
  "deliver cmd c =
     (case cmd of
        Del key \<Rightarrow> c\<lparr>redis_tier := filter (\<lambda>(h, _). ''vk:'' @ h \<noteq> key) (redis_tier c)\<rparr>
      | Publish ch _ \<Rightarrow> (if startsWith ch ''invalidate:vk:'' then onInvalidation True ch c else c))"


section \<open>What the operations write\<close>

lemma set_uniq [simp]: "set (uniq xs) = set xs" "distinct (uniq xs)"
  by (simp_all add: uniq_def)

lemma resolveProviderAllowlist_Inr:
  assumes "resolveProviderAllowlist creds wsid ids base = Inr ps"
  shows "set ps = set base \<union> cr_provider ` {c \<in> set creds. cr_id c \<in> set ids \<and> cr_workspaceId c = wsid}"
    "distinct (map cr_id creds) \<Longrightarrow> i \<in> set ids \<Longrightarrow> list_ex (\<lambda>c. cr_id c = i \<and> cr_workspaceId c = wsid) creds"
proof -
  let ?P = "\<lambda>c. cr_id c \<in> set ids \<and> cr_workspaceId c = wsid"
  show "set ps = set base \<union> cr_provider ` {c \<in> set creds. ?P c}"
    using assms by (auto simp: resolveProviderAllowlist_def Let_def split: if_split_asm)
  assume d: "distinct (map cr_id creds)" and i: "i \<in> set ids"
  let ?found = "map cr_id (filter ?P creds)"
  have len: "length ?found = length ids"
    using assms i by (auto simp: resolveProviderAllowlist_def Let_def split: if_split_asm)
  have sub: "set ?found \<subseteq> set ids" by auto
  have "card (set ?found) = length ids" using len distinct_card [OF distinct_map_filter [OF d], of ?P] by simp
  then have "card (set ids) \<le> card (set ?found)" using card_length [of ids] by simp
  with sub have "set ?found = set ids" by (intro card_seteq) simp_all
  with i have "i \<in> set ?found" by simp
  then show "list_ex (\<lambda>c. cr_id c = i \<and> cr_workspaceId c = wsid) creds" by (auto simp: list_ex_iff)
qed

lemma ownedKey_Inr:
  assumes "ownedKey verb u ctx kid db = Inr k"
  shows "k \<in> set (virtualKeys db) \<and> vk_id k = kid \<and> vk_workspaceId k = ctx_workspaceId ctx \<and> (vk_userId k = au_id u \<or> isAdmin ctx)"
proof -
  from assms have "find (\<lambda>k. vk_id k = kid \<and> vk_workspaceId k = ctx_workspaceId ctx) (virtualKeys db) = Some k"
    and own: "vk_userId k = au_id u \<or> isAdmin ctx"
    by (auto simp: ownedKey_def split: option.split_asm if_split_asm)
  from find_SomeD [OF this(1)] own show ?thesis by simp
qed

lemma insertKey_Some:
  "insertKey k db = Some db' \<Longrightarrow> db' = db\<lparr>virtualKeys := virtualKeys db @ [k]\<rparr>"
  by (simp add: insertKey_def split: if_split_asm)

lemma patchFields_keeps [simp]:
  "vk_id (patchFields p ps k) = vk_id k" "keyHash (patchFields p ps k) = keyHash k"
  "vk_projectId (patchFields p ps k) = vk_projectId k" "vk_status (patchFields p ps k) = vk_status k"
  "vk_workspaceId (patchFields p ps k) = vk_workspaceId k" "vk_userId (patchFields p ps k) = vk_userId k"
  by (simp_all add: patchFields_def)

text \<open>A successful issue, with everything it has checked.\<close>

lemma issueKey_ok:
  assumes "issueKey zUuid now kid minted user ws b db = (db', Inr (v, token))" "\<not> zUuid []"
  obtains u wsid rl ps k where "user = Some u" "memberOf (wmembers db) (au_id u) wsid rl"
    "list_ex (\<lambda>p. pj_id p = ib_projectId b \<and> pj_workspaceId p = wsid) (projects db)"
    "resolveProviderAllowlist (credentials db) wsid (ib_credentials b) (List.map_filter providerOf (ib_providers b)) = Inr ps"
    "db' = db\<lparr>virtualKeys := virtualKeys db @ [k]\<rparr>" "v = keyView k" "token = mt_token minted"
    "k = newKey now kid minted wsid (orElse (ib_userId b) (au_id u)) ps b" "vk_userId k = au_id u \<or> ADMIN \<le> rl"
    "issueSchema zUuid b"
  using assms(1) unfolding issueKey_def
proof (cases rule: guarded_cases)
  case (admitted u ctx)
  let ?P = "\<lambda>p. pj_id p = ib_projectId b \<and> pj_workspaceId p = ctx_workspaceId ctx \<and> pj_status p = ProjectActive"
  let ?R = "resolveProviderAllowlist (credentials db) (ctx_workspaceId ctx) (ib_credentials b) (List.map_filter providerOf (ib_providers b))"
  let ?uid = "orElse (ib_userId b) (au_id u)"
  have schema: "issueSchema zUuid b" and proj: "find ?P (projects db) \<noteq> None"
    and other: "\<not> ((case ib_userId b of None \<Rightarrow> False | Some x \<Rightarrow> x \<noteq> [] \<and> x \<noteq> au_id u) \<and> \<not> isAdmin ctx)"
    using admitted(4) by (auto simp: Let_def split: if_split_asm)
  obtain ps where ps: "?R = Inr ps" using admitted(4) schema proj other by (auto simp: Let_def split: sum.split_asm)
  let ?k = "newKey now kid minted (ctx_workspaceId ctx) ?uid ps b"
  have ins: "insertKey ?k db = Some db'" "v = keyView ?k" "token = mt_token minted"
    using admitted(4) schema proj other ps by (auto simp: Let_def split: option.split_asm)
  have "list_ex (\<lambda>p. pj_id p = ib_projectId b \<and> pj_workspaceId p = ctx_workspaceId ctx) (projects db)"
    using proj by (auto simp: find_NoneD list_ex_iff)
  moreover have "vk_userId ?k = au_id u \<or> ADMIN \<le> ctx_role ctx"
    using other schema assms(2)
    by (auto simp: newKey_def orElse_def isAdmin_def hasMinimumRole_iff issueSchema_def split: option.split_asm)
  ultimately show thesis
    using that [OF admitted(1,2) _ ps insertKey_Some [OF ins(1)] ins(2,3) refl] schema by blast
qed (use that in simp)

text \<open>Edits and revocations touch one key, found by its id in the caller's workspace.\<close>

lemma patchKey_effect:
  assumes "patchKey zUuid user ws kid p db = (db', r)" "db' \<noteq> db"
  obtains u wsid rl k ps where "user = Some u" "memberOf (wmembers db) (au_id u) wsid rl" "k \<in> set (virtualKeys db)"
    "vk_id k = kid" "vk_workspaceId k = wsid" "vk_userId k = au_id u \<or> ADMIN \<le> rl"
    "db' = db\<lparr>virtualKeys := updateWhere (\<lambda>x. vk_id x = kid) (patchFields p ps) (virtualKeys db)\<rparr>"
  using assms(1) unfolding patchKey_def
proof (cases rule: guarded_cases)
  case (admitted u ctx)
  with assms(2) obtain k where k: "ownedKey ''edit'' u ctx kid db = Inr k" by (auto split: if_split_asm sum.split_asm)
  with admitted(4) assms(2) obtain ps where
    "db' = db\<lparr>virtualKeys := updateWhere (\<lambda>x. vk_id x = kid) (patchFields p ps) (virtualKeys db)\<rparr>"
    by (auto split: if_split_asm sum.split_asm)
  with that admitted(1,2) ownedKey_Inr [OF k] show thesis by (auto simp: isAdmin_def hasMinimumRole_iff)
qed (use assms(2) in simp)

lemma revokeKey_effect:
  assumes "revokeKey user ws kid db = (db', r)" "db' \<noteq> db \<or> (\<exists>cmds. r = Inr cmds)"
  obtains u wsid rl k where "user = Some u" "memberOf (wmembers db) (au_id u) wsid rl" "k \<in> set (virtualKeys db)"
    "vk_id k = kid" "vk_workspaceId k = wsid" "vk_userId k = au_id u \<or> ADMIN \<le> rl"
    "db' = db\<lparr>virtualKeys := updateWhere (\<lambda>x. vk_id x = kid) (\<lambda>x. x\<lparr>vk_status := REVOKED\<rparr>) (virtualKeys db)\<rparr>"
    "r = Inr (invalidation (keyHash k) ''revoked'')"
  using assms(1) unfolding revokeKey_def
proof (cases rule: guarded_cases)
  case (admitted u ctx)
  with assms(2) obtain k where k: "ownedKey ''revoke'' u ctx kid db = Inr k" by (auto split: sum.split_asm)
  with that admitted ownedKey_Inr [OF k] show thesis by (auto simp: isAdmin_def hasMinimumRole_iff)
qed (use assms(2) in auto)


section \<open>The life of a key\<close>

text \<open>The unique keys of the tables, and the foreign key of a virtual key to its project.\<close>

definition keysOk :: "database \<Rightarrow> bool" where
  "keysOk db \<longleftrightarrow> distinct (map vk_id (virtualKeys db)) \<and> distinct (map keyHash (virtualKeys db))
     \<and> set (map vk_projectId (virtualKeys db)) \<subseteq> set (map pj_id (projects db))"

definition freshKey :: "string \<Rightarrow> minted_token \<Rightarrow> database \<Rightarrow> bool" where
  "freshKey kid minted db \<longleftrightarrow> kid \<notin> set (map vk_id (virtualKeys db)) \<and> mt_hash minted \<notin> set (map keyHash (virtualKeys db))"

inductive key_step :: "database \<Rightarrow> database \<Rightarrow> bool" where
  issues: "issueKey zUuid now kid minted user ws b db = (db', Inr vt) \<Longrightarrow> \<not> zUuid [] \<Longrightarrow> freshKey kid minted db \<Longrightarrow> key_step db db'"
| edits: "patchKey zUuid user ws kid p db = (db', rp) \<Longrightarrow> key_step db db'"
| revokes: "revokeKey user ws kid db = (db', rr) \<Longrightarrow> key_step db db'"

lemma key_step_cases:
  assumes "key_step db db'"
  obtains (same) "db' = db"
  | (add) k where "db' = db\<lparr>virtualKeys := virtualKeys db @ [k]\<rparr>" "vk_id k \<notin> set (map vk_id (virtualKeys db))"
      "keyHash k \<notin> set (map keyHash (virtualKeys db))"
      "list_ex (\<lambda>p. pj_id p = vk_projectId k \<and> pj_workspaceId p = vk_workspaceId k) (projects db)"
  | (change) P f where "db' = db\<lparr>virtualKeys := updateWhere P f (virtualKeys db)\<rparr>" "\<And>x. vk_id (f x) = vk_id x"
      "\<And>x. keyHash (f x) = keyHash x" "\<And>x. vk_projectId (f x) = vk_projectId x" "\<And>x. vk_workspaceId (f x) = vk_workspaceId x"
      "\<And>x. vk_status (f x) = vk_status x \<or> vk_status (f x) = REVOKED"
  using assms
proof cases
  case (issues zUuid now kid minted user ws b vt)
  obtain v t where vt: "vt = (v, t)" by force
  show thesis
  proof (rule issueKey_ok [OF issues(1) [unfolded vt] issues(2)])
    fix u wsid and rl :: workspace_role and ps k
    assume p: "list_ex (\<lambda>p. pj_id p = ib_projectId b \<and> pj_workspaceId p = wsid) (projects db)"
      and db': "db' = db\<lparr>virtualKeys := virtualKeys db @ [k]\<rparr>"
      and k: "k = newKey now kid minted wsid (orElse (ib_userId b) (au_id u)) ps b"
    show thesis
      using issues(3) p by (intro add [OF db']) (force simp: k newKey_def freshKey_def list_ex_iff)+
  qed
next
  case (edits zUuid user ws kid p rp)
  show thesis
  proof (cases "db' = db")
    case False
    then show thesis by (rule patchKey_effect [OF edits]) (rule change, assumption, simp_all)
  qed (rule same)
next
  case (revokes user ws kid rr)
  show thesis
  proof (cases "db' = db")
    case False
    then have "db' \<noteq> db \<or> (\<exists>cmds. rr = Inr cmds)" ..
    then show thesis by (rule revokeKey_effect [OF revokes]) (rule change, assumption, simp_all)
  qed (rule same)
qed

lemma keysOk_step: "key_step db db' \<Longrightarrow> keysOk db \<Longrightarrow> keysOk db'"
proof (erule key_step_cases, goal_cases)
  case (3 P f)
  then have "map vk_id (virtualKeys db') = map vk_id (virtualKeys db)" "map keyHash (virtualKeys db') = map keyHash (virtualKeys db)"
    "map vk_projectId (virtualKeys db') = map vk_projectId (virtualKeys db)"
    by (simp_all add: updateWhere_keep)
  with 3 show ?case unfolding keysOk_def by simp
qed (force simp: keysOk_def list_ex_iff)+

definition revokedHash :: "string \<Rightarrow> database \<Rightarrow> bool" where
  "revokedHash h db \<longleftrightarrow> list_ex (\<lambda>k. keyHash k = h \<and> vk_status k = REVOKED) (virtualKeys db)"

lemma revokedHash_step:
  assumes "key_step db db'" "revokedHash h db"
  shows "revokedHash h db'"
  using assms(1)
proof (cases rule: key_step_cases)
  case (change P f)
  from assms(2) obtain k where k: "k \<in> set (virtualKeys db)" "keyHash k = h" "vk_status k = REVOKED"
    by (auto simp: revokedHash_def list_ex_iff)
  let ?k = "if P k then f k else k"
  have "?k \<in> set (virtualKeys db')" using k(1) change(1) by (auto simp: updateWhere_cases)
  moreover have "keyHash ?k = h" "vk_status ?k = REVOKED" using k(2,3) change(3,6) [of k] by auto
  ultimately show ?thesis unfolding revokedHash_def list_ex_iff by blast
qed (use assms(2) in \<open>auto simp: revokedHash_def\<close>)

lemma key_steps:
  assumes "key_step\<^sup>*\<^sup>* db db'"
  shows "keysOk db \<Longrightarrow> keysOk db'" "revokedHash h db \<Longrightarrow> revokedHash h db'"
  using assms by induction (auto intro: keysOk_step revokedHash_step)

text \<open>With unique hashes, the gateway's lookup finds the key itself.\<close>

lemma pgKeyResolve_of_key:
  assumes "keysOk db" "k \<in> set (virtualKeys db)"
  obtains ctx where "pgKeyResolve db (keyHash k) = Some ctx" "kc_workspaceId ctx = vk_workspaceId k" "kc_projectId ctx = vk_projectId k"
    "kc_userId ctx = vk_userId k" "kc_status ctx = vk_status k" "kc_expiresAt ctx = vk_expiresAt k" "vkId ctx = vk_id k"
    "providerAllowlist ctx = vk_providers k" "modelAllowlist ctx = vk_models k" "credentialAllowlist ctx = vk_credentials k"
    "rpmLimit ctx = vk_rpmLimit k"
proof -
  from assms obtain p where "p \<in> set (projects db)" "pj_id p = vk_projectId k" by (auto simp: keysOk_def)
  with assms(2) have "\<lparr>row_key = k, row_teamId = pj_teamId p, row_providers = enumLiteral (vk_providers k)\<rparr> \<in> set (selectKey db (keyHash k))"
    by (auto simp: selectKey_def)
  then have "selectKey db (keyHash k) \<noteq> []" by auto
  then obtain ctx where ctx: "pgKeyResolve db (keyHash k) = Some ctx"
    by (auto simp: pgKeyResolve_def Let_def neq_Nil_conv)
  then obtain k' where k': "k' \<in> set (virtualKeys db)" "keyHash k' = keyHash k" "vkId ctx = vk_id k'"
    "kc_workspaceId ctx = vk_workspaceId k'" "kc_projectId ctx = vk_projectId k'"
    "kc_userId ctx = vk_userId k'" "kc_status ctx = vk_status k'" "kc_expiresAt ctx = vk_expiresAt k'"
    "providerAllowlist ctx = vk_providers k'" "modelAllowlist ctx = vk_models k'" "credentialAllowlist ctx = vk_credentials k'"
    "rpmLimit ctx = vk_rpmLimit k'"
    by (rule pgKeyResolve_Some)
  have "k' = k" using assms k'(1,2) unfolding keysOk_def by (metis distinct_map inj_onD)
  with that ctx k' show thesis by blast
qed

lemma revokedHash_refused:
  assumes "keysOk db" "revokedHash (sha t) db" "extractKey hs = Some t"
  shows "\<exists>e. authorizeKey sha (pgKeyResolve db) now hs = Inl e \<and> ce_status e = 401 \<and> ce_type e = ''key_revoked''"
proof -
  from assms(2) obtain k where k: "k \<in> set (virtualKeys db)" "keyHash k = sha t" "vk_status k = REVOKED"
    by (auto simp: revokedHash_def list_ex_iff)
  from pgKeyResolve_of_key [OF assms(1) k(1)] k(2,3) obtain ctx where
    "pgKeyResolve db (sha t) = Some ctx" "kc_status ctx = REVOKED" by metis
  with assms(3) show ?thesis by (simp add: authorizeKey_def)
qed

text \<open>Once the commands of an edit or a revocation are delivered, the next lookup reads the database.\<close>

lemma delivered_reads_database:
  "fst (cachedResolve toJson revive inner getUp setUp now h (fold deliver (invalidation h reason) c)) = inner h"
proof -
  have "map_of (filter (\<lambda>(g, _). g \<noteq> h) xs) h = None" for xs :: "(string \<times> 'a) list"
    by (induction xs) auto
  then show ?thesis
    using startsWith_append [of "''invalidate:vk:''" h]
    by (simp add: invalidation_def deliver_def cachedResolve_def localGet_def fromRedis_def redisGet_def
        onInvalidation_def invalidate_def Let_def delete_conv')
qed


text \<open>A minted key is one that the gateway takes from the Authorization header.\<close>

lemma minted_extracted:
  "mintVirtualKey sha blocks = Some minted \<Longrightarrow>
   extractKey [(''authorization'', One (''Bearer '' @ mt_token minted))] = Some (mt_token minted) \<and> mt_hash minted = sha (mt_token minted)"
  by (auto simp: mintVirtualKey_def mint_def extractKey_def Let_def startsWith_def TOKEN_PREFIX_virtualKey_def split: option.split_asm)

section \<open>Issued keys work, revoked keys do not\<close>

text \<open>
  C7. An issued key is accepted for exactly what it was issued for. After a successful issue, a gateway that reads the
  database accepts the returned token in an Authorization header until it expires, and resolves it to the caller's
  workspace, an existing project of it, and the requested user, models, credentials, limit and expiry.
  The user is the caller unless the caller is an admin; the providers allowed are exactly the requested ones and those
  of the pinned credentials (an empty list allows all, and is the list of a key issued with neither); and every pinned
  credential is one of the workspace.
\<close>

theorem issued_key_is_accepted:
  assumes "keysOk db" "distinct (map cr_id (credentials db))"
    and "mintVirtualKey sha blocks = Some minted" "freshKey kid minted db" "\<not> zUuid []"
    and "issueKey zUuid now kid minted user ws b db = (db', Inr (v, token))"
    and "case ib_expiresAt b of None \<Rightarrow> True | Some t \<Rightarrow> now' \<le> t"
  shows "\<exists>u wsid rl ctx. user = Some u \<and> memberOf (wmembers db) (au_id u) wsid rl
    \<and> authorizeKey sha (pgKeyResolve db') now' [(''authorization'', One (''Bearer '' @ token))] = Inr ctx
    \<and> vkId ctx = kid \<and> kc_workspaceId ctx = wsid \<and> kc_projectId ctx = ib_projectId b
    \<and> list_ex (\<lambda>p. pj_id p = kc_projectId ctx \<and> pj_workspaceId p = wsid) (projects db)
    \<and> kc_userId ctx = orElse (ib_userId b) (au_id u) \<and> (kc_userId ctx = au_id u \<or> ADMIN \<le> rl)
    \<and> modelAllowlist ctx = ib_models b \<and> credentialAllowlist ctx = ib_credentials b
    \<and> rpmLimit ctx = ib_rpm b \<and> kc_expiresAt ctx = ib_expiresAt b
    \<and> set (providerAllowlist ctx) = set (List.map_filter providerOf (ib_providers b))
        \<union> cr_provider ` {c \<in> set (credentials db). cr_id c \<in> set (ib_credentials b) \<and> cr_workspaceId c = wsid}
    \<and> list_all (\<lambda>i. list_ex (\<lambda>c. cr_id c = i \<and> cr_workspaceId c = wsid) (credentials db)) (ib_credentials b)"
proof (rule issueKey_ok [OF assms(6,5)])
  fix u wsid rl ps k
  assume u: "user = Some u" "memberOf (wmembers db) (au_id u) wsid rl"
    and p: "list_ex (\<lambda>p. pj_id p = ib_projectId b \<and> pj_workspaceId p = wsid) (projects db)"
    and ps: "resolveProviderAllowlist (credentials db) wsid (ib_credentials b) (List.map_filter providerOf (ib_providers b)) = Inr ps"
    and db': "db' = db\<lparr>virtualKeys := virtualKeys db @ [k]\<rparr>" and token: "token = mt_token minted"
    and k: "k = newKey now kid minted wsid (orElse (ib_userId b) (au_id u)) ps b" and own: "vk_userId k = au_id u \<or> ADMIN \<le> rl"
  note hdr = minted_extracted [OF assms(3)]
  have "key_step db db'" using assms(6,5,4) by (rule issues)
  then have ok: "keysOk db'" using assms(1) by (rule keysOk_step)
  have "k \<in> set (virtualKeys db')" by (simp add: db')
  from pgKeyResolve_of_key [OF ok this] obtain ctx where
    ctx: "pgKeyResolve db' (keyHash k) = Some ctx" "kc_workspaceId ctx = vk_workspaceId k" "kc_projectId ctx = vk_projectId k"
    "kc_userId ctx = vk_userId k" "kc_status ctx = vk_status k" "kc_expiresAt ctx = vk_expiresAt k" "vkId ctx = vk_id k"
    "providerAllowlist ctx = vk_providers k" "modelAllowlist ctx = vk_models k" "credentialAllowlist ctx = vk_credentials k"
    "rpmLimit ctx = vk_rpmLimit k" by blast
  note new = ctx(2-) [unfolded k newKey_def, simplified]
  have "authorizeKey sha (pgKeyResolve db') now' [(''authorization'', One (''Bearer '' @ token))] = Inr ctx"
    using hdr ctx(1) new assms(7) by (auto simp: authorizeKey_def token k newKey_def keyExpired_def split: option.splits)
  moreover have "list_all (\<lambda>i. list_ex (\<lambda>c. cr_id c = i \<and> cr_workspaceId c = wsid) (credentials db)) (ib_credentials b)"
    using resolveProviderAllowlist_Inr(2) [OF ps assms(2)] by (simp add: list_all_iff)
  ultimately show ?thesis
    using u p own new resolveProviderAllowlist_Inr(1) [OF ps] by (intro exI [of _ u] exI [of _ wsid] exI [of _ rl] exI [of _ ctx]) (auto simp: k newKey_def)
qed

text \<open>Alice, an admin, issues a key pinned to one Anthropic credential; the digest is the identity.\<close>

definition demo_db :: database where
  "demo_db = emptyDatabase\<lparr>workspaces := [acme], wmembers := [alice],
     users := [\<lparr>us_id = ''u1'', us_email = ''a'', us_passwordHash = None, us_name = ''Alice'', us_status = UserActive\<rparr>],
     projects := [\<lparr>pj_id = ''p1'', pj_workspaceId = ''w1'', pj_teamId = None, pj_name = ''P'', pj_slug = ''p'', pj_description = None,
       pj_tags = [], pj_status = ProjectActive, pj_createdAt = 0\<rparr>],
     credentials := [\<lparr>cr_id = ''c1'', cr_workspaceId = ''w1'', cr_provider = ANTHROPIC, cr_name = ''C'', encryptedSecret = None,
       secretLast4 = None, cr_baseUrl = None, cr_modelAllowlist = [], isDefault = True, cr_status = CredActive, cr_createdAt = 0\<rparr>]\<rparr>"

definition demo_minted :: minted_token where
  "demo_minted = \<lparr>mt_token = ''tl_live_'' @ replicate 24 CHR ''0'', mt_hash = ''tl_live_'' @ replicate 24 CHR ''0'', mt_last4 = ''0000''\<rparr>"

definition demo_body :: issue_body where
  "demo_body = \<lparr>ib_projectId = ''p1'', ib_name = ''laptop'', ib_userId = None, ib_providers = [], ib_credentials = [''c1''],
     ib_models = [], ib_rpm = Some 60, ib_expiresAt = None\<rparr>"

definition demo_user :: authed_user where
  "demo_user = \<lparr>au_id = ''u1'', au_email = ''a''\<rparr>"

definition demo_key :: virtual_key where
  "demo_key = newKey 5 ''k1'' demo_minted ''w1'' ''u1'' [ANTHROPIC] demo_body"

lemma demo_mint: "mintVirtualKey (\<lambda>x. x) [replicate 24 0] = Some demo_minted"
  by code_simp

lemmas demo_defs = demo_db_def demo_body_def demo_user_def demo_key_def emptyDatabase_def acme_def alice_def

lemma demo_issue:
  "issueKey (\<lambda>x. x \<noteq> []) 5 ''k1'' demo_minted (Some demo_user) ''acme'' demo_body demo_db
   = (demo_db\<lparr>virtualKeys := [demo_key]\<rparr>, Inr (keyView demo_key, mt_token demo_minted))"
  by (simp add: demo_defs issueKey_def guarded_def workspaceGuard_def guardMatches_def isUuid_def hasMinimumRole_def
      issueSchema_def allowlistsOk_def resolveProviderAllowlist_def uniq_def insertKey_def newKey_def orElse_def Let_def)

lemma demo_fresh: "freshKey ''k1'' demo_minted demo_db" "keysOk demo_db" "distinct (map cr_id (credentials demo_db))"
  by (simp_all add: demo_defs freshKey_def keysOk_def)

theorem issued_key_is_accepted_witness:
  "\<exists>ctx. authorizeKey (\<lambda>x. x) (pgKeyResolve (demo_db\<lparr>virtualKeys := [demo_key]\<rparr>)) 6
       [(''authorization'', One (''Bearer '' @ mt_token demo_minted))] = Inr ctx
     \<and> kc_workspaceId ctx = ''w1'' \<and> set (providerAllowlist ctx) = {ANTHROPIC}"
proof -
  have "case ib_expiresAt demo_body of None \<Rightarrow> True | Some t \<Rightarrow> (6::int) \<le> t" by (simp add: demo_body_def)
  note accepted = issued_key_is_accepted [OF demo_fresh(2,3) demo_mint demo_fresh(1) _ demo_issue this]
  have provs: "set (List.map_filter providerOf (ib_providers demo_body))
       \<union> cr_provider ` {c \<in> set (credentials demo_db). cr_id c \<in> set (ib_credentials demo_body) \<and> cr_workspaceId c = ''w1''} = {ANTHROPIC}"
    unfolding set_filter [symmetric] by (simp add: demo_body_def demo_db_def emptyDatabase_def List.map_filter_simps)
  have w: "wsid = ''w1''" if "memberOf (wmembers demo_db) i wsid rl" for i wsid rl
    using that by (simp add: memberOf_def demo_db_def emptyDatabase_def alice_def)
  from accepted [simplified not_not, OF refl] show ?thesis
  proof (elim exE conjE)
    fix u wsid rl ctx
    assume m: "memberOf (wmembers demo_db) (au_id u) wsid rl" and "kc_workspaceId ctx = wsid"
      "set (providerAllowlist ctx) = set (List.map_filter providerOf (ib_providers demo_body))
       \<union> cr_provider ` {c \<in> set (credentials demo_db). cr_id c \<in> set (ib_credentials demo_body) \<and> cr_workspaceId c = wsid}"
      "authorizeKey (\<lambda>x. x) (pgKeyResolve (demo_db\<lparr>virtualKeys := [demo_key]\<rparr>)) 6
         [(''authorization'', One (''Bearer '' @ mt_token demo_minted))] = Inr ctx"
    then show ?thesis unfolding w [OF m] provs by blast
  qed
qed

text \<open>
  C8. A revoked key is never accepted again. After a successful revocation and any further issues, edits and
  revocations, a gateway that reads the database refuses the key as revoked; one with a cache in any state does so
  as soon as the commands of the revocation have been delivered to it.
\<close>

theorem revoked_key_stays_refused:
  assumes "keysOk db" "k \<in> set (virtualKeys db)" "extractKey hs = Some t" "sha t = keyHash k"
    and "revokeKey user ws (vk_id k) db = (db1, Inr cmds)" "key_step\<^sup>*\<^sup>* db1 db2"
  shows "\<exists>e. ce_status e = 401 \<and> ce_type e = ''key_revoked''
    \<and> authorizeKey sha (pgKeyResolve db2) now hs = Inl e
    \<and> authorizeKey sha (\<lambda>h. fst (cachedResolve toJson revive (pgKeyResolve db2) getUp setUp now h (fold deliver cmds c))) now hs = Inl e"
proof -
  have "db1 \<noteq> db \<or> (\<exists>cs. Inr cmds = (Inr cs :: api_error + redis_cmd list))" by blast
  from revokeKey_effect [OF assms(5) this] obtain k' where k': "k' \<in> set (virtualKeys db)" "vk_id k' = vk_id k"
      "db1 = db\<lparr>virtualKeys := updateWhere (\<lambda>x. vk_id x = vk_id k) (\<lambda>x. x\<lparr>vk_status := REVOKED\<rparr>) (virtualKeys db)\<rparr>"
      "cmds = invalidation (keyHash k') ''revoked''" by blast
  have "k' = k" using assms(1,2) k'(1,2) unfolding keysOk_def by (metis distinct_map inj_onD)
  have "k\<lparr>vk_status := REVOKED\<rparr> \<in> set (virtualKeys db1)" using assms(2) by (force simp: k'(3) updateWhere_cases)
  then have "revokedHash (sha t) db1" using assms(4)
    unfolding revokedHash_def list_ex_iff by (intro bexI [where x = "k\<lparr>vk_status := REVOKED\<rparr>"]) simp_all
  moreover have "keysOk db1" using assms(1,5) by (blast intro: keysOk_step revokes)
  ultimately obtain e where e: "authorizeKey sha (pgKeyResolve db2) now hs = Inl e" "ce_status e = 401" "ce_type e = ''key_revoked''"
    using revokedHash_refused [where sha = sha and t = t and db = db2 and now = now] key_steps [OF assms(6)] assms(3) by blast
  moreover have "authorizeKey sha (\<lambda>h. fst (cachedResolve toJson revive (pgKeyResolve db2) getUp setUp now h (fold deliver cmds c))) now hs = Inl e"
    using e(1) assms(3,4) delivered_reads_database [where h = "keyHash k"] by (simp add: authorizeKey_def k'(4) \<open>k' = k\<close>)
  ultimately show ?thesis by blast
qed

theorem revoked_key_stays_refused_witness:
  "\<exists>e. ce_type e = ''key_revoked''
    \<and> authorizeKey (\<lambda>x. x) (\<lambda>h. fst (cachedResolve demoJson demoRevive
          (pgKeyResolve (demo_db\<lparr>virtualKeys := [demo_key\<lparr>vk_status := REVOKED\<rparr>]\<rparr>)) True True 9 h
          (fold deliver (invalidation (mt_token demo_minted) ''revoked'') emptyCache))) 9
        [(''authorization'', One (''Bearer '' @ mt_token demo_minted))] = Inl e"
proof -
  let ?db = "demo_db\<lparr>virtualKeys := [demo_key]\<rparr>" and ?db1 = "demo_db\<lparr>virtualKeys := [demo_key\<lparr>vk_status := REVOKED\<rparr>]\<rparr>"
  have 1: "keysOk ?db" by (simp add: keysOk_def demo_defs newKey_def)
  have 2: "demo_key \<in> set (virtualKeys ?db)" by simp
  have 3: "extractKey [(''authorization'', One (''Bearer '' @ mt_token demo_minted))] = Some (mt_token demo_minted)"
    using minted_extracted [OF demo_mint] by blast
  have 4: "mt_token demo_minted = keyHash demo_key" by (simp add: demo_key_def newKey_def demo_minted_def)
  have 5: "revokeKey (Some demo_user) ''acme'' (vk_id demo_key) ?db
      = (?db1, Inr (invalidation (mt_token demo_minted) ''revoked''))"
    by (simp add: demo_defs revokeKey_def guarded_def workspaceGuard_def guardMatches_def isUuid_def hasMinimumRole_def
        ownedKey_def newKey_def demo_minted_def)
  from revoked_key_stays_refused [where sha = "\<lambda>x. x" and toJson = demoJson and revive = demoRevive and getUp = True and setUp = True
      and now = 9 and c = emptyCache, OF 1 2 3 4 5 rtranclp.rtrancl_refl]
  show ?thesis by blast
qed

section \<open>Gaps\<close>

text \<open>
  Pinning narrows the provider list of a key that allowed all providers, and clearing the pins does not widen
  it again: the list it had is lost.
\<close>

lemma unpin_keeps_restriction:
  "let p = \<lparr>kp_name = None, kp_credentials = Some [], kp_models = None, kp_rpm = None, kp_expiresAt = None\<rparr>;
       r = patchKey (\<lambda>x. x \<noteq> []) (Some demo_user) ''acme'' ''k1'' p (demo_db\<lparr>virtualKeys := [demo_key]\<rparr>)
   in ib_providers demo_body = [] \<and> map vk_credentials (virtualKeys (fst r)) = [[]]
      \<and> map vk_providers (virtualKeys (fst r)) = [[ANTHROPIC]]"
  by (simp add: demo_defs patchKey_def guarded_def workspaceGuard_def guardMatches_def isUuid_def hasMinimumRole_def
      patchSchema_def allowlistsOk_def orElse_def ownedKey_def newKey_def resolveProviderAllowlist_def patchFields_def Let_def)

text \<open>An admin can issue a key for a user who is no member of the workspace.\<close>

lemma issue_for_outsider:
  "let db = demo_db\<lparr>users := users demo_db @ [\<lparr>us_id = ''u9'', us_email = ''z'', us_passwordHash = None, us_name = ''Z'', us_status = UserActive\<rparr>]\<rparr>;
       r = issueKey (\<lambda>x. x \<noteq> []) 5 ''k1'' demo_minted (Some demo_user) ''acme'' (demo_body\<lparr>ib_userId := Some ''u9''\<rparr>) db
   in \<not> list_ex (\<lambda>m. wm_userId m = ''u9'') (wmembers db) \<and> map vk_userId (virtualKeys (fst r)) = [''u9'']"
  by (simp add: demo_defs issueKey_def guarded_def workspaceGuard_def guardMatches_def isUuid_def hasMinimumRole_def isAdmin_def
      issueSchema_def allowlistsOk_def resolveProviderAllowlist_def uniq_def insertKey_def newKey_def orElse_def Let_def)

end
