(* ===== verification/Credentials.thy ===== *)
theory Credentials
  imports Keys
begin

text \<open>
  The provider credentials of the control plane (\<open>apps/api/src/modules/credentials.ts\<close>): list, create with the
  secret encrypted, probe, edit and rotate, delete. Composed with the gateway's credential store: there is at
  most one default per workspace and provider, and it is the one requests are sent with.
\<close>

section \<open>Requests (credentials.ts)\<close>

record credential_body =
  cb_provider :: string
  cb_name :: string
  cb_secret :: "string option"
  cb_baseUrl :: "string option"
  cb_models :: "string list"
  cb_isDefault :: bool

definition nameOk :: "string \<Rightarrow> bool" where
  "nameOk s \<longleftrightarrow> 1 \<le> length s \<and> length s \<le> 100"

definition secretOk :: "string option \<Rightarrow> bool" where
  "secretOk x = (case x of None \<Rightarrow> True | Some s \<Rightarrow> 1 \<le> length s \<and> length s \<le> 500)"

text \<open>\<open>isUrl\<close> is the schema library's check; absent fields with a default have it already.\<close>

definition credentialSchema :: "(string \<Rightarrow> bool) \<Rightarrow> credential_body \<Rightarrow> provider option" where
  "credentialSchema isUrl b =
     (if nameOk (cb_name b) \<and> secretOk (cb_secret b) \<and> (case cb_baseUrl b of None \<Rightarrow> True | Some u \<Rightarrow> isUrl u)
         \<and> length (cb_models b) \<le> 100
      then providerOf (cb_provider b) else None)"

definition statusOf :: "string \<Rightarrow> cred_status option" where
  "statusOf s = (if s = ''ACTIVE'' then Some CredActive else if s = ''DISABLED'' then Some Disabled else None)"

text \<open>\<open>isDefault\<close> can only be set; a null base URL clears it.\<close>

record credential_patch =
  cp_status :: "string option"
  cp_isDefault :: bool
  cp_name :: "string option"
  cp_secret :: "string option"
  cp_baseUrl :: "string option option"

definition credentialPatchSchema :: "(string \<Rightarrow> bool) \<Rightarrow> credential_patch \<Rightarrow> bool" where
  "credentialPatchSchema isUrl p \<longleftrightarrow>
     (case cp_status p of None \<Rightarrow> True | Some s \<Rightarrow> statusOf s \<noteq> None)
     \<and> (case cp_name p of None \<Rightarrow> True | Some s \<Rightarrow> nameOk s) \<and> secretOk (cp_secret p)
     \<and> (case cp_baseUrl p of Some (Some u) \<Rightarrow> isUrl u | _ \<Rightarrow> True)"

section \<open>Operations (credentials.ts)\<close>

record credential_view =
  cv_id :: string
  cv_provider :: provider
  cv_name :: string
  cv_secretLast4 :: "string option"
  cv_baseUrl :: "string option"
  cv_isDefault :: bool
  cv_status :: cred_status
  cv_createdAt :: millis

definition credentialView :: "credential \<Rightarrow> credential_view" where
  "credentialView c =
     \<lparr>cv_id = cr_id c, cv_provider = cr_provider c, cv_name = cr_name c, cv_secretLast4 = secretLast4 c,
      cv_baseUrl = cr_baseUrl c, cv_isDefault = isDefault c, cv_status = cr_status c, cv_createdAt = cr_createdAt c\<rparr>"

text \<open>Providers sort in the order of their declaration.\<close>

definition providerRank :: "provider \<Rightarrow> nat" where
  "providerRank p = length (takeWhile (\<lambda>q. q \<noteq> p) PROVIDERS)"

definition listCredentials ::
  "authed_user option \<Rightarrow> string \<Rightarrow> database \<Rightarrow> database \<times> (api_error + (credential_view \<times> string list) list)" where
  "listCredentials user ws db =
     guarded ADMIN user ws db (\<lambda>u ctx.
       (db, Inr (map (\<lambda>c. (credentialView c, cr_modelAllowlist c))
          (sort_key (\<lambda>c. providerRank (cr_provider c)) (sort_key cr_createdAt
             (filter (\<lambda>c. cr_workspaceId c = ctx_workspaceId ctx) (credentials db)))))))"

definition givenText :: "string option \<Rightarrow> bool" where
  "givenText x = (case x of None \<Rightarrow> False | Some s \<Rightarrow> s \<noteq> [])"

definition noMasterKey :: domain_error where
  "noMasterKey = ValidationError (''TOKENLEDGER_MASTER_KEY is not configured '' @ emDash @ '' cannot store encrypted credentials'')"

type_synonym cipher = "byte list \<Rightarrow> byte list \<Rightarrow> byte list \<Rightarrow> byte list \<times> byte list"

text \<open>\<open>seal\<close> is the cipher, \<open>toBytes\<close> the bytes of a text, \<open>iv\<close> the random nonce.\<close>

definition sealSecret ::
  "cipher \<Rightarrow> (string \<Rightarrow> byte list) \<Rightarrow> byte list \<Rightarrow> key_ring option \<Rightarrow> string option \<Rightarrow> crypto_error + byte list option" where
  "sealSecret seal toBytes iv ring x =
     (case x of
        None \<Rightarrow> Inr None
      | Some s \<Rightarrow>
          (if s = [] then Inr None
           else case encryptSecret seal iv (toBytes s) (orElse ring []) of
                  Inl e \<Rightarrow> Inl e
                | Inr env \<Rightarrow> Inr (Some env)))"

definition sameSlot :: "string \<Rightarrow> provider \<Rightarrow> credential \<Rightarrow> bool" where
  "sameSlot wsid p c \<longleftrightarrow> cr_workspaceId c = wsid \<and> cr_provider c = p"

definition clearDefault :: "string \<Rightarrow> provider \<Rightarrow> credential list \<Rightarrow> credential list" where
  "clearDefault wsid p cs = updateWhere (\<lambda>c. sameSlot wsid p c \<and> isDefault c) (\<lambda>c. c\<lparr>isDefault := False\<rparr>) cs"

text \<open>A failure inside the transaction changes nothing.\<close>

definition createCredential ::
  "(string \<Rightarrow> bool) \<Rightarrow> cipher \<Rightarrow> (string \<Rightarrow> byte list) \<Rightarrow> byte list \<Rightarrow> key_ring option \<Rightarrow> millis \<Rightarrow> string \<Rightarrow>
   authed_user option \<Rightarrow> string \<Rightarrow> credential_body \<Rightarrow> database \<Rightarrow> database \<times> (api_error + credential_view)" where
  "createCredential isUrl seal toBytes iv ring now cid user ws b db =
     guarded ADMIN user ws db (\<lambda>u ctx.
       (case credentialSchema isUrl b of
          None \<Rightarrow> (db, Inl ZodFailed)
        | Some p \<Rightarrow>
            (if p = OLLAMA \<and> \<not> givenText (cb_baseUrl b) then (db, Inl (Domain (ValidationError ''Ollama credentials require a baseUrl'')))
             else if p \<noteq> OLLAMA \<and> \<not> givenText (cb_secret b)
             then (db, Inl (Domain (ValidationError (cb_provider b @ '' credentials require a secret''))))
             else if givenText (cb_secret b) \<and> ring = None then (db, Inl (Domain noMasterKey))
             else (let wsid = ctx_workspaceId ctx;
                       cleared = (if cb_isDefault b then clearDefault wsid p (credentials db) else credentials db);
                       isFirst = (countWhere (sameSlot wsid p) cleared = 0)
                   in case sealSecret seal toBytes iv ring (cb_secret b) of
                        Inl e \<Rightarrow> (db, Inl Internal)
                      | Inr env \<Rightarrow>
                          (let c = \<lparr>cr_id = cid, cr_workspaceId = wsid, cr_provider = p, cr_name = cb_name b, encryptedSecret = env,
                                    secretLast4 = (case cb_secret b of None \<Rightarrow> None | Some s \<Rightarrow> if s = [] then None else Some (sliceLast 4 s)),
                                    cr_baseUrl = cb_baseUrl b, cr_modelAllowlist = cb_models b, isDefault = (cb_isDefault b \<or> isFirst),
                                    cr_status = CredActive, cr_createdAt = now\<rparr>
                           in (db\<lparr>credentials := cleared @ [c]\<rparr>, Inr (credentialView c)))))))"

definition findCredential :: "string \<Rightarrow> workspace_context \<Rightarrow> database \<Rightarrow> domain_error + credential" where
  "findCredential cid ctx db =
     (case find (\<lambda>c. cr_id c = cid \<and> cr_workspaceId c = ctx_workspaceId ctx) (credentials db) of
        None \<Rightarrow> Inl (NotFoundError ''Credential'' (Some cid))
      | Some c \<Rightarrow> Inr c)"

text \<open>The cheapest probe of a provider, and what came of it.\<close>

definition PROBE_PATHS :: "provider \<Rightarrow> string option" where
  "PROBE_PATHS p = (case p of ANTHROPIC \<Rightarrow> Some ''/v1/models'' | OPENAI \<Rightarrow> Some ''/v1/models'' | OLLAMA \<Rightarrow> Some ''/api/tags'' | _ \<Rightarrow> None)"

datatype probe_result = NoProbe | Answered bool int | ProviderUnreachable

text \<open>\<open>request\<close> sends the request: a status code, or \<^term>\<open>None\<close> when it fails.\<close>

definition testCredential ::
  "(byte list \<Rightarrow> byte list \<Rightarrow> byte list \<Rightarrow> byte list \<Rightarrow> byte list option) \<Rightarrow> (byte list \<Rightarrow> string) \<Rightarrow> (string \<Rightarrow> json option) \<Rightarrow>
   (upstream_request \<Rightarrow> int option) \<Rightarrow> key_ring option \<Rightarrow> authed_user option \<Rightarrow> string \<Rightarrow> string \<Rightarrow> database \<Rightarrow>
   database \<times> (api_error + probe_result)" where
  "testCredential unseal bytesToString parse request ring user ws cid db =
     guarded ADMIN user ws db (\<lambda>u ctx.
       (db, case findCredential cid ctx db of
              Inl e \<Rightarrow> Inl (Domain e)
            | Inr c \<Rightarrow>
                (case PROBE_PATHS (cr_provider c) of
                   None \<Rightarrow> Inr NoProbe
                 | Some path \<Rightarrow>
                     (if cr_provider c \<notin> set supportedProviders then Inr NoProbe
                      else case (case (encryptedSecret c, ring) of
                                   (Some env, Some r) \<Rightarrow>
                                     (case decryptSecret unseal env r of Inl e \<Rightarrow> Inl e | Inr bs \<Rightarrow> Inr (Some (bytesToString bs)))
                                 | _ \<Rightarrow> Inr None) of
                             Inl e \<Rightarrow> Inl Internal
                           | Inr s \<Rightarrow>
                               (let upstream = buildUpstream (getAdapter parse (cr_provider c)) path
                                      \<lparr>secret = s, baseUrl = (if givenText (cr_baseUrl c) then cr_baseUrl c else None)\<rparr>
                                in case request upstream of
                                     None \<Rightarrow> Inr ProviderUnreachable
                                   | Some st \<Rightarrow> Inr (Answered (st < 400) st))))))"

definition patchCredentialFields :: "credential_patch \<Rightarrow> byte list option \<Rightarrow> credential \<Rightarrow> credential" where
  "patchCredentialFields p env c =
     c\<lparr>cr_status := (case cp_status p of None \<Rightarrow> cr_status c | Some s \<Rightarrow> orElse (statusOf s) (cr_status c)),
       isDefault := (cp_isDefault p \<or> isDefault c), cr_name := orElse (cp_name p) (cr_name c),
       cr_baseUrl := orElse (cp_baseUrl p) (cr_baseUrl c),
       encryptedSecret := (case env of None \<Rightarrow> encryptedSecret c | Some e \<Rightarrow> Some e),
       secretLast4 := (case env of None \<Rightarrow> secretLast4 c | Some e \<Rightarrow> map_option (sliceLast 4) (cp_secret p))\<rparr>"

definition patchCredential ::
  "(string \<Rightarrow> bool) \<Rightarrow> cipher \<Rightarrow> (string \<Rightarrow> byte list) \<Rightarrow> byte list \<Rightarrow> key_ring option \<Rightarrow> authed_user option \<Rightarrow> string \<Rightarrow> string \<Rightarrow>
   credential_patch \<Rightarrow> database \<Rightarrow> database \<times> (api_error + credential_view)" where
  "patchCredential isUrl seal toBytes iv ring user ws cid p db =
     guarded ADMIN user ws db (\<lambda>u ctx.
       (if \<not> credentialPatchSchema isUrl p then (db, Inl ZodFailed)
        else case findCredential cid ctx db of
               Inl e \<Rightarrow> (db, Inl (Domain e))
             | Inr c \<Rightarrow>
                 (if givenText (cp_secret p) \<and> ring = None then (db, Inl (Domain noMasterKey))
                  else if cr_provider c = OLLAMA \<and> cp_baseUrl p = Some None
                  then (db, Inl (Domain (ValidationError ''Ollama credentials require a baseUrl'')))
                  else case sealSecret seal toBytes iv ring (cp_secret p) of
                         Inl e \<Rightarrow> (db, Inl Internal)
                       | Inr env \<Rightarrow>
                           (let cleared = (if cp_isDefault p then clearDefault (ctx_workspaceId ctx) (cr_provider c) (credentials db)
                                           else credentials db)
                            in (db\<lparr>credentials := updateWhere (\<lambda>x. cr_id x = cid) (patchCredentialFields p env) cleared\<rparr>,
                                Inr (credentialView (patchCredentialFields p env c)))))))"

text \<open>\<open>inUse\<close>: a provider pool still refers to the credential.\<close>

definition deleteCredential ::
  "(string \<Rightarrow> bool) \<Rightarrow> authed_user option \<Rightarrow> string \<Rightarrow> string \<Rightarrow> database \<Rightarrow> database \<times> (api_error + unit)" where
  "deleteCredential inUse user ws cid db =
     guarded ADMIN user ws db (\<lambda>u ctx.
       (case findCredential cid ctx db of
          Inl e \<Rightarrow> (db, Inl (Domain e))
        | Inr c \<Rightarrow>
            (if inUse cid
             then (db, Inl (Domain (ValidationError (''This credential is in use by a provider pool '' @ emDash @ '' disable it instead of deleting''))))
             else (db\<lparr>credentials := deleteWhere (\<lambda>x. cr_id x = cid) (credentials db)\<rparr>, Inr ()))))"


section \<open>One default per workspace and provider\<close>

definition defaultsIn :: "string \<Rightarrow> provider \<Rightarrow> credential list \<Rightarrow> credential list" where
  "defaultsIn wsid p cs = filter (\<lambda>c. sameSlot wsid p c \<and> isDefault c) cs"

definition credentialsOk :: "database \<Rightarrow> bool" where
  "credentialsOk db \<longleftrightarrow> distinct (map cr_id (credentials db)) \<and> (\<forall>wsid p. length (defaultsIn wsid p (credentials db)) \<le> 1)"

lemma sameSlot_cleared [simp]: "sameSlot w q (c\<lparr>isDefault := x\<rparr>) = sameSlot w q c"
  by (simp add: sameSlot_def)

lemma clearDefault_ids [simp]: "map cr_id (clearDefault wsid p cs) = map cr_id cs"
  by (simp add: clearDefault_def updateWhere_keep)

lemma defaultsIn_clear:
  "defaultsIn w q (clearDefault wsid p cs) = (if w = wsid \<and> q = p then [] else defaultsIn w q cs)"
  by (induction cs) (auto simp: defaultsIn_def clearDefault_def sameSlot_def)

lemma defaultsIn_append [simp]:
  "defaultsIn w q (cs @ [c]) = defaultsIn w q cs @ (if sameSlot w q c \<and> isDefault c then [c] else [])"
  by (simp add: defaultsIn_def)

lemma defaultsIn_empty_slot: "countWhere (sameSlot wsid p) cs = 0 \<Longrightarrow> defaultsIn wsid p cs = []"
  by (auto simp: countWhere_def defaultsIn_def filter_empty_conv)

lemma findCredential_Inr:
  assumes "findCredential cid ctx db = Inr c"
  shows "c \<in> set (credentials db)" "cr_id c = cid" "cr_workspaceId c = ctx_workspaceId ctx"
proof -
  from assms have "find (\<lambda>c. cr_id c = cid \<and> cr_workspaceId c = ctx_workspaceId ctx) (credentials db) = Some c"
    by (auto simp: findCredential_def split: option.split_asm)
  from find_SomeD [OF this] show "c \<in> set (credentials db)" "cr_id c = cid" "cr_workspaceId c = ctx_workspaceId ctx" by auto
qed

text \<open>What a creation has written.\<close>

lemma createCredential_effect:
  assumes "createCredential isUrl seal toBytes iv ring now cid user ws b db = (db', r)"
  obtains (same) "db' = db" "\<exists>e. r = Inl e"
  | (created) u wsid rl p env c where "user = Some u" "memberOf (wmembers db) (au_id u) wsid rl" "ADMIN \<le> rl"
      "sealSecret seal toBytes iv ring (cb_secret b) = Inr env" "providerOf (cb_provider b) = Some p"
      "db' = db\<lparr>credentials := (if cb_isDefault b then clearDefault wsid p (credentials db) else credentials db) @ [c]\<rparr>"
      "r = Inr (credentialView c)" "cr_id c = cid" "sameSlot wsid p c" "encryptedSecret c = env" "cr_baseUrl c = cb_baseUrl b"
      "cr_status c = CredActive" "isDefault c \<longleftrightarrow> cb_isDefault b \<or> countWhere (sameSlot wsid p) (credentials db) = 0"
      "givenText (cb_secret b) \<Longrightarrow> ring \<noteq> None"
  using assms unfolding createCredential_def
proof (cases rule: guarded_cases)
  case (admitted u ctx)
  let ?wsid = "ctx_workspaceId ctx"
  show thesis
  proof (cases "r")
    case (Inl e)
    with admitted(4) have "db' = db" by (auto simp: Let_def split: option.split_asm if_split_asm sum.split_asm)
    with same Inl show thesis by blast
  next
    case (Inr v)
    from admitted(4) Inr obtain p where p: "credentialSchema isUrl b = Some p" by (auto split: option.split_asm)
    let ?cleared = "if cb_isDefault b then clearDefault ?wsid p (credentials db) else credentials db"
    from admitted(4) Inr p obtain env where env: "sealSecret seal toBytes iv ring (cb_secret b) = Inr env"
      by (auto simp: Let_def split: if_split_asm sum.split_asm)
    have ring: "givenText (cb_secret b) \<Longrightarrow> ring \<noteq> None" using admitted(4) Inr p by (auto split: if_split_asm)
    let ?c = "\<lparr>cr_id = cid, cr_workspaceId = ?wsid, cr_provider = p, cr_name = cb_name b, encryptedSecret = env,
        secretLast4 = (case cb_secret b of None \<Rightarrow> None | Some s \<Rightarrow> if s = [] then None else Some (sliceLast 4 s)),
        cr_baseUrl = cb_baseUrl b, cr_modelAllowlist = cb_models b,
        isDefault = (cb_isDefault b \<or> countWhere (sameSlot ?wsid p) ?cleared = 0), cr_status = CredActive, cr_createdAt = now\<rparr>"
    have res: "db' = db\<lparr>credentials := ?cleared @ [?c]\<rparr>" "r = Inr (credentialView ?c)"
      using admitted(4) Inr p env by (auto simp: Let_def split: if_split_asm)
    have "providerOf (cb_provider b) = Some p" using p by (auto simp: credentialSchema_def split: if_split_asm)
    then show thesis
      using created [OF admitted(1,2,3) env _ res] ring by (auto simp: sameSlot_def)
  qed
qed (use same in blast)

text \<open>What an edit and a deletion write.\<close>

lemma patchCredential_effect:
  assumes "patchCredential isUrl seal toBytes iv ring user ws cid p db = (db', r)"
  obtains (same) "db' = db"
  | (patched) c wsid env where "c \<in> set (credentials db)" "cr_id c = cid" "cr_workspaceId c = wsid"
      "db' = db\<lparr>credentials := updateWhere (\<lambda>x. cr_id x = cid) (patchCredentialFields p env)
         (if cp_isDefault p then clearDefault wsid (cr_provider c) (credentials db) else credentials db)\<rparr>"
  using assms unfolding patchCredential_def
proof (cases rule: guarded_cases)
  case (admitted u ctx)
  show thesis
  proof (cases "db' = db")
    case False
    with admitted(4) obtain c where c: "findCredential cid ctx db = Inr c" by (auto split: if_split_asm sum.split_asm)
    with admitted(4) False obtain env where
      "db' = db\<lparr>credentials := updateWhere (\<lambda>x. cr_id x = cid) (patchCredentialFields p env)
         (if cp_isDefault p then clearDefault (ctx_workspaceId ctx) (cr_provider c) (credentials db) else credentials db)\<rparr>"
      by (auto simp: Let_def split: if_split_asm sum.split_asm)
    with patched [OF findCredential_Inr [OF c]] show thesis by blast
  qed (rule same)
qed (rule same)

lemma deleteCredential_effect:
  "deleteCredential inUse user ws cid db = (db', r) \<Longrightarrow>
   db' = db \<or> db' = db\<lparr>credentials := deleteWhere (\<lambda>x. cr_id x = cid) (credentials db)\<rparr>"
  unfolding deleteCredential_def by (cases rule: guarded_cases) (auto split: sum.split_asm if_split_asm)


inductive credential_step :: "database \<Rightarrow> database \<Rightarrow> bool" where
  creates: "createCredential isUrl seal toBytes iv ring now cid user ws b db = (db', rc) \<Longrightarrow>
    cid \<notin> set (map cr_id (credentials db)) \<Longrightarrow> credential_step db db'"
| patches: "patchCredential isUrl seal toBytes iv ring user ws cid p db = (db', rp) \<Longrightarrow> credential_step db db'"
| deletes: "deleteCredential inUse user ws cid db = (db', rd) \<Longrightarrow> credential_step db db'"

lemma patchCredentialFields_keeps [simp]:
  "cr_id (patchCredentialFields p env c) = cr_id c"
  "sameSlot w q (patchCredentialFields p env c) = sameSlot w q c"
  "isDefault (patchCredentialFields p env c) = (cp_isDefault p \<or> isDefault c)"
  by (simp_all add: patchCredentialFields_def sameSlot_def)

lemma defaultsIn_patch_keep:
  "\<not> cp_isDefault p \<Longrightarrow> length (defaultsIn w q (updateWhere P (patchCredentialFields p env) cs)) = length (defaultsIn w q cs)"
  by (induction cs) (auto simp: defaultsIn_def)

text \<open>Making one row the default of a slot that has none.\<close>

lemma defaultsIn_promote:
  assumes "distinct (map cr_id cs)" "\<And>c. c \<in> set cs \<Longrightarrow> cr_id c = cid \<Longrightarrow> sameSlot wsid p c"
    and "defaultsIn wsid p cs = []" "\<And>w q. length (defaultsIn w q cs) \<le> 1"
  shows "length (defaultsIn w q (updateWhere (\<lambda>x. cr_id x = cid) (patchCredentialFields f env) cs)) \<le> 1"
  using assms
proof (cases "sameSlot w q = sameSlot wsid p")
  case True
  let ?u = "updateWhere (\<lambda>x. cr_id x = cid) (patchCredentialFields f env)"
  have "length (filter (\<lambda>c. sameSlot wsid p c \<and> isDefault c) (?u cs)) \<le> length (filter (\<lambda>c. cr_id c = cid) cs)"
    using assms(3) by (induction cs) (auto simp: defaultsIn_def split: if_split_asm)
  also have "\<dots> \<le> 1"
    using assms(1)
  proof (induction cs)
    case (Cons c cs)
    show ?case
    proof (cases "cr_id c = cid")
      case True
      with Cons.prems have "\<forall>d\<in>set cs. cr_id d \<noteq> cid" by (metis distinct.simps(2) image_eqI list.map(2) list.set_map)
      with True show ?thesis by simp
    qed (use Cons in simp)
  qed simp
  finally show ?thesis by (simp add: defaultsIn_def True)
next
  case False
  then have other: "\<not> sameSlot w q c" if "sameSlot wsid p c" for c using that by (auto simp: sameSlot_def fun_eq_iff)
  have "length (defaultsIn w q (updateWhere (\<lambda>x. cr_id x = cid) (patchCredentialFields f env) cs)) = length (defaultsIn w q cs)"
    using assms(2) by (induction cs) (auto simp: defaultsIn_def other)
  with assms(4) show ?thesis by simp
qed

lemma credentialsOk_step: "credential_step db db' \<Longrightarrow> credentialsOk db \<Longrightarrow> credentialsOk db'"
proof (induction rule: credential_step.induct)
  case (creates isUrl seal toBytes iv ring now cid user ws b db db' rc)
  from creates(1) show ?case
  proof (cases rule: createCredential_effect)
    case (created u wsid rl p env c)
    have "length (defaultsIn w q (credentials db')) \<le> 1" for w q
      using created(6,9,13) creates(3) defaultsIn_empty_slot [of wsid p "credentials db"]
      by (auto simp: credentialsOk_def defaultsIn_clear sameSlot_def)
    moreover have "map cr_id (credentials db') = map cr_id (credentials db) @ [cid]" using created(6,8) by simp
    ultimately show ?thesis using creates(2,3) unfolding credentialsOk_def by simp
  qed (use creates in simp)
next
  case (patches isUrl seal toBytes iv ring user ws cid p db db' rp)
  from patches(1) show ?case
  proof (cases rule: patchCredential_effect)
    case (patched c wsid env)
    let ?cs = "if cp_isDefault p then clearDefault wsid (cr_provider c) (credentials db) else credentials db"
    have ids: "map cr_id ?cs = map cr_id (credentials db)" by simp
    have "length (defaultsIn w q (credentials db')) \<le> 1" for w q
    proof (cases "cp_isDefault p")
      case True
      have "sameSlot wsid (cr_provider c) d" if "d \<in> set ?cs" "cr_id d = cid" for d
      proof -
        from that True obtain e where "e \<in> set (credentials db)" "cr_id e = cid" "sameSlot wsid (cr_provider c) d = sameSlot wsid (cr_provider c) e"
          by (auto simp: clearDefault_def updateWhere_cases split: if_split_asm)
        moreover have "e = c" using calculation(1,2) patched(1,2) patches(2) unfolding credentialsOk_def by (metis distinct_map inj_onD)
        ultimately show ?thesis using patched(3) by (simp add: sameSlot_def)
      qed
      moreover have "distinct (map cr_id ?cs)" using patches(2) ids unfolding credentialsOk_def by simp
      moreover have "length (defaultsIn w q ?cs) \<le> 1" for w q using patches(2) by (simp add: defaultsIn_clear credentialsOk_def)
      moreover have "defaultsIn wsid (cr_provider c) ?cs = []" using True by (simp add: defaultsIn_clear)
      ultimately show ?thesis using defaultsIn_promote [of ?cs cid wsid "cr_provider c"] patched(4) by simp
    next
      case False
      with patched(4) patches(2) show ?thesis by (simp add: credentialsOk_def defaultsIn_patch_keep)
    qed
    moreover have "map cr_id (credentials db') = map cr_id (credentials db)" using patched(4) by (simp add: updateWhere_keep)
    ultimately show ?thesis using patches(2) unfolding credentialsOk_def by simp
  qed (use patches in simp)
next
  case (deletes inUse user ws cid db db' rd)
  from deleteCredential_effect [OF deletes(1)] show ?case
  proof
    assume db': "db' = db\<lparr>credentials := deleteWhere (\<lambda>x. cr_id x = cid) (credentials db)\<rparr>"
    have fewer: "length (defaultsIn w q (deleteWhere P cs)) \<le> length (defaultsIn w q cs)" for w q P cs
      by (induction cs) (auto simp: defaultsIn_def deleteWhere_def)
    have "length (defaultsIn w q (credentials db')) \<le> 1" for w q
    proof -
      have "length (defaultsIn w q (credentials db')) \<le> length (defaultsIn w q (credentials db))" using fewer by (simp add: db')
      also have "\<dots> \<le> 1" using deletes(2) by (simp add: credentialsOk_def)
      finally show ?thesis .
    qed
    with deletes(2) db' show ?thesis by (auto simp: credentialsOk_def deleteWhere_def intro: distinct_map_filter)
  qed (use deletes in simp)
qed


lemma credentialsOk_steps: "credential_step\<^sup>*\<^sup>* db db' \<Longrightarrow> credentialsOk db \<Longrightarrow> credentialsOk db'"
  by (induction rule: rtranclp_induct) (auto intro: credentialsOk_step)

lemma one_default:
  assumes "credentialsOk db" "c \<in> set (credentials db)" "d \<in> set (credentials db)" "sameSlot wsid p c" "sameSlot wsid p d"
    and "isDefault c" "isDefault d"
  shows "d = c"
proof -
  have "c \<in> set (defaultsIn wsid p (credentials db))" "d \<in> set (defaultsIn wsid p (credentials db))"
    using assms by (auto simp: defaultsIn_def)
  moreover have "length (defaultsIn wsid p (credentials db)) \<le> 1" using assms(1) by (simp add: credentialsOk_def)
  ultimately show ?thesis by (cases "defaultsIn wsid p (credentials db)") auto
qed

text \<open>
  The gateway's query finds an active default for a key that is not pinned to credentials, or is pinned to it; and a key
  pinned to one credential alone is served that one, default or not.
\<close>

definition entitledTo :: "string list \<Rightarrow> credential \<Rightarrow> bool" where
  "entitledTo allow c \<longleftrightarrow> isDefault c \<and> (allow = [] \<or> cr_id c \<in> set allow) \<or> allow = [cr_id c]"

lemma entitled_chosen:
  assumes "credentialsOk db" "c \<in> set (credentials db)" "cr_status c = CredActive" "entitledTo allow c"
  shows "bestCredential (filter (credentialMatches (cr_workspaceId c) (cr_provider c) allow) (credentials db)) = Some c"
proof -
  let ?cs = "filter (credentialMatches (cr_workspaceId c) (cr_provider c) allow) (credentials db)"
  have c: "c \<in> set ?cs" using assms by (auto simp: credentialMatches_def entitledTo_def)
  then have "?cs \<noteq> []" by (metis list.set(1) empty_iff)
  then obtain d where d: "bestCredential ?cs = Some d" using bestCredential_None [of ?cs] by auto
  from bestCredential_Some [OF d] c have best: "d \<in> set ?cs" "preferred d c" by (auto simp: list_all_iff)
  then have mem: "d \<in> set (credentials db)" "sameSlot (cr_workspaceId c) (cr_provider c) d"
    by (auto simp: credentialMatches_def sameSlot_def)
  have "d = c"
  proof (cases "isDefault c")
    case True
    with best(2) have "isDefault d" by (simp add: preferred_def)
    with True mem one_default [OF assms(1,2)] show ?thesis by (simp add: sameSlot_def)
  next
    case False
    with assms(4) best(1) have "cr_id d = cr_id c" by (simp add: entitledTo_def credentialMatches_def)
    with mem(1) assms(1,2) show ?thesis unfolding credentialsOk_def by (metis distinct_map inj_onD)
  qed
  with d show ?thesis by simp
qed

text \<open>What the store answers once it has chosen a row.\<close>

definition rowSecret :: "credential \<Rightarrow> string option \<Rightarrow> credential_secret" where
  "rowSecret c s = \<lparr>cs_credentialId = cr_id c, cs_secret = s, cs_baseUrl = (if givenText (cr_baseUrl c) then cr_baseUrl c else None)\<rparr>"

lemma pgGetDefault_chosen:
  assumes "bestCredential (filter (credentialMatches ws p allow) creds) = Some c"
  shows "encryptedSecret c = None \<Longrightarrow> pgGetDefault unseal bts ring creds ws p allow = Inr (Some (rowSecret c None))"
    and "encryptedSecret c = Some env \<Longrightarrow> decryptSecret unseal env r = Inr bs \<Longrightarrow>
      pgGetDefault unseal bts (Some r) creds ws p allow = Inr (Some (rowSecret c (Some (bts bs))))"
  using assms by (simp_all add: pgGetDefault_def rowSecret_def Let_def givenText_def split: option.split)

text \<open>
  C18. The default credential is the one requests are sent with, unless their key is pinned to others. After any sequence of
  creations, edits and deletions there is at most one default per workspace and provider. While it is active,
  whatever other credentials the workspace has, the gateway's store answers for every key that is not pinned to credentials,
  or is pinned to that one among others, with the default: with its decrypted secret, or with none where it has none (an Ollama
  server needs none). For a key pinned to other credentials, it answers only with an active one of those, of the same
  workspace and provider.
\<close>

theorem default_credential_is_used:
  assumes "credential_step\<^sup>*\<^sup>* db0 db" "credentialsOk db0"
    and "c \<in> set (credentials db)" "isDefault c" "cr_status c = CredActive"
  shows "(\<forall>d\<in>set (credentials db). sameSlot (cr_workspaceId c) (cr_provider c) d \<longrightarrow> isDefault d \<longrightarrow> d = c)
    \<and> (if allow = [] \<or> cr_id c \<in> set allow
       then (encryptedSecret c = None \<longrightarrow>
              pgGetDefault unseal bts ring (credentials db) (cr_workspaceId c) (cr_provider c) allow = Inr (Some (rowSecret c None)))
         \<and> (\<forall>env r bs. encryptedSecret c = Some env \<longrightarrow> ring = Some r \<longrightarrow> decryptSecret unseal env r = Inr bs \<longrightarrow>
              pgGetDefault unseal bts ring (credentials db) (cr_workspaceId c) (cr_provider c) allow
                = Inr (Some (rowSecret c (Some (bts bs)))))
       else (\<forall>s. pgGetDefault unseal bts ring (credentials db) (cr_workspaceId c) (cr_provider c) allow = Inr (Some s) \<longrightarrow>
              (\<exists>d\<in>set (credentials db). cs_credentialId s = cr_id d \<and> cr_id d \<in> set allow
                 \<and> sameSlot (cr_workspaceId c) (cr_provider c) d \<and> cr_status d = CredActive)))"
proof -
  have ok: "credentialsOk db" by (rule credentialsOk_steps [OF assms(1,2)])
  have only: "\<forall>d\<in>set (credentials db). sameSlot (cr_workspaceId c) (cr_provider c) d \<longrightarrow> isDefault d \<longrightarrow> d = c"
    using one_default [OF ok assms(3)] assms(4) by (auto simp: sameSlot_def)
  show ?thesis
  proof (cases "allow = [] \<or> cr_id c \<in> set allow")
    case True
    then have "entitledTo allow c" using assms(4) by (simp add: entitledTo_def)
    from pgGetDefault_chosen [OF entitled_chosen [OF ok assms(3,5) this]] True only show ?thesis by auto
  next
    case False
    have "\<exists>d\<in>set (credentials db). cs_credentialId s = cr_id d \<and> cr_id d \<in> set allow
        \<and> sameSlot (cr_workspaceId c) (cr_provider c) d \<and> cr_status d = CredActive"
      if "pgGetDefault unseal bts ring (credentials db) (cr_workspaceId c) (cr_provider c) allow = Inr (Some s)" for s
      using pgGetDefault_eligible [OF that] False by (auto simp: credentialMatches_def sameSlot_def)
    with False only show ?thesis by simp
  qed
qed

text \<open>A second Anthropic credential is made the default.\<close>

definition second_credential :: credential where
  "second_credential = \<lparr>cr_id = ''c2'', cr_workspaceId = ''w1'', cr_provider = ANTHROPIC, cr_name = ''D'',
     encryptedSecret = Some (0 # replicate 12 7 @ [115, 107] @ replicate 16 0), secretLast4 = Some ''sk'', cr_baseUrl = None,
     cr_modelAllowlist = [], isDefault = False, cr_status = CredActive, cr_createdAt = 9\<rparr>"

definition two_db :: database where
  "two_db = demo_db\<lparr>credentials := credentials demo_db @ [second_credential]\<rparr>"

definition promote :: credential_patch where
  "promote = \<lparr>cp_status = None, cp_isDefault = True, cp_name = None, cp_secret = None, cp_baseUrl = None\<rparr>"

lemma promoted:
  "patchCredential (\<lambda>_. True) seal toBytes [] None (Some demo_user) ''acme'' ''c2'' promote two_db
   = (two_db\<lparr>credentials := [hd (credentials demo_db)\<lparr>isDefault := False\<rparr>, second_credential\<lparr>isDefault := True\<rparr>]\<rparr>,
      Inr (credentialView (second_credential\<lparr>isDefault := True\<rparr>)))"
  by (simp add: demo_defs two_db_def second_credential_def promote_def patchCredential_def guarded_def workspaceGuard_def
      guardMatches_def isUuid_def hasMinimumRole_def credentialPatchSchema_def secretOk_def findCredential_def givenText_def
      sealSecret_def clearDefault_def sameSlot_def patchCredentialFields_def orElse_def Let_def)

theorem default_credential_is_used_witness:
  "pgGetDefault (\<lambda>key iv c t. Some c) (map (\<lambda>x. char_of (unat x))) (Some [(0, [9])])
     [hd (credentials demo_db)\<lparr>isDefault := False\<rparr>, second_credential\<lparr>isDefault := True\<rparr>] ''w1'' ANTHROPIC [''c1'', ''c2'']
   = Inr (Some \<lparr>cs_credentialId = ''c2'', cs_secret = Some ''sk'', cs_baseUrl = None\<rparr>)"
proof -
  let ?db = "two_db\<lparr>credentials := [hd (credentials demo_db)\<lparr>isDefault := False\<rparr>, second_credential\<lparr>isDefault := True\<rparr>]\<rparr>"
  have 1: "credential_step\<^sup>*\<^sup>* two_db ?db"
    by (rule r_into_rtranclp) (rule patches [OF promoted])
  have 2: "credentialsOk two_db"
    by (simp add: credentialsOk_def two_db_def demo_defs second_credential_def defaultsIn_def sameSlot_def)
  have 3: "second_credential\<lparr>isDefault := True\<rparr> \<in> set (credentials ?db)" by simp
  have 4: "isDefault (second_credential\<lparr>isDefault := True\<rparr>)" "cr_status (second_credential\<lparr>isDefault := True\<rparr>) = CredActive"
    "encryptedSecret (second_credential\<lparr>isDefault := True\<rparr>) = Some (0 # replicate 12 7 @ [115, 107] @ replicate 16 0)"
    by (simp_all add: second_credential_def)
  have 5: "decryptSecret (\<lambda>key iv c t. Some c) (0 # replicate 12 7 @ [115, 107] @ replicate 16 0) [(0, [9])] = Inr [115, 107]"
    by (simp add: decryptSecret_def IV_LENGTH_def TAG_LENGTH_def Let_def numeral_eq_Suc)
  have 6: "map (\<lambda>x. char_of (unat x)) [115, 107 :: byte] = ''sk''" by code_simp
  have "pgGetDefault (\<lambda>key iv c t. Some c) (map (\<lambda>x. char_of (unat x))) (Some [(0, [9])]) (credentials ?db) ''w1'' ANTHROPIC [''c1'', ''c2'']
      = Inr (Some (rowSecret (second_credential\<lparr>isDefault := True\<rparr>) (Some (map (\<lambda>x. char_of (unat x)) [115, 107 :: byte]))))"
    using default_credential_is_used [OF 1 2 3 4(1,2), of "[''c1'', ''c2'']" "\<lambda>key iv c t. Some c" "map (\<lambda>x. char_of (unat x))" "Some [(0, [9])]"]
      4(3) 5 by (simp add: second_credential_def)
  then show ?thesis unfolding 6 by (simp add: rowSecret_def second_credential_def givenText_def)
qed

text \<open>
  C19. A stored secret reaches the provider unchanged. When an admin creates a credential with a secret, then in every
  later state in which its row is still there with the secret it was created with, and is active, the gateway's
  store answers with exactly that secret: for every key pinned to that credential alone, and, while it is the default, for
  every key that is not pinned or is pinned to it among others. It does so under any later key ring that still
  holds the key the secret was encrypted with, for every authenticated cipher. The new row is active, and the default when it
  was asked to be or is the first of its workspace and provider.
\<close>

theorem created_secret_is_served:
  assumes "\<And>key iv p. unseal key iv (fst (seal key iv p)) (snd (seal key iv p)) = Some p"
    "\<And>key iv p. length (snd (seal key iv p)) = TAG_LENGTH"
    "ring \<noteq> []" "list_all (\<lambda>(i, k). i < 256) ring" "length iv = IV_LENGTH"
    "map_of ring' (Max (set (map fst ring))) = map_of ring (Max (set (map fst ring)))"
    and "bytesToString (toBytes s) = s"
    and "credentialsOk db" "cid \<notin> set (map cr_id (credentials db))" "cb_secret b = Some s" "s \<noteq> []"
    and "createCredential isUrl seal toBytes iv (Some ring) now cid user ws b db = (db', Inr v)"
  shows "\<exists>u wsid rl c. user = Some u \<and> memberOf (wmembers db) (au_id u) wsid rl \<and> ADMIN \<le> rl
    \<and> c \<in> set (credentials db') \<and> cr_id c = cid \<and> sameSlot wsid (cv_provider v) c \<and> cr_status c = CredActive
    \<and> (isDefault c \<longleftrightarrow> cb_isDefault b \<or> countWhere (sameSlot wsid (cv_provider v)) (credentials db) = 0)
    \<and> (\<forall>db'' d allow. credential_step\<^sup>*\<^sup>* db' db'' \<longrightarrow> d \<in> set (credentials db'') \<longrightarrow> cr_id d = cid \<longrightarrow>
         sameSlot wsid (cv_provider v) d \<longrightarrow> cr_status d = CredActive \<longrightarrow> encryptedSecret d = encryptedSecret c \<longrightarrow> entitledTo allow d \<longrightarrow>
         pgGetDefault unseal bytesToString (Some ring') (credentials db'') wsid (cv_provider v) allow = Inr (Some (rowSecret d (Some s))))"
  using assms(12)
proof (cases rule: createCredential_effect)
  case (created u wsid rl p env c)
  from decrypt_encrypt [where unseal = unseal and seal = seal and plaintext = "toBytes s", OF assms(1-6)]
  obtain e where e: "encryptSecret seal iv (toBytes s) ring = Inr e" "decryptSecret unseal e ring' = Inr (toBytes s)" by blast
  with created(4,10) assms(10,11) have env: "encryptedSecret c = Some e" by (auto simp: sealSecret_def orElse_def)
  have ok: "credentialsOk db'" by (rule credentialsOk_step [OF creates [OF assms(12,9)] assms(8)])
  have p: "cv_provider v = p" using created(7,9) by (auto simp: sameSlot_def credentialView_def)
  have "pgGetDefault unseal bytesToString (Some ring') (credentials db'') wsid p allow = Inr (Some (rowSecret d (Some s)))"
    if "credential_step\<^sup>*\<^sup>* db' db''" "d \<in> set (credentials db'')" "sameSlot wsid p d" "cr_status d = CredActive"
      "encryptedSecret d = encryptedSecret c" "entitledTo allow d" for db'' d allow
    using pgGetDefault_chosen(2) [OF entitled_chosen [OF credentialsOk_steps [OF that(1) ok] that(2,4,6)], of e unseal ring' "toBytes s" bytesToString]
      that(3,5) env e(2) assms(7) by (simp add: sameSlot_def)
  moreover have "c \<in> set (credentials db')" using created(6) by auto
  ultimately show ?thesis using created(1,2,3,8,9,12,13) p
    by (intro exI [of _ u] exI [of _ wsid] exI [of _ rl] exI [of _ c]) simp
qed simp

theorem created_secret_is_served_witness:
  "\<exists>db' v wsid cred.
     createCredential (\<lambda>_. True) (\<lambda>key iv p. (p, replicate 16 0)) (map of_char) (replicate 12 7) (Some [(0, [9])]) 9 ''c9''
       (Some demo_user) ''acme'' \<lparr>cb_provider = ''OPENAI'', cb_name = ''E'', cb_secret = Some ''sk-live'', cb_baseUrl = None,
         cb_models = [], cb_isDefault = True\<rparr> demo_db = (db', Inr v)
     \<and> pgGetDefault (\<lambda>key iv c t. Some c) (map (\<lambda>x. char_of (unat x))) (Some [(1, [8]), (0, [9])]) (credentials db') wsid (cv_provider v) [] = Inr (Some cred)
     \<and> cs_secret cred = Some ''sk-live''"
proof -
  let ?b = "\<lparr>cb_provider = ''OPENAI'', cb_name = ''E'', cb_secret = Some ''sk-live'', cb_baseUrl = None, cb_models = [], cb_isDefault = True\<rparr>"
  have "providerOf ''OPENAI'' = Some OPENAI" by code_simp
  then obtain db' v where c: "createCredential (\<lambda>_. True) (\<lambda>key iv p. (p, replicate 16 0)) (map of_char) (replicate 12 7) (Some [(0, [9])]) 9 ''c9''
       (Some demo_user) ''acme'' ?b demo_db = (db', Inr v)"
    by (simp add: demo_defs createCredential_def guarded_def workspaceGuard_def guardMatches_def isUuid_def hasMinimumRole_def
        credentialSchema_def nameOk_def secretOk_def givenText_def sealSecret_def encryptSecret_def orElse_def Let_def)
  have 1: "length (snd (p, replicate 16 (0::byte))) = TAG_LENGTH" for p :: "byte list" by (simp add: TAG_LENGTH_def)
  have 2: "credentialsOk demo_db" by (simp add: credentialsOk_def demo_defs defaultsIn_def sameSlot_def)
  have 3: "map (\<lambda>x. char_of (unat x)) (map of_char ''sk-live'' :: byte list) = ''sk-live''" by code_simp
  obtain wsid d where d: "d \<in> set (credentials db')" "cr_id d = ''c9''" "sameSlot wsid (cv_provider v) d" "cr_status d = CredActive" "isDefault d"
    and served: "\<forall>db'' d' allow. credential_step\<^sup>*\<^sup>* db' db'' \<longrightarrow> d' \<in> set (credentials db'') \<longrightarrow> cr_id d' = ''c9'' \<longrightarrow>
         sameSlot wsid (cv_provider v) d' \<longrightarrow> cr_status d' = CredActive \<longrightarrow> encryptedSecret d' = encryptedSecret d \<longrightarrow> entitledTo allow d' \<longrightarrow>
         pgGetDefault (\<lambda>key iv c t. Some c) (map (\<lambda>x. char_of (unat x))) (Some [(1, [8]), (0, [9])]) (credentials db'') wsid (cv_provider v) allow
           = Inr (Some (rowSecret d' (Some ''sk-live'')))"
    using created_secret_is_served [where seal = "\<lambda>key iv p. (p, replicate 16 0)" and unseal = "\<lambda>key iv c t. Some c"
        and ring' = "[(1, [8]), (0, [9])]" and ring = "[(0, [9])]" and bytesToString = "map (\<lambda>x. char_of (unat x))" and toBytes = "map of_char"
        and s = "''sk-live''" and iv = "replicate 12 7" and b = ?b, OF _ 1 _ _ _ _ 3 2 _ _ _ c]
    by (auto simp: IV_LENGTH_def demo_db_def)
  have "entitledTo [] d" using d(5) by (simp add: entitledTo_def)
  with d served have "pgGetDefault (\<lambda>key iv c t. Some c) (map (\<lambda>x. char_of (unat x))) (Some [(1, [8]), (0, [9])]) (credentials db') wsid
      (cv_provider v) [] = Inr (Some (rowSecret d (Some ''sk-live'')))" by blast
  with c show ?thesis
    by (intro exI [of _ db'] exI [of _ v] exI [of _ wsid] exI [of _ "rowSecret d (Some ''sk-live'')"]) (simp add: rowSecret_def)
qed

end
