(* ===== verification/Teams.thy ===== *)
theory Teams
  imports Members Keys
begin

text \<open>
  The teams of a workspace (\<open>apps/api/src/modules/teams.ts\<close>): create, show, edit, delete, and their members. A team
  is managed by the workspace's admins and its own leads; the effects of every operation are collected
  in a case rule, from which \<open>Projects\<close> proves that no reference leaves its workspace.
\<close>

section \<open>Requests (teams.ts)\<close>

definition slugOk :: "string \<Rightarrow> bool" where
  "slugOk s \<longleftrightarrow> 2 \<le> length s \<and> length s \<le> 50 \<and> list_all (\<lambda>c. isSlugChar c \<or> c = CHR ''-'') s"

definition maxLen :: "nat \<Rightarrow> string option \<Rightarrow> bool" where
  "maxLen n x = (case x of None \<Rightarrow> True | Some s \<Rightarrow> length s \<le> n)"

record team_body =
  tb_name :: string
  tb_slug :: "string option"
  tb_description :: "string option"

definition teamSchema :: "team_body \<Rightarrow> bool" where
  "teamSchema b \<longleftrightarrow> 1 \<le> length (tb_name b) \<and> length (tb_name b) \<le> 100
     \<and> (case tb_slug b of None \<Rightarrow> True | Some s \<Rightarrow> slugOk s) \<and> maxLen 500 (tb_description b)"

text \<open>A patch: absent fields stay, a null description clears it.\<close>

record team_patch =
  tp_name :: "string option"
  tp_description :: "string option option"

definition teamPatchSchema :: "team_patch \<Rightarrow> bool" where
  "teamPatchSchema p \<longleftrightarrow>
     (case tp_name p of None \<Rightarrow> True | Some s \<Rightarrow> 1 \<le> length s \<and> length s \<le> 100)
     \<and> (case tp_description p of None \<Rightarrow> True | Some d \<Rightarrow> maxLen 500 d)"

definition teamRoleOf :: "string \<Rightarrow> team_role option" where
  "teamRoleOf s = (if s = ''LEAD'' then Some TEAM_LEAD else if s = ''MEMBER'' then Some TEAM_MEMBER else None)"

definition teamMemberSchema :: "(string \<Rightarrow> bool) \<Rightarrow> string \<Rightarrow> string option \<Rightarrow> team_role option" where
  "teamMemberSchema zUuid uid role =
     (if \<not> zUuid uid then None else case role of None \<Rightarrow> Some TEAM_MEMBER | Some s \<Rightarrow> teamRoleOf s)"

section \<open>Operations (teams.ts)\<close>

definition loadTeam :: "string \<Rightarrow> string \<Rightarrow> database \<Rightarrow> domain_error + team" where
  "loadTeam wsid tid db =
     (case find (\<lambda>t. tm_id t = tid \<and> tm_workspaceId t = wsid) (teams db) of
        None \<Rightarrow> Inl (NotFoundError ''Team'' (Some tid))
      | Some t \<Rightarrow> Inr t)"

definition canManageTeam :: "workspace_context \<Rightarrow> authed_user \<Rightarrow> string \<Rightarrow> database \<Rightarrow> bool" where
  "canManageTeam ctx u tid db \<longleftrightarrow>
     hasMinimumRole (ctx_role ctx) ADMIN
     \<or> list_ex (\<lambda>m. tmm_teamId m = tid \<and> tmm_userId m = au_id u \<and> tmm_role m = TEAM_LEAD) (teamMembers db)"

text \<open>\<open>loadTeam\<close>, then \<open>assertCanManageTeam\<close>.\<close>

definition managedTeam :: "workspace_context \<Rightarrow> authed_user \<Rightarrow> string \<Rightarrow> database \<Rightarrow> domain_error + team" where
  "managedTeam ctx u tid db =
     (case loadTeam (ctx_workspaceId ctx) tid db of
        Inl e \<Rightarrow> Inl e
      | Inr t \<Rightarrow>
          (if canManageTeam ctx u tid db then Inr t
           else Inl (ForbiddenError ''Only workspace admins or team leads can manage this team'')))"

text \<open>A team with the number of its members and projects.\<close>

definition listTeams ::
  "authed_user option \<Rightarrow> string \<Rightarrow> database \<Rightarrow> database \<times> (api_error + (team \<times> nat \<times> nat) list)" where
  "listTeams user ws db =
     guarded VIEWER user ws db (\<lambda>u ctx.
       (db, Inr (map (\<lambda>t. (t, countWhere (\<lambda>m. tmm_teamId m = tm_id t) (teamMembers db),
                             countWhere (\<lambda>p. pj_teamId p = Some (tm_id t)) (projects db)))
          (sort_key tm_createdAt (filter (\<lambda>t. tm_workspaceId t = ctx_workspaceId ctx) (teams db))))))"

definition createTeam ::
  "millis \<Rightarrow> string \<Rightarrow> authed_user option \<Rightarrow> string \<Rightarrow> team_body \<Rightarrow> database \<Rightarrow> database \<times> (api_error + team)" where
  "createTeam now tid user ws b db =
     guarded ADMIN user ws db (\<lambda>u ctx.
       (let wsid = ctx_workspaceId ctx; slug = orElse (tb_slug b) (slugify 50 ''team'' (tb_name b)) in
        if \<not> teamSchema b then (db, Inl ZodFailed)
        else if list_ex (\<lambda>t. tm_workspaceId t = wsid \<and> tm_slug t = slug) (teams db)
        then (db, Inl (Domain (ConflictError (''A team with slug '' @ sq @ slug @ sq @ '' already exists''))))
        else (let t = \<lparr>tm_id = tid, tm_workspaceId = wsid, tm_name = tb_name b, tm_slug = slug, tm_description = tb_description b,
                       tm_createdAt = now\<rparr>
              in (db\<lparr>teams := teams db @ [t]\<rparr>, Inr t))))"

text \<open>The team, its members with their users, and its active projects by name.\<close>

definition showTeam ::
  "(project \<Rightarrow> 'k::linorder) \<Rightarrow> authed_user option \<Rightarrow> string \<Rightarrow> string \<Rightarrow> database \<Rightarrow>
   database \<times> (api_error + team \<times> (user \<times> team_role \<times> millis) list \<times> project list)" where
  "showTeam byName user ws tid db =
     guarded VIEWER user ws db (\<lambda>u ctx.
       (db, case loadTeam (ctx_workspaceId ctx) tid db of
              Inl e \<Rightarrow> Inl (Domain e)
            | Inr t \<Rightarrow>
                Inr (t,
                  [(x, tmm_role m, tmm_createdAt m). m \<leftarrow> sort_key tmm_createdAt (filter (\<lambda>m. tmm_teamId m = tid) (teamMembers db)),
                     x \<leftarrow> users db, us_id x = tmm_userId m],
                  sort_key byName (filter (\<lambda>p. pj_teamId p = Some tid \<and> pj_status p = ProjectActive) (projects db)))))"

definition patchTeamFields :: "team_patch \<Rightarrow> team \<Rightarrow> team" where
  "patchTeamFields p t =
     t\<lparr>tm_name := orElse (tp_name p) (tm_name t), tm_description := orElse (tp_description p) (tm_description t)\<rparr>"

definition patchTeam ::
  "authed_user option \<Rightarrow> string \<Rightarrow> string \<Rightarrow> team_patch \<Rightarrow> database \<Rightarrow> database \<times> (api_error + team)" where
  "patchTeam user ws tid p db =
     guarded VIEWER user ws db (\<lambda>u ctx.
       (case managedTeam ctx u tid db of
          Inl e \<Rightarrow> (db, Inl (Domain e))
        | Inr t \<Rightarrow>
            (if \<not> teamPatchSchema p then (db, Inl ZodFailed)
             else (db\<lparr>teams := updateWhere (\<lambda>x. tm_id x = tid) (patchTeamFields p) (teams db)\<rparr>, Inr (patchTeamFields p t)))))"

text \<open>The members go with the team; its projects lose their owner.\<close>

definition deleteTeam :: "authed_user option \<Rightarrow> string \<Rightarrow> string \<Rightarrow> database \<Rightarrow> database \<times> (api_error + unit)" where
  "deleteTeam user ws tid db =
     guarded ADMIN user ws db (\<lambda>u ctx.
       (case loadTeam (ctx_workspaceId ctx) tid db of
          Inl e \<Rightarrow> (db, Inl (Domain e))
        | Inr t \<Rightarrow>
            (db\<lparr>teams := deleteWhere (\<lambda>x. tm_id x = tid) (teams db),
                teamMembers := deleteWhere (\<lambda>m. tmm_teamId m = tid) (teamMembers db),
                projects := updateWhere (\<lambda>p. pj_teamId p = Some tid) (\<lambda>p. p\<lparr>pj_teamId := None\<rparr>) (projects db)\<rparr>, Inr ())))"

definition isTeamMember :: "string \<Rightarrow> string \<Rightarrow> team_member \<Rightarrow> bool" where
  "isTeamMember tid uid m \<longleftrightarrow> tmm_teamId m = tid \<and> tmm_userId m = uid"

definition addTeamMember ::
  "(string \<Rightarrow> bool) \<Rightarrow> millis \<Rightarrow> authed_user option \<Rightarrow> string \<Rightarrow> string \<Rightarrow> string \<times> string option \<Rightarrow> database \<Rightarrow>
   database \<times> (api_error + team_member)" where
  "addTeamMember zUuid now user ws tid body0 db =
     guarded VIEWER user ws db (\<lambda>u ctx.
       (case managedTeam ctx u tid db of
          Inl e \<Rightarrow> (db, Inl (Domain e))
        | Inr t \<Rightarrow>
            (case teamMemberSchema zUuid (fst body0) (snd body0) of
               None \<Rightarrow> (db, Inl ZodFailed)
             | Some r \<Rightarrow>
                 (let uid = fst body0 in
                  if \<not> list_ex (isMember (ctx_workspaceId ctx) uid) (wmembers db)
                  then (db, Inl (Domain (NotFoundError ''Workspace member'' (Some uid))))
                  else if list_ex (isTeamMember tid uid) (teamMembers db)
                  then (db, Inl (Domain (ConflictError ''User is already a member of this team'')))
                  else (let m = \<lparr>tmm_teamId = tid, tmm_userId = uid, tmm_role = r, tmm_createdAt = now\<rparr>
                        in (db\<lparr>teamMembers := teamMembers db @ [m]\<rparr>, Inr m))))))"

definition setTeamRole ::
  "authed_user option \<Rightarrow> string \<Rightarrow> string \<Rightarrow> string \<Rightarrow> string \<Rightarrow> database \<Rightarrow> database \<times> (api_error + team_role)" where
  "setTeamRole user ws tid uid role db =
     guarded VIEWER user ws db (\<lambda>u ctx.
       (case managedTeam ctx u tid db of
          Inl e \<Rightarrow> (db, Inl (Domain e))
        | Inr t \<Rightarrow>
            (case teamRoleOf role of
               None \<Rightarrow> (db, Inl ZodFailed)
             | Some r \<Rightarrow>
                 (if \<not> list_ex (isTeamMember tid uid) (teamMembers db)
                  then (db, Inl (Domain (NotFoundError ''Team member'' (Some uid))))
                  else (db\<lparr>teamMembers := updateWhere (isTeamMember tid uid) (\<lambda>m. m\<lparr>tmm_role := r\<rparr>) (teamMembers db)\<rparr>, Inr r)))))"

definition removeTeamMember ::
  "authed_user option \<Rightarrow> string \<Rightarrow> string \<Rightarrow> string \<Rightarrow> database \<Rightarrow> database \<times> (api_error + unit)" where
  "removeTeamMember user ws tid uid db =
     guarded VIEWER user ws db (\<lambda>u ctx.
       (case managedTeam ctx u tid db of
          Inl e \<Rightarrow> (db, Inl (Domain e))
        | Inr t \<Rightarrow>
            (if countWhere (isTeamMember tid uid) (teamMembers db) = 0
             then (db, Inl (Domain (NotFoundError ''Team member'' (Some uid))))
             else (db\<lparr>teamMembers := deleteWhere (isTeamMember tid uid) (teamMembers db)\<rparr>, Inr ()))))"


section \<open>What the operations write\<close>

lemma loadTeam_Inr:
  assumes "loadTeam wsid tid db = Inr t"
  shows "t \<in> set (teams db)" "tm_id t = tid" "tm_workspaceId t = wsid"
proof -
  from assms have "find (\<lambda>t. tm_id t = tid \<and> tm_workspaceId t = wsid) (teams db) = Some t"
    by (auto simp: loadTeam_def split: option.split_asm)
  from find_SomeD [OF this] show "t \<in> set (teams db)" "tm_id t = tid" "tm_workspaceId t = wsid" by auto
qed

lemma managedTeam_Inr:
  "managedTeam ctx u tid db = Inr t \<Longrightarrow> loadTeam (ctx_workspaceId ctx) tid db = Inr t \<and> canManageTeam ctx u tid db"
  by (auto simp: managedTeam_def split: sum.split_asm if_split_asm)

text \<open>Who may change a team: an admin of its workspace, or a lead of the team who is a member of the workspace.\<close>

definition mayManage :: "database \<Rightarrow> authed_user option \<Rightarrow> string \<Rightarrow> bool" where
  "mayManage db user tid \<longleftrightarrow>
     (\<exists>u t rl. user = Some u \<and> t \<in> set (teams db) \<and> tm_id t = tid \<and> memberOf (wmembers db) (au_id u) (tm_workspaceId t) rl
        \<and> (ADMIN \<le> rl \<or> list_ex (\<lambda>m. tmm_teamId m = tid \<and> tmm_userId m = au_id u \<and> tmm_role m = TEAM_LEAD) (teamMembers db)))"

lemma managedTeam_mayManage:
  assumes "managedTeam ctx u tid db = Inr t" "memberOf (wmembers db) (au_id u) (ctx_workspaceId ctx) (ctx_role ctx)"
  shows "mayManage db (Some u) tid"
proof -
  from managedTeam_Inr [OF assms(1)] have l: "loadTeam (ctx_workspaceId ctx) tid db = Inr t"
    and m: "ADMIN \<le> ctx_role ctx \<or> list_ex (\<lambda>m. tmm_teamId m = tid \<and> tmm_userId m = au_id u \<and> tmm_role m = TEAM_LEAD) (teamMembers db)"
    by (auto simp: canManageTeam_def hasMinimumRole_iff)
  show ?thesis
    unfolding mayManage_def using loadTeam_Inr [OF l] m assms(2)
    by (intro exI [of _ u] exI [of _ t] exI [of _ "ctx_role ctx"]) simp
qed

lemma loadTeam_mayManage:
  assumes "loadTeam (ctx_workspaceId ctx) tid db = Inr t" "memberOf (wmembers db) (au_id u) (ctx_workspaceId ctx) (ctx_role ctx)"
    "ADMIN \<le> ctx_role ctx"
  shows "mayManage db (Some u) tid"
  unfolding mayManage_def using loadTeam_Inr [OF assms(1)] assms(2,3)
  by (intro exI [of _ u] exI [of _ t] exI [of _ "ctx_role ctx"]) simp

lemma createTeam_effect:
  assumes "createTeam now tid user ws b db = (db', r)"
  obtains (same) "db' = db"
  | (created) t where "db' = db\<lparr>teams := teams db @ [t]\<rparr>" "tm_id t = tid"
      "(tm_workspaceId t, tm_slug t) \<notin> set (map (\<lambda>t. (tm_workspaceId t, tm_slug t)) (teams db))"
  using assms unfolding createTeam_def
proof (cases rule: guarded_cases)
  case (admitted u ctx)
  let ?slug = "orElse (tb_slug b) (slugify 50 ''team'' (tb_name b))"
  show thesis
  proof (cases "teamSchema b \<and> \<not> list_ex (\<lambda>t. tm_workspaceId t = ctx_workspaceId ctx \<and> tm_slug t = ?slug) (teams db)")
    case True
    let ?t = "\<lparr>tm_id = tid, tm_workspaceId = ctx_workspaceId ctx, tm_name = tb_name b, tm_slug = ?slug, tm_description = tb_description b,
       tm_createdAt = now\<rparr>"
    from True admitted(4) have "db' = db\<lparr>teams := teams db @ [?t]\<rparr>" by (simp add: Let_def)
    moreover have "(tm_workspaceId ?t, tm_slug ?t) \<notin> set (map (\<lambda>t. (tm_workspaceId t, tm_slug t)) (teams db))"
      using True by (auto simp: list_ex_iff)
    ultimately show thesis by (intro created [of ?t]) simp_all
  next
    case False
    with admitted(4) same show thesis by (auto simp: Let_def split: if_split_asm)
  qed
qed (use same in simp)

lemma patchTeam_effect:
  assumes "patchTeam user ws tid p db = (db', r)" "db' \<noteq> db"
  shows "mayManage db user tid \<and> db' = db\<lparr>teams := updateWhere (\<lambda>x. tm_id x = tid) (patchTeamFields p) (teams db)\<rparr>"
  using assms(1) unfolding patchTeam_def
proof (cases rule: guarded_cases)
  case (admitted u ctx)
  with assms(2) obtain t where "managedTeam ctx u tid db = Inr t" by (auto split: sum.split_asm)
  with admitted assms(2) managedTeam_mayManage [OF this admitted(2)] show ?thesis by (auto split: if_split_asm)
qed (use assms(2) in simp)

lemma deleteTeam_effect:
  assumes "deleteTeam user ws tid db = (db', r)" "db' \<noteq> db"
  shows "mayManage db user tid \<and> db' = db\<lparr>teams := deleteWhere (\<lambda>x. tm_id x = tid) (teams db),
                teamMembers := deleteWhere (\<lambda>m. tmm_teamId m = tid) (teamMembers db),
                projects := updateWhere (\<lambda>p. pj_teamId p = Some tid) (\<lambda>p. p\<lparr>pj_teamId := None\<rparr>) (projects db)\<rparr>"
  using assms(1) unfolding deleteTeam_def
proof (cases rule: guarded_cases)
  case (admitted u ctx)
  with assms(2) obtain t where "loadTeam (ctx_workspaceId ctx) tid db = Inr t" by (auto split: sum.split_asm)
  with admitted loadTeam_mayManage [OF this admitted(2,3)] show ?thesis by auto
qed (use assms(2) in simp)

text \<open>Adding, changing and removing a member only touch the member table.\<close>

lemma teamMember_effects:
  assumes "addTeamMember zUuid now user ws tid body db = (db', ra) \<or> setTeamRole user ws tid uid role db = (db', rs)
      \<or> removeTeamMember user ws tid uid db = (db', rr)" "db' \<noteq> db"
  shows "mayManage db user tid \<and> (\<exists>ms. db' = db\<lparr>teamMembers := ms\<rparr>)"
  using assms(1)
proof (elim disjE)
  assume "addTeamMember zUuid now user ws tid body db = (db', ra)"
  then show ?thesis unfolding addTeamMember_def
  proof (cases rule: guarded_cases)
    case (admitted u ctx)
    with assms(2) obtain t where "managedTeam ctx u tid db = Inr t" by (auto split: sum.split_asm)
    with admitted assms(2) managedTeam_mayManage [OF this admitted(2)] show ?thesis
      by (auto simp: Let_def split: if_split_asm option.split_asm)
  qed (use assms(2) in simp)
next
  assume "setTeamRole user ws tid uid role db = (db', rs)"
  then show ?thesis unfolding setTeamRole_def
  proof (cases rule: guarded_cases)
    case (admitted u ctx)
    with assms(2) obtain t where "managedTeam ctx u tid db = Inr t" by (auto split: sum.split_asm)
    with admitted assms(2) managedTeam_mayManage [OF this admitted(2)] show ?thesis
      by (auto split: if_split_asm option.split_asm)
  qed (use assms(2) in simp)
next
  assume "removeTeamMember user ws tid uid db = (db', rr)"
  then show ?thesis unfolding removeTeamMember_def
  proof (cases rule: guarded_cases)
    case (admitted u ctx)
    with assms(2) obtain t where "managedTeam ctx u tid db = Inr t" by (auto split: sum.split_asm)
    with admitted assms(2) managedTeam_mayManage [OF this admitted(2)] show ?thesis by (auto split: if_split_asm)
  qed (use assms(2) in simp)
qed

inductive team_step :: "database \<Rightarrow> database \<Rightarrow> bool" where
  creates: "createTeam now tid user ws b db = (db', rc) \<Longrightarrow> tid \<notin> set (map tm_id (teams db)) \<Longrightarrow> team_step db db'"
| patches: "patchTeam user ws tid p db = (db', rp) \<Longrightarrow> team_step db db'"
| deletes: "deleteTeam user ws tid db = (db', rd) \<Longrightarrow> team_step db db'"
| adds: "addTeamMember zUuid now user ws tid body db = (db', ra) \<Longrightarrow> team_step db db'"
| sets: "setTeamRole user ws tid uid role db = (db', rs) \<Longrightarrow> team_step db db'"
| removes_member: "removeTeamMember user ws tid uid db = (db', rr) \<Longrightarrow> team_step db db'"

lemma team_step_cases:
  assumes "team_step db db'"
  obtains (same) "db' = db"
  | (create) t where "db' = db\<lparr>teams := teams db @ [t]\<rparr>" "tm_id t \<notin> set (map tm_id (teams db))"
      "(tm_workspaceId t, tm_slug t) \<notin> set (map (\<lambda>t. (tm_workspaceId t, tm_slug t)) (teams db))"
  | (patch) tid p where "db' = db\<lparr>teams := updateWhere (\<lambda>x. tm_id x = tid) (patchTeamFields p) (teams db)\<rparr>"
  | (delete) tid where "db' = db\<lparr>teams := deleteWhere (\<lambda>x. tm_id x = tid) (teams db),
        teamMembers := deleteWhere (\<lambda>m. tmm_teamId m = tid) (teamMembers db),
        projects := updateWhere (\<lambda>p. pj_teamId p = Some tid) (\<lambda>p. p\<lparr>pj_teamId := None\<rparr>) (projects db)\<rparr>"
  | (members) ms where "db' = db\<lparr>teamMembers := ms\<rparr>"
proof (cases "db' = db")
  case True
  then show thesis by (rule same)
next
  case False
  from assms show thesis
  proof cases
    case (creates now tid user ws b rc)
    from creates(1) show thesis by (cases rule: createTeam_effect) (use False creates(2) create in auto)
  next
    case (patches user ws tid p rp)
    with patchTeam_effect [OF this False] patch show thesis by blast
  next
    case (deletes user ws tid rd)
    with deleteTeam_effect [OF this False] delete show thesis by blast
  next
    case (adds zUuid now user ws tid body ra)
    with teamMember_effects [OF disjI1 [OF this] False] members show thesis by blast
  next
    case (sets user ws tid uid role rs)
    with teamMember_effects [OF disjI2 [OF disjI1 [OF this]] False] members show thesis by blast
  next
    case (removes_member user ws tid uid rr)
    with teamMember_effects [OF disjI2 [OF disjI2 [OF this]] False] members show thesis by blast
  qed
qed

end
