(* ===== verification/Projects.thy ===== *)
theory Projects
  imports Teams
begin

text \<open>
  The projects of a workspace (\<open>apps/api/src/modules/org.ts\<close>): list, create, edit, archive, delete. Together with
  the operations on teams and keys they are shown to keep every reference inside its workspace, so
  that what the gateway attributes a request to never belongs to another tenant.
\<close>

section \<open>Requests (org.ts)\<close>

record project_body =
  pb_name :: string
  pb_slug :: "string option"
  pb_teamId :: "string option"
  pb_description :: "string option"
  pb_tags :: "string list"

definition tagsOk :: "string list \<Rightarrow> bool" where
  "tagsOk ts \<longleftrightarrow> list_all (\<lambda>t. length t \<le> 40) ts \<and> length ts \<le> 20"

definition projectSchema :: "(string \<Rightarrow> bool) \<Rightarrow> project_body \<Rightarrow> bool" where
  "projectSchema zUuid b \<longleftrightarrow>
     1 \<le> length (pb_name b) \<and> length (pb_name b) \<le> 100 \<and> (case pb_slug b of None \<Rightarrow> True | Some s \<Rightarrow> slugOk s)
     \<and> (case pb_teamId b of None \<Rightarrow> True | Some t \<Rightarrow> zUuid t) \<and> maxLen 500 (pb_description b) \<and> tagsOk (pb_tags b)"

definition projectStatusOf :: "string \<Rightarrow> project_status option" where
  "projectStatusOf s = (if s = ''ACTIVE'' then Some ProjectActive else if s = ''ARCHIVED'' then Some Archived else None)"

text \<open>A patch: a null team detaches the project, a null description clears it.\<close>

record project_patch =
  pp_name :: "string option"
  pp_teamId :: "string option option"
  pp_description :: "string option option"
  pp_tags :: "string list option"
  pp_status :: "string option"

definition projectPatchSchema :: "(string \<Rightarrow> bool) \<Rightarrow> project_patch \<Rightarrow> bool" where
  "projectPatchSchema zUuid p \<longleftrightarrow>
     (case pp_name p of None \<Rightarrow> True | Some s \<Rightarrow> 1 \<le> length s \<and> length s \<le> 100)
     \<and> (case pp_teamId p of Some (Some t) \<Rightarrow> zUuid t | _ \<Rightarrow> True)
     \<and> (case pp_description p of None \<Rightarrow> True | Some d \<Rightarrow> maxLen 500 d)
     \<and> (case pp_tags p of None \<Rightarrow> True | Some ts \<Rightarrow> tagsOk ts)
     \<and> (case pp_status p of None \<Rightarrow> True | Some s \<Rightarrow> projectStatusOf s \<noteq> None)"

section \<open>Operations (org.ts)\<close>

definition listProjects ::
  "authed_user option \<Rightarrow> string \<Rightarrow> string option \<Rightarrow> database \<Rightarrow> database \<times> (api_error + project list)" where
  "listProjects user ws query db =
     guarded VIEWER user ws db (\<lambda>u ctx.
       (db, case projectStatusOf (orElse query ''ACTIVE'') of
              None \<Rightarrow> Inl ZodFailed
            | Some st \<Rightarrow> Inr (sort_key (\<lambda>p. - pj_createdAt p)
                (filter (\<lambda>p. pj_workspaceId p = ctx_workspaceId ctx \<and> pj_status p = st) (projects db)))))"

text \<open>\<open>if (teamId) { ... }\<close>: a team that is named must be one of the workspace.\<close>

definition teamGiven :: "string \<Rightarrow> string option \<Rightarrow> database \<Rightarrow> domain_error + unit" where
  "teamGiven wsid x db =
     (case x of
        None \<Rightarrow> Inr ()
      | Some tid \<Rightarrow>
          (if tid = [] then Inr () else case loadTeam wsid tid db of Inl e \<Rightarrow> Inl e | Inr t \<Rightarrow> Inr ()))"

definition createProject ::
  "(string \<Rightarrow> bool) \<Rightarrow> millis \<Rightarrow> string \<Rightarrow> authed_user option \<Rightarrow> string \<Rightarrow> project_body \<Rightarrow> database \<Rightarrow>
   database \<times> (api_error + project)" where
  "createProject zUuid now pid user ws b db =
     guarded ADMIN user ws db (\<lambda>u ctx.
       (let wsid = ctx_workspaceId ctx; slug = orElse (pb_slug b) (slugify 50 ''project'' (pb_name b)) in
        if \<not> projectSchema zUuid b then (db, Inl ZodFailed)
        else case teamGiven wsid (pb_teamId b) db of
               Inl e \<Rightarrow> (db, Inl (Domain e))
             | Inr _ \<Rightarrow>
                 (if list_ex (\<lambda>p. pj_workspaceId p = wsid \<and> pj_slug p = slug) (projects db)
                  then (db, Inl (Domain (ValidationError (''A project with slug '' @ sq @ slug @ sq @ '' already exists''))))
                  else (let p = \<lparr>pj_id = pid, pj_workspaceId = wsid, pj_teamId = pb_teamId b, pj_name = pb_name b, pj_slug = slug,
                                 pj_description = pb_description b, pj_tags = pb_tags b, pj_status = ProjectActive, pj_createdAt = now\<rparr>
                        in (db\<lparr>projects := projects db @ [p]\<rparr>, Inr p)))))"

definition findProject :: "string \<Rightarrow> string \<Rightarrow> database \<Rightarrow> domain_error + project" where
  "findProject wsid pid db =
     (case find (\<lambda>p. pj_id p = pid \<and> pj_workspaceId p = wsid) (projects db) of
        None \<Rightarrow> Inl (NotFoundError ''Project'' (Some pid))
      | Some p \<Rightarrow> Inr p)"

definition patchProjectFields :: "project_patch \<Rightarrow> project \<Rightarrow> project" where
  "patchProjectFields x p =
     p\<lparr>pj_name := orElse (pp_name x) (pj_name p), pj_teamId := orElse (pp_teamId x) (pj_teamId p),
       pj_description := orElse (pp_description x) (pj_description p), pj_tags := orElse (pp_tags x) (pj_tags p),
       pj_status := (case pp_status x of None \<Rightarrow> pj_status p | Some s \<Rightarrow> orElse (projectStatusOf s) (pj_status p))\<rparr>"

definition patchProject ::
  "(string \<Rightarrow> bool) \<Rightarrow> authed_user option \<Rightarrow> string \<Rightarrow> string \<Rightarrow> project_patch \<Rightarrow> database \<Rightarrow> database \<times> (api_error + project)" where
  "patchProject zUuid user ws pid x db =
     guarded ADMIN user ws db (\<lambda>u ctx.
       (if \<not> projectPatchSchema zUuid x then (db, Inl ZodFailed)
        else case findProject (ctx_workspaceId ctx) pid db of
               Inl e \<Rightarrow> (db, Inl (Domain e))
             | Inr p \<Rightarrow>
                 (case teamGiven (ctx_workspaceId ctx) (orElse (pp_teamId x) None) db of
                    Inl e \<Rightarrow> (db, Inl (Domain e))
                  | Inr _ \<Rightarrow>
                      (db\<lparr>projects := updateWhere (\<lambda>y. pj_id y = pid) (patchProjectFields x) (projects db)\<rparr>,
                       Inr (patchProjectFields x p)))))"

text \<open>\<open>usage\<close> is the number of stored events of a project.\<close>

definition deleteProject ::
  "(string \<Rightarrow> nat) \<Rightarrow> authed_user option \<Rightarrow> string \<Rightarrow> string \<Rightarrow> database \<Rightarrow> database \<times> (api_error + unit)" where
  "deleteProject usage user ws pid db =
     guarded ADMIN user ws db (\<lambda>u ctx.
       (case findProject (ctx_workspaceId ctx) pid db of
          Inl e \<Rightarrow> (db, Inl (Domain e))
        | Inr p \<Rightarrow>
            (if 0 < usage pid
             then (db, Inl (Domain (ValidationError (''This project has recorded usage '' @ emDash @ '' archive it instead of deleting, to preserve the history''))))
             else (db\<lparr>virtualKeys := deleteWhere (\<lambda>k. vk_projectId k = pid) (virtualKeys db),
                      projects := deleteWhere (\<lambda>y. pj_id y = pid) (projects db)\<rparr>, Inr ()))))"

section \<open>What the operations write\<close>

lemma findProject_Inr:
  assumes "findProject wsid pid db = Inr p"
  shows "p \<in> set (projects db)" "pj_id p = pid" "pj_workspaceId p = wsid"
proof -
  from assms have "find (\<lambda>p. pj_id p = pid \<and> pj_workspaceId p = wsid) (projects db) = Some p"
    by (auto simp: findProject_def split: option.split_asm)
  from find_SomeD [OF this] show "p \<in> set (projects db)" "pj_id p = pid" "pj_workspaceId p = wsid" by auto
qed

lemma teamGiven_Inr:
  assumes "teamGiven wsid x db = Inr ()" "x = Some tid" "tid \<noteq> []"
  obtains t where "t \<in> set (teams db)" "tm_id t = tid" "tm_workspaceId t = wsid"
  using assms loadTeam_Inr [of wsid tid db] that by (auto simp: teamGiven_def split: sum.split_asm)

lemma createProject_effect:
  assumes "createProject zUuid now pid user ws b db = (db', r)"
  obtains (same) "db' = db"
  | (created) p where "db' = db\<lparr>projects := projects db @ [p]\<rparr>" "pj_id p = pid"
      "(pj_workspaceId p, pj_slug p) \<notin> set (map (\<lambda>p. (pj_workspaceId p, pj_slug p)) (projects db))"
      "teamGiven (pj_workspaceId p) (pj_teamId p) db = Inr ()"
  using assms unfolding createProject_def
proof (cases rule: guarded_cases)
  case (admitted u ctx)
  let ?slug = "orElse (pb_slug b) (slugify 50 ''project'' (pb_name b))"
  let ?ex = "list_ex (\<lambda>p. pj_workspaceId p = ctx_workspaceId ctx \<and> pj_slug p = ?slug) (projects db)"
  show thesis
  proof (cases "projectSchema zUuid b \<and> teamGiven (ctx_workspaceId ctx) (pb_teamId b) db = Inr () \<and> \<not> ?ex")
    case True
    let ?p = "\<lparr>pj_id = pid, pj_workspaceId = ctx_workspaceId ctx, pj_teamId = pb_teamId b, pj_name = pb_name b, pj_slug = ?slug,
      pj_description = pb_description b, pj_tags = pb_tags b, pj_status = ProjectActive, pj_createdAt = now\<rparr>"
    from True admitted(4) have "db' = db\<lparr>projects := projects db @ [?p]\<rparr>" by (simp add: Let_def)
    moreover have "(pj_workspaceId ?p, pj_slug ?p) \<notin> set (map (\<lambda>p. (pj_workspaceId p, pj_slug p)) (projects db))"
      using True by (auto simp: list_ex_iff)
    ultimately show thesis using True by (intro created [of ?p]) simp_all
  next
    case False
    with admitted(4) same show thesis by (auto simp: Let_def split: if_split_asm sum.split_asm)
  qed
qed (use same in simp)

lemma patchProject_effect:
  assumes "patchProject zUuid user ws pid x db = (db', r)"
  obtains (same) "db' = db"
  | (patched) p wsid where "p \<in> set (projects db)" "pj_id p = pid" "pj_workspaceId p = wsid"
      "teamGiven wsid (orElse (pp_teamId x) None) db = Inr ()"
      "db' = db\<lparr>projects := updateWhere (\<lambda>y. pj_id y = pid) (patchProjectFields x) (projects db)\<rparr>" "projectPatchSchema zUuid x"
  using assms unfolding patchProject_def
proof (cases rule: guarded_cases)
  case (admitted u ctx)
  show thesis
  proof (cases "db' = db")
    case False
    with admitted(4) obtain p where p: "findProject (ctx_workspaceId ctx) pid db = Inr p" by (auto split: if_split_asm sum.split_asm)
    with admitted(4) False patched [OF findProject_Inr [OF p]] show thesis by (auto split: if_split_asm sum.split_asm)
  qed (rule same)
qed (use same in simp)

lemma deleteProject_effect:
  "deleteProject usage user ws pid db = (db', r) \<Longrightarrow>
   db' = db \<or> db' = db\<lparr>virtualKeys := deleteWhere (\<lambda>k. vk_projectId k = pid) (virtualKeys db),
                      projects := deleteWhere (\<lambda>y. pj_id y = pid) (projects db)\<rparr>"
  unfolding deleteProject_def by (cases rule: guarded_cases) (auto split: sum.split_asm if_split_asm)


inductive org_step :: "database \<Rightarrow> database \<Rightarrow> bool" where
  team: "team_step db db' \<Longrightarrow> org_step db db'"
| key: "key_step db db' \<Longrightarrow> org_step db db'"
| creates_project: "createProject zUuid now pid user ws b db = (db', rc) \<Longrightarrow> pid \<notin> set (map pj_id (projects db)) \<Longrightarrow> org_step db db'"
| patches_project: "patchProject zUuid user ws pid x db = (db', rp) \<Longrightarrow> org_step db db'"
| deletes_project: "deleteProject usage user ws pid db = (db', rd) \<Longrightarrow> org_step db db'"

section \<open>No reference leaves its workspace\<close>

definition teamRef :: "team list \<Rightarrow> project \<Rightarrow> bool" where
  "teamRef ts p \<longleftrightarrow>
     (case pj_teamId p of
        None \<Rightarrow> True
      | Some t \<Rightarrow> t = [] \<or> list_ex (\<lambda>x. tm_id x = t \<and> tm_workspaceId x = pj_workspaceId p) ts)"

definition projectRef :: "project list \<Rightarrow> virtual_key \<Rightarrow> bool" where
  "projectRef ps k \<longleftrightarrow> list_ex (\<lambda>p. pj_id p = vk_projectId k \<and> pj_workspaceId p = vk_workspaceId k) ps"

definition teamSlug :: "team \<Rightarrow> string \<times> string" where "teamSlug t = (tm_workspaceId t, tm_slug t)"
definition projectSlug :: "project \<Rightarrow> string \<times> string" where "projectSlug p = (pj_workspaceId p, pj_slug p)"

definition orgOk :: "database \<Rightarrow> bool" where
  "orgOk db \<longleftrightarrow> distinct (map tm_id (teams db)) \<and> distinct (map teamSlug (teams db))
     \<and> distinct (map pj_id (projects db)) \<and> distinct (map projectSlug (projects db))
     \<and> list_all (teamRef (teams db)) (projects db) \<and> list_all (projectRef (projects db)) (virtualKeys db)"

lemma teamRef_mono: "teamRef ts p \<Longrightarrow> set ts \<subseteq> set us \<Longrightarrow> teamRef us p"
  by (auto simp: teamRef_def list_ex_iff split: option.splits)

lemma projectRef_mono: "projectRef ps k \<Longrightarrow> set ps \<subseteq> set qs \<Longrightarrow> projectRef qs k"
  by (auto simp: projectRef_def list_ex_iff)

text \<open>References only look at identifiers and workspaces.\<close>

lemma list_ex_update:
  "(\<And>r. Q (f r) = Q r) \<Longrightarrow> list_ex Q (updateWhere P f rs) = list_ex Q rs"
  by (induction rs) auto

lemma teamRef_patchTeam: "teamRef (updateWhere P (patchTeamFields x) ts) = teamRef ts"
  by (rule ext) (simp add: teamRef_def list_ex_update patchTeamFields_def split: option.split)

lemma projectRef_update:
  "(\<And>p. pj_id (f p) = pj_id p) \<Longrightarrow> (\<And>p. pj_workspaceId (f p) = pj_workspaceId p) \<Longrightarrow>
   projectRef (updateWhere P f ps) = projectRef ps"
  by (rule ext) (simp add: projectRef_def list_ex_update)

lemma list_all_update:
  "list_all Q rs \<Longrightarrow> (\<And>r. r \<in> set rs \<Longrightarrow> P r \<Longrightarrow> Q r \<Longrightarrow> Q (f r)) \<Longrightarrow> list_all Q (updateWhere P f rs)"
  by (induction rs) auto

lemma list_all_delete: "list_all Q rs \<Longrightarrow> list_all Q (deleteWhere P rs)"
  by (simp add: list_all_iff)

lemma orgOk_team:
  assumes "team_step db db'" "orgOk db"
  shows "orgOk db'"
  using assms(1)
proof (cases rule: team_step_cases)
  case (create t)
  have "list_all (teamRef (teams db @ [t])) (projects db)"
    using assms(2) by (auto simp: orgOk_def list_all_iff intro: teamRef_mono)
  with create assms(2) show ?thesis by (simp add: orgOk_def teamSlug_def [abs_def])
next
  case (patch tid p)
  have "teamRef (teams db') = teamRef (teams db)" using patch by (simp add: teamRef_patchTeam)
  moreover have "map tm_id (teams db') = map tm_id (teams db)" "map teamSlug (teams db') = map teamSlug (teams db)"
    using patch by (simp_all add: updateWhere_keep patchTeamFields_def teamSlug_def)
  ultimately show ?thesis using patch assms(2) by (simp add: orgOk_def)
next
  case (delete tid)
  have "teamRef (deleteWhere (\<lambda>x. tm_id x = tid) (teams db)) (if pj_teamId p = Some tid then p\<lparr>pj_teamId := None\<rparr> else p)"
    if "p \<in> set (projects db)" for p
    using assms(2) that by (auto simp: orgOk_def list_all_iff teamRef_def list_ex_iff split: option.splits)
  then have "list_all (teamRef (teams db')) (projects db')" using delete by (auto simp: list_all_iff updateWhere_cases)
  moreover have "list_all (projectRef (projects db')) (virtualKeys db')"
    using assms(2) delete by (simp add: orgOk_def projectRef_update)
  moreover have "map pj_id (projects db') = map pj_id (projects db)" "map projectSlug (projects db') = map projectSlug (projects db)"
    using delete by (simp_all add: updateWhere_keep projectSlug_def)
  ultimately show ?thesis using assms(2) delete unfolding orgOk_def by (simp add: deleteWhere_def distinct_map_filter)
qed (use assms(2) in \<open>simp_all add: orgOk_def\<close>)

lemma orgOk_key:
  assumes "key_step db db'" "orgOk db"
  shows "orgOk db'"
  using assms(1)
proof (cases rule: key_step_cases)
  case (add k)
  with assms(2) show ?thesis by (simp add: orgOk_def projectRef_def)
next
  case (change P f)
  then have "list_all (projectRef (projects db)) (updateWhere P f (virtualKeys db))"
    using assms(2) by (intro list_all_update) (simp_all add: orgOk_def projectRef_def)
  with change assms(2) show ?thesis by (simp add: orgOk_def)
qed (use assms(2) in simp)

lemma patchProjectFields_keeps [simp]:
  "pj_id (patchProjectFields x p) = pj_id p" "pj_workspaceId (patchProjectFields x p) = pj_workspaceId p"
  "projectSlug (patchProjectFields x p) = projectSlug p" "pj_teamId (patchProjectFields x p) = orElse (pp_teamId x) (pj_teamId p)"
  by (simp_all add: patchProjectFields_def projectSlug_def)

lemma teamGiven_ref: "teamGiven (pj_workspaceId p) (pj_teamId p) db = Inr () \<Longrightarrow> teamRef (teams db) p"
  by (cases "pj_teamId p") (auto simp: teamRef_def list_ex_iff elim: teamGiven_Inr)

lemma orgOk_step: "org_step db db' \<Longrightarrow> orgOk db \<Longrightarrow> orgOk db'"
proof (induction rule: org_step.induct)
  case (creates_project zUuid now pid user ws b db db' rc)
  from creates_project(1) show ?case
  proof (cases rule: createProject_effect)
    case (created p)
    have "list_all (projectRef (projects db @ [p])) (virtualKeys db)"
      using creates_project(3) by (auto simp: orgOk_def list_all_iff intro: projectRef_mono)
    with created creates_project(2,3) teamGiven_ref [OF created(4)] show ?thesis
      by (simp add: orgOk_def projectSlug_def [abs_def])
  qed (use creates_project in simp)
next
  case (patches_project zUuid user ws pid x db db' rp)
  from patches_project(1) show ?case
  proof (cases rule: patchProject_effect)
    case (patched p wsid)
    have "teamRef (teams db) (patchProjectFields x q)" if "q \<in> set (projects db)" "pj_id q = pid" "teamRef (teams db) q" for q
    proof -
      have "q = p" using that(1,2) patched(1,2) patches_project(2) unfolding orgOk_def by (metis distinct_map inj_onD)
      show ?thesis
      proof (cases "pp_teamId x")
        case None
        with that(3) show ?thesis by (cases "pj_teamId q") (simp_all add: teamRef_def orElse_def)
      next
        case (Some t)
        with patched(3,4) \<open>q = p\<close> have "teamGiven (pj_workspaceId (patchProjectFields x q)) (pj_teamId (patchProjectFields x q)) db = Inr ()"
          by (simp add: orElse_def)
        then show ?thesis by (rule teamGiven_ref)
      qed
    qed
    then have "list_all (teamRef (teams db)) (updateWhere (\<lambda>y. pj_id y = pid) (patchProjectFields x) (projects db))"
      using patches_project(2) by (intro list_all_update) (simp_all add: orgOk_def)
    with patched(5) patches_project(2) show ?thesis by (simp add: orgOk_def updateWhere_keep projectRef_update)
  qed (use patches_project in simp)
next
  case (deletes_project usage user ws pid db db' rd)
  from deleteProject_effect [OF deletes_project(1)] show ?case
  proof
    assume db': "db' = db\<lparr>virtualKeys := deleteWhere (\<lambda>k. vk_projectId k = pid) (virtualKeys db),
        projects := deleteWhere (\<lambda>y. pj_id y = pid) (projects db)\<rparr>"
    have "list_all (projectRef (projects db')) (virtualKeys db')"
      using deletes_project(2) db' by (fastforce simp: orgOk_def list_all_iff projectRef_def list_ex_iff)
    with deletes_project(2) db' show ?thesis by (simp add: orgOk_def list_all_delete) (simp add: deleteWhere_def distinct_map_filter)
  qed (use deletes_project in simp)
qed (auto intro: orgOk_team orgOk_key)

lemma orgOk_steps: "org_step\<^sup>*\<^sup>* db db' \<Longrightarrow> orgOk db \<Longrightarrow> orgOk db'"
  by (induction rule: rtranclp_induct) (auto intro: orgOk_step)

text \<open>
  C17. Attribution stays inside the tenant. After any sequence of operations on teams, projects and keys, what the
  gateway resolves a key to is consistent: the project exists and belongs to the key's workspace, and so does the
  team, when there is one. Slugs stay unique in each workspace.
\<close>

theorem attribution_stays_in_tenant:
  assumes "org_step\<^sup>*\<^sup>* db0 db" "orgOk db0" "pgKeyResolve db h = Some ctx"
  shows "list_ex (\<lambda>p. pj_id p = kc_projectId ctx \<and> pj_workspaceId p = kc_workspaceId ctx) (projects db)
    \<and> (case kc_teamId ctx of None \<Rightarrow> True
       | Some t \<Rightarrow> list_ex (\<lambda>x. tm_id x = t \<and> tm_workspaceId x = kc_workspaceId ctx) (teams db))
    \<and> distinct (map teamSlug (teams db)) \<and> distinct (map projectSlug (projects db))"
proof -
  have ok: "orgOk db" by (rule orgOk_steps [OF assms(1,2)])
  from assms(3) obtain k p where k: "k \<in> set (virtualKeys db)" "p \<in> set (projects db)" "pj_id p = vk_projectId k"
      "kc_workspaceId ctx = vk_workspaceId k" "kc_projectId ctx = vk_projectId k"
    and team: "kc_teamId ctx = (case pj_teamId p of Some t \<Rightarrow> if t \<noteq> [] then Some t else None | None \<Rightarrow> None)"
    by (rule pgKeyResolve_Some)
  from ok k(1) obtain q where q: "q \<in> set (projects db)" "pj_id q = vk_projectId k" "pj_workspaceId q = vk_workspaceId k"
    by (auto simp: orgOk_def list_all_iff projectRef_def list_ex_iff)
  have "q = p" using ok k(2,3) q(1,2) unfolding orgOk_def by (metis distinct_map inj_onD)
  moreover have "teamRef (teams db) p" using ok k(2) by (simp add: orgOk_def list_all_iff)
  ultimately show ?thesis
    using ok k q team by (auto simp: orgOk_def teamRef_def list_ex_iff split: option.splits)
qed


text \<open>Alice makes a team and hands the project to it; her key is attributed to both.\<close>

definition team_body0 :: team_body where
  "team_body0 = \<lparr>tb_name = ''Core'', tb_slug = None, tb_description = None\<rparr>"

definition core_team :: team where
  "core_team = \<lparr>tm_id = ''t1'', tm_workspaceId = ''w1'', tm_name = ''Core'', tm_slug = ''core'', tm_description = None, tm_createdAt = 3\<rparr>"

definition attach :: project_patch where
  "attach = \<lparr>pp_name = None, pp_teamId = Some (Some ''t1''), pp_description = None, pp_tags = None, pp_status = None\<rparr>"

definition keyed_db :: database where
  "keyed_db = demo_db\<lparr>virtualKeys := [demo_key]\<rparr>"

definition team_db :: database where
  "team_db = keyed_db\<lparr>teams := [core_team]\<rparr>"

definition attached_db :: database where
  "attached_db = team_db\<lparr>projects := map (\<lambda>p. p\<lparr>pj_teamId := Some ''t1''\<rparr>) (projects demo_db)\<rparr>"

lemma team_made: "createTeam 3 ''t1'' (Some demo_user) ''acme'' team_body0 keyed_db = (team_db, Inr core_team)"
proof -
  have "slugify 50 ''team'' ''Core'' = ''core''" by code_simp
  then show ?thesis
    by (simp add: createTeam_def guard_defs demo_defs team_body0_def keyed_db_def team_db_def core_team_def teamSchema_def maxLen_def orElse_def Let_def)
qed

lemma project_attached: "\<exists>p. patchProject (\<lambda>x. x \<noteq> []) (Some demo_user) ''acme'' ''p1'' attach team_db = (attached_db, Inr p)"
  by (simp add: patchProject_def guard_defs demo_defs keyed_db_def team_db_def core_team_def attached_db_def attach_def
      projectPatchSchema_def findProject_def teamGiven_def loadTeam_def orElse_def patchProjectFields_def)

theorem attribution_stays_in_tenant_witness:
  "\<exists>ctx. pgKeyResolve attached_db (mt_hash demo_minted) = Some ctx \<and> kc_teamId ctx = Some ''t1''
     \<and> list_ex (\<lambda>x. tm_id x = ''t1'' \<and> tm_workspaceId x = kc_workspaceId ctx) (teams attached_db)"
proof -
  obtain p where p: "patchProject (\<lambda>x. x \<noteq> []) (Some demo_user) ''acme'' ''p1'' attach team_db = (attached_db, Inr p)"
    using project_attached by blast
  have "org_step keyed_db team_db"
    by (rule org_step.team, rule team_step.creates [OF team_made]) (simp add: keyed_db_def demo_defs)
  moreover have "org_step team_db attached_db" by (rule patches_project [OF p])
  ultimately have 1: "org_step\<^sup>*\<^sup>* keyed_db attached_db" by (meson converse_rtranclp_into_rtranclp r_into_rtranclp)
  have 2: "orgOk keyed_db"
    by (simp add: orgOk_def keyed_db_def demo_defs newKey_def teamRef_def projectRef_def projectSlug_def)
  have k: "demo_key \<in> set (virtualKeys attached_db)" "keysOk attached_db"
    by (simp_all add: attached_db_def team_db_def keyed_db_def keysOk_def demo_defs newKey_def)
  have h: "keyHash demo_key = mt_hash demo_minted" by (simp add: demo_key_def newKey_def)
  obtain ctx where ctx: "pgKeyResolve attached_db (mt_hash demo_minted) = Some ctx"
    using pgKeyResolve_of_key [OF k(2,1)] h by metis
  have "kc_teamId ctx = Some ''t1''"
    using ctx by (auto simp: pgKeyResolve_def selectKey_def attached_db_def team_db_def keyed_db_def demo_defs newKey_def Let_def)
  with attribution_stays_in_tenant [OF 1 2 ctx] ctx show ?thesis by auto
qed

section \<open>Gaps\<close>

text \<open>
  Archiving a project leaves its keys alone: the gateway accepts them as before, while the requirements say that
  archiving revokes them.
\<close>

lemma archived_project_keys_accepted:
  "\<exists>db' p ctx. patchProject (\<lambda>x. x \<noteq> []) (Some demo_user) ''acme'' ''p1'' (attach\<lparr>pp_teamId := None, pp_status := Some ''ARCHIVED''\<rparr>) keyed_db
       = (db', Inr p) \<and> pj_status p = Archived
     \<and> authorizeKey (\<lambda>x. x) (pgKeyResolve db') 6 [(''authorization'', One (''Bearer '' @ mt_token demo_minted))] = Inr ctx"
proof -
  let ?p = "hd (projects demo_db)\<lparr>pj_status := Archived\<rparr>"
  let ?db = "keyed_db\<lparr>projects := [?p]\<rparr>"
  have 1: "patchProject (\<lambda>x. x \<noteq> []) (Some demo_user) ''acme'' ''p1'' (attach\<lparr>pp_teamId := None, pp_status := Some ''ARCHIVED''\<rparr>) keyed_db
      = (?db, Inr ?p)"
    by (simp add: patchProject_def guard_defs demo_defs keyed_db_def attach_def projectPatchSchema_def projectStatusOf_def
        findProject_def teamGiven_def orElse_def patchProjectFields_def)
  have k: "demo_key \<in> set (virtualKeys ?db)" "keysOk ?db"
    by (simp_all add: keyed_db_def keysOk_def demo_defs newKey_def)
  from pgKeyResolve_of_key [OF k(2,1)] obtain ctx where
    ctx: "pgKeyResolve ?db (keyHash demo_key) = Some ctx" "kc_status ctx = vk_status demo_key" "kc_expiresAt ctx = vk_expiresAt demo_key"
    by metis
  have "keyHash demo_key = mt_token demo_minted" "vk_status demo_key = ACTIVE" "vk_expiresAt demo_key = None"
    by (simp_all add: demo_key_def newKey_def demo_minted_def demo_body_def)
  with ctx minted_extracted [OF demo_mint] have
    "authorizeKey (\<lambda>x. x) (pgKeyResolve ?db) 6 [(''authorization'', One (''Bearer '' @ mt_token demo_minted))] = Inr ctx"
    by (simp add: authorizeKey_def keyExpired_def)
  with 1 show ?thesis by fastforce
qed

text \<open>
  Deleting a project deletes its keys but sends nothing to the gateways: a cached lookup still answers with a
  key that is gone. The event of such a request names a project the database no longer has.
\<close>

lemma deleted_key_still_resolved:
  "\<exists>db' r. deleteProject (\<lambda>_. 0) (Some demo_user) ''acme'' ''p1'' keyed_db = (db', Inr r) \<and> virtualKeys db' = []
     \<and> pgKeyResolve db' h = None
     \<and> (pgKeyResolve keyed_db h \<noteq> None \<longrightarrow>
         fst (cachedResolve toJson revive (pgKeyResolve db') getUp setUp 4999 h
           (snd (cachedResolve toJson revive (pgKeyResolve keyed_db) False setUp 0 h emptyCache))) = pgKeyResolve keyed_db h)"
proof -
  have "map_of (AList.update k v xs) k = Some v" for k v and xs :: "('a \<times> 'b) list" by (induction xs) auto
  then show ?thesis
    by (simp add: deleteProject_def guard_defs demo_defs keyed_db_def findProject_def deleteWhere_def newKey_def pgKeyResolve_def selectKey_def
        cachedResolve_def localGet_def emptyCache_def fromRedis_def localSet_def redisSet_def LOCAL_TTL_MS_def Let_def split: list.split)
qed

text \<open>Leaving the workspace does not end a team membership: a former lead who is invited again as a viewer leads the team.\<close>

lemma removed_member_still_lead:
  assumes "removeMember user ws uid db = (db', r)"
  shows "teamMembers db' = teamMembers db"
  using assms by (cases "db' = db") (auto simp: dropMember_def elim: removeMember_effect)

end
