(* ===== verification/Overrides.thy ===== *)
theory Overrides
  imports Credentials PriceSource
begin

text \<open>
  Prices in the control plane (\<open>apps/api/src/modules/pricing.ts\<close>): the catalog query, the overrides of a workspace
  (list, create, patch, delete) and the report of unpriced traffic. Composed with the gateway's price source: what an
  admin sets is what the workspace's requests are charged, and the table always admits a snapshot.
\<close>

section \<open>Money columns\<close>

text \<open>\<open>^\d+(\.\d{1,6})?$\<close>.\<close>

definition priceText :: "string \<Rightarrow> bool" where
  "priceText s =
     (case matchDecimal s of
        None \<Rightarrow> False
      | Some (w, f) \<Rightarrow> (case f of None \<Rightarrow> True | Some t \<Rightarrow> length t \<le> 6))"

text \<open>\<open>new Prisma.Decimal(s)\<close> of such a text, in millionths.\<close>

definition decimalMicros :: "string \<Rightarrow> micros" where
  "decimalMicros s =
     (case matchDecimal s of
        None \<Rightarrow> 0
      | Some (w, f) \<Rightarrow> int (digitsVal w) * 1000000 + int (digitsVal (padEnd 6 CHR ''0'' (case f of None \<Rightarrow> [] | Some t \<Rightarrow> t))))"

text \<open>A column of type \<open>DECIMAL(12,6)\<close> holds twelve digits; a larger value makes the statement fail.\<close>

definition columnFits :: "micros \<Rightarrow> bool" where
  "columnFits m \<longleftrightarrow> 0 \<le> m \<and> m < 1000000000000"

definition stripZeros :: "string \<Rightarrow> string" where
  "stripZeros s = rev (dropWhile (\<lambda>c. c = CHR ''0'') (rev s))"

text \<open>
  \<open>Decimal.toString()\<close> of a number with \<open>k\<close> decimal places, below ten to the twenty-first: no trailing zeros, and an
  exponent when the first digit comes after the seventh place.
\<close>

definition decimalString :: "nat \<Rightarrow> nat \<Rightarrow> string" where
  "decimalString k n =
     (let whole = showNat (n div 10 ^ k); frac = n mod 10 ^ k; digits = stripZeros (showNat n) in
      if frac = 0 then whole
      else if length (showNat n) + 6 \<le> k
      then hd digits # (if tl digits = [] then [] else CHR ''.'' # tl digits) @ ''e-'' @ showNat (k + 1 - length (showNat n))
      else whole @ CHR ''.'' # stripZeros (padStart k CHR ''0'' (showNat frac)))"

definition microString :: "micros \<Rightarrow> string" where
  "microString m = decimalString 6 (nat m)"

section \<open>The catalog\<close>

record price_query =
  pq_provider :: "string option"
  pq_at :: "string option"

record price_view =
  pv_id :: string
  pv_provider :: provider
  pv_modelPattern :: string
  pv_prices :: "string list"
  pv_effectiveFrom :: millis
  pv_effectiveTo :: "millis option"
  pv_source :: price_source

definition priceView :: "model_price \<Rightarrow> price_view" where
  "priceView r =
     \<lparr>pv_id = mp_id r, pv_provider = mp_provider r, pv_modelPattern = mp_modelPattern r,
      pv_prices = map microString [mp_input r, mp_output r, mp_cacheRead r, mp_cacheWrite r],
      pv_effectiveFrom = effectiveFrom r, pv_effectiveTo = effectiveTo r, pv_source = mp_source r\<rparr>"

text \<open>\<open>ORDER BY provider, "modelPattern"\<close>; \<open>le\<close> is the collation of the database.\<close>

fun insertBy :: "('r \<Rightarrow> 'r \<Rightarrow> bool) \<Rightarrow> 'r \<Rightarrow> 'r list \<Rightarrow> 'r list" where
  "insertBy le x [] = [x]"
| "insertBy le x (y # ys) = (if le x y then x # y # ys else y # insertBy le x ys)"

definition sortBy :: "('r \<Rightarrow> 'r \<Rightarrow> bool) \<Rightarrow> 'r list \<Rightarrow> 'r list" where
  "sortBy le rows = foldr (insertBy le) rows []"

definition slotLe :: "(string \<Rightarrow> string \<Rightarrow> bool) \<Rightarrow> ('r \<Rightarrow> provider) \<Rightarrow> ('r \<Rightarrow> string) \<Rightarrow> 'r \<Rightarrow> 'r \<Rightarrow> bool" where
  "slotLe le p m a b \<longleftrightarrow> providerRank (p a) < providerRank (p b) \<or> p a = p b \<and> le (m a) (m b)"

text \<open>\<open>isoTime\<close> checks and reads a timestamp of ISO 8601; the route asks for a signed-in user only.\<close>

definition listModelPrices ::
  "(string \<Rightarrow> string \<Rightarrow> bool) \<Rightarrow> (string \<Rightarrow> millis option) \<Rightarrow> millis \<Rightarrow> authed_user option \<Rightarrow> price_query \<Rightarrow> database \<Rightarrow>
   api_error + price_view list" where
  "listModelPrices le isoTime now user q db =
     (if user = None then Inl (Domain (UnauthorizedError ''Authentication required''))
      else if (case pq_provider q of None \<Rightarrow> False | Some p \<Rightarrow> providerOf p = None)
        \<or> (case pq_at q of None \<Rightarrow> False | Some t \<Rightarrow> isoTime t = None) then Inl ZodFailed
      else (let moment = (case pq_at q of None \<Rightarrow> now | Some t \<Rightarrow> the (isoTime t));
                rows = filter (\<lambda>r. (case pq_provider q of None \<Rightarrow> True | Some p \<Rightarrow> providerOf p = Some (mp_provider r))
                    \<and> effectiveFrom r \<le> moment \<and> (case effectiveTo r of None \<Rightarrow> True | Some t \<Rightarrow> moment < t)) (modelPriceRows db)
            in Inr (map priceView (sortBy (slotLe le mp_provider mp_modelPattern) rows))))"

section \<open>Overrides\<close>

text \<open>\<open>[A-Za-z0-9._:/\-*]\<close>.\<close>

definition patternChar :: "char \<Rightarrow> bool" where
  "patternChar c \<longleftrightarrow> isDigit c \<or> list_ex (\<lambda>(lo, hi). lo \<le> c \<and> c \<le> hi) [(CHR ''a'', CHR ''z''), (CHR ''A'', CHR ''Z'')]
     \<or> c \<in> set ''._:/-*''"

definition patternText :: "string \<Rightarrow> bool" where
  "patternText s \<longleftrightarrow> 1 \<le> length s \<and> length s \<le> 200 \<and> list_all patternChar s"

record override_body =
  ob_provider :: string
  ob_modelPattern :: string
  ob_input :: string
  ob_output :: string
  ob_cacheRead :: "string option"
  ob_cacheWrite :: "string option"

definition overrideSchema :: "override_body \<Rightarrow> provider option" where
  "overrideSchema b =
     (if patternText (ob_modelPattern b) \<and> priceText (ob_input b) \<and> priceText (ob_output b)
         \<and> priceText (orElse (ob_cacheRead b) ''0'') \<and> priceText (orElse (ob_cacheWrite b) ''0'')
      then providerOf (ob_provider b) else None)"

record override_patch =
  op_provider :: "string option"
  op_modelPattern :: "string option"
  op_input :: "string option"
  op_output :: "string option"
  op_cacheRead :: "string option"
  op_cacheWrite :: "string option"

definition overridePatchSchema :: "override_patch \<Rightarrow> bool" where
  "overridePatchSchema p \<longleftrightarrow>
     pred_option (\<lambda>s. providerOf s \<noteq> None) (op_provider p) \<and> pred_option patternText (op_modelPattern p)
     \<and> list_all (pred_option priceText) [op_input p, op_output p, op_cacheRead p, op_cacheWrite p]"

record override_view =
  ov_id :: string
  ov_workspaceId :: string
  ov_provider :: provider
  ov_modelPattern :: string
  ov_prices :: "string list"
  ov_createdAt :: millis

definition overrideView :: "price_override \<Rightarrow> override_view" where
  "overrideView row =
     \<lparr>ov_id = po_id row, ov_workspaceId = po_workspaceId row, ov_provider = po_provider row, ov_modelPattern = po_modelPattern row,
      ov_prices = map microString [po_input row, po_output row, po_cacheRead row, po_cacheWrite row], ov_createdAt = po_createdAt row\<rparr>"

definition listOverrides ::
  "(string \<Rightarrow> string \<Rightarrow> bool) \<Rightarrow> authed_user option \<Rightarrow> string \<Rightarrow> database \<Rightarrow> database \<times> (api_error + override_view list)" where
  "listOverrides le user ws db =
     guarded VIEWER user ws db (\<lambda>u ctx.
       (db, Inr (map overrideView (sortBy (slotLe le po_provider po_modelPattern)
          (filter (\<lambda>row. po_workspaceId row = ctx_workspaceId ctx) (overrideRows db))))))"

definition overrideFits :: "price_override \<Rightarrow> bool" where
  "overrideFits row \<longleftrightarrow> list_all columnFits [po_input row, po_output row, po_cacheRead row, po_cacheWrite row]"

definition overrideSlot :: "price_override \<Rightarrow> string \<times> provider \<times> string" where
  "overrideSlot row = (po_workspaceId row, po_provider row, po_modelPattern row)"

definition createOverride ::
  "millis \<Rightarrow> string \<Rightarrow> authed_user option \<Rightarrow> string \<Rightarrow> override_body \<Rightarrow> database \<Rightarrow> database \<times> (api_error + override_view)" where
  "createOverride now oid user ws b db =
     guarded ADMIN user ws db (\<lambda>u ctx.
       (case overrideSchema b of
          None \<Rightarrow> (db, Inl ZodFailed)
        | Some p \<Rightarrow>
            (if list_ex (\<lambda>row. overrideSlot row = (ctx_workspaceId ctx, p, ob_modelPattern b)) (overrideRows db)
             then (db, Inl (Domain (ConflictError (''Override already exists for '' @ ob_provider b @ ''/'' @ ob_modelPattern b
                     @ '' '' @ emDash @ '' use PATCH to update it''))))
             else (let row = \<lparr>po_id = oid, po_workspaceId = ctx_workspaceId ctx, po_provider = p, po_modelPattern = ob_modelPattern b,
                            po_input = decimalMicros (ob_input b), po_output = decimalMicros (ob_output b),
                            po_cacheRead = decimalMicros (orElse (ob_cacheRead b) ''0''),
                            po_cacheWrite = decimalMicros (orElse (ob_cacheWrite b) ''0''), po_createdAt = now\<rparr>
                   in if overrideFits row then (db\<lparr>overrideRows := overrideRows db @ [row]\<rparr>, Inr (overrideView row))
                      else (db, Inl Internal)))))"

definition patchOverrideFields :: "override_patch \<Rightarrow> price_override \<Rightarrow> price_override" where
  "patchOverrideFields p row =
     (let money = (\<lambda>x m. case x of None \<Rightarrow> m | Some s \<Rightarrow> decimalMicros s) in
      row\<lparr>po_provider := (case op_provider p of None \<Rightarrow> po_provider row | Some s \<Rightarrow> orElse (providerOf s) (po_provider row)),
        po_modelPattern := orElse (op_modelPattern p) (po_modelPattern row),
        po_input := money (op_input p) (po_input row), po_output := money (op_output p) (po_output row),
        po_cacheRead := money (op_cacheRead p) (po_cacheRead row), po_cacheWrite := money (op_cacheWrite p) (po_cacheWrite row)\<rparr>)"

text \<open>An absent field of the request is printed as such in the message of a conflict.\<close>

definition templateText :: "string option \<Rightarrow> string" where
  "templateText x = orElse x ''undefined''"

definition patchOverride ::
  "authed_user option \<Rightarrow> string \<Rightarrow> string \<Rightarrow> override_patch \<Rightarrow> database \<Rightarrow> database \<times> (api_error + override_view)" where
  "patchOverride user ws oid p db =
     guarded ADMIN user ws db (\<lambda>u ctx.
       (if \<not> overridePatchSchema p then (db, Inl ZodFailed)
        else case find (\<lambda>row. po_id row = oid \<and> po_workspaceId row = ctx_workspaceId ctx) (overrideRows db) of
               None \<Rightarrow> (db, Inl (Domain (NotFoundError ''Pricing override'' (Some oid))))
             | Some row \<Rightarrow>
                 (let row' = patchOverrideFields p row; rekeying = (overrideSlot row' \<noteq> overrideSlot row) in
                  if rekeying \<and> ctx_role ctx \<noteq> OWNER
                  then (db, Inl (Domain (ForbiddenError ''Only workspace OWNERs can change the (provider, model) of an override'')))
                  else if rekeying \<and> list_ex (\<lambda>x. overrideSlot x = overrideSlot row' \<and> po_id x \<noteq> oid) (overrideRows db)
                  then (db, Inl (Domain (ConflictError (''Another override already targets '' @ templateText (op_provider p) @ ''/''
                          @ templateText (op_modelPattern p)))))
                  else if \<not> overrideFits row' then (db, Inl Internal)
                  else (db\<lparr>overrideRows := updateWhere (\<lambda>x. po_id x = oid) (patchOverrideFields p) (overrideRows db)\<rparr>,
                        Inr (overrideView row')))))"

definition deleteOverride ::
  "authed_user option \<Rightarrow> string \<Rightarrow> string \<Rightarrow> database \<Rightarrow> database \<times> (api_error + unit)" where
  "deleteOverride user ws oid db =
     guarded ADMIN user ws db (\<lambda>u ctx.
       (let mine = (\<lambda>row. po_id row = oid \<and> po_workspaceId row = ctx_workspaceId ctx) in
        if countWhere mine (overrideRows db) = 0 then (db, Inl (Domain (NotFoundError ''Pricing override'' (Some oid))))
        else (db\<lparr>overrideRows := deleteWhere mine (overrideRows db)\<rparr>, Inr ())))"

section \<open>The report of unpriced traffic\<close>

record unpriced_row =
  un_provider :: provider
  un_model :: string
  un_requests :: nat
  un_costLost :: string

text \<open>
  The grouping query over the event table: the groups with the most requests first, at most two hundred. Groups with
  the same count come in any order; here in the order of first appearance.
\<close>

definition listUnpriced ::
  "millis \<Rightarrow> authed_user option \<Rightarrow> string \<Rightarrow> usage_event list \<Rightarrow> database \<Rightarrow> database \<times> (api_error + unpriced_row list)" where
  "listUnpriced now user ws table db =
     guarded ADMIN user ws db (\<lambda>u ctx.
       (let since = now - 30 * 24 * 60 * 60 * 1000;
            hits = filter (\<lambda>e. workspaceId e = ctx_workspaceId ctx \<and> since \<le> occurredAt e \<and> costBasis e = UNPRICED) table;
            groups = map (\<lambda>k. (k, filter (\<lambda>e. (ev_provider e, ev_model e) = k) hits)) (uniq (map (\<lambda>e. (ev_provider e, ev_model e)) hits))
        in (db, Inr (map (\<lambda>((p, m), es). \<lparr>un_provider = p, un_model = m, un_requests = length es,
                             un_costLost = decimalString 8 (nat (sum_list (map (\<lambda>e. cost8 (totalsOf e)) es)))\<rparr>)
              (take 200 (sort_key (\<lambda>(k, es). - int (length es)) groups))))))"

section \<open>What the gateway reads\<close>

text \<open>The columns as the gateway's queries select them: a money column cast to text has six decimal places.\<close>

definition priceTablesOf :: "database \<Rightarrow> price_tables" where
  "priceTablesOf db =
     (let text = (\<lambda>m. formatScaled m 6) in
      \<lparr>modelPrices = map (\<lambda>r. (\<lparr>pr_provider = mp_provider r, pr_modelPattern = mp_modelPattern r, pr_input = text (mp_input r),
          pr_output = text (mp_output r), pr_cacheRead = text (mp_cacheRead r), pr_cacheWrite = text (mp_cacheWrite r)\<rparr>,
          effectiveFrom r, effectiveTo r)) (modelPriceRows db),
       priceOverrides = map (\<lambda>row. (po_workspaceId row, \<lparr>pr_provider = po_provider row, pr_modelPattern = po_modelPattern row,
          pr_input = text (po_input row), pr_output = text (po_output row), pr_cacheRead = text (po_cacheRead row),
          pr_cacheWrite = text (po_cacheWrite row)\<rparr>)) (overrideRows db)\<rparr>)"


section \<open>Lemmas: money\<close>


lemma columnText_micros: "0 \<le> m \<Longrightarrow> microUsdPerMtok (formatScaled m 6) = Inr m"
proof -
  assume m: "0 \<le> m"
  let ?f = "padStart 6 CHR ''0'' (showNat (nat (m mod 10 ^ 6)))"
  have len: "length ?f = 6" and val: "int (digitsVal (showNat (nat (m div 10 ^ 6)))) * 10 ^ 6 + int (digitsVal ?f) = m"
    using fixed_point_digits [of 6 m] m by simp_all
  then have "?f \<noteq> []" by auto
  then have "matchDecimal (showNat (nat (m div 10 ^ 6)) @ CHR ''.'' # ?f) = Some (showNat (nat (m div 10 ^ 6)), Some ?f)"
    by (intro matchDecimal_point) simp_all
  with m len val show ?thesis by (simp add: formatScaled_def Let_def microUsdPerMtok_def padEnd_def)
qed

lemma columnText_priceWithin: "0 \<le> m \<Longrightarrow> priceWithin 6 (formatScaled m 6)"
  using columnText_micros [of m] by (auto simp: microUsdPerMtok_def priceWithin_def Let_def split: option.splits if_splits)



section \<open>Lemmas: the table\<close>

definition overridesOk :: "database \<Rightarrow> bool" where
  "overridesOk db \<longleftrightarrow> distinct (map po_id (overrideRows db)) \<and> distinct (map overrideSlot (overrideRows db))
     \<and> list_all (\<lambda>row. overrideFits row \<and> patternText (po_modelPattern row)) (overrideRows db)"

definition catalogFits :: "database \<Rightarrow> bool" where
  "catalogFits db \<longleftrightarrow> list_all (\<lambda>r. list_all columnFits [mp_input r, mp_output r, mp_cacheRead r, mp_cacheWrite r]) (modelPriceRows db)"

lemma createOverride_effect:
  assumes "createOverride now oid user ws b db = (db', r)"
  obtains (same) e where "db' = db" "r = Inl e"
  | (created) p row where "db' = db\<lparr>overrideRows := overrideRows db @ [row]\<rparr>" "overrideSchema b = Some p" "r = Inr (overrideView row)"
      "overrideSlot row \<notin> set (map overrideSlot (overrideRows db))" "overrideFits row" "po_id row = oid" "po_createdAt row = now"
      "overrideSlot row = (po_workspaceId row, p, ob_modelPattern b)"
      "po_input row = decimalMicros (ob_input b)" "po_output row = decimalMicros (ob_output b)"
      "po_cacheRead row = decimalMicros (orElse (ob_cacheRead b) ''0'')" "po_cacheWrite row = decimalMicros (orElse (ob_cacheWrite b) ''0'')"
      "\<exists>u rl. user = Some u \<and> memberOf (wmembers db) (au_id u) (po_workspaceId row) rl \<and> ADMIN \<le> rl"
  using assms unfolding createOverride_def
proof (cases rule: guarded_cases)
  case (admitted u ctx)
  show thesis
  proof (cases "\<exists>e. r = Inl e")
    case True
    with admitted(4) same show thesis by (auto simp: Let_def split: option.split_asm if_split_asm)
  next
    case False
    with admitted(4) obtain p where p: "overrideSchema b = Some p" by (cases "overrideSchema b") auto
    let ?row = "\<lparr>po_id = oid, po_workspaceId = ctx_workspaceId ctx, po_provider = p, po_modelPattern = ob_modelPattern b,
      po_input = decimalMicros (ob_input b), po_output = decimalMicros (ob_output b),
      po_cacheRead = decimalMicros (orElse (ob_cacheRead b) ''0''),
      po_cacheWrite = decimalMicros (orElse (ob_cacheWrite b) ''0''), po_createdAt = now\<rparr>"
    from False admitted(4) p have "db' = db\<lparr>overrideRows := overrideRows db @ [?row]\<rparr>" "r = Inr (overrideView ?row)" "overrideFits ?row"
      and "\<not> list_ex (\<lambda>row. overrideSlot row = (ctx_workspaceId ctx, p, ob_modelPattern b)) (overrideRows db)"
      by (auto simp: Let_def split: if_split_asm)
    with p admitted(1-3) show thesis by (intro created [of ?row]) (auto simp: overrideSlot_def list_ex_iff)
  qed
qed (use same in simp)

lemma patchOverride_effect:
  assumes "patchOverride user ws oid p db = (db', r)"
  obtains (same) "db' = db"
  | (patched) row where "db' = db\<lparr>overrideRows := updateWhere (\<lambda>x. po_id x = oid) (patchOverrideFields p) (overrideRows db)\<rparr>"
      "row \<in> set (overrideRows db)" "po_id row = oid" "overrideFits (patchOverrideFields p row)" "overridePatchSchema p"
      "\<forall>x\<in>set (overrideRows db). po_id x = oid \<or> overrideSlot x \<noteq> overrideSlot (patchOverrideFields p row) \<or>
        overrideSlot (patchOverrideFields p row) = overrideSlot row"
  using assms unfolding patchOverride_def
proof (cases rule: guarded_cases)
  case refused
  then show thesis by (intro same)
next
  case (admitted u ctx)
  show thesis
  proof (cases "db' = db")
    case False
    with admitted(4) obtain row where row: "find (\<lambda>row. po_id row = oid \<and> po_workspaceId row = ctx_workspaceId ctx) (overrideRows db) = Some row"
      by (auto split: if_split_asm option.split_asm)
    let ?new = "patchOverrideFields p row"
    from admitted(4) False row have "db' = db\<lparr>overrideRows := updateWhere (\<lambda>x. po_id x = oid) (patchOverrideFields p) (overrideRows db)\<rparr>"
      and "overrideFits ?new" "overridePatchSchema p"
      and "overrideSlot ?new = overrideSlot row \<or> \<not> list_ex (\<lambda>x. overrideSlot x = overrideSlot ?new \<and> po_id x \<noteq> oid) (overrideRows db)"
      by (auto simp: Let_def split: if_split_asm)
    with find_SomeD [OF row] show thesis by (intro patched [of row]) (auto simp: list_ex_iff)
  qed (rule same)
qed

lemma deleteOverride_effect:
  assumes "deleteOverride user ws oid db = (db', r)"
  obtains P where "db' = db\<lparr>overrideRows := deleteWhere P (overrideRows db)\<rparr>"
proof (cases "db' = db")
  case True
  then show thesis by (intro that [of "\<lambda>_. False"]) (simp add: deleteWhere_def)
next
  case False
  from assms show thesis
    unfolding deleteOverride_def
  proof (cases rule: guarded_cases)
    case (admitted u ctx)
    with False show thesis by (auto simp: Let_def intro: that split: if_split_asm)
  qed (use False in simp)
qed

inductive override_step :: "database \<Rightarrow> database \<Rightarrow> bool" where
  creates: "createOverride now oid user ws b db = (db', r) \<Longrightarrow> oid \<notin> set (map po_id (overrideRows db)) \<Longrightarrow> override_step db db'"
| patches: "patchOverride user ws oid p db = (db', rp) \<Longrightarrow> override_step db db'"
| deletes: "deleteOverride user ws oid db = (db', rd) \<Longrightarrow> override_step db db'"

lemma patchOverrideFields_keeps [simp]:
  "po_id (patchOverrideFields p row) = po_id row" "po_workspaceId (patchOverrideFields p row) = po_workspaceId row"
  by (simp_all add: patchOverrideFields_def Let_def)

lemma distinct_map_eq: "distinct (map f xs) \<Longrightarrow> x \<in> set xs \<Longrightarrow> y \<in> set xs \<Longrightarrow> f x = f y \<Longrightarrow> x = y"
  by (auto simp: distinct_map dest: inj_onD)

lemma overridesOk_patch:
  assumes "overridesOk db" "row \<in> set (overrideRows db)" "overrideFits (patchOverrideFields p row)" "overridePatchSchema p"
    and free: "\<forall>x\<in>set (overrideRows db). po_id x = po_id row \<or> overrideSlot x \<noteq> overrideSlot (patchOverrideFields p row) \<or>
      overrideSlot (patchOverrideFields p row) = overrideSlot row"
  shows "overridesOk (db\<lparr>overrideRows := updateWhere (\<lambda>x. po_id x = po_id row) (patchOverrideFields p) (overrideRows db)\<rparr>)"
proof -
  let ?rows = "overrideRows db" and ?f = "patchOverrideFields p"
  let ?rows' = "updateWhere (\<lambda>x. po_id x = po_id row) ?f ?rows"
  have only: "x = row" if "x \<in> set ?rows" "po_id x = po_id row" for x
    using distinct_map_eq [of po_id ?rows x row] assms(1,2) that by (simp add: overridesOk_def)
  have other: "overrideSlot x \<noteq> overrideSlot (?f row)" if "x \<in> set ?rows" "po_id x \<noteq> po_id row" for x
  proof -
    have "overrideSlot x \<noteq> overrideSlot row"
      using distinct_map_eq [of overrideSlot ?rows x row] assms(1,2) that by (auto simp: overridesOk_def)
    with free that show ?thesis by auto
  qed
  have "distinct (map overrideSlot ?rows')"
  proof -
    have dist: "distinct ?rows" "inj_on overrideSlot (set ?rows)" using assms(1) by (simp_all add: overridesOk_def distinct_map)
    have "inj_on (\<lambda>x. overrideSlot (if po_id x = po_id row then ?f x else x)) (set ?rows)"
    proof (rule inj_onI)
      fix x y assume xy: "x \<in> set ?rows" "y \<in> set ?rows"
        "overrideSlot (if po_id x = po_id row then ?f x else x) = overrideSlot (if po_id y = po_id row then ?f y else y)"
      show "x = y"
        using xy only [OF xy(1)] only [OF xy(2)] other [OF xy(1)] other [OF xy(2)] inj_onD [OF dist(2)]
        by (auto split: if_split_asm)
    qed
    with dist(1) show ?thesis by (simp add: updateWhere_def comp_def distinct_map)
  qed
  moreover have "list_all (\<lambda>x. overrideFits x \<and> patternText (po_modelPattern x)) ?rows'"
  proof -
    have "patternText (po_modelPattern (?f row))"
      using assms(1,2,4) by (auto simp: overridesOk_def list_all_iff overridePatchSchema_def patchOverrideFields_def orElse_def Let_def
          split: option.split)
    moreover have "overrideFits x \<and> patternText (po_modelPattern x)" if "x \<in> set ?rows" for x
      using assms(1) that by (simp add: overridesOk_def list_all_iff)
    moreover have "?rows' = map (\<lambda>x. if x = row then ?f row else x) ?rows" using only by (auto simp: updateWhere_def)
    ultimately show ?thesis using assms(3) by (auto simp: list_all_iff)
  qed
  moreover have "distinct (map po_id ?rows')" using assms(1) by (simp add: overridesOk_def updateWhere_keep)
  ultimately show ?thesis by (simp add: overridesOk_def)
qed

lemma overridesOk_step: "override_step db db' \<Longrightarrow> overridesOk db \<Longrightarrow> overridesOk db' \<and> modelPriceRows db' = modelPriceRows db"
proof (induction rule: override_step.induct)
  case (creates now oid user ws b db db' r)
  from creates(1) show ?case
  proof (cases rule: createOverride_effect)
    case (created p row)
    have "patternText (po_modelPattern row)"
      using created(2,8) by (auto simp: overrideSchema_def overrideSlot_def split: if_split_asm)
    with created creates(2,3) show ?thesis by (auto simp: overridesOk_def)
  qed (use creates in simp)
next
  case (patches user ws oid p db db' rp)
  from patches(1) show ?case
  proof (cases rule: patchOverride_effect)
    case (patched row)
    from overridesOk_patch [OF patches(2) patched(2,4,5)] patched(1,3,6) show ?thesis by auto
  qed (use patches in simp)
next
  case (deletes user ws oid db db' rd)
  from deletes(1) obtain P where "db' = db\<lparr>overrideRows := deleteWhere P (overrideRows db)\<rparr>" by (rule deleteOverride_effect)
  with deletes(2) show ?case by (auto simp: overridesOk_def deleteWhere_def distinct_map_filter list_all_iff)
qed

lemma overridesOk_steps: "override_step\<^sup>*\<^sup>* db db' \<Longrightarrow> overridesOk db \<Longrightarrow> overridesOk db' \<and> modelPriceRows db' = modelPriceRows db"
  by (induction rule: rtranclp_induct) (auto dest: overridesOk_step)

lemma tablesOk_of: "overridesOk db \<Longrightarrow> catalogFits db \<Longrightarrow> tablesOk (priceTablesOf db)"
  by (auto simp: tablesOk_def priceTablesOf_def overridesOk_def catalogFits_def overrideFits_def columnFits_def list_all_iff Let_def
      rowOk_def pricesOk_def toEntry_def intro!: columnText_priceWithin)

section \<open>Lemmas: what is charged\<close>


definition overrideEntry :: "price_override \<Rightarrow> price_entry" where
  "overrideEntry row =
     \<lparr>pe_provider = po_provider row, modelPattern = po_modelPattern row, inputPerMtok = formatScaled (po_input row) 6,
      outputPerMtok = formatScaled (po_output row) 6, cacheReadPerMtok = formatScaled (po_cacheRead row) 6,
      cacheWritePerMtok = formatScaled (po_cacheWrite row) 6, source = OVERRIDE\<rparr>"




section \<open>Properties\<close>


definition demo_price :: override_body where
  "demo_price = \<lparr>ob_provider = ''ANTHROPIC'', ob_modelPattern = ''claude-x'', ob_input = ''2.5'', ob_output = ''10.000001'',
     ob_cacheRead = None, ob_cacheWrite = Some ''00.75''\<rparr>"

definition demo_override :: price_override where
  "demo_override = \<lparr>po_id = ''o1'', po_workspaceId = ''w1'', po_provider = ANTHROPIC, po_modelPattern = ''claude-x'',
     po_input = 2500000, po_output = 10000001, po_cacheRead = 0, po_cacheWrite = 750000, po_createdAt = 5\<rparr>"

definition priced_db :: database where
  "priced_db = demo_db\<lparr>overrideRows := [demo_override]\<rparr>"

lemmas override_defs = guard_defs demo_defs demo_price_def demo_override_def priced_db_def

lemma providerOf_anthropic: "providerOf ''ANTHROPIC'' = Some ANTHROPIC"
  by code_simp

lemma demo_price_ok: "overrideSchema demo_price = Some ANTHROPIC"
  by (simp add: overrideSchema_def demo_price_def patternText_def patternChar_def priceText_def orElse_def decimal_eval providerOf_anthropic)

lemma override_made:
  "createOverride 5 ''o1'' (Some demo_user) ''acme'' demo_price demo_db = (priced_db, Inr (overrideView demo_override))"
  using demo_price_ok
  by (simp add: createOverride_def override_defs overrideFits_def columnFits_def decimalMicros_def orElse_def decimal_eval)

lemma demo_overridesOk: "overridesOk demo_db" "catalogFits demo_db" "override_step demo_db priced_db"
  using override_step.creates [OF override_made] by (simp_all add: overridesOk_def catalogFits_def demo_defs)


text \<open>
  C21. The price tables are always well typed for the gateway. Whatever overrides are created, patched and deleted, one
  after the other, there is at most one override for a workspace, provider and pattern, every amount fits its column,
  and the tables are such that a gateway's snapshot of them never makes the cost calculation fail.
\<close>

theorem overrides_well_typed:
  assumes "override_step\<^sup>*\<^sup>* db db'" "overridesOk db" "catalogFits db"
  shows "distinct (map overrideSlot (overrideRows db')) \<and> list_all overrideFits (overrideRows db')
    \<and> tablesOk (priceTablesOf db') \<and> (snapshotOk s \<longrightarrow> pricing_source (pgMatch (refresh queriesOk now (priceTablesOf db') s)))"
proof -
  from overridesOk_steps [OF assms(1,2)] have ok: "overridesOk db'" and "modelPriceRows db' = modelPriceRows db" by blast+
  with assms(3) have "tablesOk (priceTablesOf db')" by (intro tablesOk_of) (simp_all add: catalogFits_def)
  with ok show ?thesis by (auto simp: overridesOk_def list_all_iff intro: pgMatch_source snapshotOk_refresh)
qed

theorem overrides_well_typed_witness:
  "distinct (map overrideSlot (overrideRows priced_db)) \<and> list_all overrideFits (overrideRows priced_db)
   \<and> tablesOk (priceTablesOf priced_db) \<and> pricing_source (pgMatch (refresh True 9 (priceTablesOf priced_db) newPgPricing))"
  using overrides_well_typed [OF r_into_rtranclp [where r = override_step] demo_overridesOk(1,2), of priced_db newPgPricing True 9]
    demo_overridesOk(3) snapshotOk_new by blast

section \<open>Gaps\<close>

text \<open>
  Only an owner may change what an override applies to, says the code; but an admin, who is refused the change, can
  delete the override and create the other one.
\<close>

definition rename_patch :: "string \<Rightarrow> override_patch" where
  "rename_patch m = \<lparr>op_provider = None, op_modelPattern = Some m, op_input = None, op_output = None, op_cacheRead = None, op_cacheWrite = None\<rparr>"

lemma admin_rekeys_by_delete_and_create:
  "\<exists>e db1 db2 v. patchOverride (Some demo_user) ''acme'' ''o1'' (rename_patch ''claude-y'') priced_db = (priced_db, Inl e) \<and> problemStatus e = 403
    \<and> deleteOverride (Some demo_user) ''acme'' ''o1'' priced_db = (db1, Inr ())
    \<and> createOverride 6 ''o2'' (Some demo_user) ''acme'' (demo_price\<lparr>ob_modelPattern := ''claude-y''\<rparr>) db1 = (db2, Inr v)
    \<and> map overrideSlot (overrideRows db2) = [(''w1'', ANTHROPIC, ''claude-y'')]"
proof -
  let ?b = "demo_price\<lparr>ob_modelPattern := ''claude-y''\<rparr>"
  have b: "overrideSchema ?b = Some ANTHROPIC"
    by (simp add: overrideSchema_def demo_price_def patternText_def patternChar_def priceText_def orElse_def decimal_eval providerOf_anthropic)
  have 1: "patchOverride (Some demo_user) ''acme'' ''o1'' (rename_patch ''claude-y'') priced_db
      = (priced_db, Inl (Domain (ForbiddenError ''Only workspace OWNERs can change the (provider, model) of an override'')))"
    by (simp add: patchOverride_def override_defs rename_patch_def overridePatchSchema_def patternText_def patternChar_def isDigit_def
        patchOverrideFields_def overrideSlot_def orElse_def Let_def)
  have 2: "deleteOverride (Some demo_user) ''acme'' ''o1'' priced_db = (demo_db, Inr ())"
    by (simp add: deleteOverride_def override_defs countWhere_def deleteWhere_def)
  have 3: "createOverride 6 ''o2'' (Some demo_user) ''acme'' ?b demo_db
      = (demo_db\<lparr>overrideRows := [demo_override\<lparr>po_id := ''o2'', po_modelPattern := ''claude-y'', po_createdAt := 6\<rparr>]\<rparr>,
         Inr (overrideView (demo_override\<lparr>po_id := ''o2'', po_modelPattern := ''claude-y'', po_createdAt := 6\<rparr>)))"
    using b by (simp add: createOverride_def override_defs overrideFits_def columnFits_def decimalMicros_def orElse_def decimal_eval)
  show ?thesis
    using 1 2 3 by (auto simp: overrideSlot_def demo_override_def problemStatus_def)
qed

text \<open>The conflict that a renaming runs into names the provider that the request left out.\<close>

lemma conflict_prints_undefined:
  "\<exists>db. snd (patchOverride (Some demo_user) ''acme'' ''o1'' (rename_patch ''claude-y'') db)
     = Inl (Domain (ConflictError ''Another override already targets undefined/claude-y''))"
  by (rule exI [of _ "priced_db\<lparr>wmembers := [alice\<lparr>wm_role := OWNER\<rparr>],
        overrideRows := [demo_override, demo_override\<lparr>po_id := ''o2'', po_modelPattern := ''claude-y''\<rparr>]\<rparr>"])
    (simp add: patchOverride_def override_defs rename_patch_def overridePatchSchema_def patternText_def patternChar_def isDigit_def
        patchOverrideFields_def overrideSlot_def templateText_def orElse_def Let_def)

text \<open>A star that is not at the end is admitted and stands for itself.\<close>

lemma inner_star_is_literal:
  "patternText ''gpt*mini'' \<and> findIn [overrideEntry (demo_override\<lparr>po_provider := OPENAI, po_modelPattern := ''gpt*mini''\<rparr>)] OPENAI ''gpt-4o-mini'' = None"
  by (simp add: patternText_def patternChar_def isDigit_def findIn_def overrideEntry_def demo_override_def patternPrefix_def endsWith_def)

text \<open>A schema-conforming amount of a million dollars does not fit the column: the request ends as a server error.\<close>

lemma large_price_is_server_error:
  "createOverride 5 ''o1'' (Some demo_user) ''acme'' (demo_price\<lparr>ob_input := ''1000000''\<rparr>) demo_db = (demo_db, Inl Internal)"
  by (simp add: createOverride_def overrideSchema_def override_defs patternText_def patternChar_def priceText_def providerOf_anthropic
      overrideFits_def columnFits_def decimalMicros_def orElse_def decimal_eval)

text \<open>
  The report of unpriced traffic lists every request without token counts, for instance each one the provider
  refused, under models that have a price; and what it calls the cost lost is always zero.
\<close>

lemma refused_request_is_unpriced:
  assumes "\<not> fin_done f" "fa_usage args = None"
  shows "\<exists>e. finalize match info args newId elapsed f = (f\<lparr>fin_done := True\<rparr>, [e], None) \<and> costBasis e = UNPRICED"
  using assms by (simp add: finalize_def eventCost_def usageEvent_def Let_def split: option.split)

lemma unpriced_event_is_free:
  "finalize match info args newId elapsed f = (f', [e], x) \<Longrightarrow> costBasis e = UNPRICED \<Longrightarrow> costUsd e = ''0.00000000''"
proof -
  assume "finalize match info args newId elapsed f = (f', [e], x)" "costBasis e = UNPRICED"
  then obtain price cost f1 where "eventCost price (fa_usage args) (fa_aborted args) = Inr cost"
    and "e = usageEvent info f1 args newId elapsed price cost" "snd cost = UNPRICED"
    by (auto simp: finalize_def usageEvent_def Let_def split: if_split_asm sum.split_asm)
  moreover have "snd cost = UNPRICED \<Longrightarrow> eventCost price u a = Inr cost \<Longrightarrow> fst cost = ''0.00000000''" for price u a
    unfolding eventCost_def by (cases price; cases u) (auto simp: Let_def map_sum_def split: option.split_asm if_split_asm sum.split_asm)
  ultimately show ?thesis by (simp add: usageEvent_def Let_def)
qed

lemma cost_lost_is_zero:
  assumes "\<forall>e\<in>set table. costBasis e = UNPRICED \<longrightarrow> costUsd e = ''0.00000000''"
    and "listUnpriced now user ws table db = (db', Inr rows)"
  shows "\<forall>r\<in>set rows. un_costLost r = ''0''"
proof -
  have zero: "cost8 (totalsOf e) = 0" if "e \<in> set table" "costBasis e = UNPRICED" for e
  proof -
    have "parseDecimalScaled (costUsd e) COST_SCALE = Inr 0"
      using assms(1) that by (simp add: parseDecimalScaled_def COST_SCALE_def decimal_eval)
    then show ?thesis by (auto simp: totalsOf_def eventTotals_def split: sum.split)
  qed
  have none: "sum_list (map (\<lambda>e. cost8 (totalsOf e)) es) = 0" if "set es \<subseteq> {e \<in> set table. costBasis e = UNPRICED}" for es
  proof -
    have "map (\<lambda>e. cost8 (totalsOf e)) es = map (\<lambda>_. 0) es" using that zero by (intro map_cong refl) blast
    then have "sum_list (map (\<lambda>e. cost8 (totalsOf e)) es) = sum_list (map (\<lambda>_. 0) es)" by (rule arg_cong)
    also have "\<dots> = 0" by simp
    finally show ?thesis .
  qed
  have "decimalString 8 0 = ''0''" by (simp add: decimalString_def Let_def showNat_lt digitChar_def, code_simp)
  moreover from assms(2) have "\<forall>r\<in>set rows. \<exists>es. set es \<subseteq> {e \<in> set table. costBasis e = UNPRICED}
      \<and> un_costLost r = decimalString 8 (nat (sum_list (map (\<lambda>e. cost8 (totalsOf e)) es)))"
    unfolding listUnpriced_def
  proof (cases rule: guarded_cases)
    case (admitted u ctx)
    define hits where "hits = filter (\<lambda>e. workspaceId e = ctx_workspaceId ctx \<and> now - 30 * 24 * 60 * 60 * 1000 \<le> occurredAt e
      \<and> costBasis e = UNPRICED) table"
    define groups where "groups = map (\<lambda>k. (k, filter (\<lambda>e. (ev_provider e, ev_model e) = k) hits)) (uniq (map (\<lambda>e. (ev_provider e, ev_model e)) hits))"
    from admitted(4) have rows: "rows = map (\<lambda>((p, m), es). \<lparr>un_provider = p, un_model = m, un_requests = length es,
        un_costLost = decimalString 8 (nat (sum_list (map (\<lambda>e. cost8 (totalsOf e)) es)))\<rparr>)
        (take 200 (sort_key (\<lambda>(k, es). - int (length es)) groups))"
      by (simp add: Let_def hits_def groups_def)
    show ?thesis
    proof
      fix r assume "r \<in> set rows"
      then obtain p m es where g: "((p, m), es) \<in> set groups"
        and r: "un_costLost r = decimalString 8 (nat (sum_list (map (\<lambda>e. cost8 (totalsOf e)) es)))"
        unfolding rows by (auto dest: in_set_takeD)
      from g have "set es \<subseteq> {e \<in> set table. costBasis e = UNPRICED}" by (auto simp: groups_def hits_def)
      with r show "\<exists>es. set es \<subseteq> {e \<in> set table. costBasis e = UNPRICED}
          \<and> un_costLost r = decimalString 8 (nat (sum_list (map (\<lambda>e. cost8 (totalsOf e)) es)))" by blast
    qed
  qed simp
  ultimately show ?thesis using none by fastforce
qed

end
