(* ===== verification/Analytics.thy ===== *)
theory Analytics
  imports Housekeeping Projects Overrides
begin

text \<open>
  The analytics of the API: the queries over the rollup tables (\<open>apps/api/src/modules/analytics-query.ts\<close>), the routes
  summary, timeseries, breakdown and the explorer of events (\<open>analytics.ts\<close>), and the loop of the web client that
  follows the explorer's cursor. A caller's answers depend only on what the caller may see; the points of a series agree
  with the events; shares and rates are bounded; the explorer's pages cover every event when their times differ.
\<close>

section \<open>Dimensions, metrics and granularities (analytics-query.ts)\<close>

datatype dimension = ByProject | ByTeam | ByUser | ByProvider | ByModel
datatype metric = MCost | MRequests | MTokens | MErrors
datatype granularity = GHour | GDay | GWeek | GMonth

definition DIMENSIONS :: "(string \<times> dimension) list" where
  "DIMENSIONS = [(''project'', ByProject), (''team'', ByTeam), (''user'', ByUser), (''provider'', ByProvider), (''model'', ByModel)]"

definition METRICS :: "(string \<times> metric) list" where
  "METRICS = [(''cost'', MCost), (''requests'', MRequests), (''tokens'', MTokens), (''errors'', MErrors)]"

definition GRANULARITIES :: "(string \<times> granularity) list" where
  "GRANULARITIES = [(''hour'', GHour), (''day'', GDay), (''week'', GWeek), (''month'', GMonth)]"

type_synonym table_row = "rollup_key \<times> rollup_row"

definition dimKey :: "dimension \<Rightarrow> table_row \<Rightarrow> string option" where
  "dimKey d = (\<lambda>((bucket, wsid, pid, uid, p, m), r).
     (case d of ByProject \<Rightarrow> Some pid | ByTeam \<Rightarrow> rr_teamId r | ByUser \<Rightarrow> Some uid | ByProvider \<Rightarrow> Some (providerName p) | ByModel \<Rightarrow> Some m))"

text \<open>The sums of the metrics; the cost in dollars.\<close>

definition metricValue :: "metric \<Rightarrow> totals \<Rightarrow> rat" where
  "metricValue m t =
     (case m of
        MCost \<Rightarrow> of_int (cost8 t) / 100000000
      | MRequests \<Rightarrow> of_int (requests t)
      | MTokens \<Rightarrow> of_int (tInput t + tOutput t)
      | MErrors \<Rightarrow> of_int (errors t))"

text \<open>\<open>date_trunc\<close> in UTC, the time zone of the application's role: weeks begin on Monday.\<close>

definition dateTrunc :: "granularity \<Rightarrow> millis \<Rightarrow> millis" where
  "dateTrunc g t =
     (let d = t div DAY_MS in
      case g of
        GHour \<Rightarrow> truncateUtc t Hour
      | GDay \<Rightarrow> d * DAY_MS
      | GWeek \<Rightarrow> (d - (d + 3) mod 7) * DAY_MS
      | GMonth \<Rightarrow> (let (y, dy) = yearOfDay (nat d) 1970; (m, dm) = monthOfDay dy (monthLengths y) 1 in (d - int dm) * DAY_MS))"

definition tableFor :: "granularity \<Rightarrow> ledger \<Rightarrow> table_row list" where
  "tableFor g l = (if g = GHour then hourly l else daily l)"

record explorer_filters =
  xf_projectId :: "string option"
  xf_teamId :: "string option"
  xf_userId :: "string option"
  xf_provider :: "provider option"
  xf_model :: "string option"

text \<open>\<open>buildWhere\<close>: an empty text counts as absent.\<close>

definition buildWhere :: "string \<Rightarrow> millis \<Rightarrow> millis \<Rightarrow> explorer_filters \<Rightarrow> string option \<Rightarrow> table_row \<Rightarrow> bool" where
  "buildWhere wsid start end fs scope = (\<lambda>((bucket, w, pid, uid, p, m), r).
     w = wsid \<and> start \<le> bucket \<and> bucket < end
     \<and> (given (xf_projectId fs) \<longrightarrow> xf_projectId fs = Some pid)
     \<and> (given (xf_teamId fs) \<longrightarrow> xf_teamId fs = rr_teamId r)
     \<and> (given (xf_userId fs) \<longrightarrow> xf_userId fs = Some uid)
     \<and> (xf_provider fs \<noteq> None \<longrightarrow> xf_provider fs = Some p)
     \<and> (given (xf_model fs) \<longrightarrow> xf_model fs = Some m)
     \<and> (given scope \<longrightarrow> scope = Some uid))"

text \<open>\<open>GROUP BY\<close> with the sums of all counters: one row per key, in order of first appearance.\<close>

definition groupSum :: "(table_row \<Rightarrow> 'k) \<Rightarrow> table_row list \<Rightarrow> ('k \<times> totals) list" where
  "groupSum key rows = map (\<lambda>k. (k, sum_list (map (rr_totals \<circ> snd) (filter (\<lambda>x. key x = k) rows)))) (uniq (map key rows))"

section \<open>Queries (analytics-query.ts)\<close>

text \<open>The display names of the keys of a result; providers and models are their own names.\<close>

definition resolveLabels :: "database \<Rightarrow> dimension \<Rightarrow> string option list \<Rightarrow> string \<Rightarrow> string option" where
  "resolveLabels base d keys i =
     (if Some i \<notin> set keys then None
      else case d of
             ByProject \<Rightarrow> map_option pj_name (find (\<lambda>p. pj_id p = i) (projects base))
           | ByTeam \<Rightarrow> map_option tm_name (find (\<lambda>t. tm_id t = i) (teams base))
           | ByUser \<Rightarrow> map_option us_name (find (\<lambda>u. us_id u = i) (users base))
           | _ \<Rightarrow> None)"

definition keyId :: "string option \<Rightarrow> string" where
  "keyId k = orElse k ''unknown''"

definition keyName :: "(string \<Rightarrow> string option) \<Rightarrow> string option \<Rightarrow> string" where
  "keyName labels k = orElse (labels (keyId k)) (keyId k)"

record series =
  sr_key :: "(string \<times> string) option"
  sr_points :: "(string \<times> jsnumber) list"

text \<open>The loop that distributes the rows over the series, a map in insertion order.\<close>

fun seriesLoop ::
  "(string \<Rightarrow> string option) \<Rightarrow> (string, series) omap \<Rightarrow> (string option \<times> string \<times> jsnumber) list \<Rightarrow> (string, series) omap" where
  "seriesLoop labels byKey [] = byKey"
| "seriesLoop labels byKey ((k, point) # rest) =
     (let s = (case map_of byKey (keyId k) of
                 None \<Rightarrow> \<lparr>sr_key = Some (keyId k, keyName labels k), sr_points = []\<rparr>
               | Some s \<Rightarrow> s)
      in seriesLoop labels (AList.update (keyId k) (s\<lparr>sr_points := sr_points s @ [point]\<rparr>) byKey) rest)"

record explorer_params =
  xp_workspaceId :: string
  xp_from :: millis
  xp_to :: millis
  xp_filters :: explorer_filters
  xp_scopeUserId :: "string option"

definition selectRows :: "granularity \<Rightarrow> ledger \<Rightarrow> explorer_params \<Rightarrow> table_row list" where
  "selectRows g l x = filter (buildWhere (xp_workspaceId x) (xp_from x) (xp_to x) (xp_filters x) (xp_scopeUserId x)) (tableFor g l)"

text \<open>
  \<open>rnd\<close> rounds a decimal to the nearest double. Rows of one instant come in any order; here in order of appearance.
\<close>

definition queryTimeseries ::
  "(rat \<Rightarrow> jsnumber) \<Rightarrow> database \<Rightarrow> ledger \<Rightarrow> metric \<Rightarrow> granularity \<Rightarrow> dimension option \<Rightarrow> explorer_params \<Rightarrow> series list" where
  "queryTimeseries rnd base l m g groupBy x =
     (let rows = selectRows g l x; point = (\<lambda>t tot. (toISOString t, rnd (metricValue m tot))) in
      case groupBy of
        Some d \<Rightarrow>
          (let grouped = sort_key (fst \<circ> fst) (groupSum (\<lambda>r. (dateTrunc g (fst (fst r)), dimKey d r)) rows);
               labels = resolveLabels base d (map (snd \<circ> fst) grouped)
           in map snd (seriesLoop labels [] (map (\<lambda>((t, k), tot). (k, point t tot)) grouped)))
      | None \<Rightarrow>
          [\<lparr>sr_key = None, sr_points = map (\<lambda>(t, tot). point t tot)
             (sort_key fst (groupSum (\<lambda>r. dateTrunc g (fst (fst r))) rows))\<rparr>])"

record breakdown_row =
  br_key :: "string \<times> string"
  br_costUsd :: string
  br_requests :: jsnumber
  br_errors :: jsnumber
  br_inputTokens :: jsnumber
  br_outputTokens :: jsnumber
  br_errorRate :: jsnumber
  br_sharePct :: jsnumber

text \<open>A cost in hundred-millionths as \<open>Decimal.toString()\<close> prints it.\<close>

definition dollarText :: "int \<Rightarrow> string" where
  "dollarText c = (if c < 0 then ''-'' else []) @ decimalString 8 (nat \<bar>c\<bar>)"

text \<open>\<open>x.toFixed(8)\<close>: the nearest multiple, the larger one of two.\<close>

definition toFixed8 :: "jsnumber \<Rightarrow> string" where
  "toFixed8 x = (if x < 0 then CHR ''-'' # formatScaled \<lfloor>- x * 100000000 + 1 / 2\<rfloor> 8 else formatScaled \<lfloor>x * 100000000 + 1 / 2\<rfloor> 8)"

text \<open>The groups with the greatest cost; groups of the same cost come in any order, here in order of appearance.\<close>

definition breakdownGroups :: "ledger \<Rightarrow> dimension \<Rightarrow> nat \<Rightarrow> explorer_params \<Rightarrow> (string option \<times> totals) list" where
  "breakdownGroups l d limit x = take limit (sort_key (\<lambda>(k, t). - cost8 t) (groupSum (dimKey d) (selectRows GDay l x)))"

definition totalCost :: "(rat \<Rightarrow> jsnumber) \<Rightarrow> (string option \<times> totals) list \<Rightarrow> jsnumber" where
  "totalCost rnd raw = foldl (\<lambda>s (k, t). rnd (s + rnd (metricValue MCost t))) 0 raw"

definition breakdownRow :: "(rat \<Rightarrow> jsnumber) \<Rightarrow> (string \<Rightarrow> string option) \<Rightarrow> jsnumber \<Rightarrow> string option \<times> totals \<Rightarrow> breakdown_row" where
  "breakdownRow rnd labels allCost = (\<lambda>(k, t).
     (let reqs = rnd (of_int (requests t)); cost = rnd (metricValue MCost t) in
      \<lparr>br_key = (keyId k, keyName labels k), br_costUsd = dollarText (cost8 t), br_requests = reqs,
       br_errors = rnd (of_int (errors t)), br_inputTokens = rnd (of_int (tInput t)), br_outputTokens = rnd (of_int (tOutput t)),
       br_errorRate = (if 0 < reqs then rnd (rnd (of_int (errors t)) / reqs) else 0),
       br_sharePct = (if 0 < allCost then rnd (rnd (cost / allCost) * 100) else 0)\<rparr>))"

definition queryBreakdown ::
  "(rat \<Rightarrow> jsnumber) \<Rightarrow> database \<Rightarrow> ledger \<Rightarrow> dimension \<Rightarrow> nat \<Rightarrow> explorer_params \<Rightarrow> breakdown_row list \<times> string" where
  "queryBreakdown rnd base l d limit x =
     (let raw = breakdownGroups l d limit x;
          labels = resolveLabels base d (map fst raw);
          allCost = totalCost rnd raw
      in (map (breakdownRow rnd labels allCost) raw, toFixed8 allCost))"

section \<open>Requests (analytics.ts)\<close>

text \<open>\<open>z.coerce.number().int().min(lo).max(hi).default(dflt)\<close>; \<open>toNum\<close> is \<open>Number()\<close> of a text, \<^term>\<open>None\<close> for NaN.\<close>

definition countParam :: "(string \<Rightarrow> jsnumber option) \<Rightarrow> int \<Rightarrow> int \<Rightarrow> int \<Rightarrow> string option \<Rightarrow> int option" where
  "countParam toNum lo hi dflt x =
     (case x of
        None \<Rightarrow> Some dflt
      | Some s \<Rightarrow>
          (case toNum s of
             None \<Rightarrow> None
           | Some n \<Rightarrow> (if isInteger n \<and> of_int lo \<le> n \<and> n \<le> of_int hi then Some \<lfloor>n\<rfloor> else None)))"

record explorer_query =
  xq_from :: "string option"
  xq_to :: "string option"
  xq_projectId :: "string option"
  xq_teamId :: "string option"
  xq_userId :: "string option"
  xq_provider :: "string option"
  xq_model :: "string option"
  xq_metric :: "string option"
  xq_granularity :: "string option"
  xq_groupBy :: "string option"
  xq_limit :: "string option"

text \<open>The fields shared by the two explorer queries; \<open>toDate\<close> is the \<open>Date\<close> constructor, \<open>zUuid\<close> the schema library's check.\<close>

definition filterFields ::
  "(string \<Rightarrow> millis option) \<Rightarrow> (string \<Rightarrow> bool) \<Rightarrow> explorer_query \<Rightarrow> (millis \<times> millis \<times> explorer_filters) option" where
  "filterFields toDate zUuid q =
     (case (Option.bind (xq_from q) toDate, Option.bind (xq_to q) toDate) of
        (Some a, Some b) \<Rightarrow>
          (if list_all (pred_option zUuid) [xq_projectId q, xq_teamId q, xq_userId q]
              \<and> pred_option (\<lambda>p. providerOf p \<noteq> None) (xq_provider q) \<and> pred_option (\<lambda>m. length m \<le> 100) (xq_model q)
           then Some (a, b, \<lparr>xf_projectId = xq_projectId q, xf_teamId = xq_teamId q, xf_userId = xq_userId q,
                             xf_provider = Option.bind (xq_provider q) providerOf, xf_model = xq_model q\<rparr>)
           else None)
      | _ \<Rightarrow> None)"

definition enumParam :: "(string \<times> 'e) list \<Rightarrow> 'e \<Rightarrow> string option \<Rightarrow> 'e option" where
  "enumParam names dflt x = (case x of None \<Rightarrow> Some dflt | Some s \<Rightarrow> map_of names s)"

definition explorerParams :: "workspace_context \<Rightarrow> authed_user \<Rightarrow> millis \<times> millis \<times> explorer_filters \<Rightarrow> explorer_params" where
  "explorerParams ctx u = (\<lambda>(a, b, fs).
     \<lparr>xp_workspaceId = ctx_workspaceId ctx, xp_from = a, xp_to = b, xp_filters = fs, xp_scopeUserId = scopeUserId ctx u\<rparr>)"

section \<open>Routes (analytics.ts)\<close>

record summary =
  sm_rangeDays :: int
  sm_costUsd :: string
  sm_requests :: int
  sm_inputTokens :: jsnumber
  sm_outputTokens :: jsnumber
  sm_errorRate :: jsnumber
  sm_byProvider :: "(provider \<times> string \<times> int) list"
  sm_byModel :: "(provider \<times> string \<times> string \<times> int) list"
  sm_byDay :: "(string \<times> string \<times> int) list"

definition summaryRows :: "workspace_context \<Rightarrow> authed_user \<Rightarrow> millis \<Rightarrow> ledger \<Rightarrow> table_row list" where
  "summaryRows ctx u start l = filter (\<lambda>((bucket, w, pid, uid, p, m), r).
     w = ctx_workspaceId ctx \<and> start \<le> bucket \<and> (given (scopeUserId ctx u) \<longrightarrow> scopeUserId ctx u = Some uid)) (daily l)"

definition getSummary ::
  "(rat \<Rightarrow> jsnumber) \<Rightarrow> (string \<Rightarrow> jsnumber option) \<Rightarrow> millis \<Rightarrow> authed_user option \<Rightarrow> string \<Rightarrow> string option \<Rightarrow> ledger \<Rightarrow> database \<Rightarrow>
   database \<times> (api_error + summary)" where
  "getSummary rnd toNum now user ws days l base =
     guarded VIEWER user ws base (\<lambda>u ctx.
       (base, case countParam toNum 1 365 30 days of
              None \<Rightarrow> Inl ZodFailed
            | Some n \<Rightarrow>
                (let rows = summaryRows ctx u (now - n * 86400000) l;
                     totals = sum_list (map (rr_totals \<circ> snd) rows);
                     reqs = requests totals;
                     costliest = sort_key (\<lambda>(k, t). - cost8 t)
                 in Inr \<lparr>sm_rangeDays = n, sm_costUsd = dollarText (cost8 totals), sm_requests = reqs,
                      sm_inputTokens = rnd (of_int (tInput totals)), sm_outputTokens = rnd (of_int (tOutput totals)),
                      sm_errorRate = (if 0 < reqs then rnd (of_int (errors totals) / of_int reqs) else 0),
                      sm_byProvider = map (\<lambda>(p, t). (p, dollarText (cost8 t), requests t))
                        (costliest (groupSum (\<lambda>((b, w, pid, uid, p, m), r). p) rows)),
                      sm_byModel = map (\<lambda>((p, m), t). (p, m, dollarText (cost8 t), requests t))
                        (take 8 (sort_key (\<lambda>(k, t). - cost8 t) (groupSum (\<lambda>((b, w, pid, uid, p, m), r). (p, m)) rows))),
                      sm_byDay = map (\<lambda>(b, t). (take 10 (toISOString b), dollarText (cost8 t), requests t))
                        (sort_key fst (groupSum (\<lambda>r. fst (fst r)) rows))\<rparr>)))"

definition getTimeseries ::
  "(rat \<Rightarrow> jsnumber) \<Rightarrow> (string \<Rightarrow> millis option) \<Rightarrow> (string \<Rightarrow> bool) \<Rightarrow> authed_user option \<Rightarrow> string \<Rightarrow> explorer_query \<Rightarrow> ledger \<Rightarrow>
   database \<Rightarrow> database \<times> (api_error + series list)" where
  "getTimeseries rnd toDate zUuid user ws q l base =
     guarded VIEWER user ws base (\<lambda>u ctx.
       (base, case (filterFields toDate zUuid q, enumParam METRICS MCost (xq_metric q), enumParam GRANULARITIES GDay (xq_granularity q),
                  enumParam (map (map_prod id Some) DIMENSIONS) None (xq_groupBy q)) of
              (Some f, Some m, Some g, Some d) \<Rightarrow> Inr (queryTimeseries rnd base l m g d (explorerParams ctx u f))
            | _ \<Rightarrow> Inl ZodFailed))"

definition getBreakdown ::
  "(rat \<Rightarrow> jsnumber) \<Rightarrow> (string \<Rightarrow> jsnumber option) \<Rightarrow> (string \<Rightarrow> millis option) \<Rightarrow> (string \<Rightarrow> bool) \<Rightarrow> authed_user option \<Rightarrow> string \<Rightarrow>
   explorer_query \<Rightarrow> ledger \<Rightarrow> database \<Rightarrow> database \<times> (api_error + breakdown_row list \<times> string)" where
  "getBreakdown rnd toNum toDate zUuid user ws q l base =
     guarded VIEWER user ws base (\<lambda>u ctx.
       (base, case (filterFields toDate zUuid q, Option.bind (xq_groupBy q) (map_of DIMENSIONS), countParam toNum 1 200 50 (xq_limit q)) of
              (Some f, Some d, Some n) \<Rightarrow> Inr (queryBreakdown rnd base l d (nat n) (explorerParams ctx u f))
            | _ \<Rightarrow> Inl ZodFailed))"

section \<open>The explorer of events (analytics.ts)\<close>

text \<open>\<open>enc\<close> is the base64url text of a text; \<open>dec\<close> decodes one and reads the date, \<^term>\<open>None\<close> when it is none.\<close>

definition encodeCursor :: "(string \<Rightarrow> string) \<Rightarrow> millis \<Rightarrow> string" where
  "encodeCursor enc t = enc (toISOString t)"

definition decodeCursor :: "(string \<Rightarrow> millis option) \<Rightarrow> millis \<Rightarrow> string \<Rightarrow> millis" where
  "decodeCursor dec now c = orElse (dec c) now"

definition visibleEvents :: "workspace_context \<Rightarrow> authed_user \<Rightarrow> usage_event list \<Rightarrow> usage_event list" where
  "visibleEvents ctx u table =
     filter (\<lambda>e. workspaceId e = ctx_workspaceId ctx \<and> (given (scopeUserId ctx u) \<longrightarrow> scopeUserId ctx u = Some (userId e))) table"

text \<open>A page and the next cursor. Events of one instant come in any order; here in that of the table.\<close>

definition eventPage ::
  "(string \<Rightarrow> string) \<Rightarrow> (string \<Rightarrow> millis option) \<Rightarrow> millis \<Rightarrow> nat \<Rightarrow> usage_event list \<Rightarrow> string option \<Rightarrow>
   usage_event list \<times> string option" where
  "eventPage enc dec now limit visible cursor =
     (let hits = (if given cursor then filter (\<lambda>e. occurredAt e < decodeCursor dec now (the cursor)) visible else visible);
          events = take (limit + 1) (sort_key (\<lambda>e. - occurredAt e) hits);
          page = take limit events
      in (page, if limit < length events \<and> page \<noteq> [] then Some (encodeCursor enc (occurredAt (last page))) else None))"

definition getEvents ::
  "(string \<Rightarrow> string) \<Rightarrow> (string \<Rightarrow> millis option) \<Rightarrow> (string \<Rightarrow> jsnumber option) \<Rightarrow> millis \<Rightarrow> authed_user option \<Rightarrow> string \<Rightarrow>
   string option \<Rightarrow> string option \<Rightarrow> usage_event list \<Rightarrow> database \<Rightarrow> database \<times> (api_error + usage_event list \<times> string option)" where
  "getEvents enc dec toNum now user ws limit cursor table base =
     guarded VIEWER user ws base (\<lambda>u ctx.
       (base, case countParam toNum 1 200 50 limit of
              None \<Rightarrow> Inl ZodFailed
            | Some n \<Rightarrow> Inr (eventPage enc dec now (nat n) (visibleEvents ctx u table) cursor)))"

text \<open>
  The client asks for the first page and then, as long as a page names one, for the page at the next cursor; \<open>fuel\<close>
  bounds the number of requests.
\<close>

fun followCursor :: "(string option \<Rightarrow> usage_event list \<times> string option) \<Rightarrow> nat \<Rightarrow> string option \<Rightarrow> usage_event list option" where
  "followCursor fetch 0 cursor = None"
| "followCursor fetch (Suc fuel) cursor =
     (let (page, next) = fetch cursor in
      case next of
        None \<Rightarrow> Some page
      | Some c \<Rightarrow> map_option (\<lambda>rest. page @ rest) (followCursor fetch fuel (Some c)))"

section \<open>Lemmas: grouping\<close>

lemma uniq_set [simp]: "set (uniq xs) = set xs" "distinct (uniq xs)"
  by (simp_all add: uniq_def)

lemma groupSum_iff:
  "(k, t) \<in> set (groupSum key rows) \<longleftrightarrow>
   k \<in> key ` set rows \<and> t = sum_list (map (rr_totals \<circ> snd) (filter (\<lambda>x. key x = k) rows))"
  by (auto simp: groupSum_def)

lemma groupSum_keys: "map fst (groupSum key rows) = uniq (map key rows)"
  by (simp add: groupSum_def comp_def)

section \<open>What a caller may see\<close>

definition seesRow :: "workspace_context \<Rightarrow> authed_user \<Rightarrow> table_row \<Rightarrow> bool" where
  "seesRow ctx u = (\<lambda>((bucket, w, pid, uid, p, m), r). w = ctx_workspaceId ctx \<and> (ctx_role ctx = MEMBER \<longrightarrow> uid = au_id u))"

definition visibleTo :: "workspace_context \<Rightarrow> authed_user \<Rightarrow> ledger \<Rightarrow> ledger" where
  "visibleTo ctx u l =
     l\<lparr>usageEvents := filter (\<lambda>e. workspaceId e = ctx_workspaceId ctx \<and> (ctx_role ctx = MEMBER \<longrightarrow> userId e = au_id u)) (usageEvents l),
       hourly := filter (seesRow ctx u) (hourly l), daily := filter (seesRow ctx u) (daily l), lastUsedAt := []\<rparr>"

lemma scope_given: "au_id u \<noteq> [] \<Longrightarrow> given (scopeUserId ctx u) \<longleftrightarrow> ctx_role ctx = MEMBER"
  by (cases "ctx_role ctx") (simp_all add: scopeUserId_def given_def hasMinimumRole_def)

lemma scope_text: "given (scopeUserId ctx u) \<Longrightarrow> scopeUserId ctx u = Some (au_id u)"
  by (simp add: scopeUserId_def given_def split: if_split_asm)

lemma summaryRows_visible: "au_id u \<noteq> [] \<Longrightarrow> summaryRows ctx u start (visibleTo ctx u l) = summaryRows ctx u start l"
  using scope_given [of u ctx] scope_text [of ctx u]
  by (auto simp: summaryRows_def visibleTo_def seesRow_def intro!: filter_cong)

lemma selectRows_visible:
  assumes "au_id u \<noteq> []"
  shows "selectRows g (visibleTo ctx u l) (explorerParams ctx u f) = selectRows g l (explorerParams ctx u f)"
proof -
  have "buildWhere (ctx_workspaceId ctx) a b fs (scopeUserId ctx u) r \<Longrightarrow> seesRow ctx u r" for a b fs r
    using scope_given [OF assms, of ctx] scope_text [of ctx u] by (auto simp: buildWhere_def seesRow_def split: prod.splits)
  then show ?thesis
    by (auto simp: selectRows_def explorerParams_def tableFor_def visibleTo_def split: prod.split intro!: filter_cong)
qed

lemma visibleEvents_visible: "au_id u \<noteq> [] \<Longrightarrow> visibleEvents ctx u (usageEvents (visibleTo ctx u l)) = visibleEvents ctx u (usageEvents l)"
  using scope_given [of u ctx] scope_text [of ctx u] by (auto simp: visibleEvents_def visibleTo_def intro!: filter_cong)

section \<open>Lemmas: points and events\<close>

definition bucketUnit :: "granularity \<Rightarrow> trunc_unit" where
  "bucketUnit g = (if g = GHour then Hour else Day)"

text \<open>
  An event passes a request's filters; and it is within the request's range as the query tests it: by the beginning of its
  hour or its day, not by its own time.
\<close>

definition passes :: "explorer_params \<Rightarrow> usage_event \<Rightarrow> bool" where
  "passes x e \<longleftrightarrow>
     (let fs = xp_filters x in
      workspaceId e = xp_workspaceId x
      \<and> (given (xf_projectId fs) \<longrightarrow> xf_projectId fs = Some (projectId e))
      \<and> (given (xf_userId fs) \<longrightarrow> xf_userId fs = Some (userId e))
      \<and> (xf_provider fs \<noteq> None \<longrightarrow> xf_provider fs = Some (ev_provider e))
      \<and> (given (xf_model fs) \<longrightarrow> xf_model fs = Some (ev_model e))
      \<and> (given (xp_scopeUserId x) \<longrightarrow> xp_scopeUserId x = Some (userId e)))"

definition bucketInRange :: "granularity \<Rightarrow> explorer_params \<Rightarrow> usage_event \<Rightarrow> bool" where
  "bucketInRange g x e \<longleftrightarrow>
     (let b = truncateUtc (occurredAt e) (bucketUnit g) in xp_from x \<le> b \<and> b < xp_to x)"

abbreviation selected :: "granularity \<Rightarrow> explorer_params \<Rightarrow> usage_event \<Rightarrow> bool" where
  "selected g x e \<equiv> passes x e \<and> bucketInRange g x e"

text \<open>A range of whole buckets is a range of the events' own times.\<close>

definition wholeBuckets :: "granularity \<Rightarrow> explorer_params \<Rightarrow> bool" where
  "wholeBuckets g x \<longleftrightarrow> truncateUtc (xp_from x) (bucketUnit g) = xp_from x \<and> truncateUtc (xp_to x) (bucketUnit g) = xp_to x"

lemma bucketInRange_whole:
  "wholeBuckets g x \<Longrightarrow> bucketInRange g x e \<longleftrightarrow> xp_from x \<le> occurredAt e \<and> occurredAt e < xp_to x"
  using truncateUtc_le [of "occurredAt e" "bucketUnit g"]
    truncateUtc_mono [of "xp_from x" "occurredAt e" "bucketUnit g"] truncateUtc_mono [of "xp_to x" "occurredAt e" "bucketUnit g"]
  by (auto simp: wholeBuckets_def bucketInRange_def Let_def not_less [symmetric])

definition keyFor :: "granularity \<Rightarrow> usage_event \<Rightarrow> rollup_key" where
  "keyFor g = (if g = GHour then hourKey else dayKey)"

definition keyWhere :: "explorer_params \<Rightarrow> rollup_key \<Rightarrow> bool" where
  "keyWhere x k = buildWhere (xp_workspaceId x) (xp_from x) (xp_to x) (xp_filters x) (xp_scopeUserId x) (k, \<lparr>rr_teamId = None, rr_totals = 0\<rparr>)"

lemma keyWhere_row:
  assumes "\<not> given (xf_teamId (xp_filters x))"
  shows "buildWhere (xp_workspaceId x) (xp_from x) (xp_to x) (xp_filters x) (xp_scopeUserId x) = (\<lambda>(k, r). keyWhere x k)"
  using assms by (auto simp: keyWhere_def buildWhere_def fun_eq_iff)

lemma keyWhere_event: "\<not> given (xf_teamId (xp_filters x)) \<Longrightarrow> keyWhere x (keyFor g e) \<longleftrightarrow> selected g x e"
  by (cases "g = GHour") (auto simp: keyWhere_def buildWhere_def passes_def bucketInRange_def keyFor_def hourKey_def dayKey_def bucketUnit_def Let_def)

lemma dateTrunc_bucket: "dateTrunc g (fst (keyFor g e)) = dateTrunc g (occurredAt e)"
proof (cases "g = GHour")
  case True
  then show ?thesis by (simp add: keyFor_def hourKey_def dateTrunc_def truncateUtc_hour HOUR_MS_def)
next
  case False
  have "truncateUtc (occurredAt e) Day div DAY_MS = occurredAt e div DAY_MS" by (simp add: truncateUtc_day DAY_MS_def)
  with False show ?thesis by (cases g) (simp_all add: keyFor_def dayKey_def dateTrunc_def Let_def)
qed

lemma tableFor_rollup: "sound l \<Longrightarrow> rollupOf (keyFor g) (usageEvents l) (tableFor g l)"
  using sound_rollups [of l] by (simp add: keyFor_def tableFor_def)

lemma point_agrees:
  assumes "sound l" "\<not> given (xf_teamId (xp_filters x))" "(t, tot) \<in> set (groupSum (\<lambda>r. dateTrunc g (fst (fst r))) (selectRows g l x))"
  shows "agrees tot (filter (\<lambda>e. selected g x e \<and> dateTrunc g (occurredAt e) = t) (usageEvents l))"
proof -
  let ?Q = "\<lambda>k. keyWhere x k \<and> dateTrunc g (fst k) = t"
  have "tot = sum_list (map (rr_totals \<circ> snd) (filter (\<lambda>r. dateTrunc g (fst (fst r)) = t) (selectRows g l x)))"
    using assms(3) by (simp add: groupSum_iff)
  also have "filter (\<lambda>r. dateTrunc g (fst (fst r)) = t) (selectRows g l x) = filter (\<lambda>(k, r). ?Q k) (tableFor g l)"
    by (simp add: selectRows_def keyWhere_row [OF assms(2)] case_prod_unfold)
  finally have "tot = sum_list (map (\<lambda>(k, r). rr_totals r) (filter (\<lambda>(k, r). ?Q k) (tableFor g l)))"
    by (simp add: comp_def case_prod_unfold)
  with table_sum [OF tableFor_rollup [OF assms(1)], of ?Q g]
  show ?thesis by (simp add: keyWhere_event [OF assms(2)] dateTrunc_bucket)
qed

lemma event_has_point:
  assumes "sound l" "\<not> given (xf_teamId (xp_filters x))" "e \<in> set (usageEvents l)" "selected g x e"
  shows "dateTrunc g (occurredAt e) \<in> set (map fst (groupSum (\<lambda>r. dateTrunc g (fst (fst r))) (selectRows g l x)))"
proof -
  from event_has_row [OF tableFor_rollup [OF assms(1), of g] assms(3)] obtain r where r: "(keyFor g e, r) \<in> set (tableFor g l)" by force
  with assms(4) have "(keyFor g e, r) \<in> set (selectRows g l x)"
    by (simp add: selectRows_def keyWhere_row [OF assms(2)] keyWhere_event [OF assms(2)])
  then show ?thesis unfolding groupSum_keys by (auto simp: image_iff intro!: bexI [of _ "(keyFor g e, r)"] simp: dateTrunc_bucket)
qed

lemma sort_key_strict: "distinct (map fst xs) \<Longrightarrow> sorted_wrt (<) (map fst (sort_key fst (xs :: (millis \<times> 'v) list)))"
  by (rule strict_sorted_iff [THEN iffD2]) (simp add: distinct_map)

section \<open>Lemmas: pages\<close>

lemma below_last:
  assumes "sorted_wrt (\<lambda>a b. occurredAt b < occurredAt a) S" "n < length S" "0 < n"
  shows "filter (\<lambda>e. occurredAt e < occurredAt (S ! (n - 1))) S = drop n S"
proof -
  have "\<not> occurredAt e < occurredAt (S ! (n - 1))" if e: "e \<in> set (take n S)" for e
  proof -
    from e assms(2) obtain i where i: "i < n" "e = S ! i" by (auto simp: in_set_conv_nth)
    show ?thesis
    proof (cases "i = n - 1")
      case False
      with i assms(2) have "occurredAt (S ! (n - 1)) < occurredAt (S ! i)" by (intro sorted_wrt_nth_less [OF assms(1)]) simp_all
      with i show ?thesis by simp
    qed (use i in simp)
  qed
  moreover have "occurredAt e < occurredAt (S ! (n - 1))" if e: "e \<in> set (drop n S)" for e
  proof -
    from e obtain i where "i < length S - n" "e = S ! (n + i)" by (auto simp: in_set_conv_nth)
    with sorted_wrt_nth_less [OF assms(1), of "n - 1" "n + i"] assms(3) show ?thesis by simp
  qed
  ultimately have "filter (\<lambda>e. occurredAt e < occurredAt (S ! (n - 1))) (take n S @ drop n S) = drop n S"
    unfolding filter_append by (simp add: filter_empty_conv filter_id_conv)
  then show ?thesis by simp
qed

lemma strict_desc:
  assumes "distinct (map occurredAt es)"
  shows "sorted_wrt (\<lambda>a b. occurredAt b < occurredAt a) (sort_key (\<lambda>e. - occurredAt e) es)"
proof -
  have "sorted_wrt (\<lambda>a b. - occurredAt a \<le> - occurredAt b) (sort_key (\<lambda>e. - occurredAt e) es)"
    using sorted_sort_key [of "\<lambda>e. - occurredAt e" es] by (simp add: sorted_wrt_map)
  moreover have "distinct (map occurredAt (sort_key (\<lambda>e. - occurredAt e) es))" using assms by (simp add: distinct_map)
  then have "sorted_wrt (\<lambda>a b. occurredAt b \<noteq> occurredAt a) (sort_key (\<lambda>e. - occurredAt e) es)"
    unfolding distinct_conv_nth sorted_wrt_iff_nth_less by auto
  ultimately show ?thesis by (simp add: sorted_wrt_iff_nth_less order.strict_iff_order)
qed

lemma filter_below: "(u :: millis) < t \<Longrightarrow> filter (\<lambda>x. f x < u) (filter (\<lambda>x. f x < t) xs) = filter (\<lambda>x. f x < u) xs"
  by (induction xs) auto

lemma follow_pages:
  assumes "distinct (map occurredAt visible)" "0 < limit"
    and "\<forall>e\<in>set visible. enc (toISOString (occurredAt e)) \<noteq> [] \<and> dec (enc (toISOString (occurredAt e))) = Some (occurredAt e)"
    and "cursor = None \<and> hits = visible \<or> (\<exists>e\<in>set visible. cursor = Some (enc (toISOString (occurredAt e)))
      \<and> hits = filter (\<lambda>x. occurredAt x < occurredAt e) visible)"
    and "length hits < fuel"
  shows "followCursor (eventPage enc dec now limit visible) fuel cursor = Some (sort_key (\<lambda>e. - occurredAt e) hits)"
  using assms(4,5)
proof (induction fuel arbitrary: cursor hits)
  case (Suc fuel)
  let ?S = "sort_key (\<lambda>e. - occurredAt e) hits"
  have hits: "(if given cursor then filter (\<lambda>e. occurredAt e < decodeCursor dec now (the cursor)) visible else visible) = hits"
    using Suc.prems(1) assms(3) by (auto simp: given_def decodeCursor_def orElse_def)
  have sub: "set hits \<subseteq> set visible" using Suc.prems(1) by auto
  have "distinct (map occurredAt hits)" using Suc.prems(1) assms(1) by (auto simp: distinct_map_filter)
  note desc = strict_desc [OF this]
  show ?case
  proof (cases "length hits \<le> limit")
    case True
    then show ?thesis by (simp add: eventPage_def Let_def hits)
  next
    case False
    let ?e = "?S ! (limit - 1)"
    have ne: "?S \<noteq> []" using False by (metis length_sort list.size(3) zero_le)
    have last: "last (take limit ?S) = ?e" using False assms(2) length_sort [of "\<lambda>e. - occurredAt e" hits]
      by (subst last_conv_nth) (auto simp: min_def simp del: length_sort)
    have e: "?e \<in> set visible" using sub False nth_mem [of "limit - 1" ?S] assms(2) by auto
    have inh: "?e \<in> set hits" using False nth_mem [of "limit - 1" ?S] assms(2) by auto
    from Suc.prems(1) have "filter (\<lambda>x. occurredAt x < occurredAt ?e) visible = filter (\<lambda>x. occurredAt x < occurredAt ?e) hits"
    proof
      assume "\<exists>e\<in>set visible. cursor = Some (enc (toISOString (occurredAt e))) \<and> hits = filter (\<lambda>x. occurredAt x < occurredAt e) visible"
      then obtain e' where "e' \<in> set visible" and e': "hits = filter (\<lambda>x. occurredAt x < occurredAt e') visible" by blast
      with inh have "occurredAt ?e < occurredAt e'" by simp
      from filter_below [OF this, of occurredAt visible] show ?thesis by (simp only: e' [symmetric])
    qed simp
    then have rest: "sort_key (\<lambda>e. - occurredAt e) (filter (\<lambda>x. occurredAt x < occurredAt ?e) visible) = drop limit ?S"
      using below_last [OF desc] False assms(2) by (simp add: filter_sort)
    have "length (filter (\<lambda>x. occurredAt x < occurredAt ?e) visible) = length (drop limit ?S)"
      using arg_cong [OF rest, of length] by simp
    then have "length (filter (\<lambda>x. occurredAt x < occurredAt ?e) visible) < fuel" using Suc.prems(2) False assms(2) by simp
    with Suc.IH [of "Some (enc (toISOString (occurredAt ?e)))"] e
    have "followCursor (eventPage enc dec now limit visible) fuel (Some (enc (toISOString (occurredAt ?e)))) = Some (drop limit ?S)"
      unfolding rest [symmetric] by blast
    moreover have "eventPage enc dec now limit visible cursor = (take limit ?S, Some (enc (toISOString (occurredAt ?e))))"
      using False assms(2) ne unfolding eventPage_def hits Let_def by (auto simp: last encodeCursor_def min_def)
    ultimately show ?thesis by simp
  qed
qed simp

section \<open>Lemmas: shares\<close>

text \<open>Rounding to the nearest double, as far as the bounds need it: monotone, and exact on its own results and small integers.\<close>

definition rounding :: "(rat \<Rightarrow> jsnumber) \<Rightarrow> bool" where
  "rounding rnd \<longleftrightarrow> (\<forall>a b. a \<le> b \<longrightarrow> rnd a \<le> rnd b) \<and> (\<forall>a. rnd (rnd a) = rnd a) \<and> rnd 0 = 0 \<and> rnd 1 = 1 \<and> rnd 100 = 100"

lemma rounding_nonneg: "rounding rnd \<Longrightarrow> 0 \<le> a \<Longrightarrow> 0 \<le> rnd a"
  unfolding rounding_def by metis

lemma rounding_ratio:
  assumes "rounding rnd" "0 \<le> a" "a \<le> b" "0 < b"
  shows "0 \<le> rnd (a / b)" "rnd (a / b) \<le> 1" "rnd (rnd (a / b) * 100) \<le> 100"
proof -
  have r: "0 \<le> a / b" "a / b \<le> 1" using assms(2-4) by (simp_all add: divide_le_eq)
  then show "0 \<le> rnd (a / b)" using rounding_nonneg [OF assms(1)] by blast
  from r assms(1) show le: "rnd (a / b) \<le> 1" unfolding rounding_def by metis
  then have "rnd (a / b) * 100 \<le> 100" by simp
  with assms(1) show "rnd (rnd (a / b) * 100) \<le> 100" unfolding rounding_def by metis
qed

lemma totalCost_covers:
  assumes "rounding rnd" "list_all (\<lambda>(k, t). 0 \<le> cost8 t) raw" "0 \<le> s" "rnd s = s"
  defines "f \<equiv> \<lambda>s (k :: string option, t). rnd (s + rnd (metricValue MCost t))"
  shows "s \<le> foldl f s raw \<and> rnd (foldl f s raw) = foldl f s raw
    \<and> (\<forall>(k, t)\<in>set raw. rnd (metricValue MCost t) \<le> foldl f s raw)"
  using assms(2-4)
proof (induction raw arbitrary: s)
  case (Cons x raw)
  obtain k t where x: "x = (k, t)" by (cases x)
  let ?c = "rnd (metricValue MCost t)" and ?s = "f s x"
  have c: "0 \<le> ?c" using Cons.prems(1) rounding_nonneg [OF assms(1)] by (simp add: x metricValue_def)
  have s: "?s = rnd (s + ?c)" by (simp add: f_def x)
  have idem: "rnd ?s = ?s" "rnd ?c = ?c" using assms(1) by (simp_all add: s rounding_def)
  have mono: "a \<le> b \<Longrightarrow> rnd a \<le> rnd b" for a b using assms(1) by (simp add: rounding_def)
  have "rnd s \<le> ?s" "rnd ?c \<le> ?s" unfolding s using c Cons.prems(2) by (intro mono; simp)+
  then have le: "s \<le> ?s" "?c \<le> ?s" using Cons.prems(3) idem(2) by simp_all
  with Cons.prems have "0 \<le> ?s" by simp
  from Cons.IH [OF _ this idem(1)] Cons.prems(1) le show ?case by (auto simp: x)
qed (simp add: f_def)

section \<open>Properties\<close>

text \<open>
  C24. A caller's dashboards show only what the caller may see. For every user and workspace, two ledgers that agree on the
  rows of the workspace, for a member on the member's own rows, give the same answers on all four routes, whatever
  the query asks for: nothing about other tenants, or for a member about colleagues, can be learned.
\<close>

theorem answers_show_only_visible:
  assumes "workspaceGuard (workspaces base) (wmembers base) VIEWER (Some u) ws = Inr ctx" "au_id u \<noteq> []"
    and "visibleTo ctx u l = visibleTo ctx u l'"
  shows "getSummary rnd toNum now (Some u) ws days l base = getSummary rnd toNum now (Some u) ws days l' base
    \<and> getTimeseries rnd toDate zUuid (Some u) ws q l base = getTimeseries rnd toDate zUuid (Some u) ws q l' base
    \<and> getBreakdown rnd toNum toDate zUuid (Some u) ws q l base = getBreakdown rnd toNum toDate zUuid (Some u) ws q l' base
    \<and> getEvents enc dec toNum now (Some u) ws limit cursor (usageEvents l) base
      = getEvents enc dec toNum now (Some u) ws limit cursor (usageEvents l') base"
proof -
  have "summaryRows ctx u start l = summaryRows ctx u start l'" for start
    using summaryRows_visible [OF assms(2), of ctx start] assms(3) by metis
  moreover have "selectRows g l (explorerParams ctx u f) = selectRows g l' (explorerParams ctx u f)" for g f
    using selectRows_visible [OF assms(2), of g ctx] assms(3) by metis
  then have "queryTimeseries rnd base l m g d (explorerParams ctx u f) = queryTimeseries rnd base l' m g d (explorerParams ctx u f)"
    "queryBreakdown rnd base l d' n (explorerParams ctx u f) = queryBreakdown rnd base l' d' n (explorerParams ctx u f)" for m g d d' n f
    by (simp_all add: queryTimeseries_def queryBreakdown_def breakdownGroups_def Let_def)
  moreover have "visibleEvents ctx u (usageEvents l) = visibleEvents ctx u (usageEvents l')"
    using visibleEvents_visible [OF assms(2), of ctx] assms(3) by metis
  ultimately show ?thesis
    using assms(1) by (simp add: getSummary_def getTimeseries_def getBreakdown_def getEvents_def guarded_def
        cong: option.case_cong prod.case_cong)
qed

definition w1_context :: workspace_context where
  "w1_context = \<lparr>ctx_workspaceId = ''w1'', ctx_slug = ''acme'', ctx_role = MEMBER\<rparr>"

definition member_db :: database where
  "member_db = demo_db\<lparr>wmembers := [alice\<lparr>wm_role := MEMBER\<rparr>]\<rparr>"

text \<open>A colleague's request changes nothing in what the member is shown.\<close>

definition colleague :: usage_event where
  "colleague = (sampleEvent ''x'' 5 10 ''0.5'')\<lparr>userId := ''u2''\<rparr>"

theorem answers_show_only_visible_witness:
  "let l = emptyLedger\<lparr>usageEvents := [colleague], daily := [(dayKey colleague, \<lparr>rr_teamId = None, rr_totals = totalsOf colleague\<rparr>)]\<rparr> in
   getSummary id (\<lambda>_. None) 6 (Some demo_user) ''acme'' None l member_db = getSummary id (\<lambda>_. None) 6 (Some demo_user) ''acme'' None emptyLedger member_db"
proof -
  have guard: "workspaceGuard (workspaces member_db) (wmembers member_db) VIEWER (Some demo_user) ''acme'' = Inr w1_context"
    by (simp add: member_db_def demo_defs guard_defs w1_context_def)
  have user: "au_id demo_user \<noteq> []" by (simp add: demo_defs)
  have same: "visibleTo w1_context demo_user (emptyLedger\<lparr>usageEvents := [colleague],
      daily := [(dayKey colleague, \<lparr>rr_teamId = None, rr_totals = totalsOf colleague\<rparr>)]\<rparr>) = visibleTo w1_context demo_user emptyLedger"
    by (simp add: visibleTo_def emptyLedger_def seesRow_def dayKey_def colleague_def sampleEvent_def w1_context_def demo_user_def)
  show ?thesis unfolding Let_def using answers_show_only_visible [OF guard user same] by blast
qed

text \<open>
  C25. Dashboards agree with the events. After any history of batches that name no event twice, with identifiers free of
  the separator, and for a request without a team filter, the points of a series come in strictly increasing time; each is
  the metric of counters that agree with the stored events of its hour, day, week or month that pass the filters
  and whose hour or day begins in the range (exactly, but for the rounding of the rollup columns); and
  every such event is counted in a point. When the range consists of whole hours, or days, these are the events whose own time
  is in the range; the events of a partial first bucket are not counted, as the query tests the bucket's beginning.
\<close>

theorem points_agree_with_events:
  assumes "list_all cleanBatch batches" "l = persistAll commitOk emptyLedger batches" "\<not> given (xf_teamId (xp_filters x))"
  shows "\<exists>pts. queryTimeseries rnd base l m g None x
        = [\<lparr>sr_key = None, sr_points = map (\<lambda>(t, tot). (toISOString t, rnd (metricValue m tot))) pts\<rparr>]
    \<and> sorted_wrt (<) (map fst pts)
    \<and> (\<forall>(t, tot)\<in>set pts. agrees tot (filter (\<lambda>e. selected g x e \<and> dateTrunc g (occurredAt e) = t) (usageEvents l)))
    \<and> (\<forall>e\<in>set (usageEvents l). selected g x e \<longrightarrow> dateTrunc g (occurredAt e) \<in> set (map fst pts))
    \<and> (wholeBuckets g x \<longrightarrow> (\<forall>e. selected g x e \<longleftrightarrow> passes x e \<and> xp_from x \<le> occurredAt e \<and> occurredAt e < xp_to x))"
proof -
  let ?g = "groupSum (\<lambda>r. dateTrunc g (fst (fst r))) (selectRows g l x)"
  have sound: "sound l" using persistAll_sound [OF assms(1) sound_empty] assms(2) by simp
  have "distinct (map fst ?g)" by (simp add: groupSum_keys)
  then have "sorted_wrt (<) (map fst (sort_key fst ?g))" by (rule sort_key_strict)
  moreover have "\<forall>(t, tot)\<in>set (sort_key fst ?g). agrees tot (filter (\<lambda>e. selected g x e \<and> dateTrunc g (occurredAt e) = t) (usageEvents l))"
    using point_agrees [OF sound assms(3)] by auto
  moreover have "\<forall>e\<in>set (usageEvents l). selected g x e \<longrightarrow> dateTrunc g (occurredAt e) \<in> set (map fst (sort_key fst ?g))"
    using event_has_point [OF sound assms(3)] by simp
  ultimately show ?thesis
    using bucketInRange_whole [of g x] by (intro exI [of _ "sort_key fst ?g"]) (simp add: queryTimeseries_def Let_def)
qed

definition w1_params :: explorer_params where
  "w1_params = \<lparr>xp_workspaceId = ''w1'', xp_from = 0, xp_to = 86400000, xp_filters =
     \<lparr>xf_projectId = None, xf_teamId = None, xf_userId = None, xf_provider = None, xf_model = None\<rparr>, xp_scopeUserId = None\<rparr>"

theorem points_agree_with_events_witness:
  "let l = persistAll (\<lambda>l. True) emptyLedger [twoEvents] in
   \<exists>pts. queryTimeseries id member_db l MRequests GDay None w1_params
        = [\<lparr>sr_key = None, sr_points = map (\<lambda>(t, tot). (toISOString t, id (metricValue MRequests tot))) pts\<rparr>]
    \<and> (\<exists>(t, tot)\<in>set pts. t = 0 \<and> requests tot = 2)"
proof -
  let ?l = "persistAll (\<lambda>l. True) emptyLedger [twoEvents]"
  have "\<not> given (xf_teamId (xp_filters w1_params))" by (simp add: w1_params_def given_def)
  from points_agree_with_events [OF _ refl this, of "[twoEvents]" id member_db "\<lambda>l. True" MRequests GDay] twoEvents_clean
  obtain pts where pts: "queryTimeseries id member_db ?l MRequests GDay None w1_params
        = [\<lparr>sr_key = None, sr_points = map (\<lambda>(t, tot). (toISOString t, id (metricValue MRequests tot))) pts\<rparr>]"
    "\<forall>(t, tot)\<in>set pts. agrees tot (filter (\<lambda>e. selected GDay w1_params e \<and> dateTrunc GDay (occurredAt e) = t) (usageEvents ?l))"
    "\<forall>e\<in>set (usageEvents ?l). selected GDay w1_params e \<longrightarrow> dateTrunc GDay (occurredAt e) \<in> set (map fst pts)"
    by auto
  have in_range: "selected GDay w1_params e" "dateTrunc GDay (occurredAt e) = 0" if "e \<in> set twoEvents" for e
    using that by (auto simp: passes_def bucketInRange_def twoEvents_def sampleEvent_def w1_params_def given_def bucketUnit_def truncateUtc_day DAY_MS_def dateTrunc_def)
  have "sampleEvent ''a'' 5 10 ''0.5'' \<in> set twoEvents" by (simp add: twoEvents_def)
  with pts(3) in_range obtain tot where tot: "(0, tot) \<in> set pts" unfolding twoEvents_ingested(2) by force
  with pts(2) have "agrees tot (filter (\<lambda>e. selected GDay w1_params e \<and> dateTrunc GDay (occurredAt e) = 0) twoEvents)"
    unfolding twoEvents_ingested(2) by blast
  also have "filter (\<lambda>e. selected GDay w1_params e \<and> dateTrunc GDay (occurredAt e) = 0) twoEvents = twoEvents"
    using in_range by (simp add: filter_id_conv)
  finally have "requests tot = requests (sumTotals twoEvents)" by (rule agrees_requests)
  also have "\<dots> = 2" using twoEvents_clean by (subst requests_sumTotals) (simp_all add: cleanBatch_def twoEvents_def)
  finally show ?thesis unfolding Let_def using pts(1) tot by blast
qed

text \<open>
  Shares and rates are percentages and rates. When no rollup row has a negative cost or more errors than requests,
  and however doubles round, every row of a breakdown has an error rate between zero and one and a share between
  zero and one hundred.
\<close>

lemma breakdown_bounded:
  assumes "list_all (\<lambda>(k, r). 0 \<le> cost8 (rr_totals r) \<and> 0 \<le> errors (rr_totals r) \<and> errors (rr_totals r) \<le> requests (rr_totals r)) (daily l)"
    and "rounding rnd" "queryBreakdown rnd base l d limit x = (rows, overall)"
  shows "list_all (\<lambda>r. 0 \<le> br_errorRate r \<and> br_errorRate r \<le> 1 \<and> 0 \<le> br_sharePct r \<and> br_sharePct r \<le> 100) rows"
proof -
  let ?raw = "breakdownGroups l d limit x" and ?good = "\<lambda>t. 0 \<le> cost8 t \<and> 0 \<le> errors t \<and> errors t \<le> requests t"
  have sums: "?good (sum_list (map (rr_totals \<circ> snd) rs))" if "set rs \<subseteq> set (daily l)" for rs
    using that
  proof (induction rs)
    case (Cons r rs)
    with assms(1) have "?good (rr_totals (snd r))" by (auto simp: list_all_iff)
    with Cons show ?case by simp
  qed simp
  have raw: "?good t" if "(k, t) \<in> set ?raw" for k t
  proof -
    from that have "(k, t) \<in> set (groupSum (dimKey d) (selectRows GDay l x))"
      by (auto simp: breakdownGroups_def dest: in_set_takeD)
    then have t: "t = sum_list (map (rr_totals \<circ> snd) (filter (\<lambda>r. dimKey d r = k) (selectRows GDay l x)))" by (simp add: groupSum_iff)
    show ?thesis unfolding t by (rule sums) (auto simp: selectRows_def tableFor_def)
  qed
  then have "list_all (\<lambda>(k, t). 0 \<le> cost8 t) ?raw" by (auto simp: list_all_iff)
  with totalCost_covers [OF assms(2), of ?raw 0] assms(2) have covers: "\<forall>(k, t)\<in>set ?raw. rnd (metricValue MCost t) \<le> totalCost rnd ?raw"
    by (simp add: totalCost_def rounding_def)
  have "0 \<le> br_errorRate r \<and> br_errorRate r \<le> 1 \<and> 0 \<le> br_sharePct r \<and> br_sharePct r \<le> 100"
    if r: "r = breakdownRow rnd labels (totalCost rnd ?raw) (k, t)" and mem: "(k, t) \<in> set ?raw" for r labels k t
  proof -
    note good = raw [OF mem]
    have le: "rnd (metricValue MCost t) \<le> totalCost rnd ?raw" using covers mem by blast
    have "rnd (of_int (errors t)) \<le> rnd (of_int (requests t))" "0 \<le> rnd (of_int (errors t))" "0 \<le> rnd (metricValue MCost t)"
      using assms(2) good rounding_nonneg [OF assms(2)] by (auto simp: rounding_def metricValue_def)
    with rounding_ratio [OF assms(2), of "rnd (of_int (errors t))" "rnd (of_int (requests t))"]
      rounding_ratio [OF assms(2), of "rnd (metricValue MCost t)" "totalCost rnd ?raw"] le
    show ?thesis
      using rounding_nonneg [OF assms(2)] by (auto simp: r breakdownRow_def Let_def)
  qed
  then show ?thesis using assms(3) by (auto simp: queryBreakdown_def Let_def list_all_iff)
qed

definition two_models :: ledger where
  "two_models = emptyLedger\<lparr>daily := map (\<lambda>(m, c). ((0, ''w1'', ''p1'', ''u1'', OPENAI, m), \<lparr>rr_teamId = None, rr_totals = Totals 2 1 0 0 0 0 0 c 0 2\<rparr>))
     [(''gpt-5'', 300), (''gpt-6'', 100)]\<rparr>"

theorem breakdown_bounded_witness:
  "list_all (\<lambda>r. 0 \<le> br_errorRate r \<and> br_errorRate r \<le> 1 \<and> 0 \<le> br_sharePct r \<and> br_sharePct r \<le> 100)
     (fst (queryBreakdown id member_db two_models ByModel 10 w1_params))"
proof -
  have 1: "list_all (\<lambda>(k, r). 0 \<le> cost8 (rr_totals r) \<and> 0 \<le> errors (rr_totals r) \<and> errors (rr_totals r) \<le> requests (rr_totals r)) (daily two_models)"
    by (simp add: two_models_def)
  have 2: "rounding id" by (simp add: rounding_def)
  show ?thesis by (rule breakdown_bounded [OF 1 2 surjective_pairing])
qed

text \<open>
  C26. Following the cursor ends and shows every event once. When the times of the visible events differ and a cursor can
  be read back, a client that follows the cursors from the first page is done after at most as many requests as there
  are events, plus one, and has received all of them, the latest first, whatever the page size.
\<close>

theorem explorer_complete:
  assumes "distinct (map occurredAt (visibleEvents ctx u table))" "0 < limit"
    and "\<forall>e\<in>set table. enc (toISOString (occurredAt e)) \<noteq> [] \<and> dec (enc (toISOString (occurredAt e))) = Some (occurredAt e)"
    and "length (visibleEvents ctx u table) < fuel"
  shows "followCursor (eventPage enc dec now limit (visibleEvents ctx u table)) fuel None
    = Some (sort_key (\<lambda>e. - occurredAt e) (visibleEvents ctx u table))"
  by (rule follow_pages [OF assms(1,2) _ _ assms(4)]) (use assms(3) in \<open>auto simp: visibleEvents_def\<close>)

definition spell :: "string \<Rightarrow> millis option" where
  "spell s = map_option occurredAt (find (\<lambda>e. toISOString (occurredAt e) = s) twoEvents)"

theorem explorer_complete_witness:
  "followCursor (eventPage id spell 0 1 (visibleEvents w1_context demo_user twoEvents)) 3 None
   = Some (sort_key (\<lambda>e. - occurredAt e) (visibleEvents w1_context demo_user twoEvents))"
proof (rule explorer_complete)
  have iso: "toISOString 5 \<noteq> toISOString 20000000" using toISOString_inj [of 5 20000000] by auto
  have long: "toISOString t \<noteq> []" for t by (simp add: toISOString_def Let_def split: prod.split)
  have vis: "visibleEvents w1_context demo_user twoEvents = twoEvents"
    by (simp add: visibleEvents_def twoEvents_def sampleEvent_def w1_context_def demo_user_def scopeUserId_def given_def hasMinimumRole_def)
  show "distinct (map occurredAt (visibleEvents w1_context demo_user twoEvents))"
    unfolding vis by (simp add: twoEvents_def sampleEvent_def)
  show "length (visibleEvents w1_context demo_user twoEvents) < 3" unfolding vis by (simp add: twoEvents_def)
  show "\<forall>e\<in>set twoEvents. id (toISOString (occurredAt e)) \<noteq> [] \<and> spell (id (toISOString (occurredAt e))) = Some (occurredAt e)"
    using iso long by (simp add: spell_def twoEvents_def sampleEvent_def)
qed simp

section \<open>Gaps\<close>

text \<open>Events of the same instant as the last one of a page are on no page.\<close>

lemma explorer_skips_same_instant:
  assumes "enc (toISOString 5) \<noteq> []" "dec (enc (toISOString 5)) = Some 5"
  shows "followCursor (eventPage enc dec now 1 [sampleEvent ''a'' 5 10 ''0.5'', sampleEvent ''b'' 5 20 ''0.5'']) (Suc (Suc fuel)) None
    = Some [sampleEvent ''a'' 5 10 ''0.5'']"
  using assms by (simp add: eventPage_def given_def encodeCursor_def decodeCursor_def orElse_def sampleEvent_def)

text \<open>The shares of a breakdown are relative to the rows that are returned, and so is its total.\<close>

lemma share_of_listed_rows:
  "map br_sharePct (fst (queryBreakdown id member_db two_models ByModel 1 w1_params)) = [100]
   \<and> map br_sharePct (fst (queryBreakdown id member_db two_models ByModel 2 w1_params)) = [75, 25]"
  by (simp add: queryBreakdown_def breakdownGroups_def selectRows_def tableFor_def two_models_def w1_params_def buildWhere_def given_def
      groupSum_def uniq_def dimKey_def breakdownRow_def totalCost_def metricValue_def Let_def)

text \<open>
  A rollup row has the team of its first event: when a project changes its team, the requests of the rest of
  the hour and of the day are counted for the old one.
\<close>

lemma team_of_first_event:
  "let e = sampleEvent ''a'' 5 10 ''0.5''; e' = (sampleEvent ''b'' 6 10 ''0.5'')\<lparr>teamId := Some ''t2''\<rparr> in
   \<exists>g. groupRollups [e, e'] = Inr [g] \<and> g_teamId (inc_group g) = None \<and> requests (g_totals (inc_group g)) = 2"
proof -
  let ?e = "sampleEvent ''a'' 5 10 ''0.5''" and ?e' = "(sampleEvent ''b'' 6 10 ''0.5'')\<lparr>teamId := Some ''t2''\<rparr>"
  have ok: "list_all countable [?e, ?e']" "list_all plainIds [?e, ?e']" by (simp_all add: rollup_eval decimal_eval)
  have "hourKey ?e' = hourKey ?e" by (simp add: hourKey_def sampleEvent_def truncateUtc_hour HOUR_MS_def)
  then have "refRollups [?e, ?e'] = [\<lparr>inc_group = groupOf hourKey [?e, ?e'] ?e,
      inc_costUsd = formatScaled (cost8 (g_totals (groupOf hourKey [?e, ?e'] ?e))) COST_SCALE\<rparr>]
      \<and> filter (\<lambda>x. hourKey x = hourKey ?e) [?e, ?e'] = [?e, ?e']" by (simp add: refRollups_def)
  moreover have "requests (totalsOf ?e) = 1" "requests (totalsOf ?e') = 1" using ok(1) by (simp_all add: requests_totalsOf)
  moreover have "teamId ?e = None" by (simp add: sampleEvent_def)
  ultimately show ?thesis using groupRollups_reference [OF ok] unfolding Let_def by (simp add: groupOf_def emptyGroup_def)
qed

end
