(* ===== verification/Admin.thy ===== *)
theory Admin
  imports Analytics
begin

text \<open>
  The administration of the instance (\<open>apps/api/src/modules/admin.ts\<close>): figures over all workspaces, for the users named
  in the configuration. The routes' figures are consistent with one another and with the stored events.
\<close>

section \<open>Routes (admin.ts)\<close>

text \<open>The pre-handlers \<open>[authenticate, superAdminGuard]\<close>, then the handler; the routes only read.\<close>

definition adminGuarded :: "string list \<Rightarrow> authed_user option \<Rightarrow> 'v \<Rightarrow> api_error + 'v" where
  "adminGuarded admins user answer =
     (case superAdminGuard admins user of
        Inl e \<Rightarrow> Inl (Domain e)
      | Inr _ \<Rightarrow> Inr answer)"

definition recentRows :: "millis \<Rightarrow> ledger \<Rightarrow> table_row list" where
  "recentRows now l = filter (\<lambda>(k, r). now - 30 * 86400000 \<le> fst k) (daily l)"

record admin_stats =
  as_workspaces :: nat
  as_users :: nat
  as_activeKeys :: nat
  as_requests30d :: int
  as_costUsd30d :: string

definition adminStats :: "string list \<Rightarrow> millis \<Rightarrow> authed_user option \<Rightarrow> ledger \<Rightarrow> database \<Rightarrow> api_error + admin_stats" where
  "adminStats admins now user l base =
     (let agg = sum_list (map (rr_totals \<circ> snd) (recentRows now l)) in
      adminGuarded admins user
        \<lparr>as_workspaces = countWhere (\<lambda>w. ws_deletedAt w = None) (workspaces base),
         as_users = countWhere (\<lambda>u. us_status u = UserActive) (users base),
         as_activeKeys = countWhere (\<lambda>k. vk_status k = ACTIVE) (virtualKeys base),
         as_requests30d = requests agg, as_costUsd30d = dollarText (cost8 agg)\<rparr>)"

definition dailyTotals :: "millis \<Rightarrow> ledger \<Rightarrow> (millis \<times> totals) list" where
  "dailyTotals now l = sort_key fst (groupSum (\<lambda>r. fst (fst r)) (recentRows now l))"

definition adminTimeseries ::
  "string list \<Rightarrow> millis \<Rightarrow> authed_user option \<Rightarrow> ledger \<Rightarrow> api_error + (string \<times> int \<times> string) list" where
  "adminTimeseries admins now user l =
     adminGuarded admins user
       (map (\<lambda>(b, t). (take 10 (toISOString b), requests t, dollarText (cost8 t))) (dailyTotals now l))"

record admin_workspace =
  aw_id :: string
  aw_name :: string
  aw_slug :: string
  aw_members :: nat
  aw_projects :: nat
  aw_requests30d :: int
  aw_costUsd30d :: string

definition workspaceUsage :: "millis \<Rightarrow> ledger \<Rightarrow> string \<Rightarrow> totals" where
  "workspaceUsage now l w =
     (case map_of (groupSum (\<lambda>r. fst (snd (fst r))) (recentRows now l)) w of None \<Rightarrow> 0 | Some t \<Rightarrow> t)"

text \<open>Workspaces come in the order of their creation, which is the order of the table.\<close>

definition adminWorkspaces ::
  "string list \<Rightarrow> millis \<Rightarrow> authed_user option \<Rightarrow> ledger \<Rightarrow> database \<Rightarrow> api_error + admin_workspace list" where
  "adminWorkspaces admins now user l base =
     adminGuarded admins user
       (map (\<lambda>w. \<lparr>aw_id = ws_id w, aw_name = ws_name w, aw_slug = ws_slug w,
               aw_members = countWhere (\<lambda>m. wm_workspaceId m = ws_id w) (wmembers base),
               aw_projects = countWhere (\<lambda>p. pj_workspaceId p = ws_id w) (projects base),
               aw_requests30d = requests (workspaceUsage now l (ws_id w)),
               aw_costUsd30d = dollarText (cost8 (workspaceUsage now l (ws_id w)))\<rparr>)
          (filter (\<lambda>w. ws_deletedAt w = None) (workspaces base)))"

section \<open>Lemmas\<close>

lemma adminGuarded_Inr: "adminGuarded admins user x = Inr y \<Longrightarrow> y = x \<and> (\<exists>u. user = Some u \<and> isSuperAdmin (Some (au_email u)) admins)"
  by (auto simp: adminGuarded_def superAdminGuard_def split: option.split_asm if_split_asm)

text \<open>The groups of a table partition it.\<close>

lemma groupSum_total: "sum_list (map snd (groupSum key rows)) = sum_list (map (rr_totals \<circ> snd) rows)"
proof -
  have "sum_list (map snd (groupSum key rows)) = (\<Sum>k\<in>key ` set rows. sum_list (map (rr_totals \<circ> snd) (filter (\<lambda>x. key x = k) rows)))"
    by (simp add: groupSum_def comp_def sum_list_distinct_conv_sum_set)
  also have "\<dots> = sum_list (map (rr_totals \<circ> snd) (filter (\<lambda>x. key x \<in> key ` set rows) rows))" by (rule sum_by_key) simp
  also have "filter (\<lambda>x. key x \<in> key ` set rows) rows = rows" by (simp add: filter_id_conv)
  finally show ?thesis .
qed

lemma sum_list_sort_key: "sum_list (map f (sort_key g xs)) = sum_list (map (f :: 'a \<Rightarrow> 'b :: comm_monoid_add) xs)"
  by (metis mset_map mset_sort sum_mset_sum_list)

lemma usage_of_workspace: "workspaceUsage now l w = sum_list (map (rr_totals \<circ> snd) (filter (\<lambda>r. fst (snd (fst r)) = w) (recentRows now l)))"
proof -
  let ?key = "\<lambda>r :: table_row. fst (snd (fst r))" and ?rows = "recentRows now l"
  have dist: "distinct (map fst (groupSum ?key ?rows))" by (simp add: groupSum_keys)
  show ?thesis
  proof (cases "w \<in> ?key ` set ?rows")
    case True
    then have "(w, sum_list (map (rr_totals \<circ> snd) (filter (\<lambda>x. ?key x = w) ?rows))) \<in> set (groupSum ?key ?rows)"
      by (simp add: groupSum_iff)
    with dist have "map_of (groupSum ?key ?rows) w = Some (sum_list (map (rr_totals \<circ> snd) (filter (\<lambda>x. ?key x = w) ?rows)))"
      by (rule map_of_is_SomeI)
    then show ?thesis by (simp add: workspaceUsage_def)
  next
    case False
    then have "map_of (groupSum ?key ?rows) w = None" "filter (\<lambda>r. ?key r = w) ?rows = []"
      by (auto simp: map_of_eq_None_iff groupSum_def filter_empty_conv image_iff)
    then show ?thesis by (simp add: workspaceUsage_def)
  qed
qed

lemma recent_total_agrees:
  assumes "sound l"
  shows "agrees (sum_list (map (rr_totals \<circ> snd) (filter (\<lambda>r. P (fst r)) (recentRows now l))))
    (filter (\<lambda>e. now - 30 * 86400000 \<le> truncateUtc (occurredAt e) Day \<and> P (dayKey e)) (usageEvents l))"
  using table_sum [OF sound_rollups(2) [OF assms], of "\<lambda>k. now - 30 * 86400000 \<le> fst k \<and> P k"]
  by (simp add: recentRows_def case_prod_unfold comp_def dayKey_def)

section \<open>Properties\<close>

text \<open>
  The platform's figures are for super-admins and add up. Only a user named in the configuration gets an answer;
  after any history of ingested batches, the requests of the last thirty days are exactly the stored events of the days
  that begin in them, the days of the series add up to them, and each workspace is shown exactly its own.
\<close>

lemma fleet_figures_add_up:
  assumes "list_all cleanBatch batches" "l = persistAll commitOk emptyLedger batches"
    and "adminStats admins now user l base = Inr st" "adminTimeseries admins now user l = Inr days"
      "adminWorkspaces admins now user l base = Inr ws"
  shows "(\<exists>u. user = Some u \<and> toLowerCase (au_email u) \<in> set admins)
    \<and> as_requests30d st = int (length (filter (\<lambda>e. now - 30 * 86400000 \<le> truncateUtc (occurredAt e) Day) (usageEvents l)))
    \<and> sum_list (map (fst \<circ> snd) days) = as_requests30d st
    \<and> (\<forall>w\<in>set ws. aw_requests30d w = int (length (filter (\<lambda>e. now - 30 * 86400000 \<le> truncateUtc (occurredAt e) Day
          \<and> workspaceId e = aw_id w) (usageEvents l))))"
proof -
  have sound: "sound l" using persistAll_sound [OF assms(1) sound_empty] assms(2) by simp
  have count: "requests (sum_list (map (rr_totals \<circ> snd) (filter (\<lambda>r. P (fst r)) (recentRows now l))))
      = int (length (filter (\<lambda>e. now - 30 * 86400000 \<le> truncateUtc (occurredAt e) Day \<and> P (dayKey e)) (usageEvents l)))" for P
  proof -
    have "list_all countable (filter (\<lambda>e. now - 30 * 86400000 \<le> truncateUtc (occurredAt e) Day \<and> P (dayKey e)) (usageEvents l))"
      using sound by (auto simp: sound_def list_all_iff)
    then show ?thesis by (rule trans [OF agrees_requests [OF recent_total_agrees [OF sound]] requests_sumTotals])
  qed
  have st: "as_requests30d st = requests (sum_list (map (rr_totals \<circ> snd) (recentRows now l)))"
    using adminGuarded_Inr [OF assms(3) [unfolded adminStats_def Let_def]] by simp
  have days: "days = map (\<lambda>(b, t). (take 10 (toISOString b), requests t, dollarText (cost8 t))) (dailyTotals now l)"
    using adminGuarded_Inr [OF assms(4) [unfolded adminTimeseries_def]] by simp
  have "sum_list (map (fst \<circ> snd) days) = sum_list (map (\<lambda>x. requests (snd x)) (dailyTotals now l))"
    unfolding days by (intro arg_cong [of _ _ sum_list]) auto
  also have "\<dots> = requests (sum_list (map snd (dailyTotals now l)))" by simp
  also have "sum_list (map snd (dailyTotals now l)) = sum_list (map (rr_totals \<circ> snd) (recentRows now l))"
    by (simp add: dailyTotals_def sum_list_sort_key groupSum_total)
  finally have series: "sum_list (map (fst \<circ> snd) days) = as_requests30d st" by (simp only: st)
  have "aw_requests30d w = int (length (filter (\<lambda>e. now - 30 * 86400000 \<le> truncateUtc (occurredAt e) Day \<and> workspaceId e = aw_id w) (usageEvents l)))"
    if "w \<in> set ws" for w
  proof -
    have "aw_requests30d w = requests (workspaceUsage now l (aw_id w))"
      using adminGuarded_Inr [OF assms(5) [unfolded adminWorkspaces_def]] that by auto
    then show ?thesis using count [of "\<lambda>k. fst (snd k) = aw_id w"] by (simp add: usage_of_workspace dayKey_def)
  qed
  moreover have "as_requests30d st = int (length (filter (\<lambda>e. now - 30 * 86400000 \<le> truncateUtc (occurredAt e) Day) (usageEvents l)))"
    using count [of "\<lambda>_. True"] st by simp
  moreover have "\<exists>u. user = Some u \<and> toLowerCase (au_email u) \<in> set admins"
    using adminGuarded_Inr [OF assms(3) [unfolded adminStats_def Let_def]] by (auto simp: isSuperAdmin_def)
  ultimately show ?thesis using series by blast
qed

theorem fleet_figures_add_up_witness:
  "let l = persistAll (\<lambda>l. True) emptyLedger [twoEvents] in
   \<exists>st. adminStats [''a@x''] 86400000 (Some (demo_user\<lparr>au_email := ''A@x''\<rparr>)) l demo_db = Inr st \<and> as_requests30d st = 2"
proof -
  let ?l = "persistAll (\<lambda>l. True) emptyLedger [twoEvents]" and ?u = "Some (demo_user\<lparr>au_email := ''A@x''\<rparr>)"
  have "superAdminGuard [''a@x''] ?u = Inr ()" by (simp add: superAdminGuard_def isSuperAdmin_def) code_simp
  then have ok: "adminGuarded [''a@x''] ?u x = Inr x" for x by (simp add: adminGuarded_def)
  obtain st where st: "adminStats [''a@x''] 86400000 ?u ?l demo_db = Inr st" unfolding adminStats_def Let_def ok by blast
  obtain days where days: "adminTimeseries [''a@x''] 86400000 ?u ?l = Inr days" unfolding adminTimeseries_def ok by blast
  obtain ws where ws: "adminWorkspaces [''a@x''] 86400000 ?u ?l demo_db = Inr ws" unfolding adminWorkspaces_def ok by blast
  have "list_all cleanBatch [twoEvents]" by (simp add: twoEvents_clean)
  from fleet_figures_add_up [OF this refl st days ws]
  have "as_requests30d st = int (length (filter (\<lambda>e. 86400000 - 30 * 86400000 \<le> truncateUtc (occurredAt e) Day) (usageEvents ?l)))"
    by blast
  also have "\<dots> = 2" unfolding twoEvents_ingested(2) by (simp add: twoEvents_def sampleEvent_def truncateUtc_day DAY_MS_def)
  finally show ?thesis unfolding Let_def using st by blast
qed

section \<open>Gaps\<close>

text \<open>The usage of a deleted workspace counts in the platform's figures but is shown for no workspace.\<close>

lemma deleted_workspace_usage_unlisted:
  "\<exists>st. adminStats [''a''] 86400000 (Some demo_user) two_models (demo_db\<lparr>workspaces := [acme\<lparr>ws_deletedAt := Some 5\<rparr>]\<rparr>) = Inr st
     \<and> as_requests30d st = 4 \<and> as_workspaces st = 0
     \<and> adminWorkspaces [''a''] 86400000 (Some demo_user) two_models (demo_db\<lparr>workspaces := [acme\<lparr>ws_deletedAt := Some 5\<rparr>]\<rparr>) = Inr []"
proof -
  have "superAdminGuard [''a''] (Some demo_user) = Inr ()" by (simp add: superAdminGuard_def isSuperAdmin_def demo_user_def) code_simp
  then show ?thesis
    by (simp add: adminStats_def adminWorkspaces_def adminGuarded_def recentRows_def two_models_def emptyLedger_def countWhere_def Let_def)
qed

end
