(* ===== verification/Licensing.thy ===== *)
theory Licensing
  imports Prelude
begin

text \<open>
  The licence check of the enterprise edition (\<open>ee/licensing/src/index.ts\<close>), as far as it exists: the active licence is
  the module's state, which no code sets yet, so nothing is entitled.
\<close>

datatype ee_feature = ProviderPools | BudgetEnforcement | ScheduledReports | Sso | Slack | AuditLogs | WhiteLabel

definition EE_FEATURES :: "(string \<times> ee_feature) list" where
  "EE_FEATURES = [(''provider_pools'', ProviderPools), (''budget_enforcement'', BudgetEnforcement),
     (''scheduled_reports'', ScheduledReports), (''sso'', Sso), (''slack'', Slack), (''audit_logs'', AuditLogs), (''white_label'', WhiteLabel)]"

record license_info =
  plan :: string
  seats :: int
  li_expiresAt :: millis
  features :: "ee_feature list"

type_synonym license_state = "license_info option"

definition initialLicense :: license_state where
  "initialLicense = None"

text \<open>Loading a key text leaves the state as it is and returns it.\<close>

definition loadLicense :: "string option \<Rightarrow> license_state \<Rightarrow> license_state \<times> license_info option" where
  "loadLicense keyText active = (active, active)"

definition entitled :: "license_state \<Rightarrow> millis \<Rightarrow> ee_feature \<Rightarrow> bool" where
  "entitled active now feature =
     (case active of
        None \<Rightarrow> False
      | Some l \<Rightarrow> (if li_expiresAt l < now then False else feature \<in> set (features l)))"

text \<open>Entitlements end with the licence and grant what it lists; without one there are none, whatever key is loaded.\<close>

lemma entitled_iff: "entitled active now f \<longleftrightarrow> (\<exists>l. active = Some l \<and> now \<le> li_expiresAt l \<and> f \<in> set (features l))"
  by (auto simp: entitled_def split: option.split)

lemma entitled_expires: "entitled active later f \<Longrightarrow> now \<le> later \<Longrightarrow> entitled active now f"
  by (auto simp: entitled_iff)

lemma community_edition: "\<not> entitled (fold (\<lambda>k s. fst (loadLicense k s)) keys initialLicense) now f"
proof -
  have "fold (\<lambda>k s. fst (loadLicense k s)) keys s = s" for s
    by (induction keys arbitrary: s) (simp_all add: loadLicense_def)
  then show ?thesis by (simp add: entitled_def initialLicense_def)
qed

end
