(* ===== verification/WebClient.thy ===== *)
theory WebClient
  imports Sessions Json
begin

text \<open>
  The browser's side of a session: \<open>apps/web/src/api/client.ts\<close>. Many calls run at once in one tab; JavaScript
  interleaves them only at an \<open>await\<close>, so each function below is what runs between two of them: a call starts,
  its answer arrives, the shared refresh ends. The state of the module (its two variables) is a \<open>tab\<close>, which
  also logs the requests sent. The second half puts a tab, the browser's cookie and the API's session table together.
  A response body is \<^term>\<open>None\<close> when it is not JSON; \<open>stringify\<close> is \<open>JSON.stringify\<close>.
\<close>

section \<open>Requests and errors (client.ts)\<close>

record web_request =
  wr_method :: string
  wr_url :: string
  wr_headers :: "(string \<times> string) list"
  wr_body :: "string option"

record web_response =
  rs_status :: int
  rs_body :: "json option"

definition rs_ok :: "web_response \<Rightarrow> bool" where
  "rs_ok r \<longleftrightarrow> 200 \<le> rs_status r \<and> rs_status r \<le> 299"

text \<open>An \<open>ApiError\<close> has a status, a code, a message, and perhaps a request id and field errors.\<close>

datatype web_error =
    ApiError int json json "json option" "json option"
  | TypeError
  | SyntaxError
  | NetworkError

datatype call_result = Returned json | Downloaded string | NothingReturned | Raised web_error

text \<open>\<open>api(path, options)\<close> and \<open>downloadAuthed(url, filename)\<close>.\<close>

datatype call_kind = ApiCall "string option" "json option" | DownloadCall string

text \<open>What a call waits for: an answer (\<^term>\<open>True\<close> on the retry), or the refresh, with the answer that made it wait.\<close>

datatype phase = Waiting bool | Renewing web_response | Finished call_result

record web_call =
  wc_kind :: call_kind
  wc_path :: string
  wc_phase :: phase

record tab =
  tb_token :: "string option"
  tb_refreshing :: bool
  tb_calls :: "web_call list"
  tb_sent :: "(nat option \<times> web_request) list"
  tb_lost :: nat

definition authHeader :: "string option \<Rightarrow> (string \<times> string) list" where
  "authHeader token = (case token of None \<Rightarrow> [] | Some t \<Rightarrow> if t = [] then [] else [(''authorization'', ''Bearer '' @ t)])"

definition apiRequest :: "(json \<Rightarrow> string) \<Rightarrow> string option \<Rightarrow> string \<Rightarrow> string option \<Rightarrow> json option \<Rightarrow> web_request" where
  "apiRequest stringify token path method body =
     \<lparr>wr_method = (case method of Some m \<Rightarrow> m | None \<Rightarrow> ''GET''), wr_url = ''/api/v1'' @ path,
      wr_headers = (if body \<noteq> None then [(''content-type'', ''application/json'')] else []) @ authHeader token,
      wr_body = map_option stringify body\<rparr>"

definition downloadRequest :: "string option \<Rightarrow> string \<Rightarrow> web_request" where
  "downloadRequest token address = \<lparr>wr_method = ''GET'', wr_url = address, wr_headers = authHeader token, wr_body = None\<rparr>"

definition refreshRequest :: web_request where
  "refreshRequest = \<lparr>wr_method = ''POST'', wr_url = ''/api/v1/auth/refresh'', wr_headers = [], wr_body = None\<rparr>"

definition requestOf :: "(json \<Rightarrow> string) \<Rightarrow> string option \<Rightarrow> web_call \<Rightarrow> web_request" where
  "requestOf stringify token c =
     (case wc_kind c of ApiCall method body \<Rightarrow> apiRequest stringify token (wc_path c) method body
      | DownloadCall _ \<Rightarrow> downloadRequest token (wc_path c))"

text \<open>The end of \<open>api\<close>: the problem document becomes an \<open>ApiError\<close>; a body that is JSON \<open>null\<close> breaks the property access.\<close>

definition apiResult :: "web_response \<Rightarrow> call_result" where
  "apiResult r =
     (if \<not> rs_ok r
      then (let problem = (case rs_body r of None \<Rightarrow> JObj [] | Some j \<Rightarrow> j) in
            if problem = JNull then Raised TypeError
            else Raised (ApiError (rs_status r)
                   (coalesce (jget problem ''title'') (JStr (''http_'' @ showInt (rs_status r))))
                   (coalesce (jget problem ''detail'')
                      (coalesce (jget problem ''title'') (JStr (''Request failed ('' @ showInt (rs_status r) @ '')''))))
                   (jget problem ''requestId'') (jget problem ''errors'')))
      else (case rs_body r of None \<Rightarrow> Raised SyntaxError | Some j \<Rightarrow> Returned j))"

definition downloadResult :: "string \<Rightarrow> web_response \<Rightarrow> call_result" where
  "downloadResult filename r =
     (if \<not> rs_ok r
      then Raised (ApiError (rs_status r) (JStr ''download_failed'') (JStr (''Download failed ('' @ showInt (rs_status r) @ '')'')) None None)
      else Downloaded filename)"

definition callResult :: "web_call \<Rightarrow> web_response \<Rightarrow> call_result" where
  "callResult c r = (case wc_kind c of ApiCall _ _ \<Rightarrow> apiResult r | DownloadCall filename \<Rightarrow> downloadResult filename r)"

section \<open>The shared refresh\<close>

text \<open>How \<open>tryRefresh()\<close> ends: a payload, \<open>null\<close>, or an exception. The token it stores is the third case's business.\<close>

datatype refresh_outcome = Renewed "string option" | Declined | RefreshRaised web_error

definition tryRefresh :: "web_response option \<Rightarrow> refresh_outcome" where
  "tryRefresh res =
     (case res of
        None \<Rightarrow> RefreshRaised NetworkError
      | Some r \<Rightarrow>
          (if \<not> rs_ok r then Declined
           else (case rs_body r of
                   None \<Rightarrow> RefreshRaised SyntaxError
                 | Some body \<Rightarrow> (if body = JNull then RefreshRaised TypeError else Renewed (asString (jget body ''accessToken''))))))"

definition setAccessToken :: "string option \<Rightarrow> tab \<Rightarrow> tab" where
  "setAccessToken token t = t\<lparr>tb_token := token\<rparr>"

definition onSessionLost :: "tab \<Rightarrow> tab" where
  "onSessionLost t = t\<lparr>tb_lost := Suc (tb_lost t)\<rparr>"

text \<open>\<open>refreshInFlight ??= tryRefresh()\<close>.\<close>

definition refreshOnce :: "tab \<Rightarrow> tab" where
  "refreshOnce t = (if tb_refreshing t then t else t\<lparr>tb_refreshing := True, tb_sent := tb_sent t @ [(None, refreshRequest)]\<rparr>)"

definition setPhase :: "nat \<Rightarrow> phase \<Rightarrow> tab \<Rightarrow> tab" where
  "setPhase i ph t = t\<lparr>tb_calls := (tb_calls t)[i := (tb_calls t ! i)\<lparr>wc_phase := ph\<rparr>]\<rparr>"

text \<open>One attempt of a call: it carries the token of the moment.\<close>

definition sendAttempt :: "(json \<Rightarrow> string) \<Rightarrow> bool \<Rightarrow> nat \<Rightarrow> tab \<Rightarrow> tab" where
  "sendAttempt stringify isRetry i t =
     setPhase i (Waiting isRetry) (t\<lparr>tb_sent := tb_sent t @ [(Some i, requestOf stringify (tb_token t) (tb_calls t ! i))]\<rparr>)"

definition startCall :: "(json \<Rightarrow> string) \<Rightarrow> call_kind \<Rightarrow> string \<Rightarrow> tab \<Rightarrow> tab" where
  "startCall stringify kind path t =
     sendAttempt stringify False (length (tb_calls t))
       (t\<lparr>tb_calls := tb_calls t @ [\<lparr>wc_kind = kind, wc_path = path, wc_phase = Waiting False\<rparr>]\<rparr>)"

text \<open>Whether a 401 starts a refresh: \<open>!isRetry\<close>, and for \<open>api\<close> a path outside \<open>/auth/\<close>.\<close>

definition refreshes401 :: "web_call \<Rightarrow> bool" where
  "refreshes401 c = (case wc_kind c of ApiCall _ _ \<Rightarrow> \<not> startsWith (wc_path c) ''/auth/'' | DownloadCall _ \<Rightarrow> True)"

definition onResponse :: "nat \<Rightarrow> web_response \<Rightarrow> tab \<Rightarrow> tab" where
  "onResponse i r t =
     (let c = tb_calls t ! i in
      case wc_phase c of
        Waiting isRetry \<Rightarrow>
          (if rs_status r = 401 \<and> \<not> isRetry \<and> refreshes401 c then refreshOnce (setPhase i (Renewing r) t)
           else setPhase i (Finished (callResult c r)) t)
      | _ \<Rightarrow> t)"

definition onFetchError :: "nat \<Rightarrow> tab \<Rightarrow> tab" where
  "onFetchError i t =
     (case wc_phase (tb_calls t ! i) of Waiting _ \<Rightarrow> setPhase i (Finished (Raised NetworkError)) t | _ \<Rightarrow> t)"

text \<open>A call that awaited the refresh goes on: a retry, the loss of the session, or the exception.\<close>

definition resumeCall :: "(json \<Rightarrow> string) \<Rightarrow> refresh_outcome \<Rightarrow> nat \<Rightarrow> tab \<Rightarrow> tab" where
  "resumeCall stringify outcome i t =
     (case wc_phase (tb_calls t ! i) of
        Renewing r \<Rightarrow>
          (case outcome of
             Renewed _ \<Rightarrow> sendAttempt stringify True i t
           | Declined \<Rightarrow>
               setPhase i (Finished (case wc_kind (tb_calls t ! i) of ApiCall _ _ \<Rightarrow> apiResult r | DownloadCall _ \<Rightarrow> NothingReturned))
                 (onSessionLost t)
           | RefreshRaised e \<Rightarrow> setPhase i (Finished (Raised e)) t)
      | _ \<Rightarrow> t)"

text \<open>The promise settles: \<open>accessToken\<close> is set, \<open>refreshInFlight\<close> is cleared, and everyone who awaited it goes on.\<close>

definition onRefreshed :: "(json \<Rightarrow> string) \<Rightarrow> refresh_outcome \<Rightarrow> tab \<Rightarrow> tab" where
  "onRefreshed stringify outcome t =
     fold (resumeCall stringify outcome) [0..<length (tb_calls t)]
       (t\<lparr>tb_refreshing := False, tb_token := (case outcome of Renewed tok \<Rightarrow> tok | _ \<Rightarrow> tb_token t)\<rparr>)"

text \<open>Everything that can happen in a tab; its calls are told apart by their index.\<close>

inductive local_step :: "(json \<Rightarrow> string) \<Rightarrow> tab \<Rightarrow> tab \<Rightarrow> bool" for stringify where
  starts: "local_step stringify t (startCall stringify kind path t)"
| answered: "i < length (tb_calls t) \<Longrightarrow> local_step stringify t (onResponse i r t)"
| fails: "i < length (tb_calls t) \<Longrightarrow> local_step stringify t (onFetchError i t)"
| token_set: "local_step stringify t (setAccessToken token t)"

inductive tab_step :: "(json \<Rightarrow> string) \<Rightarrow> tab \<Rightarrow> tab \<Rightarrow> bool" for stringify where
  local: "local_step stringify t t' \<Longrightarrow> tab_step stringify t t'"
| refreshed: "tb_refreshing t \<Longrightarrow> tab_step stringify t (onRefreshed stringify outcome t)"

definition freshTab :: tab where
  "freshTab = \<lparr>tb_token = None, tb_refreshing = False, tb_calls = [], tb_sent = [], tb_lost = 0\<rparr>"

section \<open>What the refresh does to the calls\<close>

definition resumed :: "refresh_outcome \<Rightarrow> web_call \<Rightarrow> web_call" where
  "resumed outcome c =
     (case wc_phase c of
        Renewing r \<Rightarrow>
          c\<lparr>wc_phase := (case outcome of
               Renewed _ \<Rightarrow> Waiting True
             | Declined \<Rightarrow> Finished (case wc_kind c of ApiCall _ _ \<Rightarrow> apiResult r | DownloadCall _ \<Rightarrow> NothingReturned)
             | RefreshRaised e \<Rightarrow> Finished (Raised e))\<rparr>
      | _ \<Rightarrow> c)"

definition isRenewing :: "web_call \<Rightarrow> bool" where
  "isRenewing c \<longleftrightarrow> (case wc_phase c of Renewing _ \<Rightarrow> True | _ \<Rightarrow> False)"

definition retries :: "(json \<Rightarrow> string) \<Rightarrow> refresh_outcome \<Rightarrow> web_call list \<Rightarrow> nat \<Rightarrow> (nat option \<times> web_request) list" where
  "retries stringify outcome cs i =
     (case outcome of Renewed tok \<Rightarrow> if isRenewing (cs ! i) then [(Some i, requestOf stringify tok (cs ! i))] else [] | _ \<Rightarrow> [])"

lemma setPhase_simps [simp]:
  "tb_calls (setPhase i ph t) = (tb_calls t)[i := (tb_calls t ! i)\<lparr>wc_phase := ph\<rparr>]"
  "tb_sent (setPhase i ph t) = tb_sent t" "tb_refreshing (setPhase i ph t) = tb_refreshing t" "tb_token (setPhase i ph t) = tb_token t"
  by (simp_all add: setPhase_def)

lemma resumeCall_eq:
  assumes "\<And>tok. outcome = Renewed tok \<Longrightarrow> tb_token t = tok"
  shows "tb_calls (resumeCall stringify outcome i t) = (tb_calls t)[i := resumed outcome (tb_calls t ! i)]"
    "tb_sent (resumeCall stringify outcome i t) = tb_sent t @ retries stringify outcome (tb_calls t) i"
    "tb_refreshing (resumeCall stringify outcome i t) = tb_refreshing t" "tb_token (resumeCall stringify outcome i t) = tb_token t"
  using assms
  by (simp_all add: resumeCall_def resumed_def retries_def isRenewing_def sendAttempt_def onSessionLost_def
      split: phase.split refresh_outcome.split)

lemma fold_resume:
  assumes "\<And>tok. outcome = Renewed tok \<Longrightarrow> tb_token t = tok" "n \<le> length (tb_calls t)"
  shows "let t' = fold (resumeCall stringify outcome) [0..<n] t in
    tb_calls t' = map (resumed outcome) (take n (tb_calls t)) @ drop n (tb_calls t)
    \<and> tb_sent t' = tb_sent t @ concat (map (retries stringify outcome (tb_calls t)) [0..<n])
    \<and> tb_refreshing t' = tb_refreshing t \<and> tb_token t' = tb_token t"
  using assms(2)
proof (induction n)
  case 0
  then show ?case by simp
next
  case (Suc n)
  define t' where "t' = fold (resumeCall stringify outcome) [0..<n] t"
  define c where "c = tb_calls t ! n"
  have split: "take (Suc n) (tb_calls t) = take n (tb_calls t) @ [c]" "drop n (tb_calls t) = c # drop (Suc n) (tb_calls t)"
    using Suc.prems by (simp_all add: c_def take_Suc_conv_app_nth Cons_nth_drop_Suc)
  from Suc have IH: "tb_calls t' = map (resumed outcome) (take n (tb_calls t)) @ c # drop (Suc n) (tb_calls t)"
    "tb_sent t' = tb_sent t @ concat (map (retries stringify outcome (tb_calls t)) [0..<n])"
    "tb_refreshing t' = tb_refreshing t" "tb_token t' = tb_token t"
    by (simp_all add: Let_def t'_def split)
  have len: "length (take n (tb_calls t)) = n" using Suc.prems by simp
  then have nth: "tb_calls t' ! n = c" and upd: "(tb_calls t')[n := x] = map (resumed outcome) (take n (tb_calls t)) @ x # drop (Suc n) (tb_calls t)" for x
    unfolding IH(1) by (metis length_map nth_append_length, metis length_map list_update_length)
  have "retries stringify outcome (tb_calls t') n = retries stringify outcome (tb_calls t) n"
    using nth by (simp add: retries_def c_def split: refresh_outcome.split)
  with resumeCall_eq [where stringify = stringify and outcome = outcome and i = n and t = t'] assms(1) show ?case
    by (simp add: Let_def t'_def [symmetric] nth upd IH(2-) split(1))
qed

lemma onRefreshed_eq:
  "tb_calls (onRefreshed stringify outcome t) = map (resumed outcome) (tb_calls t)"
  "tb_sent (onRefreshed stringify outcome t) = tb_sent t @ concat (map (retries stringify outcome (tb_calls t)) [0..<length (tb_calls t)])"
  "tb_refreshing (onRefreshed stringify outcome t) = False"
  using fold_resume [where n = "length (tb_calls t)" and stringify = stringify and outcome = outcome
      and t = "t\<lparr>tb_refreshing := False, tb_token := (case outcome of Renewed tok \<Rightarrow> tok | _ \<Rightarrow> tb_token t)\<rparr>"]
  by (simp_all add: onRefreshed_def Let_def)

section \<open>Invariants of a tab\<close>

definition attempts :: "nat \<Rightarrow> tab \<Rightarrow> nat" where
  "attempts i t = length (filter (\<lambda>(k, _). k = Some i) (tb_sent t))"

definition refreshesSent :: "tab \<Rightarrow> nat" where
  "refreshesSent t = length (filter (\<lambda>(k, _). k = None) (tb_sent t))"

fun attemptsIn :: "phase \<Rightarrow> nat \<Rightarrow> bool" where
  "attemptsIn (Waiting b) n \<longleftrightarrow> n = (if b then 2 else 1)"
| "attemptsIn (Renewing _) n \<longleftrightarrow> n = 1"
| "attemptsIn (Finished _) n \<longleftrightarrow> n = 1 \<or> n = 2"

definition tabOk :: "tab \<Rightarrow> bool" where
  "tabOk t \<longleftrightarrow> (\<forall>i<length (tb_calls t). attemptsIn (wc_phase (tb_calls t ! i)) (attempts i t))
     \<and> (\<forall>i\<ge>length (tb_calls t). attempts i t = 0)
     \<and> (tb_refreshing t \<longleftrightarrow> list_ex isRenewing (tb_calls t))"

lemma attempts_append [simp]:
  "length (filter (\<lambda>(k, _). k = x) (xs @ ys)) = length (filter (\<lambda>(k, _). k = x) xs) + length (filter (\<lambda>(k, _). k = x) ys)"
  by simp

lemma attempts_concat:
  "length (filter (\<lambda>(k, _). k = Some i) (concat (map (retries stringify outcome cs) [0..<n])))
     = (if i < n then length (retries stringify outcome cs i) else 0)"
proof (induction n)
  case (Suc n)
  then show ?case by (cases "i = n") (auto simp: retries_def split: refresh_outcome.split)
qed simp

lemma refreshes_concat:
  "filter (\<lambda>(k, _). k = None) (concat (map (retries stringify outcome cs) ns)) = []"
  by (induction ns) (simp_all add: retries_def split: refresh_outcome.split)

lemma resumed_not_renewing [simp]: "\<not> isRenewing (resumed outcome c)"
  by (simp add: isRenewing_def resumed_def split: phase.split refresh_outcome.split)

lemma attempts_resumed:
  assumes "attemptsIn (wc_phase (cs ! i)) n"
  shows "attemptsIn (wc_phase (resumed outcome (cs ! i))) (n + length (retries stringify outcome cs i))"
  using assms by (cases "wc_phase (cs ! i)"; cases outcome) (simp_all add: resumed_def retries_def isRenewing_def)

lemma tabOk_fresh: "tabOk freshTab"
  by (simp add: tabOk_def freshTab_def attempts_def)

lemma tabOk_refreshed: "tabOk t \<Longrightarrow> tabOk (onRefreshed stringify outcome t)"
  by (auto simp: tabOk_def onRefreshed_eq attempts_def attempts_concat attempts_resumed list_ex_iff)

lemma renewing_update:
  assumes "i < length cs" "\<not> isRenewing (cs ! i)"
  shows "list_ex isRenewing (cs[i := c]) \<longleftrightarrow> list_ex isRenewing cs \<or> isRenewing c"
proof -
  have cs: "cs = take i cs @ cs ! i # drop (Suc i) cs" using assms(1) by (rule id_take_nth_drop)
  have "list_ex isRenewing (cs[i := c]) \<longleftrightarrow> list_ex isRenewing (take i cs) \<or> isRenewing c \<or> list_ex isRenewing (drop (Suc i) cs)"
    using assms(1) by (simp add: upd_conv_take_nth_drop)
  also have "\<dots> \<longleftrightarrow> list_ex isRenewing cs \<or> isRenewing c"
    using arg_cong [where f = "list_ex isRenewing", OF cs] assms(2) by auto
  finally show ?thesis .
qed

text \<open>The local functions change one call and send at most one request of their own.\<close>

lemma tabOk_finish:
  assumes "tabOk t" "i < length (tb_calls t)" "wc_phase (tb_calls t ! i) = Waiting b"
  shows "tabOk (setPhase i (Finished r) t)"
proof -
  have "attempts i t = 1 \<or> attempts i t = 2" using assms by (auto simp: tabOk_def split: if_split_asm)
  with assms show ?thesis
    by (auto simp: tabOk_def attempts_def nth_list_update renewing_update isRenewing_def)
qed

lemma tabOk_renew:
  assumes "tabOk t" "i < length (tb_calls t)" "wc_phase (tb_calls t ! i) = Waiting False"
  shows "tabOk (refreshOnce (setPhase i (Renewing r) t))"
proof -
  have "attempts i t = 1" using assms by (auto simp: tabOk_def)
  with assms show ?thesis
    by (auto simp: tabOk_def attempts_def nth_list_update renewing_update isRenewing_def refreshOnce_def)
qed

lemma tabOk_start:
  assumes "tabOk t"
  shows "tabOk (startCall stringify kind path t)"
  using assms
  by (auto simp: tabOk_def attempts_def startCall_def sendAttempt_def nth_append isRenewing_def less_Suc_eq)

lemma tabOk_step:
  assumes "tab_step stringify t t'" "tabOk t"
  shows "tabOk t'"
  using assms(1)
proof cases
  case local
  then show ?thesis
  proof cases
    case (starts kind path)
    with tabOk_start assms(2) show ?thesis by simp
  next
    case (answered i r)
    then show ?thesis using assms(2)
      by (auto simp: onResponse_def Let_def tabOk_finish tabOk_renew split: phase.split)
  next
    case (fails i)
    then show ?thesis using assms(2) by (auto simp: onFetchError_def tabOk_finish split: phase.split)
  next
    case (token_set token)
    then show ?thesis using assms(2) by (simp add: setAccessToken_def tabOk_def attempts_def)
  qed
next
  case (refreshed outcome)
  with assms(2) show ?thesis by (simp add: tabOk_refreshed)
qed

lemma tabOk_reachable: "(tab_step stringify)\<^sup>*\<^sup>* freshTab t \<Longrightarrow> tabOk t"
  by (induction rule: rtranclp_induct) (auto simp: tabOk_fresh intro: tabOk_step)

section \<open>Every call ends\<close>

text \<open>What the network does to a tab: it answers or fails a call that waits, or settles the refresh.\<close>

inductive net_step :: "(json \<Rightarrow> string) \<Rightarrow> tab \<Rightarrow> tab \<Rightarrow> bool" for stringify where
  net_answer: "i < length (tb_calls t) \<Longrightarrow> wc_phase (tb_calls t ! i) = Waiting b \<Longrightarrow> net_step stringify t (onResponse i r t)"
| net_failure: "i < length (tb_calls t) \<Longrightarrow> wc_phase (tb_calls t ! i) = Waiting b \<Longrightarrow> net_step stringify t (onFetchError i t)"
| net_refresh: "tb_refreshing t \<Longrightarrow> net_step stringify t (onRefreshed stringify outcome t)"

fun phaseRank :: "phase \<Rightarrow> nat" where
  "phaseRank (Waiting isRetry) = (if isRetry then 1 else 3)"
| "phaseRank (Renewing _) = 2"
| "phaseRank (Finished _) = 0"

definition tabRank :: "tab \<Rightarrow> nat" where
  "tabRank t = sum_list (map (\<lambda>c. phaseRank (wc_phase c)) (tb_calls t))"

lemma net_step_tab: "net_step stringify t t' \<Longrightarrow> tab_step stringify t t'"
  by (induction rule: net_step.induct) (auto intro: tab_step.intros local_step.intros)

lemma tabRank_phase:
  assumes "i < length (tb_calls t)" "phaseRank ph < phaseRank (wc_phase (tb_calls t ! i))"
  shows "tabRank (setPhase i ph t) < tabRank t"
proof -
  let ?ns = "map (\<lambda>c. phaseRank (wc_phase c)) (tb_calls t)"
  have "?ns ! i \<le> sum_list ?ns" using assms(1) by (intro member_le_sum_list) simp_all
  with assms show ?thesis by (simp add: tabRank_def map_update sum_list_update)
qed

lemma resumed_rank: "phaseRank (wc_phase (resumed outcome c)) \<le> phaseRank (wc_phase c)"
  "isRenewing c \<Longrightarrow> phaseRank (wc_phase (resumed outcome c)) < phaseRank (wc_phase c)"
  by (simp_all add: resumed_def isRenewing_def split: phase.splits refresh_outcome.split)

lemma tabRank_resumed:
  assumes "list_ex isRenewing cs"
  shows "sum_list (map (\<lambda>c. phaseRank (wc_phase (resumed outcome c))) cs) < sum_list (map (\<lambda>c. phaseRank (wc_phase c)) cs)"
  using assms
proof (induction cs)
  case (Cons c cs)
  have "sum_list (map (\<lambda>c. phaseRank (wc_phase (resumed outcome c))) cs) \<le> sum_list (map (\<lambda>c. phaseRank (wc_phase c)) cs)"
    by (intro sum_list_mono resumed_rank)
  with Cons resumed_rank [where c = c and outcome = outcome] show ?case by (auto intro: add_less_le_mono add_le_less_mono)
qed simp

lemma net_step_rank:
  assumes "net_step stringify t t'" "tabOk t"
  shows "tabRank t' < tabRank t"
  using assms(1)
proof cases
  case (net_answer i b r)
  have "tabRank (refreshOnce u) = tabRank u" for u by (simp add: refreshOnce_def tabRank_def)
  with net_answer show ?thesis by (auto simp: onResponse_def Let_def tabRank_phase)
next
  case (net_failure i b)
  then show ?thesis by (auto simp: onFetchError_def tabRank_phase)
next
  case (net_refresh outcome)
  then show ?thesis using assms(2) by (simp add: tabOk_def tabRank_def onRefreshed_eq tabRank_resumed o_def)
qed

lemma net_run:
  assumes "(net_step stringify ^^ n) t t'" "tabOk t"
  shows "tabOk t' \<and> n + tabRank t' \<le> tabRank t"
  using assms(1)
proof (induction n arbitrary: t')
  case 0
  then show ?case using assms(2) by simp
next
  case (Suc n)
  then obtain u where u: "(net_step stringify ^^ n) t u" "net_step stringify u t'" by auto
  with Suc.IH have "tabOk u" "n + tabRank u \<le> tabRank t" by blast+
  with u(2) tabOk_step [OF net_step_tab] net_step_rank show ?case by fastforce
qed

lemma tabRank_bound: "tabRank t \<le> 3 * length (tb_calls t)"
proof -
  have "phaseRank ph \<le> 3" for ph by (cases ph) auto
  then have "sum_list (map (\<lambda>c. phaseRank (wc_phase c)) cs) \<le> 3 * length cs" for cs :: "web_call list"
    by (induction cs) (auto intro: add_mono)
  then show ?thesis by (simp add: tabRank_def)
qed

lemma stuck_finished:
  assumes "tabOk t" "\<And>t'. \<not> net_step stringify t t'" "i < length (tb_calls t)"
  shows "\<exists>r. wc_phase (tb_calls t ! i) = Finished r"
proof (cases "wc_phase (tb_calls t ! i)")
  case (Waiting b)
  with net_failure assms(2,3) show ?thesis by blast
next
  case (Renewing r)
  with assms(3) have "list_ex isRenewing (tb_calls t)" by (auto simp: list_ex_iff isRenewing_def intro!: bexI [OF _ nth_mem])
  with assms(1) have "tb_refreshing t" by (simp add: tabOk_def)
  with net_refresh assms(2) show ?thesis by blast
next
  case (Finished r)
  then show ?thesis by simp
qed

text \<open>
  C28. Every call of the web client ends. From any state a tab can reach, with any number of calls under way, the
  network can only make as many moves (answers, failures, the end of a refresh) as three for each call; when it can make
  no more, every call has a result; a call awaits a refresh only while one is under way; and no call is ever
  sent more than twice.
\<close>

theorem calls_settle:
  assumes "(tab_step stringify)\<^sup>*\<^sup>* freshTab t" "(net_step stringify ^^ n) t t'"
  shows "n \<le> 3 * length (tb_calls t)
    \<and> ((\<exists>t''. net_step stringify t' t'') \<or> (\<forall>i<length (tb_calls t'). \<exists>r. wc_phase (tb_calls t' ! i) = Finished r))
    \<and> (tb_refreshing t' \<longleftrightarrow> list_ex isRenewing (tb_calls t'))
    \<and> attempts i t' \<le> 2"
proof -
  have run: "tabOk t'" "n + tabRank t' \<le> tabRank t" using net_run [OF assms(2) tabOk_reachable [OF assms(1)]] by simp_all
  have "attempts i t' \<le> 2"
  proof (cases "i < length (tb_calls t')")
    case True
    with run(1) have "attemptsIn (wc_phase (tb_calls t' ! i)) (attempts i t')" by (simp add: tabOk_def)
    then show ?thesis by (cases "wc_phase (tb_calls t' ! i)") (auto split: if_split_asm)
  qed (use run(1) in \<open>simp add: tabOk_def\<close>)
  with run tabRank_bound [of t] stuck_finished [OF run(1), of stringify] show ?thesis by (auto simp: tabOk_def)
qed

text \<open>A call meets a 401, the refresh succeeds, and its second attempt is answered.\<close>

definition demo_refused :: web_response where
  "demo_refused = \<lparr>rs_status = 401, rs_body = Some (JObj [(''title'', JStr ''unauthorized'')])\<rparr>"

definition demo_answer :: web_response where
  "demo_answer = \<lparr>rs_status = 200, rs_body = Some (JArr [])\<rparr>"

definition demo_call :: tab where
  "demo_call = startCall (\<lambda>j. []) (ApiCall None None) ''/workspaces'' freshTab"

lemmas tab_eval = demo_refused_def demo_answer_def demo_call_def startCall_def sendAttempt_def setPhase_def freshTab_def onResponse_def refreshes401_def
  startsWith_def refreshOnce_def onRefreshed_def resumeCall_def callResult_def apiResult_def rs_ok_def requestOf_def apiRequest_def authHeader_def
  attempts_def onSessionLost_def downloadResult_def

lemma calls_settle_witness:
  defines "t3 \<equiv> onResponse 0 demo_answer (onRefreshed (\<lambda>j. []) (Renewed (Some ''A2'')) (onResponse 0 demo_refused demo_call))"
  shows "wc_phase (tb_calls t3 ! 0) = Finished (Returned (JArr [])) \<and> map fst (tb_sent t3) = [Some 0, None, Some 0]
    \<and> attempts 0 t3 \<le> 2 \<and> \<not> tb_refreshing t3"
proof -
  let ?s = "\<lambda>j :: json. [] :: string"
  let ?t1 = "onResponse 0 demo_refused demo_call" and ?t2 = "onRefreshed ?s (Renewed (Some ''A2'')) (onResponse 0 demo_refused demo_call)"
  have 0: "(tab_step ?s)\<^sup>*\<^sup>* freshTab demo_call"
    unfolding demo_call_def by (intro r_into_rtranclp tab_step.local local_step.starts)
  have 1: "net_step ?s demo_call ?t1" by (rule net_answer [where b = False]) (simp_all add: tab_eval)
  have 2: "net_step ?s ?t1 ?t2" by (rule net_refresh) (simp add: tab_eval)
  have 3: "net_step ?s ?t2 t3" unfolding t3_def by (rule net_answer [where b = True]) (simp_all add: tab_eval)
  have run: "(net_step ?s ^^ Suc (Suc (Suc 0))) demo_call t3" using 1 2 3 by (blast intro: relpowp_0_I relpowp_Suc_I)
  have t3: "wc_phase (tb_calls t3 ! 0) = Finished (Returned (JArr []))" "map fst (tb_sent t3) = [Some 0, None, Some 0]"
    "list_ex isRenewing (tb_calls t3) = False"
    by (simp_all add: t3_def tab_eval isRenewing_def)
  from calls_settle [OF 0 run, of 0] t3 show ?thesis by simp
qed

end
