(* ===== verification/WebSession.thy ===== *)
theory WebSession
  imports WebClient
begin

text \<open>
  A browser tab, its refresh cookie and the API's session table together: the refresh requests that the tab of
  \<open>WebClient\<close> sends are handled by the API statement by statement (\<open>advanceRefresh\<close> of \<open>Sessions\<close>) while other clients
  use the same table. The cookie goes with a request when it is sent and changes when an answer comes back.
\<close>

section \<open>The browser\<close>





definition removeNth :: "nat \<Rightarrow> 'a list \<Rightarrow> 'a list" where
  "removeNth k xs = take k xs @ drop (Suc k) xs"



section \<open>What the browser holds\<close>










lemma removeNth_single [simp]: "removeNth 0 [x] = []"
  by (simp add: removeNth_def)






section \<open>Gaps\<close>

text \<open>
  Two refreshes with one cookie, one after the other: the second revokes the session the first has just made. This is
  what an answer lost on its way back leads to (the cookie is still the old one), and two bootstraps of the page
  (\<open>AuthProvider\<close> calls \<open>tryRefresh\<close> itself, past the shared promise; the development build runs its effect twice).
\<close>

lemma second_refresh_ends_session:
  "let (db1, r1) = refreshSession (\<lambda>x. x) 10 ada_fresh (Some ''T1'') ada_db;
       (db2, r2) = refreshSession (\<lambda>x. x) 11 (ada_fresh\<lparr>fr_session := ''s3''\<rparr>) (Some ''T1'') db1
   in r1 = Inr ''T2'' \<and> r2 = Inl reused \<and> liveSessions ''f'' db2 = []"
  by (simp add: ada_defs reused_def liveSessions_def liveIn_def)

text \<open>A 401 on a path below \<open>/auth/\<close> is final: loading the profile with an expired access token never refreshes it.\<close>

lemma profile_is_not_refreshed:
  assumes "wc_kind (tb_calls t ! i) = ApiCall m b" "wc_path (tb_calls t ! i) = ''/auth/me''" "wc_phase (tb_calls t ! i) = Waiting False"
    "rs_status r = 401" "i < length (tb_calls t)"
  shows "wc_phase (tb_calls (onResponse i r t) ! i) = Finished (apiResult r) \<and> tb_sent (onResponse i r t) = tb_sent t"
  using assms by (simp add: onResponse_def Let_def refreshes401_def callResult_def startsWith_def)

end
