(* ===== verification/WebApp.thy ===== *)
theory WebApp
  imports WebClient
begin

text \<open>
  Who is signed in and which page is shown: \<open>apps/web/src/providers/auth-context.tsx\<close> and \<open>App.tsx\<close>. The
  profile is the answer \<open>me\<close> of the API. The router is modelled as documented: segments of a path are compared
  without case, a static segment is preferred to a parameter, and of two routes that are as specific the first wins. A
  redirect starts the matching again. \<open>slugOf\<close> of a membership is its \<open>workspace.slug\<close>.
\<close>

section \<open>The session of the page (auth-context.tsx)\<close>

datatype auth_status = Loading | Anonymous | Authenticated

type_synonym membership = "(string \<times> string \<times> string) \<times> workspace_role"

record auth_state =
  au_status :: auth_status
  au_user :: "(string \<times> string \<times> string) option"
  au_isSuperAdmin :: bool
  au_memberships :: "membership list"
  au_token :: "string option"

definition slugOf :: "membership \<Rightarrow> string" where
  "slugOf m = snd (snd (fst m))"

definition initialAuth :: auth_state where
  "initialAuth = \<lparr>au_status = Loading, au_user = None, au_isSuperAdmin = False, au_memberships = [], au_token = None\<rparr>"

definition becomeAnonymous :: "auth_state \<Rightarrow> auth_state" where
  "becomeAnonymous a = \<lparr>au_status = Anonymous, au_user = None, au_isSuperAdmin = False, au_memberships = [], au_token = None\<rparr>"

definition loadMe :: "me_view \<Rightarrow> auth_state \<Rightarrow> auth_state" where
  "loadMe v a = a\<lparr>au_user := Some (me_user v), au_isSuperAdmin := me_isSuperAdmin v, au_memberships := me_memberships v,
     au_status := Authenticated\<rparr>"

text \<open>The bootstrap, given how the refresh and the request for the profile end.\<close>

definition bootstrap :: "refresh_outcome \<Rightarrow> web_error + me_view \<Rightarrow> auth_state \<Rightarrow> auth_state" where
  "bootstrap outcome profile a =
     (case outcome of
        Renewed tok \<Rightarrow>
          (let a' = a\<lparr>au_token := tok\<rparr> in case profile of Inl _ \<Rightarrow> becomeAnonymous a' | Inr v \<Rightarrow> loadMe v a')
      | Declined \<Rightarrow> becomeAnonymous a
      | RefreshRaised _ \<Rightarrow> becomeAnonymous a)"

text \<open>\<open>login\<close> and \<open>register\<close>: the token of the answer is kept even when the profile cannot be loaded; \<open>register\<close> gives the slug.\<close>

definition signIn :: "web_error + string \<Rightarrow> web_error + me_view \<Rightarrow> auth_state \<Rightarrow> auth_state \<times> (web_error + unit)" where
  "signIn answer profile a =
     (case answer of
        Inl e \<Rightarrow> (a, Inl e)
      | Inr tok \<Rightarrow>
          (let a' = a\<lparr>au_token := Some tok\<rparr> in
           case profile of Inl e \<Rightarrow> (a', Inl e) | Inr v \<Rightarrow> (loadMe v a', Inr ())))"

definition signUp ::
  "web_error + string \<times> string \<Rightarrow> web_error + me_view \<Rightarrow> auth_state \<Rightarrow> auth_state \<times> (web_error + string)" where
  "signUp answer profile a =
     (case answer of
        Inl e \<Rightarrow> (a, Inl e)
      | Inr (tok, slug) \<Rightarrow>
          (let a' = a\<lparr>au_token := Some tok\<rparr> in
           case profile of Inl e \<Rightarrow> (a', Inl e) | Inr v \<Rightarrow> (loadMe v a', Inr slug)))"

text \<open>The request to log out may fail; the page forgets the session in any case.\<close>

definition signOut :: "web_error + unit \<Rightarrow> auth_state \<Rightarrow> auth_state" where
  "signOut answer a = becomeAnonymous a"

definition reloadMemberships :: "web_error + me_view \<Rightarrow> auth_state \<Rightarrow> auth_state \<times> (web_error + unit)" where
  "reloadMemberships profile a = (case profile of Inl e \<Rightarrow> (a, Inl e) | Inr v \<Rightarrow> (loadMe v a, Inr ()))"

inductive auth_step :: "auth_state \<Rightarrow> auth_state \<Rightarrow> bool" where
  boots: "auth_step a (bootstrap outcome profile a)"
| signs_in: "auth_step a (fst (signIn login_answer profile a))"
| signs_up: "auth_step a (fst (signUp register_answer profile a))"
| signs_out: "auth_step a (signOut logout_answer a)"
| reloads: "auth_step a (fst (reloadMemberships profile a))"
| loses_session: "auth_step a (becomeAnonymous a)"

section \<open>Routes (App.tsx)\<close>

datatype page = DashboardPage | SetupPage | AnalyticsPage | UsagePage | KeysPage | ProjectsPage | TeamsPage
  | TeamDetailPage string | ProvidersPage | MembersPage | PricingPage

datatype platform_page = PlatformOverview | PlatformTenants | PlatformReports

datatype route = LoginRoute | RegisterRoute | InviteRoute string | HomeRoute | AdminRoute platform_page | WorkspaceRoute string page

datatype screen = CenteredSpin | LoginPage | RegisterPage | AcceptInvitePage string | Platform platform_page | Workspace string page
  | NoMatch

datatype shown = Show screen | Navigate string

definition workspacePages :: "(string \<times> page) list" where
  "workspacePages =
     [(''setup'', SetupPage), (''analytics'', AnalyticsPage), (''usage'', UsagePage), (''keys'', KeysPage), (''projects'', ProjectsPage),
      (''teams'', TeamsPage), (''providers'', ProvidersPage), (''members'', MembersPage), (''pricing'', PricingPage)]"

definition pathSegments :: "string \<Rightarrow> string list" where
  "pathSegments path = filter (\<lambda>s. s \<noteq> []) (splitOn CHR ''/'' path)"

definition matchRoute :: "string list \<Rightarrow> route option" where
  "matchRoute segs =
     (case segs of
        [] \<Rightarrow> Some HomeRoute
      | [a] \<Rightarrow>
          (if toLowerCase a = ''login'' then Some LoginRoute
           else if toLowerCase a = ''register'' then Some RegisterRoute
           else if toLowerCase a = ''admin'' then Some (AdminRoute PlatformOverview)
           else Some (WorkspaceRoute a DashboardPage))
      | [a, b] \<Rightarrow>
          (if toLowerCase a = ''invite'' then Some (InviteRoute b)
           else if toLowerCase a = ''admin'' \<and> toLowerCase b = ''tenants'' then Some (AdminRoute PlatformTenants)
           else if toLowerCase a = ''admin'' \<and> toLowerCase b = ''reports'' then Some (AdminRoute PlatformReports)
           else map_option (WorkspaceRoute a) (map_of workspacePages (toLowerCase b)))
      | [a, b, c] \<Rightarrow> (if toLowerCase b = ''teams'' then Some (WorkspaceRoute a (TeamDetailPage c)) else None)
      | _ \<Rightarrow> None)"

definition homeRedirect :: "auth_state \<Rightarrow> shown" where
  "homeRedirect a =
     (case au_status a of
        Loading \<Rightarrow> Show CenteredSpin
      | Anonymous \<Rightarrow> Navigate ''/login''
      | Authenticated \<Rightarrow>
          (case au_memberships a of
             [] \<Rightarrow> Navigate ''/register''
           | m # _ \<Rightarrow> if slugOf m = [] then Navigate ''/register'' else Navigate (''/'' @ slugOf m)))"

definition requireSuperAdmin :: "auth_state \<Rightarrow> screen \<Rightarrow> shown" where
  "requireSuperAdmin a outlet =
     (case au_status a of
        Loading \<Rightarrow> Show CenteredSpin
      | Anonymous \<Rightarrow> Navigate ''/login''
      | Authenticated \<Rightarrow> if \<not> au_isSuperAdmin a then Navigate ''/'' else Show outlet)"

definition requireWorkspace :: "auth_state \<Rightarrow> string \<Rightarrow> screen \<Rightarrow> shown" where
  "requireWorkspace a ws outlet =
     (if au_status a = Loading then Show CenteredSpin
      else if \<not> list_ex (\<lambda>m. slugOf m = ws) (au_memberships a) then Navigate ''/''
      else Show outlet)"

definition requireAuth :: "auth_state \<Rightarrow> shown \<Rightarrow> shown" where
  "requireAuth a inside =
     (case au_status a of Loading \<Rightarrow> Show CenteredSpin | Anonymous \<Rightarrow> Navigate ''/login'' | Authenticated \<Rightarrow> inside)"

definition resolve :: "auth_state \<Rightarrow> string \<Rightarrow> shown" where
  "resolve a path =
     (case matchRoute (pathSegments path) of
        None \<Rightarrow> Show NoMatch
      | Some LoginRoute \<Rightarrow> Show LoginPage
      | Some RegisterRoute \<Rightarrow> Show RegisterPage
      | Some (InviteRoute token) \<Rightarrow> Show (AcceptInvitePage token)
      | Some HomeRoute \<Rightarrow> homeRedirect a
      | Some (AdminRoute p) \<Rightarrow> requireSuperAdmin a (Platform p)
      | Some (WorkspaceRoute ws p) \<Rightarrow> requireAuth a (requireWorkspace a ws (Workspace ws p)))"

text \<open>
  Where a visit ends, within \<open>n\<close> matchings. Two ends are no page: \<open>NoMatch\<close>, where no route matches and nothing is
  rendered (there is no route for all other addresses), and \<open>CenteredSpin\<close>, while it is not known who visits.
\<close>

fun follow :: "nat \<Rightarrow> auth_state \<Rightarrow> string \<Rightarrow> screen option" where
  "follow 0 a path = None"
| "follow (Suc n) a path = (case resolve a path of Show s \<Rightarrow> Some s | Navigate path' \<Rightarrow> follow n a path')"

section \<open>Lemmas\<close>

definition authOk :: "auth_state \<Rightarrow> bool" where
  "authOk a \<longleftrightarrow> au_status a \<noteq> Authenticated \<longrightarrow> au_memberships a = [] \<and> \<not> au_isSuperAdmin a \<and> au_user a = None"

lemma authOk_reachable: "auth_step\<^sup>*\<^sup>* initialAuth a \<Longrightarrow> authOk a"
proof (induction rule: rtranclp_induct)
  case base
  show ?case by (simp add: authOk_def initialAuth_def)
next
  case (step a b)
  from step(2,3) show ?case
    by cases (auto simp: authOk_def bootstrap_def becomeAnonymous_def loadMe_def signIn_def signUp_def signOut_def reloadMemberships_def Let_def
        split: refresh_outcome.split sum.split)
qed

lemma segments_root [simp]: "pathSegments ''/'' = []" "pathSegments ''/login'' = [''login'']" "pathSegments ''/register'' = [''register'']"
  by (simp_all add: pathSegments_def)

lemma segments_slug [simp]: "s \<noteq> [] \<Longrightarrow> CHR ''/'' \<notin> set s \<Longrightarrow> pathSegments (CHR ''/'' # s) = [s]"
  using splitOn_append_sep [of "CHR ''/''" "[]" s] by (simp add: pathSegments_def splitOn_no_sep)

lemma resolve_fixed [simp]:
  "resolve a ''/login'' = Show LoginPage" "resolve a ''/register'' = Show RegisterPage" "resolve a ''/'' = homeRedirect a"
  by (simp_all add: resolve_def matchRoute_def toLowerCase_def lowerChar_def)

lemma follow_Suc: "follow (Suc n) a path = (case resolve a path of Show s \<Rightarrow> Some s | Navigate p \<Rightarrow> follow n a p)"
  by simp

lemma follow_more: "follow n a path = Some s \<Longrightarrow> n \<le> k \<Longrightarrow> follow k a path = Some s"
proof (induction n arbitrary: path k)
  case (Suc n)
  then show ?case by (cases k) (auto split: shown.splits)
qed simp

text \<open>Where the guards send a visitor: to the login, to the registration, to the root, or home.\<close>

lemma resolve_targets:
  assumes "resolve a path = Navigate p"
  shows "p = ''/login'' \<or> p = ''/register'' \<or> p = ''/''
    \<or> (\<exists>m ms. au_status a = Authenticated \<and> au_memberships a = m # ms \<and> slugOf m \<noteq> [] \<and> p = ''/'' @ slugOf m)"
  using assms
  by (auto simp: resolve_def homeRedirect_def requireAuth_def requireSuperAdmin_def requireWorkspace_def
      split: option.splits route.splits auth_status.splits list.splits if_splits)

definition slugsOk :: "auth_state \<Rightarrow> bool" where
  "slugsOk a \<longleftrightarrow> (\<forall>m\<in>set (au_memberships a). slugOf m \<noteq> [] \<and> CHR ''/'' \<notin> set (slugOf m))"

definition homeLoops :: "auth_state \<Rightarrow> bool" where
  "homeLoops a \<longleftrightarrow> au_status a = Authenticated \<and> \<not> au_isSuperAdmin a \<and> au_memberships a \<noteq> []
     \<and> toLowerCase (slugOf (hd (au_memberships a))) = ''admin''"

lemma resolve_home:
  assumes "slugsOk a" "au_status a = Authenticated" "au_memberships a = m # ms"
  shows "resolve a (''/'' @ slugOf m) =
    (if toLowerCase (slugOf m) = ''login'' then Show LoginPage
     else if toLowerCase (slugOf m) = ''register'' then Show RegisterPage
     else if toLowerCase (slugOf m) = ''admin''
     then (if au_isSuperAdmin a then Show (Platform PlatformOverview) else Navigate ''/'')
     else Show (Workspace (slugOf m) DashboardPage))"
  using assms by (simp add: resolve_def matchRoute_def slugsOk_def requireSuperAdmin_def requireAuth_def requireWorkspace_def)

lemma home_settles:
  assumes "slugsOk a" "\<not> homeLoops a"
  shows "\<exists>s. follow 2 a ''/'' = Some s"
proof (cases "au_status a")
  case Authenticated
  then show ?thesis
  proof (cases "au_memberships a")
    case (Cons m ms)
    with assms(1) have "slugOf m \<noteq> []" by (simp add: slugsOk_def)
    with Cons Authenticated assms(2) resolve_home [OF assms(1) Authenticated Cons] show ?thesis
      by (auto simp: eval_nat_numeral homeRedirect_def homeLoops_def)
  qed (simp add: eval_nat_numeral homeRedirect_def)
qed (simp_all add: eval_nat_numeral homeRedirect_def)

lemma home_loops:
  assumes "slugsOk a" "homeLoops a"
  shows "follow n a ''/'' = None \<and> follow n a (''/'' @ slugOf (hd (au_memberships a))) = None"
proof (induction n)
  case (Suc n)
  from assms obtain m ms where m: "au_memberships a = m # ms" "slugOf m \<noteq> []" "au_status a = Authenticated" "\<not> au_isSuperAdmin a"
    "toLowerCase (slugOf m) = ''admin''" by (cases "au_memberships a") (auto simp: homeLoops_def slugsOk_def)
  from resolve_home [OF assms(1) m(3,1)] m(4,5) have "resolve a (''/'' @ slugOf m) = Navigate ''/''" by simp
  with Suc m show ?case by (simp add: homeRedirect_def)
qed simp

definition guardedBy :: "auth_state \<Rightarrow> screen \<Rightarrow> bool" where
  "guardedBy a s \<longleftrightarrow>
     (case s of
        Workspace ws p \<Rightarrow> au_status a = Authenticated \<and> (\<exists>m\<in>set (au_memberships a). slugOf m = ws)
      | Platform p \<Rightarrow> au_status a = Authenticated \<and> au_isSuperAdmin a
      | _ \<Rightarrow> True)"

lemma resolve_guarded: "resolve a path = Show s \<Longrightarrow> guardedBy a s"
proof (cases "matchRoute (pathSegments path)")
  case (Some r)
  assume "resolve a path = Show s"
  with Some show ?thesis
    by (cases r; cases "au_status a")
      (auto simp: resolve_def guardedBy_def homeRedirect_def requireAuth_def requireSuperAdmin_def requireWorkspace_def list_ex_iff
        split: list.splits if_splits)
qed (auto simp: resolve_def guardedBy_def)

lemma screens_guarded: "follow n a path = Some s \<Longrightarrow> guardedBy a s"
  by (induction n arbitrary: path) (auto intro: resolve_guarded split: shown.splits)

lemma spin_only_loading: "resolve a path = Show CenteredSpin \<Longrightarrow> au_status a = Loading"
  by (auto simp: resolve_def homeRedirect_def requireAuth_def requireSuperAdmin_def requireWorkspace_def
      split: option.splits route.splits auth_status.splits list.splits if_splits)

lemma resolve_noMatch: "resolve a path = Show NoMatch \<longleftrightarrow> matchRoute (pathSegments path) = None"
  by (auto simp: resolve_def homeRedirect_def requireAuth_def requireSuperAdmin_def requireWorkspace_def
      split: option.splits route.splits auth_status.splits list.splits if_splits)

lemma redirect_between_routes:
  assumes "slugsOk a" "resolve a path = Navigate p"
  shows "matchRoute (pathSegments path) \<noteq> None" "matchRoute (pathSegments p) \<noteq> None"
proof -
  show "matchRoute (pathSegments path) \<noteq> None"
    using assms(2) resolve_noMatch [of a path] by (metis shown.distinct(1))
  show "matchRoute (pathSegments p) \<noteq> None"
    using resolve_targets [OF assms(2)] assms(1) by (auto simp: matchRoute_def slugsOk_def)
qed

lemma follow_ends_on:
  assumes "slugsOk a" "follow n a path = Some s"
  shows "(s = NoMatch \<longleftrightarrow> matchRoute (pathSegments path) = None) \<and> (s = CenteredSpin \<longrightarrow> au_status a = Loading)"
  using assms(2)
proof (induction n arbitrary: path)
  case (Suc n)
  show ?case
  proof (cases "resolve a path")
    case (Show s')
    with Suc.prems show ?thesis using resolve_noMatch [of a path] spin_only_loading [of a path] by auto
  next
    case (Navigate p)
    with Suc redirect_between_routes [OF assms(1) Navigate] show ?thesis by auto
  qed
qed simp

text \<open>
  C32. The redirects of the web interface end, and end where they may. From every address the visitor is settled after at
  most two redirects, unless the visitor is signed in, is no super-admin and has a workspace with the slug \<open>admin\<close>
  first, in which case the root redirects for ever. What is shown then is a page, except that nothing is
  shown for exactly the addresses that no route matches, and the spinner only while the session is being loaded. A
  workspace page is reached only by a signed-in member of the workspace, a platform page only by a super-admin.
\<close>

theorem redirects_end:
  assumes "slugsOk a"
  shows "((\<forall>path. \<exists>s. follow 3 a path = Some s) \<longleftrightarrow> \<not> homeLoops a)
    \<and> ((\<exists>n s. follow n a ''/'' = Some s) \<longleftrightarrow> \<not> homeLoops a)
    \<and> (follow n a path = Some s \<longrightarrow>
         (s = NoMatch \<longleftrightarrow> matchRoute (pathSegments path) = None) \<and> (s = CenteredSpin \<longrightarrow> au_status a = Loading))
    \<and> (follow n a path = Some (Workspace ws p) \<longrightarrow> au_status a = Authenticated \<and> (\<exists>m\<in>set (au_memberships a). slugOf m = ws))
    \<and> (follow n a path = Some (Platform q) \<longrightarrow> au_status a = Authenticated \<and> au_isSuperAdmin a)"
proof -
  have ends: "\<exists>s. follow 3 a path = Some s" if "\<not> homeLoops a" for path
  proof (cases "resolve a path")
    case (Navigate p)
    from home_settles [OF assms that] obtain s where home: "follow 2 a ''/'' = Some s" by blast
    have "\<exists>s. follow 2 a p = Some s"
      using resolve_targets [OF Navigate]
    proof (elim disjE exE conjE)
      fix m ms
      assume m: "au_status a = Authenticated" "au_memberships a = m # ms" "p = ''/'' @ slugOf m"
      with resolve_home [OF assms m(1,2)] that show ?thesis by (auto simp: eval_nat_numeral homeLoops_def)
    qed (use home in \<open>auto simp: eval_nat_numeral\<close>)
    with Navigate show ?thesis by (simp add: eval_nat_numeral)
  qed (simp add: eval_nat_numeral)
  have "(\<exists>n s. follow n a ''/'' = Some s) \<longleftrightarrow> \<not> homeLoops a"
    using home_loops [OF assms] home_settles [OF assms] by force
  moreover have "\<not> homeLoops a" if "\<forall>path. \<exists>s. follow 3 a path = Some s"
    using spec [OF that, of "''/''"] home_loops [OF assms, of 3] by auto
  ultimately show ?thesis
    using ends follow_ends_on [OF assms, of n path s] screens_guarded [of n a path "Workspace ws p"] screens_guarded [of n a path "Platform q"] by (auto simp: guardedBy_def)
qed

definition demo_auth :: "string \<Rightarrow> auth_state" where
  "demo_auth slug = \<lparr>au_status = Authenticated, au_user = Some (''u'', ''ada@x'', ''Ada''), au_isSuperAdmin = False,
     au_memberships = [((''w'', ''Acme'', slug), OWNER)], au_token = Some ''A''\<rparr>"

lemma redirects_end_witness:
  "(\<exists>s. follow 3 (demo_auth ''acme'') ''/unknown/keys'' = Some s)
   \<and> follow 2 (demo_auth ''acme'') ''/'' = Some (Workspace ''acme'' DashboardPage)
   \<and> (\<exists>m\<in>set (au_memberships (demo_auth ''acme'')). slugOf m = ''acme'')"
proof -
  have ok: "slugsOk (demo_auth ''acme'')" and fine: "\<not> homeLoops (demo_auth ''acme'')"
    by (simp_all add: slugsOk_def homeLoops_def demo_auth_def slugOf_def toLowerCase_def lowerChar_def)
  have home: "follow 2 (demo_auth ''acme'') ''/'' = Some (Workspace ''acme'' DashboardPage)"
    by (simp add: eval_nat_numeral homeRedirect_def demo_auth_def slugOf_def resolve_def matchRoute_def toLowerCase_def lowerChar_def
        requireAuth_def requireWorkspace_def pathSegments_def)
  from redirects_end [OF ok, where n = 2 and path = "''/''" and ws = "''acme''" and p = DashboardPage] fine home show ?thesis by blast
qed

section \<open>Gaps\<close>

text \<open>
  No slug is reserved. A workspace that is registered under the name Admin gets the slug of the platform console,
  and its owner's browser is redirected between the root and \<open>/admin\<close> for ever.
\<close>

definition admin_body :: register_body where
  "admin_body = \<lparr>rb_email = ''ada@x'', rb_password = ''long enough'', rb_name = ''Ada'', rb_workspaceName = Some ''Admin''\<rparr>"

definition admin_fresh :: fresh where
  "admin_fresh = \<lparr>fr_user = ''u'', fr_workspace = ''w'', fr_member = ''m'', fr_session = ''s'', fr_family = ''f'', fr_suffix = ''abcde'',
     fr_refresh = \<lparr>mt_token = ''T'', mt_hash = ''H'', mt_last4 = ''T''\<rparr>\<rparr>"

lemma workspace_named_admin_loops:
  "\<exists>db t v. register (\<lambda>e. True) (\<lambda>p. Some ''h'') 0 admin_fresh admin_body emptyDatabase = Inr (db, t)
     \<and> me [] ''u'' db = Inr v \<and> (\<forall>n. follow n (loadMe v initialAuth) ''/'' = None)"
proof -
  have slug: "uniqueSlug [] ''abcde'' ''Admin'' = ''admin''"
    by code_simp
  let ?u = "\<lparr>us_id = ''u'', us_email = ''ada@x'', us_passwordHash = Some ''h'', us_name = ''Ada'', us_status = UserActive\<rparr>"
  let ?w = "\<lparr>ws_id = ''w'', ws_name = ''Admin'', ws_slug = ''admin'', ws_deletedAt = None\<rparr> :: workspace"
  let ?m = "\<lparr>wm_id = ''m'', wm_workspaceId = ''w'', wm_userId = ''u'', wm_role = OWNER\<rparr>"
  let ?v = "\<lparr>me_user = (''u'', ''ada@x'', ''Ada''), me_isSuperAdmin = False, me_memberships = [((''w'', ''Admin'', ''admin''), OWNER)]\<rparr>"
  let ?db = "emptyDatabase\<lparr>users := [?u], workspaces := [?w], wmembers := [?m],
     sessions := [newSession 0 admin_fresh ''u'' ''f'']\<rparr>"
  have "register (\<lambda>e. True) (\<lambda>p. Some ''h'') 0 admin_fresh admin_body emptyDatabase = Inr (?db, ''T'')"
    by (simp add: register_def registerSchema_def admin_body_def findUser_def emptyDatabase_def admin_fresh_def issueSession_def slug
        toLowerCase_def lowerChar_def Let_def)
  moreover have "me [] ''u'' ?db = Inr ?v" by (simp add: me_def)
  moreover have "homeLoops (loadMe ?v initialAuth)" "slugsOk (loadMe ?v initialAuth)"
    by (simp_all add: homeLoops_def slugsOk_def loadMe_def initialAuth_def slugOf_def toLowerCase_def lowerChar_def)
  ultimately show ?thesis using home_loops by blast
qed

end
