(* ===== verification/WebReports.thy ===== *)
theory WebReports
  imports Analytics Admin Overrides
begin

text \<open>
  The reports that the web interface computes in the browser from the API's answers: the chart and the CSV export
  of \<open>features/analytics/AnalyticsPage.tsx\<close>, the tenant report of \<open>features/admin/PlatformReports.tsx\<close> and the
  search of \<open>PlatformTenants.tsx\<close>. \<open>format\<close> is the date library's rendering of a timestamp in the browser's time zone,
  \<open>collate\<close> the order of \<open>localeCompare\<close> (less than or equal).
\<close>

section \<open>Rendering\<close>

text \<open>\<open>csv(v)\<close>: quotes a text with a double quote, a comma or a line feed (\<open>/[",\n]/\<close>).\<close>

definition webSpecial :: "char \<Rightarrow> bool" where
  "webSpecial c \<longleftrightarrow> c \<in> {CHR 0x22, CHR '','', CHR 0x0A}"

definition webCsv :: "string \<Rightarrow> string" where
  "webCsv s = (if list_ex webSpecial s then CHR 0x22 # escapeQuotes s @ [CHR 0x22] else s)"

text \<open>\<open>x.toFixed(6)\<close>.\<close>

definition toFixed6 :: "jsnumber \<Rightarrow> string" where
  "toFixed6 x =
     (if x < 0 then CHR ''-'' # formatScaled \<lfloor>- x * 1000000 + 1 / 2\<rfloor> 6 else formatScaled \<lfloor>x * 1000000 + 1 / 2\<rfloor> 6)"

fun dateFormat :: "granularity \<Rightarrow> string" where
  "dateFormat GHour = ''YYYY-MM-DD HH:00''"
| "dateFormat GMonth = ''YYYY-MM''"
| "dateFormat GDay = ''YYYY-MM-DD''"
| "dateFormat GWeek = ''YYYY-MM-DD''"

definition fmtDateKey :: "(string \<Rightarrow> string \<Rightarrow> string) \<Rightarrow> granularity \<Rightarrow> string \<Rightarrow> string" where
  "fmtDateKey format g stamp = format stamp (dateFormat g)"

fun bucketFormat :: "granularity \<Rightarrow> string" where
  "bucketFormat GHour = ''MMM D HH:00''"
| "bucketFormat GMonth = ''MMM YYYY''"
| "bucketFormat GDay = ''MMM D''"
| "bucketFormat GWeek = ''MMM D''"

definition fmtBucket :: "(string \<Rightarrow> string \<Rightarrow> string) \<Rightarrow> granularity \<Rightarrow> string \<Rightarrow> string" where
  "fmtBucket format g stamp = format stamp (bucketFormat g)"

definition upperChar :: "char \<Rightarrow> char" where
  "upperChar c = (let n = of_char c :: nat in if 97 \<le> n \<and> n \<le> 122 then char_of (n - 32) else c)"

fun cap :: "string \<Rightarrow> string" where
  "cap [] = []"
| "cap (c # s) = upperChar c # s"

definition seriesName :: "series \<Rightarrow> string" where
  "seriesName s = (case sr_key s of None \<Rightarrow> ''total'' | Some (_, name) \<Rightarrow> name)"

section \<open>The datewise export (handleExport)\<close>

record export_row =
  ex_date :: string
  ex_dim :: string
  ex_requests :: jsnumber
  ex_tokens :: jsnumber
  ex_cost :: jsnumber
  ex_errors :: jsnumber

fun setMetric :: "metric \<Rightarrow> jsnumber \<Rightarrow> export_row \<Rightarrow> export_row" where
  "setMetric MRequests v r = r\<lparr>ex_requests := v\<rparr>"
| "setMetric MTokens v r = r\<lparr>ex_tokens := v\<rparr>"
| "setMetric MCost v r = r\<lparr>ex_cost := v\<rparr>"
| "setMetric MErrors v r = r\<lparr>ex_errors := v\<rparr>"

fun metricOf :: "metric \<Rightarrow> export_row \<Rightarrow> jsnumber" where
  "metricOf MRequests r = ex_requests r"
| "metricOf MTokens r = ex_tokens r"
| "metricOf MCost r = ex_cost r"
| "metricOf MErrors r = ex_errors r"

definition emptyRow :: "string \<Rightarrow> string \<Rightarrow> export_row" where
  "emptyRow date grp = \<lparr>ex_date = date, ex_dim = grp, ex_requests = 0, ex_tokens = 0, ex_cost = 0, ex_errors = 0\<rparr>"

text \<open>One point of one answer: its row is created or found under \<open>date|dim\<close>, and the metric is set.\<close>

definition exportPoint :: "metric \<Rightarrow> string \<times> string \<Rightarrow> jsnumber \<Rightarrow> (string, export_row) omap \<Rightarrow> (string, export_row) omap" where
  "exportPoint m dd v rows =
     (case dd of (date, grp) \<Rightarrow>
        let key = date @ ''|'' @ grp;
            row = (case map_of rows key of Some r \<Rightarrow> r | None \<Rightarrow> emptyRow date grp)
        in AList.update key (setMetric m v row) rows)"

text \<open>The points of an answer in the order of the two loops, with their date and dimension.\<close>

definition exportPoints :: "(string \<Rightarrow> string) \<Rightarrow> series list \<Rightarrow> ((string \<times> string) \<times> jsnumber) list" where
  "exportPoints dateKey ss = concat (map (\<lambda>s. map (\<lambda>(t, v). ((dateKey t, seriesName s), v)) (sr_points s)) ss)"

definition exportAnswer :: "(string \<Rightarrow> string) \<Rightarrow> (metric \<Rightarrow> series list) \<Rightarrow> metric \<Rightarrow> (string, export_row) omap \<Rightarrow> (string, export_row) omap" where
  "exportAnswer dateKey answer m rows = fold (\<lambda>(dd, v). exportPoint m dd v) (exportPoints dateKey (answer m)) rows"

definition exportMetrics :: "metric list" where
  "exportMetrics = [MRequests, MTokens, MCost, MErrors]"

definition exportRows :: "(string \<Rightarrow> string) \<Rightarrow> (metric \<Rightarrow> series list) \<Rightarrow> export_row list" where
  "exportRows dateKey answer = map snd (fold (exportAnswer dateKey answer) exportMetrics [])"

definition exportLe :: "(string \<Rightarrow> string \<Rightarrow> bool) \<Rightarrow> export_row \<Rightarrow> export_row \<Rightarrow> bool" where
  "exportLe collate a b \<longleftrightarrow>
     (if collate (ex_date a) (ex_date b) \<and> collate (ex_date b) (ex_date a) then collate (ex_dim a) (ex_dim b)
      else collate (ex_date a) (ex_date b))"

definition exportCells :: "export_row \<Rightarrow> string list" where
  "exportCells r = [ex_date r, webCsv (ex_dim r), showNumber (ex_requests r), showNumber (ex_tokens r), toFixed6 (ex_cost r), showNumber (ex_errors r)]"

fun dimensionName :: "dimension \<Rightarrow> string" where
  "dimensionName ByProject = ''project''"
| "dimensionName ByTeam = ''team''"
| "dimensionName ByUser = ''user''"
| "dimensionName ByProvider = ''provider''"
| "dimensionName ByModel = ''model''"

definition exportHeader :: "dimension \<Rightarrow> string list" where
  "exportHeader groupBy = [''Date'', cap (dimensionName groupBy), ''Requests'', ''Tokens'', ''CostUSD'', ''Errors'']"

definition handleExport ::
  "(string \<Rightarrow> string \<Rightarrow> string) \<Rightarrow> (string \<Rightarrow> string \<Rightarrow> bool) \<Rightarrow> granularity \<Rightarrow> dimension \<Rightarrow> (metric \<Rightarrow> series list) \<Rightarrow> string" where
  "handleExport format collate g groupBy answer =
     joinWith [CHR 0x0A]
       (joinWith '','' (exportHeader groupBy)
        # map (\<lambda>r. joinWith '','' (exportCells r)) (sortBy (exportLe collate) (exportRows (fmtDateKey format g) answer)))"

section \<open>The chart\<close>

datatype chart_value = Label string | Value jsnumber

text \<open>The rows of the chart by label: an object whose property \<open>t\<close> is the label and whose others are the series.\<close>

definition pivotPoint :: "string \<Rightarrow> string \<times> jsnumber \<Rightarrow> (string, (string, chart_value) omap) omap \<Rightarrow> (string, (string, chart_value) omap) omap" where
  "pivotPoint name p byTime =
     (case p of (label, v) \<Rightarrow>
        let row = (case map_of byTime label of Some r \<Rightarrow> r | None \<Rightarrow> [(''t'', Label label)])
        in AList.update label (AList.update name (Value v) row) byTime)"

definition chartData :: "(string \<Rightarrow> string \<Rightarrow> string) \<Rightarrow> granularity \<Rightarrow> series list \<Rightarrow> (string, chart_value) omap list" where
  "chartData format g ss =
     map snd (fold (\<lambda>s. fold (\<lambda>(t, v). pivotPoint (seriesName s) (fmtBucket format g t, v)) (sr_points s)) ss [])"

definition seriesKeys :: "series list \<Rightarrow> string list" where
  "seriesKeys ss = map seriesName ss"

section \<open>The platform's pages\<close>

text \<open>\<open>Number(text)\<close> of a cost, which the API writes as a decimal; the tenants by falling cost.\<close>

definition costNumber :: "admin_workspace \<Rightarrow> rat" where
  "costNumber w = (case decimalValue (aw_costUsd30d w) of Some q \<Rightarrow> q | None \<Rightarrow> 0)"

definition tenantsByCost :: "admin_workspace list \<Rightarrow> admin_workspace list" where
  "tenantsByCost ws = sortBy (\<lambda>a b. costNumber b \<le> costNumber a) ws"

definition tenantCells :: "admin_workspace \<Rightarrow> string list" where
  "tenantCells w = [aw_name w, aw_slug w, showNat (aw_members w), showNat (aw_projects w), showInt (aw_requests30d w), toFixed6 (costNumber w)]"

definition exportReport :: "admin_workspace list \<Rightarrow> string" where
  "exportReport ws =
     joinWith [CHR 0x0A] (map (\<lambda>cells. joinWith '','' (map webCsv cells))
       ([''Workspace'', ''Slug'', ''Members'', ''Projects'', ''Requests30d'', ''SpendUSD30d''] # map tenantCells (tenantsByCost ws)))"

definition searchTenants :: "string \<Rightarrow> admin_workspace list \<Rightarrow> admin_workspace list" where
  "searchTenants q ws =
     (let needle = toLowerCase (trim q) in
      if needle = [] then ws
      else filter (\<lambda>w. includesStr (toLowerCase (aw_name w)) needle \<or> includesStr (toLowerCase (aw_slug w)) needle) ws)"

section \<open>Reading a CSV document back\<close>

text \<open>A cell that reads back as a text wherever it stands.\<close>

definition readsAs :: "string \<Rightarrow> string \<Rightarrow> bool" where
  "readsAs c t \<longleftrightarrow> (\<forall>row rest. csvParse FieldStart [] row (c @ CHR '','' # rest) = csvParse FieldStart [] (row @ [t]) rest)
     \<and> (\<forall>row rest. csvParse FieldStart [] row (c @ CHR 0x0A # rest) = map_option ((#) (row @ [t])) (csvParse FieldStart [] [] rest))
     \<and> (\<forall>row. row \<noteq> [] \<longrightarrow> csvParse FieldStart [] row c = Some [row @ [t]])"

lemma csvParse_webPlain:
  "\<not> list_ex webSpecial s \<Longrightarrow> csvParse InPlain f row (s @ rest) = csvParse InPlain (f @ s) row rest"
  by (induction s arbitrary: f) (auto simp: webSpecial_def)

lemma readsAs_plain: "\<not> list_ex webSpecial s \<Longrightarrow> readsAs s s"
proof (cases s)
  case (Cons c cs)
  assume "\<not> list_ex webSpecial s"
  with Cons have c: "c \<noteq> CHR 0x22" "c \<noteq> CHR '',''" "c \<noteq> CHR 0x0A" "\<not> list_ex webSpecial cs" by (auto simp: webSpecial_def)
  from c csvParse_webPlain [OF c(4), where rest = "[]"] show ?thesis by (simp add: readsAs_def Cons csvParse_webPlain)
qed (simp add: readsAs_def)

lemma readsAs_webCsv: "readsAs (webCsv s) s"
proof (cases "list_ex webSpecial s")
  case True
  have "csvParse InQuoted [] row (escapeQuotes s @ [CHR 0x22]) = csvParse QuoteSeen s row []" for row
    using csvParse_quoted [of "[]" row s "[]"] by simp
  with True show ?thesis by (simp add: readsAs_def webCsv_def csvParse_quoted)
qed (simp add: webCsv_def readsAs_plain)

lemma joinWith_Cons: "ys \<noteq> [] \<Longrightarrow> joinWith sep (y # ys) = y @ sep @ joinWith sep ys"
  by (cases ys) simp_all

lemma readsAs_line:
  assumes "list_all2 readsAs cs ts" "cs \<noteq> []"
  shows "csvParse FieldStart [] row (joinWith '','' cs @ CHR 0x0A # rest) = map_option ((#) (row @ ts)) (csvParse FieldStart [] [] rest)"
    "row \<noteq> [] \<or> 2 \<le> length cs \<Longrightarrow> csvParse FieldStart [] row (joinWith '','' cs) = Some [row @ ts]"
  using assms
proof (induction cs ts arbitrary: row rule: list_all2_induct)
  case (Cons c cs t ts)
  {
    case 1
    show ?case
    proof (cases "cs = []")
      case True
      with Cons show ?thesis by (simp add: readsAs_def)
    next
      case False
      with Cons(1,3) show ?thesis by (simp add: joinWith_Cons readsAs_def)
    qed
  next
    case 2
    show ?case
    proof (cases "cs = []")
      case True
      with Cons 2 show ?thesis by (simp add: readsAs_def)
    next
      case False
      with Cons(1,4) show ?thesis by (simp add: joinWith_Cons readsAs_def)
    qed
  }
qed simp_all

lemma parseCsv_lines:
  assumes "list_all2 (\<lambda>cs ts. list_all2 readsAs cs ts \<and> 2 \<le> length cs) css tss" "css \<noteq> []"
  shows "parseCsv (joinWith [CHR 0x0A] (map (joinWith '','') css)) = Some tss"
  using assms
proof (induction css tss rule: list_all2_induct)
  case (Cons cs css ts tss)
  then have line: "list_all2 readsAs cs ts" "cs \<noteq> []" "2 \<le> length cs" by auto
  show ?case
  proof (cases "css = []")
    case True
    with Cons(2) readsAs_line(2) [OF line(1,2), of "[]"] line(3) show ?thesis by (simp add: parseCsv_def)
  next
    case False
    with Cons(3) have "csvParse FieldStart [] [] (joinWith [CHR 0x0A] (map (joinWith '','') css)) = Some tss" by (simp add: parseCsv_def)
    with False readsAs_line(1) [OF line(1,2), of "[]"] show ?thesis by (simp add: parseCsv_def joinWith_Cons)
  qed
qed simp

section \<open>The rows of the export\<close>

definition rowKey :: "export_row \<Rightarrow> string \<times> string" where
  "rowKey r = (ex_date r, ex_dim r)"

definition textKey :: "string \<times> string \<Rightarrow> string" where
  "textKey dd = fst dd @ ''|'' @ snd dd"

definition rowTexts :: "export_row \<Rightarrow> string list" where
  "rowTexts r = [ex_date r, ex_dim r, showNumber (ex_requests r), showNumber (ex_tokens r), toFixed6 (ex_cost r), showNumber (ex_errors r)]"

text \<open>All points of the four answers in the order in which they are worked off.\<close>

definition allPoints :: "(string \<Rightarrow> string) \<Rightarrow> (metric \<Rightarrow> series list) \<Rightarrow> (metric \<times> (string \<times> string) \<times> jsnumber) list" where
  "allPoints dateKey answer = concat (map (\<lambda>m. map (\<lambda>p. (m, p)) (exportPoints dateKey (answer m))) exportMetrics)"

definition pointsOf :: "metric \<Rightarrow> (metric \<times> (string \<times> string) \<times> jsnumber) list \<Rightarrow> ((string \<times> string) \<times> jsnumber) list" where
  "pointsOf m ps = map snd (filter (\<lambda>p. fst p = m) ps)"

definition rowMap :: "(metric \<times> (string \<times> string) \<times> jsnumber) list \<Rightarrow> (string, export_row) omap \<Rightarrow> (string, export_row) omap" where
  "rowMap ps rows = fold (\<lambda>(m, dd, v). exportPoint m dd v) ps rows"

lemma exportRows_eq: "exportRows dateKey answer = map snd (rowMap (allPoints dateKey answer) [])"
proof -
  have "fold (\<lambda>(m, dd, v). exportPoint m dd v) (map (\<lambda>p. (m, p)) xs) = fold (\<lambda>(dd, v). exportPoint m dd v) xs" for m xs
    by (induction xs) auto
  then show ?thesis
    by (simp add: exportRows_def rowMap_def allPoints_def exportMetrics_def exportAnswer_def fold_append)
qed

lemma pointsOf_all: "pointsOf m (allPoints dateKey answer) = exportPoints dateKey (answer m)"
proof -
  have "filter (\<lambda>p. fst p = m) (map (\<lambda>p. (m', p)) xs) = (if m = m' then map (\<lambda>p. (m', p)) xs else [])"
    for m' and xs :: "((string \<times> string) \<times> jsnumber) list" by (induction xs) auto
  then show ?thesis by (cases m) (simp_all add: pointsOf_def allPoints_def exportMetrics_def o_def)
qed

lemma textKey_inj:
  assumes "textKey a = textKey b" "CHR ''|'' \<notin> set (fst a)" "CHR ''|'' \<notin> set (fst b)"
  shows "a = b"
proof -
  from assms(1) have "splitOn CHR ''|'' (textKey a) = splitOn CHR ''|'' (textKey b)" by simp
  then have "fst a = fst b" using assms(2,3) by (simp add: textKey_def splitOn_append_sep)
  with assms(1) show ?thesis by (simp add: textKey_def prod_eq_iff)
qed

lemma metricOf_set [simp]: "metricOf m (setMetric m' v r) = (if m = m' then v else metricOf m r)"
  by (cases m; cases m') auto

lemma rowKey_set [simp]: "rowKey (setMetric m v r) = rowKey r" "rowKey (emptyRow d g) = (d, g)" "metricOf m (emptyRow d g) = 0"
  by (cases m; simp add: rowKey_def emptyRow_def)+

text \<open>Every key stands for its row; the value of a metric is that of the last point of its key, or nought.\<close>

definition rowsOk :: "(metric \<times> (string \<times> string) \<times> jsnumber) list \<Rightarrow> (string, export_row) omap \<Rightarrow> bool" where
  "rowsOk ps rows \<longleftrightarrow> distinct (map fst rows) \<and> (\<forall>(k, r)\<in>set rows. k = textKey (rowKey r))
     \<and> rowKey ` snd ` set rows = fst ` snd ` set ps
     \<and> (\<forall>m. \<forall>r\<in>snd ` set rows. metricOf m r = (case map_of (rev (pointsOf m ps)) (rowKey r) of Some v \<Rightarrow> v | None \<Rightarrow> 0))"

lemma rowsOkD:
  assumes "rowsOk ps rows"
  shows "distinct (map fst rows)" "(k, r) \<in> set rows \<Longrightarrow> k = textKey (rowKey r)" "rowKey ` snd ` set rows = fst ` snd ` set ps"
    "(k, r) \<in> set rows \<Longrightarrow> rowKey r \<in> fst ` snd ` set ps"
    "(k, r) \<in> set rows \<Longrightarrow> metricOf m r = (case map_of (rev (pointsOf m ps)) (rowKey r) of Some v \<Rightarrow> v | None \<Rightarrow> 0)"
proof -
  show keys: "rowKey ` snd ` set rows = fst ` snd ` set ps" using assms unfolding rowsOk_def by blast
  show "distinct (map fst rows)" using assms unfolding rowsOk_def by blast
  assume mem: "(k, r) \<in> set rows"
  then show "k = textKey (rowKey r)" using assms unfolding rowsOk_def by blast
  have r: "r \<in> snd ` set rows" using mem by force
  then show "rowKey r \<in> fst ` snd ` set ps" unfolding keys [symmetric] by (rule imageI)
  show "metricOf m r = (case map_of (rev (pointsOf m ps)) (rowKey r) of Some v \<Rightarrow> v | None \<Rightarrow> 0)"
    using assms r unfolding rowsOk_def by blast
qed

lemma set_update:
  assumes "distinct (map fst xs)"
  shows "set (AList.update k v xs) = {(k, v)} \<union> {p \<in> set xs. fst p \<noteq> k}"
  using assms by (induction xs) force+

lemma rowsOk_point:
  assumes "rowsOk ps rows" "CHR ''|'' \<notin> set (fst dd)" "\<And>p. p \<in> set ps \<Longrightarrow> CHR ''|'' \<notin> set (fst (fst (snd p)))"
  shows "rowsOk (ps @ [(m, dd, v)]) (exportPoint m dd v rows)"
proof -
  define r0 where "r0 = (case map_of rows (textKey dd) of Some r \<Rightarrow> r | None \<Rightarrow> emptyRow (fst dd) (snd dd))"
  have upd: "exportPoint m dd v rows = AList.update (textKey dd) (setMetric m v r0) rows"
    by (cases dd) (simp add: exportPoint_def textKey_def r0_def Let_def split: option.split)
  note ok = rowsOkD [OF assms(1)]
  have r0: "rowKey r0 = dd \<and> (\<forall>m. metricOf m r0 = (case map_of (rev (pointsOf m ps)) dd of Some v \<Rightarrow> v | None \<Rightarrow> 0))"
  proof (cases "map_of rows (textKey dd)")
    case None
    have "dd \<notin> rowKey ` snd ` set rows"
    proof
      assume "dd \<in> rowKey ` snd ` set rows"
      then obtain k r where "(k, r) \<in> set rows" "rowKey r = dd" by auto
      with ok(2) have "(textKey dd, r) \<in> set rows" by blast
      with None show False by (force simp: map_of_eq_None_iff)
    qed
    then have "dd \<notin> fst ` snd ` set ps" unfolding ok(3) .
    then have "map_of (rev (pointsOf m ps)) dd = None" for m
      by (auto simp: map_of_eq_None_iff pointsOf_def image_iff)
    with None show ?thesis by (simp add: r0_def)
  next
    case (Some r)
    then have mem: "(textKey dd, r) \<in> set rows" by (rule map_of_SomeD)
    from ok(4) [OF mem] assms(3) have "CHR ''|'' \<notin> set (fst (rowKey r))" by auto
    with ok(2) [OF mem] assms(2) have "rowKey r = dd" by (metis textKey_inj)
    with Some ok(5) [OF mem] show ?thesis by (simp add: r0_def)
  qed
  have other: "rowKey r \<noteq> dd" if "(k, r) \<in> set rows" "k \<noteq> textKey dd" for k r using ok(2) [OF that(1)] that(2) by auto
  have lookup: "map_of (rev (pointsOf m' (ps @ [(m, dd, v)]))) x = (if m' = m \<and> x = dd then Some v else map_of (rev (pointsOf m' ps)) x)" for m' x
    by (auto simp: pointsOf_def)
  have set: "set (exportPoint m dd v rows) = {(textKey dd, setMetric m v r0)} \<union> {p \<in> set rows. fst p \<noteq> textKey dd}"
    using ok(1) by (simp add: upd set_update)
  have "distinct (map fst (exportPoint m dd v rows))" using ok(1) by (simp add: upd)
  moreover have "\<forall>(k, r)\<in>set (exportPoint m dd v rows). k = textKey (rowKey r)" using ok(2) r0 by (auto simp: set)
  moreover have "rowKey ` snd ` set (exportPoint m dd v rows) = insert dd (fst ` snd ` set ps)"
  proof -
    have "rowKey (snd p) = dd" if "p \<in> set rows" "fst p = textKey dd" for p
    proof -
      from that have mem: "(textKey dd, snd p) \<in> set rows" by (metis prod.collapse)
      from ok(4) [OF mem] assms(3) have "CHR ''|'' \<notin> set (fst (rowKey (snd p)))" by auto
      with ok(2) [OF mem] assms(2) show ?thesis by (metis textKey_inj)
    qed
    then have "insert dd (rowKey ` snd ` {p \<in> set rows. fst p \<noteq> textKey dd}) = insert dd (rowKey ` snd ` set rows)"
      by (auto simp: image_iff)
    then show ?thesis using r0 by (simp add: set ok(3))
  qed
  moreover have "metricOf m' r = (case map_of (rev (pointsOf m' (ps @ [(m, dd, v)]))) (rowKey r) of Some v \<Rightarrow> v | None \<Rightarrow> 0)"
    if r: "r \<in> snd ` set (exportPoint m dd v rows)" for m' r
  proof -
    from r consider "r = setMetric m v r0" | k where "(k, r) \<in> set rows" "k \<noteq> textKey dd" by (auto simp: set)
    then show ?thesis
    proof cases
      case 1
      with r0 show ?thesis by (simp add: lookup)
    next
      case 2
      with other [OF 2] ok(5) [OF 2(1)] show ?thesis by (simp add: lookup)
    qed
  qed
  ultimately show ?thesis unfolding rowsOk_def by simp
qed

lemma rowsOk_rowMap:
  assumes "\<And>p. p \<in> set ps \<Longrightarrow> CHR ''|'' \<notin> set (fst (fst (snd p)))"
  shows "rowsOk ps (rowMap ps [])"
  using assms
proof (induction ps rule: rev_induct)
  case Nil
  show ?case by (simp add: rowsOk_def rowMap_def)
next
  case (snoc p ps)
  obtain m dd v where p: "p = (m, dd, v)" by (cases p)
  from snoc have "rowsOk ps (rowMap ps [])" by simp
  moreover have "CHR ''|'' \<notin> set (fst dd)" using snoc.prems [of p] p by simp
  ultimately show ?case using rowsOk_point [where ps = ps and dd = dd and m = m and v = v] snoc.prems p by (simp add: rowMap_def)
qed

lemma mset_insertBy: "mset (insertBy le x ys) = {#x#} + mset ys"
  by (induction ys) auto

lemma mset_sortBy [simp]: "mset (sortBy le xs) = mset xs"
  by (induction xs) (simp_all add: sortBy_def mset_insertBy)

lemma set_sortBy [simp]: "set (sortBy le xs) = set xs"
  by (rule mset_eq_setD) simp

lemma distinct_mapD: "distinct (map f xs) \<Longrightarrow> distinct xs"
  by (simp add: distinct_map)

text \<open>With distinct points, a column of the export adds up to them.\<close>

lemma column_sum:
  assumes "rowsOk ps rows" "distinct (map fst (pointsOf m ps))"
  shows "sum_list (map (metricOf m) (map snd rows)) = sum_list (map snd (pointsOf m ps))"
    "(dd, v) \<in> set (pointsOf m ps) \<Longrightarrow> \<exists>r\<in>snd ` set rows. rowKey r = dd \<and> metricOf m r = v"
proof -
  note ok = rowsOkD [OF assms(1)]
  let ?pts = "pointsOf m ps"
  let ?at = "\<lambda>dd. case map_of (rev ?pts) dd of Some v \<Rightarrow> v | None \<Rightarrow> 0"
  have at: "?at dd = v" if "(dd, v) \<in> set ?pts" for dd v
  proof -
    have "map_of (rev ?pts) dd = Some v" using that assms(2) by (simp add: map_of_is_SomeI rev_map [symmetric])
    then show ?thesis by simp
  qed
  let ?ks = "map rowKey (map snd rows)"
  have "map textKey ?ks = map fst rows" unfolding map_map using ok(2) by (intro map_cong) auto
  then have "distinct (map textKey ?ks)" using ok(1) by (simp only:)
  then have dk: "distinct ?ks" by (rule distinct_mapD)
  have "set ?ks = fst ` snd ` set ps" using ok(3) by (simp only: set_map)
  moreover have "set (map fst ?pts) \<subseteq> fst ` snd ` set ps" by (force simp: pointsOf_def)
  ultimately have sub: "set (map fst ?pts) \<subseteq> set ?ks" by simp
  have vals: "metricOf m r = ?at (rowKey r)" if "(k, r) \<in> set rows" for k r using ok(5) [OF that] .
  then have "map (metricOf m) (map snd rows) = map ?at ?ks" unfolding map_map by (intro map_cong) auto
  then have "sum_list (map (metricOf m) (map snd rows)) = sum ?at (set ?ks)" using dk by (simp only: sum_list_distinct_conv_sum_set)
  also have "\<dots> = sum ?at (set (map fst ?pts))"
  proof (rule sum.mono_neutral_right)
    show "\<forall>dd\<in>set ?ks - set (map fst ?pts). ?at dd = 0"
    proof
      fix dd assume "dd \<in> set ?ks - set (map fst ?pts)"
      then have "map_of (rev ?pts) dd = None" by (simp add: map_of_eq_None_iff rev_map [symmetric])
      then show "?at dd = 0" by simp
    qed
  qed (use sub in auto)
  also have "\<dots> = sum_list (map ?at (map fst ?pts))" using assms(2) by (simp only: sum_list_distinct_conv_sum_set)
  also have "map ?at (map fst ?pts) = map snd ?pts"
    unfolding map_map by (intro map_cong) (auto simp: at)
  finally show "sum_list (map (metricOf m) (map snd rows)) = sum_list (map snd ?pts)" .
  assume mem: "(dd, v) \<in> set ?pts"
  then have "dd \<in> set (map fst ?pts)" by force
  then have "dd \<in> set ?ks" using sub by blast
  then obtain k r where r: "(k, r) \<in> set rows" "rowKey r = dd" by auto
  with vals [OF r(1)] at [OF mem] have "metricOf m r = v" by simp
  with r show "\<exists>r\<in>snd ` set rows. rowKey r = dd \<and> metricOf m r = v" by force
qed

text \<open>Numbers need no quotes.\<close>

definition numeralChar :: "char \<Rightarrow> bool" where
  "numeralChar c \<longleftrightarrow> isDigit c \<or> c = CHR ''-'' \<or> c = CHR ''.''"

lemma numeral_not_special: "list_all numeralChar s \<Longrightarrow> \<not> list_ex webSpecial s"
  by (induction s) (auto simp: numeralChar_def webSpecial_def isDigit_def)

lemma numeral_digits: "list_all isDigit s \<Longrightarrow> list_all numeralChar s"
  by (auto simp: list_all_iff numeralChar_def)

lemma numeral_showNat [simp]: "list_all numeralChar (showNat n)"
  by (simp add: numeral_digits)

lemma numeral_showInt [simp]: "list_all numeralChar (showInt i)"
  by (simp add: showInt_def) (simp add: numeralChar_def)

lemma numeral_fracDigits: "0 \<le> q \<Longrightarrow> q < 1 \<Longrightarrow> list_all numeralChar (fracDigits k q)"
proof (induction k arbitrary: q)
  case (Suc k)
  let ?d = "\<lfloor>10 * q\<rfloor>"
  have d: "0 \<le> ?d" "?d < 10" using Suc.prems by (simp_all add: floor_less_iff)
  then have "nat ?d < 10" by linarith
  then have "isDigit (digitChar (nat ?d))" by (rule isDigit_digitChar)
  moreover have "0 \<le> 10 * q - of_int ?d" "10 * q - of_int ?d < 1" by linarith+
  ultimately show ?case using Suc.IH by (simp add: numeralChar_def Let_def)
qed simp

lemma numeral_showNumber: "list_all numeralChar (showNumber q)"
proof -
  have "0 \<le> \<bar>q\<bar> - of_int \<lfloor>\<bar>q\<bar>\<rfloor>" "\<bar>q\<bar> - of_int \<lfloor>\<bar>q\<bar>\<rfloor> < 1" by linarith+
  then show ?thesis by (simp add: showNumber_def Let_def numeral_fracDigits) (simp add: numeralChar_def)
qed

lemma numeral_formatScaled: "list_all numeralChar (formatScaled v k)"
proof -
  have "list_all numeralChar (padStart k CHR ''0'' (showNat n))" for n by (intro numeral_digits) simp
  then show ?thesis by (simp add: formatScaled_def Let_def) (simp add: numeralChar_def)
qed

lemma numeral_toFixed6: "list_all numeralChar (toFixed6 x)"
  by (simp add: toFixed6_def numeral_formatScaled) (simp add: numeralChar_def)

lemma length_exportCells: "2 \<le> length (exportCells r)"
  by (simp add: exportCells_def)

lemma readsAs_cells:
  assumes "\<not> list_ex webSpecial (ex_date r)"
  shows "list_all2 readsAs (exportCells r) (rowTexts r)"
  using assms numeral_showNumber numeral_toFixed6
  by (simp add: exportCells_def rowTexts_def readsAs_plain readsAs_webCsv numeral_not_special)

lemma cap_dimension: "\<not> list_ex webSpecial (cap (dimensionName g))"
  by (cases g; hypsubst; code_simp)

lemma readsAs_header: "list_all2 readsAs (exportHeader g) (exportHeader g)"
  using cap_dimension [of g] by (simp add: exportHeader_def readsAs_plain webSpecial_def)

text \<open>
  C37. The datewise CSV export is faithful. Whatever names the groups have, the file reads back as its header and one row for
  each date and group; every row belongs to a point of an answer, and where an answer has no two points
  with the same date and name, each of its points stands in the file and the column adds up to them.
\<close>

theorem export_reads_back:
  assumes "\<And>t. \<not> list_ex (\<lambda>c. webSpecial c \<or> c = CHR ''|'') (fmtDateKey format g t)"
  shows "\<exists>rows. parseCsv (handleExport format collate g groupBy answer) = Some (exportHeader groupBy # map rowTexts rows)
    \<and> distinct (map rowKey rows)
    \<and> set (map rowKey rows) = (\<Union>m. set (map fst (exportPoints (fmtDateKey format g) (answer m))))
    \<and> (\<forall>m. distinct (map fst (exportPoints (fmtDateKey format g) (answer m))) \<longrightarrow>
          sum_list (map (metricOf m) rows) = sum_list (map snd (exportPoints (fmtDateKey format g) (answer m)))
          \<and> (\<forall>(dd, v)\<in>set (exportPoints (fmtDateKey format g) (answer m)). \<exists>r\<in>set rows. rowKey r = dd \<and> metricOf m r = v))"
proof -
  let ?f = "fmtDateKey format g"
  let ?ps = "allPoints ?f answer" let ?rows = "exportRows ?f answer" let ?sorted = "sortBy (exportLe collate) (exportRows ?f answer)"
  have plain: "\<not> list_ex webSpecial (?f t)" "CHR ''|'' \<notin> set (?f t)" for t using assms [of t] by (auto simp: list_ex_iff)
  have dates: "\<exists>t. fst (fst (snd p)) = ?f t" if "p \<in> set ?ps" for p
    using that by (auto simp: allPoints_def exportPoints_def)
  then have ok: "rowsOk ?ps (rowMap ?ps [])" using plain(2) by (intro rowsOk_rowMap) metis
  note rows = exportRows_eq [of ?f answer]
  have "\<exists>t. ex_date r = ?f t" if "r \<in> set ?sorted" for r
  proof -
    from that have "r \<in> snd ` set (rowMap ?ps [])" by (simp add: rows)
    then have "rowKey r \<in> rowKey ` snd ` set (rowMap ?ps [])" by (rule imageI)
    then have "rowKey r \<in> fst ` snd ` set ?ps" by (simp only: rowsOkD(3) [OF ok])
    then obtain p where p: "p \<in> set ?ps" "rowKey r = fst (snd p)" by auto
    from dates [OF p(1)] p(2) show ?thesis by (metis fst_conv rowKey_def)
  qed
  then have cells: "list_all2 readsAs (exportCells r) (rowTexts r)" if "r \<in> set ?sorted" for r
    using that plain(1) readsAs_cells by metis
  have "list_all2 (\<lambda>cs ts. list_all2 readsAs cs ts \<and> 2 \<le> length cs) (map exportCells ?sorted) (map rowTexts ?sorted)"
    unfolding list.rel_map by (rule list.rel_refl_strong) (use cells length_exportCells in blast)
  moreover have "2 \<le> length (exportHeader groupBy)" by (simp add: exportHeader_def)
  ultimately have "parseCsv (handleExport format collate g groupBy answer) = Some (exportHeader groupBy # map rowTexts ?sorted)"
    using parseCsv_lines [of "exportHeader groupBy # map exportCells ?sorted"] readsAs_header
    by (simp add: handleExport_def o_def)
  moreover have "mset (map rowKey ?sorted) = mset (map rowKey ?rows)" by simp
  moreover have "distinct (map rowKey ?rows)"
  proof -
    have "map textKey (map rowKey (map snd (rowMap ?ps []))) = map fst (rowMap ?ps [])"
      unfolding map_map using ok by (intro map_cong) (auto simp: rowsOk_def)
    then have "distinct (map textKey (map rowKey (map snd (rowMap ?ps []))))" using ok by (simp only: rowsOk_def)
    then show ?thesis unfolding rows by (rule distinct_mapD)
  qed
  moreover have "set (map rowKey ?sorted) = (\<Union>m. set (map fst (exportPoints ?f (answer m))))"
  proof -
    have "set (map rowKey ?sorted) = fst ` snd ` set ?ps" using ok by (simp add: rows rowsOk_def)
    also have "\<dots> = (\<Union>m. fst ` set (pointsOf m ?ps))" by (force simp: pointsOf_def)
    finally show ?thesis by (simp add: pointsOf_all)
  qed
  moreover have "sum_list (map (metricOf m) ?sorted) = sum_list (map (metricOf m) ?rows)" for m
    by (metis mset_map mset_sortBy sum_mset_sum_list)
  moreover have "distinct (map rowKey ?sorted)"
    using calculation(2,3) mset_eq_imp_distinct_iff by blast
  moreover have "\<exists>r\<in>set ?sorted. rowKey r = dd \<and> metricOf m r = v"
    if "distinct (map fst (exportPoints ?f (answer m)))" "(dd, v) \<in> set (exportPoints ?f (answer m))" for m dd v
    using column_sum(2) [OF ok, unfolded pointsOf_all, OF that] by (simp add: rows)
  ultimately show ?thesis
    using column_sum(1) [OF ok, unfolded pointsOf_all, folded rows] by (intro exI [where x = ?sorted]) auto
qed

definition one_day :: "string \<Rightarrow> string \<Rightarrow> string" where
  "one_day stamp pattern = ''2026-01-05''"

definition ada_series :: "metric \<Rightarrow> series list" where
  "ada_series m = [\<lparr>sr_key = Some (''u1'', ''Ada, Inc''), sr_points = [(''2026-01-05T00:00:00Z'', 3)]\<rparr>]"

lemma export_reads_back_witness:
  "\<exists>rows. parseCsv (handleExport one_day (\<lambda>a b. True) GDay ByUser ada_series) = Some (exportHeader ByUser # map rowTexts rows)
     \<and> map rowKey rows = [(''2026-01-05'', ''Ada, Inc'')] \<and> sum_list (map ex_requests rows) = 3"
proof -
  have plain: "\<not> list_ex (\<lambda>c. webSpecial c \<or> c = CHR ''|'') (fmtDateKey one_day GDay t)" for t
    by (simp add: fmtDateKey_def one_day_def webSpecial_def)
  have pts: "exportPoints (fmtDateKey one_day GDay) (ada_series m) = [((''2026-01-05'', ''Ada, Inc''), 3)]" for m
    by (simp add: exportPoints_def ada_series_def fmtDateKey_def one_day_def seriesName_def)
  from export_reads_back [OF plain, where answer = ada_series and collate = "\<lambda>a b. True" and groupBy = ByUser]
  obtain rows where rows: "parseCsv (handleExport one_day (\<lambda>a b. True) GDay ByUser ada_series) = Some (exportHeader ByUser # map rowTexts rows)"
    "distinct (map rowKey rows)" "set (map rowKey rows) = {(''2026-01-05'', ''Ada, Inc'')}" "sum_list (map (metricOf MRequests) rows) = 3"
    by (simp add: pts) blast
  from rows(2,3) have "map rowKey rows = [(''2026-01-05'', ''Ada, Inc'')]"
    by (cases "map rowKey rows" rule: list.exhaust) (auto simp: subset_singleton_iff)
  moreover have "map (metricOf MRequests) rows = map ex_requests rows" by simp
  ultimately show ?thesis using rows(1,4) by metis
qed

text \<open>The tenant report reads back as well.\<close>

lemma exportReport_reads_back:
  "parseCsv (exportReport ws) =
     Some ([''Workspace'', ''Slug'', ''Members'', ''Projects'', ''Requests30d'', ''SpendUSD30d''] # map tenantCells (tenantsByCost ws))"
proof -
  let ?rows = "[''Workspace'', ''Slug'', ''Members'', ''Projects'', ''Requests30d'', ''SpendUSD30d''] # map tenantCells (tenantsByCost ws)"
  have "2 \<le> length cs" if "cs \<in> set ?rows" for cs using that by (auto simp: tenantCells_def)
  then have "list_all2 (\<lambda>cs ts. list_all2 readsAs cs ts \<and> 2 \<le> length cs) (map (map webCsv) ?rows) ?rows"
    unfolding list.rel_map(1) by (intro list.rel_refl_strong) (simp add: list.rel_map list.rel_refl readsAs_webCsv)
  from parseCsv_lines [OF this] show ?thesis by (simp add: exportReport_def o_def)
qed

section \<open>Gaps\<close>

text \<open>Two users with one name share a row of the export, and the second overwrites the first: five requests become two.\<close>

lemma same_name_is_overwritten:
  "let ada = \<lambda>u v. \<lparr>sr_key = Some (u, ''Ada''), sr_points = [(''2026-01-05T00:00:00Z'', v)]\<rparr>;
       answer = \<lambda>m. [ada ''u1'' 3, ada ''u2'' 2]
   in map ex_requests (exportRows (fmtDateKey one_day GDay) answer) = [2]
      \<and> chartData one_day GDay (answer MRequests) = [[(''t'', Label ''2026-01-05''), (''Ada'', Value 2)]]"
  by (simp add: exportRows_def exportMetrics_def exportAnswer_def exportPoints_def exportPoint_def seriesName_def fmtDateKey_def one_day_def
      emptyRow_def chartData_def pivotPoint_def fmtBucket_def)

text \<open>A group with the name \<open>t\<close> overwrites the label of its row in the chart.\<close>

lemma group_named_t_replaces_label:
  "chartData one_day GDay [\<lparr>sr_key = Some (''u1'', ''t''), sr_points = [(''2026-01-05T00:00:00Z'', 3)]\<rparr>] = [[(''t'', Value 3)]]"
  by (simp add: chartData_def pivotPoint_def seriesName_def fmtBucket_def one_day_def)

text \<open>The label of a day has no year: in a range of more than a year the same days of two years share a point.\<close>

lemma chart_merges_years:
  assumes "\<And>y. format (y @ ''-01-05T00:00:00Z'') ''MMM D'' = ''Jan 5''"
  shows "chartData format GDay [\<lparr>sr_key = None, sr_points = [(''2025-01-05T00:00:00Z'', 3), (''2026-01-05T00:00:00Z'', 2)]\<rparr>]
    = [[(''t'', Label ''Jan 5''), (''total'', Value 2)]]"
  using assms [of "''2025''"] assms [of "''2026''"]
  by (simp add: chartData_def pivotPoint_def seriesName_def fmtBucket_def)

end
