(* ===== verification/Startup.thy ===== *)
theory Startup
  imports Auth PriceSource Json
begin

text \<open>
  What happens before and around the handlers: the environment schemas and \<open>loadConfig\<close> (\<open>packages/config\<close>,
  \<open>config.ts\<close> of API and gateway, \<open>main.ts\<close> of the worker), the choice of stores in the gateway's \<open>server.ts\<close>,
  health checks, job dispatch, shutdown, and the scoped database client of \<open>packages/db\<close>. The schema library
  is modelled as documented: a default replaces a variable that is not set, all fields are checked, and a transformation
  runs when none has an issue. \<open>isUrl\<close> and \<open>toNumber\<close> are its checks of a text, \<open>message\<close> its wording.
\<close>

section \<open>Schemas (packages/config)\<close>

type_synonym environment = "string \<Rightarrow> string option"

datatype issue_kind = Missing | NotInEnum | NotUrl | ShorterThan nat | NotNumber | NotInteger | LessThan int | GreaterThan int | Custom string

type_synonym issue = "string \<times> issue_kind"

text \<open>The outcome of a field or an object: all issues, or the value.\<close>

type_synonym 'a parsed = "issue list + 'a"

definition issuesOf :: "'a parsed \<Rightarrow> issue list" where
  "issuesOf p = (case p of Inl is \<Rightarrow> is | Inr _ \<Rightarrow> [])"

definition enumField :: "(string \<times> 'e) list \<Rightarrow> 'e \<Rightarrow> string \<Rightarrow> environment \<Rightarrow> 'e parsed" where
  "enumField names dflt key env =
     (case env key of
        None \<Rightarrow> Inr dflt
      | Some s \<Rightarrow> (case map_of names s of None \<Rightarrow> Inl [(key, NotInEnum)] | Some e \<Rightarrow> Inr e))"

definition textField :: "nat \<Rightarrow> string \<Rightarrow> environment \<Rightarrow> string parsed" where
  "textField least key env =
     (case env key of
        None \<Rightarrow> Inl [(key, Missing)]
      | Some s \<Rightarrow> if length s < least then Inl [(key, ShorterThan least)] else Inr s)"

definition optionalText :: "nat \<Rightarrow> string \<Rightarrow> environment \<Rightarrow> string option parsed" where
  "optionalText least key env =
     (case env key of
        None \<Rightarrow> Inr None
      | Some s \<Rightarrow> if length s < least then Inl [(key, ShorterThan least)] else Inr (Some s))"

definition urlField :: "(string \<Rightarrow> bool) \<Rightarrow> string \<Rightarrow> string \<Rightarrow> environment \<Rightarrow> string parsed" where
  "urlField isUrl dflt key env =
     (case env key of None \<Rightarrow> Inr dflt | Some s \<Rightarrow> if isUrl s then Inr s else Inl [(key, NotUrl)])"

text \<open>\<open>z.coerce.number().int().min(lo).max(hi).default(d)\<close>; \<open>toNumber\<close> is \<open>Number(s)\<close>, \<^term>\<open>None\<close> for \<open>NaN\<close>.\<close>

definition intField :: "(string \<Rightarrow> jsnumber option) \<Rightarrow> int \<Rightarrow> int \<Rightarrow> int \<Rightarrow> string \<Rightarrow> environment \<Rightarrow> int parsed" where
  "intField toNumber lo hi dflt key env =
     (case env key of
        None \<Rightarrow> Inr dflt
      | Some s \<Rightarrow>
          (case toNumber s of
             None \<Rightarrow> Inl [(key, NotNumber)]
           | Some q \<Rightarrow>
               (let found = (if isInteger q then [] else [(key, NotInteger)]) @ (if q < of_int lo then [(key, LessThan lo)] else [])
                      @ (if of_int hi < q then [(key, GreaterThan hi)] else [])
                in if found = [] then Inr \<lfloor>q\<rfloor> else Inl found)))"

datatype node_env = Development | Test | Production
datatype log_level = Trace | Debug | Info | Warn | Error

definition nodeEnvs :: "(string \<times> node_env) list" where
  "nodeEnvs = [(''development'', Development), (''test'', Test), (''production'', Production)]"

definition logLevels :: "(string \<times> log_level) list" where
  "logLevels = [(''trace'', Trace), (''debug'', Debug), (''info'', Info), (''warn'', Warn), (''error'', Error)]"

definition failurePolicies :: "(string \<times> failure_policy) list" where
  "failurePolicies = [(''FAIL_OPEN'', FAIL_OPEN), (''FAIL_CLOSED'', FAIL_CLOSED)]"

record base_env =
  be_nodeEnv :: node_env
  be_logLevel :: log_level
  be_publicBaseUrl :: string

definition baseEnv :: "(string \<Rightarrow> bool) \<Rightarrow> environment \<Rightarrow> base_env parsed" where
  "baseEnv isUrl env =
     (case (enumField nodeEnvs Development ''NODE_ENV'' env, enumField logLevels Info ''LOG_LEVEL'' env,
            urlField isUrl ''http://localhost:8080'' ''PUBLIC_BASE_URL'' env) of
        (Inr n, Inr l, Inr u) \<Rightarrow> Inr \<lparr>be_nodeEnv = n, be_logLevel = l, be_publicBaseUrl = u\<rparr>
      | (n, l, u) \<Rightarrow> Inl (issuesOf n @ issuesOf l @ issuesOf u))"

definition databaseEnv :: "environment \<Rightarrow> string parsed" where
  "databaseEnv env = textField 1 ''DATABASE_URL'' env"

definition redisEnv :: "environment \<Rightarrow> string parsed" where
  "redisEnv env = textField 1 ''REDIS_URL'' env"

definition smtpEnv :: "environment \<Rightarrow> string option parsed" where
  "smtpEnv env = optionalText 0 ''SMTP_URL'' env"

definition gatewayEnv :: "environment \<Rightarrow> failure_policy parsed" where
  "gatewayEnv env = enumField failurePolicies FAIL_OPEN ''GATEWAY_FAILURE_POLICY'' env"

text \<open>\<open>loadConfig\<close>: the values, or an error whose text reports every issue on a line of its own.\<close>

definition loadConfig :: "(issue_kind \<Rightarrow> string) \<Rightarrow> 'c parsed \<Rightarrow> string + 'c" where
  "loadConfig message parsed =
     (case parsed of
        Inr c \<Rightarrow> Inr c
      | Inl is \<Rightarrow> Inl (''Invalid environment configuration:'' @ [CHR 0x0A]
          @ joinWith [CHR 0x0A] (map (\<lambda>(path, k). ''  '' @ (if path = [] then ''(root)'' else path) @ '': '' @ message k) is)))"

section \<open>The three programs\<close>

record api_config =
  ac_base :: base_env
  ac_databaseUrl :: string
  ac_redisUrl :: string
  ac_smtpUrl :: "string option"
  ac_port :: int
  ac_jwtSecret :: string
  ac_masterKey :: "string option"
  ac_superAdminEmails :: "string option"

text \<open>\<open>ephemeral\<close> is the random secret of the development fallback.\<close>

definition apiEnv :: "(string \<Rightarrow> bool) \<Rightarrow> (string \<Rightarrow> jsnumber option) \<Rightarrow> string \<Rightarrow> environment \<Rightarrow> api_config parsed" where
  "apiEnv isUrl toNumber ephemeral env =
     (case (baseEnv isUrl env, databaseEnv env, redisEnv env, smtpEnv env, intField toNumber 1 65535 4000 ''API_PORT'' env,
            optionalText 32 ''JWT_SECRET'' env, optionalText 32 ''TOKENLEDGER_MASTER_KEY'' env, optionalText 0 ''SUPERADMIN_EMAILS'' env) of
        (Inr b, Inr d, Inr r, Inr m, Inr p, Inr j, Inr k, Inr a) \<Rightarrow>
          (let config = (\<lambda>s. \<lparr>ac_base = b, ac_databaseUrl = d, ac_redisUrl = r, ac_smtpUrl = m, ac_port = p, ac_jwtSecret = s,
                               ac_masterKey = k, ac_superAdminEmails = a\<rparr>)
           in case j of
                Some s \<Rightarrow> (if s \<noteq> [] then Inr (config s)
                           else if be_nodeEnv b = Production then Inl [(''JWT_SECRET'', Custom ''required in production'')] else Inr (config ephemeral))
              | None \<Rightarrow> (if be_nodeEnv b = Production then Inl [(''JWT_SECRET'', Custom ''required in production'')] else Inr (config ephemeral)))
      | (b, d, r, m, p, j, k, a) \<Rightarrow>
          Inl (issuesOf b @ issuesOf d @ issuesOf r @ issuesOf m @ issuesOf p @ issuesOf j @ issuesOf k @ issuesOf a))"

record gateway_config =
  gc_base :: base_env
  gc_redisUrl :: string
  gc_failurePolicy :: failure_policy
  gc_port :: int
  gc_databaseUrl :: "string option"
  gc_masterKey :: "string option"

definition gatewayConfig :: "(string \<Rightarrow> bool) \<Rightarrow> (string \<Rightarrow> jsnumber option) \<Rightarrow> environment \<Rightarrow> gateway_config parsed" where
  "gatewayConfig isUrl toNumber env =
     (case (baseEnv isUrl env, redisEnv env, gatewayEnv env, intField toNumber 1 65535 4100 ''GATEWAY_PORT'' env,
            optionalText 0 ''DATABASE_URL'' env, optionalText 32 ''TOKENLEDGER_MASTER_KEY'' env) of
        (Inr b, Inr r, Inr f, Inr p, Inr d, Inr k) \<Rightarrow>
          Inr \<lparr>gc_base = b, gc_redisUrl = r, gc_failurePolicy = f, gc_port = p, gc_databaseUrl = d, gc_masterKey = k\<rparr>
      | (b, r, f, p, d, k) \<Rightarrow> Inl (issuesOf b @ issuesOf r @ issuesOf f @ issuesOf p @ issuesOf d @ issuesOf k))"

record worker_config =
  wk_base :: base_env
  wk_databaseUrl :: string
  wk_redisUrl :: string
  wk_batchSize :: int
  wk_blockMs :: int
  wk_exportsDir :: "string option"
  wk_retentionDays :: int

definition workerConfig :: "(string \<Rightarrow> bool) \<Rightarrow> (string \<Rightarrow> jsnumber option) \<Rightarrow> environment \<Rightarrow> worker_config parsed" where
  "workerConfig isUrl toNumber env =
     (case (baseEnv isUrl env, databaseEnv env, redisEnv env, intField toNumber 1 5000 500 ''INGEST_BATCH_SIZE'' env,
            intField toNumber 50 5000 200 ''INGEST_BLOCK_MS'' env, optionalText 0 ''EXPORTS_DIR'' env,
            intField toNumber 1 3650 90 ''EVENT_RETENTION_DAYS'' env) of
        (Inr b, Inr d, Inr r, Inr n, Inr w, Inr e, Inr t) \<Rightarrow>
          Inr \<lparr>wk_base = b, wk_databaseUrl = d, wk_redisUrl = r, wk_batchSize = n, wk_blockMs = w, wk_exportsDir = e, wk_retentionDays = t\<rparr>
      | (b, d, r, n, w, e, t) \<Rightarrow>
          Inl (issuesOf b @ issuesOf d @ issuesOf r @ issuesOf n @ issuesOf w @ issuesOf e @ issuesOf t))"

section \<open>Servers\<close>

text \<open>\<open>keyRingFromEnv\<close> of a key that is set (an empty text is not); an error here ends the program.\<close>

definition startRing :: "string option \<Rightarrow> crypto_error + key_ring option" where
  "startRing masterKey =
     (case masterKey of
        None \<Rightarrow> Inr None
      | Some k \<Rightarrow> if k = [] then Inr None
                 else (case keyRingFromEnv k of Inl e \<Rightarrow> Inl e | Inr ring \<Rightarrow> Inr (Some ring)))"

datatype store_choice = PostgresStores | MemoryStores | OverriddenStores

text \<open>The gateway's stores; \<open>overridden\<close> says that a key store was passed in. The second component is the warning.\<close>

definition gatewayStores :: "gateway_config \<Rightarrow> bool \<Rightarrow> store_choice \<times> bool" where
  "gatewayStores c overridden =
     (if gc_databaseUrl c \<noteq> None \<and> gc_databaseUrl c \<noteq> Some [] \<and> \<not> overridden then (PostgresStores, False)
      else if \<not> overridden then (MemoryStores, True) else (OverriddenStores, False))"

text \<open>\<open>pingRedis\<close>: the reply and when it comes (\<^term>\<open>Inl ()\<close> a failure), \<^term>\<open>None\<close> when none ever does.\<close>

definition pingRedis :: "nat \<Rightarrow> (nat \<times> (unit + string)) option \<Rightarrow> bool" where
  "pingRedis timeoutMs reply =
     (case reply of None \<Rightarrow> False | Some (t, r) \<Rightarrow> t < timeoutMs \<and> r = Inr ''PONG'')"

definition apiReadyz :: "bool \<Rightarrow> bool \<Rightarrow> int \<times> string \<times> bool \<times> bool" where
  "apiReadyz postgres redis =
     (let ready = postgres \<and> redis in (if ready then 200 else 503, if ready then ''ready'' else ''degraded'', postgres, redis))"

section \<open>The worker (main.ts)\<close>

datatype group_reply = GroupCreated | GroupError string | GroupOther

text \<open>Creating the consumer group: an existing group is fine, any other error ends the program.\<close>

definition ensureGroup :: "group_reply \<Rightarrow> bool" where
  "ensureGroup reply = (case reply of GroupCreated \<Rightarrow> True | GroupError m \<Rightarrow> includesStr m ''BUSYGROUP'' | GroupOther \<Rightarrow> False)"

datatype housekeeping_job = RunRetention int | RunReconcile | UnknownJob string

definition housekeepingDispatch :: "worker_config \<Rightarrow> string \<Rightarrow> housekeeping_job" where
  "housekeepingDispatch c name =
     (if name = ''retention'' then RunRetention (wk_retentionDays c)
      else if name = ''reconcile'' then RunReconcile
      else UnknownJob name)"

definition schedulers :: "(string \<times> string) list" where
  "schedulers = [(''retention'', ''15 3 * * *''), (''reconcile'', ''45 3 * * *'')]"

section \<open>Shutdown\<close>

text \<open>Closing steps in order; a signal while one is under way does nothing more.\<close>

datatype closing = StopPricing | CloseServer | StopIngest | CloseExports | CloseHousekeeping | DisconnectDatabase | DisconnectRedis
  | DisconnectSubscriber | DisconnectQueueRedis | Exit

definition apiClosing :: "closing list" where
  "apiClosing = [CloseServer, DisconnectDatabase, DisconnectRedis, Exit]"

definition gatewayClosing :: "closing list" where
  "gatewayClosing = [StopPricing, CloseServer, DisconnectRedis, DisconnectSubscriber, Exit]"

definition workerClosing :: "closing list" where
  "workerClosing = [StopIngest, CloseExports, CloseHousekeeping, DisconnectDatabase, DisconnectRedis, DisconnectQueueRedis, Exit]"

record running =
  shuttingDown :: bool
  remaining :: "closing list"
  closedParts :: "closing list"

definition startRunning :: running where
  "startRunning = \<lparr>shuttingDown = False, remaining = [], closedParts = []\<rparr>"

definition onSignal :: "closing list \<Rightarrow> running \<Rightarrow> running" where
  "onSignal steps s = (if shuttingDown s then s else s\<lparr>shuttingDown := True, remaining := steps\<rparr>)"

definition closeNext :: "running \<Rightarrow> running" where
  "closeNext s = (case remaining s of [] \<Rightarrow> s | c # cs \<Rightarrow> s\<lparr>remaining := cs, closedParts := closedParts s @ [c]\<rparr>)"

inductive shutdown_step :: "closing list \<Rightarrow> running \<Rightarrow> running \<Rightarrow> bool" for steps where
  signal: "shutdown_step steps s (onSignal steps s)"
| closes: "shutdown_step steps s (closeNext s)"

section \<open>The scoped database client (packages/db)\<close>

datatype db_operation = FindMany | FindFirst | CountRows | UpdateMany | DeleteMany | FindUnique | CreateRow | CreateMany | UpdateRow
  | UpsertRow | DeleteRow | AggregateRows | GroupByRows

definition WORKSPACE_SCOPED_MODELS :: "string list" where
  "WORKSPACE_SCOPED_MODELS =
     [''WorkspaceMember'', ''Team'', ''Project'', ''Invitation'', ''ProviderCredential'', ''ProviderPool'', ''VirtualKey'', ''ModelPriceOverride'',
      ''UsageEvent'', ''UsageRollupHourly'', ''UsageRollupDaily'', ''Budget'', ''ExportJob'', ''ScheduledReport'', ''AuditLog'', ''SsoConnection'',
      ''SlackIntegration'', ''Branding'']"

text \<open>\<open>args.where = { ...(args.where ?? {}), workspaceId }\<close>.\<close>

definition injectWorkspaceFilter :: "json \<Rightarrow> string \<Rightarrow> json" where
  "injectWorkspaceFilter args ws =
     jset args ''where'' (JObj (AList.update ''workspaceId'' (JStr ws) (spread (coalesce (jget args ''where'') (JObj [])))))"

definition scopedArgs :: "string \<Rightarrow> db_operation \<Rightarrow> string \<Rightarrow> json \<Rightarrow> json" where
  "scopedArgs ws operation model args =
     (if operation \<in> {FindMany, FindFirst, CountRows, UpdateMany, DeleteMany} \<and> model \<in> set WORKSPACE_SCOPED_MODELS
      then injectWorkspaceFilter args ws else args)"

section \<open>Lemmas\<close>

text \<open>A configuration that loads satisfies its bounds; one that does not loads with a report of at least one line.\<close>

lemma issuesOf_Inl [simp]: "issuesOf (Inl is) = is" "issuesOf (Inr v) = []"
  by (simp_all add: issuesOf_def)

lemma optionalText_Inr: "optionalText n key env = Inr v \<longleftrightarrow> v = env key \<and> (case v of None \<Rightarrow> True | Some s \<Rightarrow> n \<le> length s)"
  by (auto simp: optionalText_def split: option.splits)

lemma intField_Inr:
  assumes "intField toNumber lo hi dflt key env = Inr v" "lo \<le> dflt" "dflt \<le> hi"
  shows "lo \<le> v \<and> v \<le> hi"
proof (cases "env key")
  case (Some s)
  with assms(1) obtain q where q: "toNumber s = Some q" "isInteger q" "of_int lo \<le> q" "q \<le> of_int hi" "v = \<lfloor>q\<rfloor>"
    by (auto simp: intField_def Let_def not_less split: option.splits if_splits)
  from q(2) obtain i where "q = of_int i" by (auto simp: isInteger_iff)
  with q(3-5) show ?thesis by simp
qed (use assms in \<open>auto simp: intField_def\<close>)

lemma apiEnv_Inr:
  assumes "apiEnv isUrl toNumber ephemeral env = Inr c"
  shows "baseEnv isUrl env = Inr (ac_base c)" "intField toNumber 1 65535 4000 ''API_PORT'' env = Inr (ac_port c)"
    "optionalText 32 ''TOKENLEDGER_MASTER_KEY'' env = Inr (ac_masterKey c)"
    "\<exists>j. optionalText 32 ''JWT_SECRET'' env = Inr j \<and> ac_jwtSecret c = (case j of Some s \<Rightarrow> s | None \<Rightarrow> ephemeral)
       \<and> (j = None \<longrightarrow> be_nodeEnv (ac_base c) \<noteq> Production)"
  using assms
  by (auto simp: apiEnv_def Let_def optionalText_def split: sum.splits option.splits if_splits)

lemma production_needs_secret:
  assumes "loadConfig message (apiEnv isUrl toNumber ephemeral env) = Inr c"
  shows "1 \<le> ac_port c \<and> ac_port c \<le> 65535
    \<and> (case ac_masterKey c of None \<Rightarrow> True | Some k \<Rightarrow> 32 \<le> length k)
    \<and> (ac_jwtSecret c = ephemeral \<and> be_nodeEnv (ac_base c) \<noteq> Production \<and> env ''JWT_SECRET'' = None
       \<or> env ''JWT_SECRET'' = Some (ac_jwtSecret c) \<and> 32 \<le> length (ac_jwtSecret c))"
proof -
  from assms have c: "apiEnv isUrl toNumber ephemeral env = Inr c" by (simp add: loadConfig_def split: sum.splits)
  from apiEnv_Inr [OF c] intField_Inr [OF apiEnv_Inr(2) [OF c]] show ?thesis
    by (auto simp: optionalText_Inr split: option.splits)
qed

text \<open>However often and whenever the program is told to stop, it closes each part once and in order.\<close>

lemma shutdown_once:
  assumes "(shutdown_step steps)\<^sup>*\<^sup>* startRunning s"
  shows "closedParts s @ remaining s = (if shuttingDown s then steps else [])"
  using assms
proof (induction rule: rtranclp_induct)
  case base
  show ?case by (simp add: startRunning_def)
next
  case (step a b)
  from step(2,3) show ?case by cases (auto simp: onSignal_def closeNext_def split: list.split if_split_asm)
qed

text \<open>
  The scoped client's queries reach rows of its workspace only, whatever filter the caller gives (also one for
  another workspace), provided that a query reaches only rows that satisfy the fields of its filter.
\<close>

lemma scoped_client_isolates:
  assumes "\<And>args w r. jgetOpt (jget args ''where'') ''workspaceId'' = Some (JStr w) \<Longrightarrow> r \<in> set (query operation model args) \<Longrightarrow> workspaceOf r = w"
    and "operation \<in> {FindMany, FindFirst, CountRows, UpdateMany, DeleteMany}" "model \<in> set WORKSPACE_SCOPED_MODELS"
    and "r \<in> set (query operation model (scopedArgs ws operation model (JObj args)))"
  shows "workspaceOf r = ws"
proof -
  let ?a = "scopedArgs ws operation model (JObj args)"
  have "jgetOpt (jget ?a ''where'') ''workspaceId'' = Some (JStr ws)"
    using assms(2,3) by (simp add: scopedArgs_def injectWorkspaceFilter_def jgetOpt_def)
  from assms(1) [OF this] assms(4) show ?thesis by simp
qed

section \<open>Gaps\<close>

text \<open>Queries by a unique key, single updates and deletions, aggregates and groups pass with the caller's arguments.\<close>

lemma scoped_client_passes_others:
  "operation \<in> {FindUnique, UpdateRow, UpsertRow, DeleteRow, AggregateRows, GroupByRows} \<Longrightarrow> scopedArgs ws operation model args = args"
  by (auto simp: scopedArgs_def)

text \<open>A master key of thirty-two letters satisfies the schema and is refused when the server starts: it decodes to 24 bytes.\<close>

lemma short_master_key_is_late:
  "optionalText 32 ''TOKENLEDGER_MASTER_KEY'' (\<lambda>k. Some (replicate 32 CHR ''A'')) = Inr (Some (replicate 32 CHR ''A''))
   \<and> startRing (Some (replicate 32 CHR ''A'')) = Inl BadMasterKey"
  by (code_simp)

end
