(* ===== verification/GatewayRoutes.thy ===== *)
theory GatewayRoutes
  imports Unified
begin

text \<open>
  The gateway's routes (\<open>server.ts\<close>) around the two request handlers, and the addresses that the web interface
  tells users to configure (\<open>SetupPage.tsx\<close>, \<open>OnboardingWizard.tsx\<close>). The router of the web framework is modelled as
  documented: the path ends at a question mark or a hash, segments are percent-decoded (\<open>sv_decode\<close>, \<^term>\<open>None\<close> for a
  malformed escape), literal routes take precedence over parameters, a \<open>GET\<close> route also answers \<open>HEAD\<close>, and the body of
  \<open>GET\<close>, \<open>HEAD\<close> and \<open>TRACE\<close> is not read. The decision of the rate limit plugin is \<open>sv_overLimit\<close>, which comes
  first, and \<open>sv_refusesBody\<close> says which bodies the framework refuses under the \<open>bodyLimit\<close> it is given.
\<close>

section \<open>Requests, routes and answers\<close>

record http_request =
  ht_method :: string
  ht_url :: string
  ht_headers :: headers
  ht_body :: "(string list \<times> bool) option"
  ht_ip :: string

text \<open>The context the plugin hands to \<open>errorResponseBuilder\<close>: \<open>after\<close> and \<open>ttl\<close>.\<close>

record limit_context =
  lc_after :: string
  lc_ttl :: int

record limit_problem =
  lp_type :: string
  lp_title :: string
  lp_status :: int
  lp_detail :: string
  lp_retryAfterSeconds :: int

datatype gw_route = Healthz | Readyz | Metrics | UnifiedChat | ModelList | Native string string

text \<open>What the routes close over: the dependencies, the catalog of the price source, Redis and the configuration.\<close>

record gw_server =
  sv_deps :: gw_deps
  sv_catalog :: "price_entry list"
  sv_localeLe :: "string \<Rightarrow> string \<Rightarrow> bool"
  sv_redisUp :: bool
  sv_failurePolicy :: failure_policy
  sv_metricsText :: string
  sv_decode :: "string \<Rightarrow> string option"
  sv_overLimit :: "nat \<Rightarrow> gw_route \<Rightarrow> string \<Rightarrow> limit_context option"
  sv_refusesBody :: "nat \<Rightarrow> http_request \<Rightarrow> bool"

datatype gw_answer =
    Alive
  | Readiness int "string list"
  | MetricsText string
  | ModelCatalog "model_info list"
  | Handled gw_result
  | TooMany limit_problem
  | PayloadTooLarge
  | NoRoute
  | MalformedUrl

definition limitProblem :: "limit_context \<Rightarrow> limit_problem" where
  "limitProblem c =
     \<lparr>lp_type = ''https://tokenledger.dev/problems/rate_limited'', lp_title = ''rate_limited'', lp_status = 429,
      lp_detail = ''Too many requests; retry in '' @ lc_after c @ ''.'',
      lp_retryAfterSeconds = \<lceil>(of_int (lc_ttl c) / 1000 :: rat)\<rceil>\<rparr>"

text \<open>\<open>genReqId\<close>, and the header that \<open>onSend\<close> adds to every reply of a route.\<close>

definition genReqId :: "string \<Rightarrow> string" where
  "genReqId uuid = ''req_'' @ uuid"

definition requestIdHeader :: "string \<Rightarrow> string \<times> string" where
  "requestIdHeader reqId = (''x-tokenledger-request-id'', reqId)"

text \<open>\<open>config.rateLimit.max\<close> of a route; with \<open>global: false\<close> the other routes have none.\<close>

definition routeLimit :: "gw_route \<Rightarrow> nat option" where
  "routeLimit r = (case r of UnifiedChat \<Rightarrow> Some 600 | ModelList \<Rightarrow> Some 60 | Native _ _ \<Rightarrow> Some 600 | _ \<Rightarrow> None)"

definition literalRoutes :: "(string \<times> string \<times> gw_route) list" where
  "literalRoutes =
     [(''GET'', ''/healthz'', Healthz), (''GET'', ''/readyz'', Readyz), (''GET'', ''/metrics'', Metrics),
      (''POST'', ''/gw/v1/chat/completions'', UnifiedChat), (''GET'', ''/gw/v1/models'', ModelList)]"

text \<open>The methods of \<open>app.all\<close>, and those whose body is not read.\<close>

definition ALL_METHODS :: "string list" where
  "ALL_METHODS = [''GET'', ''HEAD'', ''TRACE'', ''DELETE'', ''OPTIONS'', ''PATCH'', ''PUT'', ''POST'']"

definition bodyless :: "string \<Rightarrow> bool" where
  "bodyless m \<longleftrightarrow> m \<in> set [''GET'', ''HEAD'', ''TRACE'']"

definition routedPath :: "string \<Rightarrow> string" where
  "routedPath u = takeWhile (\<lambda>c. c \<noteq> CHR ''?'' \<and> c \<noteq> CHR ''#'') u"

definition answersMethod :: "string \<Rightarrow> string \<Rightarrow> bool" where
  "answersMethod m registered \<longleftrightarrow> m = registered \<or> (m = ''HEAD'' \<and> registered = ''GET'')"

text \<open>\<open>/gw/:provider/*\<close>: the provider segment and what follows it.\<close>

fun nativeRoute :: "string \<Rightarrow> string list \<Rightarrow> gw_route option" where
  "nativeRoute m (lead # gw # slug # r # rest) =
     (if lead = [] \<and> gw = ''gw'' \<and> m \<in> set ALL_METHODS then Some (Native slug (joinWith ''/'' (r # rest))) else None)"
| "nativeRoute m _ = None"

definition routeOf :: "string \<Rightarrow> string list \<Rightarrow> gw_route option" where
  "routeOf m segs =
     (case find (\<lambda>(rm, p, r). answersMethod m rm \<and> splitOn CHR ''/'' p = segs) literalRoutes of
        Some (_, _, r) \<Rightarrow> Some r
      | None \<Rightarrow> nativeRoute m segs)"

definition handlerRequest :: "string \<Rightarrow> http_request \<Rightarrow> string \<Rightarrow> string \<Rightarrow> gw_request" where
  "handlerRequest reqId h slug rest =
     \<lparr>rq_slug = slug, rq_rest = rest, rq_url = ht_url h, rq_method = ht_method h, rq_headers = ht_headers h,
      rq_body = (if bodyless (ht_method h) then None else ht_body h), rq_id = reqId\<rparr>"

definition runRoute :: "gw_server \<Rightarrow> string \<Rightarrow> http_request \<Rightarrow> gw_route \<Rightarrow> gw_answer" where
  "runRoute sv reqId h r =
     (case r of
        Healthz \<Rightarrow> Alive
      | Readyz \<Rightarrow> (case readyz (sv_redisUp sv) (sv_failurePolicy sv) of (st, names) \<Rightarrow> Readiness st names)
      | Metrics \<Rightarrow> MetricsText (sv_metricsText sv)
      | UnifiedChat \<Rightarrow> Handled (handleUnified (sv_deps sv) (handlerRequest reqId h [] []))
      | ModelList \<Rightarrow> ModelCatalog (listModels (sv_localeLe sv) (sv_catalog sv))
      | Native slug rest \<Rightarrow> Handled (handleNative (sv_deps sv) (handlerRequest reqId h slug rest)))"

definition overLimit :: "gw_server \<Rightarrow> gw_route \<Rightarrow> string \<Rightarrow> limit_context option" where
  "overLimit sv r ip = (case routeLimit r of None \<Rightarrow> None | Some n \<Rightarrow> sv_overLimit sv n r ip)"

text \<open>A body that is read and refused for its size, which the framework answers with 413.\<close>

definition overBody :: "gw_server \<Rightarrow> http_request \<Rightarrow> bool" where
  "overBody sv h \<longleftrightarrow> \<not> bodyless (ht_method h) \<and> ht_body h \<noteq> None \<and> sv_refusesBody sv MAX_REQUEST_BODY h"

definition serve :: "gw_server \<Rightarrow> string \<Rightarrow> http_request \<Rightarrow> gw_answer" where
  "serve sv uuid h =
     (case those (map (sv_decode sv) (splitOn CHR ''/'' (routedPath (ht_url h)))) of
        None \<Rightarrow> MalformedUrl
      | Some segs \<Rightarrow>
          (case routeOf (ht_method h) segs of
             None \<Rightarrow> NoRoute
           | Some r \<Rightarrow>
               (case overLimit sv r (ht_ip h) of
                  Some c \<Rightarrow> TooMany (limitProblem c)
                | None \<Rightarrow> (if overBody sv h then PayloadTooLarge else runRoute sv (genReqId uuid) h r))))"

text \<open>The headers \<open>onSend\<close> adds to an answer: none on a malformed address, which the framework answers itself.\<close>

definition sentHeaders :: "string \<Rightarrow> gw_answer \<Rightarrow> (string \<times> string) list" where
  "sentHeaders uuid a = (if a = MalformedUrl then [] else [requestIdHeader (genReqId uuid)])"

definition answerCalls :: "gw_answer \<Rightarrow> upstream_call list" where
  "answerCalls a = (case a of Handled r \<Rightarrow> gr_calls r | _ \<Rightarrow> [])"

section \<open>The addresses users are told (SetupPage.tsx, OnboardingWizard.tsx)\<close>

definition guideKey :: string where
  "guideKey = ''tt_live_YOUR_KEY''"

record snippet =
  sn_lang :: string
  sn_note :: "string option"
  sn_code :: "string list"

definition dquoted :: "string \<Rightarrow> string" where
  "dquoted s = [CHR 0x22] @ s @ [CHR 0x22]"

definition continued :: "string \<Rightarrow> string" where
  "continued s = s @ [CHR '' '', CHR 0x5C]"

definition helloMessage :: "string list" where
  "helloMessage =
     [''    '' @ dquoted ''messages'' @ '': [{'' @ dquoted ''role'' @ '': '' @ dquoted ''user'' @ '', '' @ dquoted ''content'' @ '': ''
        @ dquoted ''Hello'' @ ''}]'', ''  }'' @ [CHR 0x27]]"

definition snippets :: "string \<Rightarrow> (string \<times> snippet) list" where
  "snippets origin =
     [(''Anthropic'', \<lparr>sn_lang = ''bash'', sn_note = None, sn_code =
         [''# Set two env vars '' @ [CHR 0xE2, CHR 0x80, CHR 0x94] @ '' no code changes to your app.'',
          ''export ANTHROPIC_BASE_URL='' @ origin @ ''/gw/anthropic'',
          ''export ANTHROPIC_API_KEY='' @ guideKey]\<rparr>),
      (''OpenAI'', \<lparr>sn_lang = ''bash'', sn_note = None, sn_code =
         [''export OPENAI_BASE_URL='' @ origin @ ''/gw/openai/v1'',
          ''export OPENAI_API_KEY='' @ guideKey]\<rparr>),
      (''OpenAI-compatible'', \<lparr>sn_lang = ''bash'',
         sn_note = Some (''DeepSeek, OpenRouter, Minimax and Ollama all speak the OpenAI API. ''
           @ ''Point the OpenAI SDK at their gateway route.''),
         sn_code =
         [''# DeepSeek'',
          ''export OPENAI_BASE_URL='' @ origin @ ''/gw/deepseek/v1'',
          ''# OpenRouter'',
          ''export OPENAI_BASE_URL='' @ origin @ ''/gw/openrouter/api/v1'',
          ''# Ollama'',
          ''export OPENAI_BASE_URL='' @ origin @ ''/gw/ollama/v1'',
          [],
          ''export OPENAI_API_KEY='' @ guideKey]\<rparr>),
      (''Unified'', \<lparr>sn_lang = ''bash'',
         sn_note = Some (''One endpoint for every provider '' @ [CHR 0xE2, CHR 0x80, CHR 0x94] @ '' put the provider in the model name.''),
         sn_code =
         [continued (''curl '' @ origin @ ''/gw/v1/chat/completions''),
          continued (''  -H '' @ dquoted (''Authorization: Bearer '' @ guideKey)),
          continued (''  -H '' @ dquoted ''Content-Type: application/json''),
          ''  -d '' @ [CHR 0x27] @ ''{'',
          ''    '' @ dquoted ''model'' @ '': '' @ dquoted ''anthropic/claude-sonnet-4-5'' @ '',''] @ helloMessage\<rparr>),
      (''cURL'', \<lparr>sn_lang = ''bash'', sn_note = None, sn_code =
         [continued (''curl '' @ origin @ ''/gw/anthropic/v1/messages''),
          continued (''  -H '' @ dquoted (''x-api-key: '' @ guideKey)),
          continued (''  -H '' @ dquoted ''anthropic-version: 2023-06-01''),
          continued (''  -H '' @ dquoted ''content-type: application/json''),
          ''  -d '' @ [CHR 0x27] @ ''{'',
          ''    '' @ dquoted ''model'' @ '': '' @ dquoted ''claude-sonnet-4-5'' @ '','',
          ''    '' @ dquoted ''max_tokens'' @ '': 128,''] @ helloMessage\<rparr>)]"

text \<open>The wizard's last step shows the first two, with the key it has just issued.\<close>

definition wizardSnippet :: "string \<Rightarrow> string option \<Rightarrow> string list" where
  "wizardSnippet origin issued =
     (let key = (case issued of None \<Rightarrow> ''tt_live_'' @ [CHR 0xE2, CHR 0x80, CHR 0xA6] | Some k \<Rightarrow> k) in
      [''# Anthropic SDK'',
       ''export ANTHROPIC_BASE_URL='' @ origin @ ''/gw/anthropic'',
       ''export ANTHROPIC_API_KEY='' @ key,
       [],
       ''# OpenAI SDK'',
       ''export OPENAI_BASE_URL='' @ origin @ ''/gw/openai/v1'',
       ''export OPENAI_API_KEY='' @ key])"

text \<open>The value of a line that exports a base address.\<close>

definition exportedBase :: "string \<Rightarrow> string option" where
  "exportedBase line = (case indexOf line ''_BASE_URL='' of None \<Rightarrow> None | Some i \<Rightarrow> Some (drop (i + 10) line))"

section \<open>Lemmas: routing\<close>

lemma joinWith_splitOn: "joinWith [c] (splitOn c s) = s"
proof (induction s)
  case (Cons x s)
  then show ?case
    by (cases "splitOn c s"; cases "tl (splitOn c s)") auto
qed simp

lemma splitOn_chars: "p \<in> set (splitOn c s) \<Longrightarrow> set p \<subseteq> set s"
  by (induction s arbitrary: p) (force split: if_splits list.splits)+

lemma those_same: "(\<And>x. x \<in> set xs \<Longrightarrow> f x = Some x) \<Longrightarrow> those (map f xs) = Some xs"
  by (induction xs) auto

lemma routedPath_app:
  "CHR ''?'' \<notin> set s \<Longrightarrow> CHR ''#'' \<notin> set s \<Longrightarrow> routedPath (s @ t) = s @ routedPath t"
  by (induction s) (auto simp: routedPath_def)

lemma routedPath_query: "q = [] \<or> hd q = CHR ''?'' \<Longrightarrow> routedPath q = []"
  by (cases q) (auto simp: routedPath_def)

lemma indexOf_char: "c \<notin> set s \<Longrightarrow> indexOf (s @ c # t) [c] = Some (length s)"
  by (induction s) (auto simp: startsWith_def)

lemma indexOf_char_none: "c \<notin> set s \<Longrightarrow> indexOf s [c] = None"
  by (induction s) (auto simp: startsWith_def)

lemmas literal_segments = literalRoutes_def answersMethod_def

lemma routeOf_slug:
  "slug \<noteq> ''v1'' \<Longrightarrow> m \<in> set ALL_METHODS \<Longrightarrow> routeOf m ([] # ''gw'' # slug # r # rest) = Some (Native slug (joinWith ''/'' (r # rest)))"
  by (simp add: routeOf_def literal_segments)

lemma routeOf_slug_none:
  "slug \<noteq> ''v1'' \<Longrightarrow> m \<notin> set ALL_METHODS \<Longrightarrow> routeOf m ([] # ''gw'' # slug # r # rest) = None"
  by (simp add: routeOf_def literal_segments)

lemma nativeRoute_Some:
  "nativeRoute m segs = Some r \<Longrightarrow>
   \<exists>slug rest. r = Native slug (joinWith ''/'' rest) \<and> segs = [] # ''gw'' # slug # rest \<and> rest \<noteq> [] \<and> m \<in> set ALL_METHODS"
  by (cases "(m, segs)" rule: nativeRoute.cases) (auto split: if_splits)

lemma literal_Some:
  "(rm, p, UnifiedChat) \<in> set literalRoutes \<Longrightarrow> rm = ''POST'' \<and> p = ''/gw/v1/chat/completions''"
  "(rm, p, Native slug rest) \<notin> set literalRoutes"
  by (auto simp: literalRoutes_def)

lemma chat_segments: "splitOn CHR ''/'' ''/gw/v1/chat/completions'' = [[], ''gw'', ''v1'', ''chat'', ''completions'']"
  by simp

text \<open>Only two routes reach a provider.\<close>

lemma routeOf_chat:
  assumes "routeOf m segs = Some UnifiedChat"
  shows "m = ''POST'' \<and> segs = [[], ''gw'', ''v1'', ''chat'', ''completions'']"
proof (cases "find (\<lambda>(rm, p, r). answersMethod m rm \<and> splitOn CHR ''/'' p = segs) literalRoutes")
  case None
  with assms nativeRoute_Some [of m segs UnifiedChat] show ?thesis by (simp add: routeOf_def)
next
  case (Some x)
  obtain rm p r where x: "x = (rm, p, r)" by (cases x)
  from Some have "x \<in> set literalRoutes" "answersMethod m rm" "splitOn CHR ''/'' p = segs"
    using find_SomeD [OF Some] by (simp_all add: x)
  moreover have "r = UnifiedChat" using assms Some by (simp add: routeOf_def x)
  ultimately have "(rm, p, UnifiedChat) \<in> set literalRoutes" "answersMethod m rm" "splitOn CHR ''/'' p = segs" by (simp_all add: x)
  with literal_Some(1) have "answersMethod m ''POST''" "splitOn CHR ''/'' ''/gw/v1/chat/completions'' = segs" by blast+
  then show ?thesis by (simp add: answersMethod_def)
qed

lemma routeOf_native:
  assumes "routeOf m segs = Some (Native slug rest)"
  shows "\<exists>rs. segs = [] # ''gw'' # slug # rs \<and> rs \<noteq> [] \<and> rest = joinWith ''/'' rs"
proof (cases "find (\<lambda>(rm, p, r). answersMethod m rm \<and> splitOn CHR ''/'' p = segs) literalRoutes")
  case None
  with assms nativeRoute_Some [of m segs "Native slug rest"] show ?thesis by (auto simp: routeOf_def)
next
  case (Some x)
  obtain rm p r where x: "x = (rm, p, r)" by (cases x)
  have "r = Native slug rest" using assms Some by (simp add: routeOf_def x)
  with find_SomeD [OF Some] literal_Some(2) show ?thesis unfolding x by blast
qed

lemma runRoute_calls: "answerCalls (runRoute sv i h r) \<noteq> [] \<Longrightarrow> r = UnifiedChat \<or> (\<exists>slug rest. r = Native slug rest)"
  by (cases r) (auto simp: runRoute_def answerCalls_def split: prod.splits)

lemma serve_calls:
  assumes "answerCalls (serve sv uuid h) \<noteq> []"
  obtains segs r where "those (map (sv_decode sv) (splitOn CHR ''/'' (routedPath (ht_url h)))) = Some segs"
    "routeOf (ht_method h) segs = Some r" "r = UnifiedChat \<or> (\<exists>slug rest. r = Native slug rest)"
proof -
  from assms obtain segs where segs: "those (map (sv_decode sv) (splitOn CHR ''/'' (routedPath (ht_url h)))) = Some segs"
    by (cases "those (map (sv_decode sv) (splitOn CHR ''/'' (routedPath (ht_url h))))") (auto simp: serve_def answerCalls_def)
  with assms obtain r where r: "routeOf (ht_method h) segs = Some r"
    by (cases "routeOf (ht_method h) segs") (auto simp: serve_def answerCalls_def)
  with assms segs have "answerCalls (runRoute sv (genReqId uuid) h r) \<noteq> []"
    by (cases "overLimit sv r (ht_ip h)"; cases "overBody sv h") (simp_all add: serve_def, simp_all add: answerCalls_def)
  from that [OF segs r runRoute_calls [OF this]] show thesis .
qed

lemma handlerRequest_sel [simp]:
  "rq_slug (handlerRequest i h slug rest) = slug" "rq_rest (handlerRequest i h slug rest) = rest"
  "rq_url (handlerRequest i h slug rest) = ht_url h" "rq_method (handlerRequest i h slug rest) = ht_method h"
  by (simp_all add: handlerRequest_def)

lemma native_base:
  "url (buildUpstream (getAdapter parse p) path cred) = baseOr cred (defaultBaseUrl (getAdapter parse p)) @ path"
  by (cases p) (simp_all add: openaiAdapter_def deepseekAdapter_def openrouterAdapter_def minimaxAdapter_def
      createOpenAiCompatibleAdapter_def ollamaAdapter_def anthropicAdapter_def geminiAdapter_def)

lemma slug_text:
  "toLowerCase ''ANTHROPIC'' = ''anthropic''" "toLowerCase ''OPENAI'' = ''openai''" "toLowerCase ''GEMINI'' = ''gemini''"
  "toLowerCase ''MINIMAX'' = ''minimax''" "toLowerCase ''OPENROUTER'' = ''openrouter''"
  "toLowerCase ''DEEPSEEK'' = ''deepseek''" "toLowerCase ''OLLAMA'' = ''ollama''"
  by code_simp+

lemma providerOfSlug_name: "providerOfSlug (toLowerCase (providerName p)) = Some p"
  by (cases p) (simp_all add: providerOfSlug_def PROVIDERS_def slug_text)

lemma slug_plain:
  "CHR ''/'' \<notin> set (toLowerCase (providerName p))" "CHR ''%'' \<notin> set (toLowerCase (providerName p))"
  "CHR ''?'' \<notin> set (toLowerCase (providerName p))" "CHR ''#'' \<notin> set (toLowerCase (providerName p))"
  "toLowerCase (providerName p) \<noteq> ''v1''"
  by (cases p; simp add: slug_text)+

lemma native_calls:
  assumes "call \<in> set (gr_calls (handleNative d rq))" "providerOfSlug (rq_slug rq) = Some p"
  shows "\<exists>ctx cred. credentialStage d p ctx = Some cred \<and> uc_method call = rq_method rq
    \<and> uc_url call = baseOr (resolved cred) (defaultBaseUrl (getAdapter (d_parse d) p)) @ subPath rq"
proof (cases d rq rule: handleNative_cases)
  case (admitted p' ctx body bodyModel model)
  have "p' = p" using keyStage_Inr(1) [OF admitted(1)] assms(2) by simp
  with assms(1) admitted(5) admitStage_cases [of d rq p ctx "getAdapter (d_parse d) p" body model]
  show ?thesis by (fastforce simp: upstreamCall_def native_base)
qed (use assms in auto)

text \<open>A request under \<open>/gw/<provider>/\<close> without escapes in its path: how it is dispatched and what the handler reads of its address.\<close>

lemma serve_native:
  assumes "\<And>s. CHR ''%'' \<notin> set s \<Longrightarrow> sv_decode sv s = Some s"
    and "ht_url h = ''/gw/'' @ toLowerCase (providerName p) @ ''/'' @ rest @ query"
    and "set rest \<inter> {CHR ''%'', CHR ''?'', CHR ''#''} = {}" "query = [] \<or> hd query = CHR ''?''"
  shows "serve sv uuid h =
    (if ht_method h \<notin> set ALL_METHODS then NoRoute
     else case sv_overLimit sv 600 (Native (toLowerCase (providerName p)) rest) (ht_ip h) of
       Some c \<Rightarrow> TooMany (limitProblem c)
     | None \<Rightarrow>
         (if overBody sv h then PayloadTooLarge
          else Handled (handleNative (sv_deps sv) (handlerRequest (genReqId uuid) h (toLowerCase (providerName p)) rest))))"
proof -
  let ?slug = "toLowerCase (providerName p)"
  let ?segs = "[] # ''gw'' # ?slug # splitOn CHR ''/'' rest"
  have "routedPath (ht_url h) = ''/gw/'' @ ?slug @ ''/'' @ rest"
    using routedPath_app [of "''/gw/'' @ ?slug @ ''/'' @ rest" query] routedPath_query [OF assms(4)] assms(3) slug_plain(3,4) [of p]
    by (simp add: assms(2))
  then have split: "splitOn CHR ''/'' (routedPath (ht_url h)) = ?segs"
    using slug_plain(1) [of p] by (simp add: splitOn_append_sep)
  have "CHR ''%'' \<notin> set s" if "s \<in> set ?segs" for s
    using that slug_plain(2) [of p] splitOn_chars [of s "CHR ''/''" rest] assms(3) by auto
  then have segs: "those (map (sv_decode sv) ?segs) = Some ?segs" using those_same [of ?segs "sv_decode sv"] assms(1) by blast
  obtain r rs where rest: "splitOn CHR ''/'' rest = r # rs" by (cases "splitOn CHR ''/'' rest") auto
  have "routeOf (ht_method h) ?segs = (if ht_method h \<in> set ALL_METHODS then Some (Native ?slug rest) else None)"
    using routeOf_slug [OF slug_plain(5), of "ht_method h" p r rs] routeOf_slug_none [OF slug_plain(5), of "ht_method h" p r rs]
      joinWith_splitOn [of "CHR ''/''" rest] by (simp add: rest)
  with split segs show ?thesis by (simp add: serve_def overLimit_def routeLimit_def runRoute_def split: option.split)
qed

lemma subPath_kept:
  assumes "ht_url h = pre @ rest @ query" "CHR ''?'' \<notin> set pre" "CHR ''?'' \<notin> set rest" "query = [] \<or> hd query = CHR ''?''"
  shows "subPath (handlerRequest i h slug rest) = ''/'' @ rest @ query"
proof (cases query)
  case Nil
  then show ?thesis using assms indexOf_char_none [of "CHR ''?''" "pre @ rest"] by (simp add: subPath_def)
next
  case (Cons c q)
  with assms have "indexOf (ht_url h) ''?'' = Some (length (pre @ rest))"
    using indexOf_char [of "CHR ''?''" "pre @ rest" q] by simp
  with assms(1) show ?thesis by (simp add: subPath_def)
qed

section \<open>Properties\<close>

text \<open>
  C31. A client that configures the gateway's address of a provider reaches that provider's own addresses.
  A request to \<open>/gw/<provider>/<rest><query>\<close>, with a path without escapes, is answered by the native handler for that
  provider, unless its method is none of the eight that the route takes (no route), its address has used up its requests of the
  minute (429) or the framework refuses its body for the size (413). Whatever is sent for it goes, with the same method, to
  \<open><base>/<rest><query>\<close>, where \<open><base>\<close> is the address stored with the credential used or the provider's default.
\<close>

theorem native_address_kept:
  assumes "\<And>s. CHR ''%'' \<notin> set s \<Longrightarrow> sv_decode sv s = Some s"
    and "ht_url h = ''/gw/'' @ toLowerCase (providerName p) @ ''/'' @ rest @ query"
    and "set rest \<inter> {CHR ''%'', CHR ''?'', CHR ''#''} = {}" "query = [] \<or> hd query = CHR ''?''"
  shows "serve sv uuid h =
      (if ht_method h \<notin> set ALL_METHODS then NoRoute
       else case sv_overLimit sv 600 (Native (toLowerCase (providerName p)) rest) (ht_ip h) of
         Some c \<Rightarrow> TooMany (limitProblem c)
       | None \<Rightarrow>
           (if overBody sv h then PayloadTooLarge
            else Handled (handleNative (sv_deps sv) (handlerRequest (genReqId uuid) h (toLowerCase (providerName p)) rest))))
    \<and> list_all (\<lambda>call. uc_method call = ht_method h \<and>
        (\<exists>ctx cred. credentialStage (sv_deps sv) p ctx = Some cred \<and>
           uc_url call = baseOr (resolved cred) (defaultBaseUrl (getAdapter (d_parse (sv_deps sv)) p)) @ ''/'' @ rest @ query))
      (answerCalls (serve sv uuid h))"
proof -
  let ?rq = "handlerRequest (genReqId uuid) h (toLowerCase (providerName p)) rest"
  note served = serve_native [OF assms, of uuid]
  have "subPath ?rq = ''/'' @ rest @ query"
    using subPath_kept [of h "''/gw/'' @ toLowerCase (providerName p) @ ''/''" rest query] assms(2,3,4) slug_plain(3) [of p] by simp
  moreover have "set (answerCalls (serve sv uuid h)) \<subseteq> set (gr_calls (handleNative (sv_deps sv) ?rq))"
    by (simp add: served answerCalls_def split: option.split)
  moreover have "rq_slug ?rq = toLowerCase (providerName p)" "rq_method ?rq = ht_method h" by simp_all
  ultimately have "uc_method call = ht_method h \<and> (\<exists>ctx cred. credentialStage (sv_deps sv) p ctx = Some cred \<and>
      uc_url call = baseOr (resolved cred) (defaultBaseUrl (getAdapter (d_parse (sv_deps sv)) p)) @ ''/'' @ rest @ query)"
    if "call \<in> set (answerCalls (serve sv uuid h))" for call
    using native_calls [of call "sv_deps sv" ?rq p] that providerOfSlug_name [of p] by (metis subsetD)
  then show ?thesis unfolding list_all_iff by (intro conjI [OF served] ballI)
qed

text \<open>The hypotheses at work: Anthropic's messages endpoint with a query, on a server with a credential for it.\<close>

definition demoServer :: gw_server where
  "demoServer =
     \<lparr>sv_deps = demoDeps, sv_catalog = [], sv_localeLe = (\<lambda>a b. True), sv_redisUp = True, sv_failurePolicy = FAIL_OPEN,
      sv_metricsText = [], sv_decode = (\<lambda>s. if s = ''a%3Fb'' then Some ''a?b'' else if CHR ''%'' \<in> set s then None else Some s),
      sv_overLimit = (\<lambda>n r ip. None), sv_refusesBody = (\<lambda>n h. False)\<rparr>"

definition messagesRequest :: "string \<Rightarrow> http_request" where
  "messagesRequest u =
     \<lparr>ht_method = ''POST'', ht_url = u, ht_headers = [(''authorization'', One ''Bearer tl_live_x'')],
      ht_body = None, ht_ip = ''10.0.0.1''\<rparr>"

lemma demo_sent:
  "providerOfSlug slug = Some p \<Longrightarrow>
   map uc_url (gr_calls (handleNative demoDeps (handlerRequest i (messagesRequest u) slug rest)))
     = [baseOr \<lparr>secret = Some ''sk'', baseUrl = None\<rparr> (defaultBaseUrl (getAdapter (d_parse demoDeps) p))
          @ subPath (handlerRequest i (messagesRequest u) slug rest)]"
  by (simp add: handleNative_def keyStage_def handlerRequest_def messagesRequest_def demoDeps_def authorizeKey_def extractKey_def
      startsWith_def TOKEN_PREFIX_virtualKey_def demoContext_def keyExpired_def bodyStage_def Let_def admitStage_def rateStage_def
      credentialStage_def upstreamCall_def resolved_def native_base)

lemma messagesRequest_sel [simp]:
  "ht_method (messagesRequest u) = ''POST''" "ht_url (messagesRequest u) = u" "ht_ip (messagesRequest u) = ''10.0.0.1''"
  by (simp_all add: messagesRequest_def)

lemma demoServer_sel [simp]:
  "sv_deps demoServer = demoDeps" "sv_overLimit demoServer = (\<lambda>n r ip. None)" "overBody demoServer h = False"
  "CHR ''%'' \<notin> set s \<Longrightarrow> sv_decode demoServer s = Some s" "sv_decode demoServer ''a%3Fb'' = Some ''a?b''"
  by (auto simp: demoServer_def overBody_def)

theorem native_address_kept_witness:
  "\<exists>call. answerCalls (serve demoServer ''u'' (messagesRequest ''/gw/anthropic/v1/messages?beta=true'')) = [call]
     \<and> uc_method call = ''POST'' \<and> endsWith (uc_url call) ''/v1/messages?beta=true''"
proof -
  let ?h = "messagesRequest ''/gw/anthropic/v1/messages?beta=true''"
  have kept: "serve demoServer ''u'' ?h = Handled (handleNative demoDeps (handlerRequest (genReqId ''u'') ?h ''anthropic'' ''v1/messages''))"
    "list_all (\<lambda>call. uc_method call = ''POST'' \<and> (\<exists>b. uc_url call = b @ ''/v1/messages?beta=true'')) (answerCalls (serve demoServer ''u'' ?h))"
    using native_address_kept [of demoServer ?h ANTHROPIC "''v1/messages''" "''?beta=true''" "''u''"]
    by (auto simp: slug_text ALL_METHODS_def list_all_iff)
  moreover have "length (gr_calls (handleNative demoDeps (handlerRequest (genReqId ''u'') ?h ''anthropic'' ''v1/messages''))) = 1"
    using arg_cong [OF demo_sent [of "''anthropic''" ANTHROPIC], of length] providerOfSlug_name [of ANTHROPIC] by (simp add: slug_text)
  ultimately show ?thesis by (auto simp: answerCalls_def endsWith_iff length_Suc_conv)
qed

section \<open>Further lemmas\<close>

text \<open>
  The gateway as a whole sends nothing for a client without an active key, and only from two kinds of address:
  the unified endpoint and those under the name of a provider.
\<close>

lemma only_keyed_requests_leave:
  assumes "answerCalls (serve sv uuid h) \<noteq> []"
  shows "(\<exists>ctx. authorizeKey (d_sha (sv_deps sv)) (d_resolve (sv_deps sv)) (d_now (sv_deps sv)) (ht_headers h) = Inr ctx)
    \<and> (\<exists>segs. those (map (sv_decode sv) (splitOn CHR ''/'' (routedPath (ht_url h)))) = Some segs
        \<and> (ht_method h = ''POST'' \<and> segs = [[], ''gw'', ''v1'', ''chat'', ''completions'']
           \<or> (\<exists>p rest. segs = [] # ''gw'' # toLowerCase (providerName p) # rest)))"
proof -
  from assms obtain segs r where segs: "those (map (sv_decode sv) (splitOn CHR ''/'' (routedPath (ht_url h)))) = Some segs"
    and r: "routeOf (ht_method h) segs = Some r" "r = UnifiedChat \<or> (\<exists>slug rest. r = Native slug rest)" by (rule serve_calls)
  with assms have ran: "answerCalls (runRoute sv (genReqId uuid) h r) \<noteq> []"
    by (cases "overLimit sv r (ht_ip h)"; cases "overBody sv h") (simp_all add: serve_def, simp_all add: answerCalls_def)
  from r(2) show ?thesis
  proof (elim disjE exE)
    assume u: "r = UnifiedChat"
    with ran have "gr_calls (handleUnified (sv_deps sv) (handlerRequest (genReqId uuid) h [] [])) \<noteq> []"
      by (simp add: runRoute_def answerCalls_def)
    then show ?thesis using segs routeOf_chat r(1) unfolding u
      by (cases "sv_deps sv" "handlerRequest (genReqId uuid) h [] []" rule: handleUnified_cases) (auto simp: handlerRequest_def)
  next
    fix slug rest assume n: "r = Native slug rest"
    let ?rq = "handlerRequest (genReqId uuid) h slug rest"
    from ran have "gr_calls (handleNative (sv_deps sv) ?rq) \<noteq> []" by (simp add: n runRoute_def answerCalls_def)
    then obtain p ctx where key: "keyStage (sv_deps sv) ?rq = Inr (p, ctx)"
      by (cases "sv_deps sv" ?rq rule: handleNative_cases) auto
    have "toLowerCase (providerName p) = slug" using keyStage_Inr(1) [OF key] find_SomeD by (fastforce simp: providerOfSlug_def)
    then show ?thesis using keyStage_Inr(2) [OF key] segs routeOf_native r(1) unfolding n by (fastforce simp: handlerRequest_def)
  qed
qed

text \<open>
  The addresses in the guide. What an SDK calls under the address shown for its provider is what the unified endpoint calls
  for that provider, except for OpenRouter: the adapter's own address already ends in \<open>/api\<close>.
\<close>

lemma guide_bases:
  "map (\<lambda>tab. List.map_filter exportedBase (case map_of (snippets origin) tab of None \<Rightarrow> [] | Some s \<Rightarrow> sn_code s))
     [''Anthropic'', ''OpenAI'', ''OpenAI-compatible'']
   = [[origin @ ''/gw/anthropic''], [origin @ ''/gw/openai/v1''],
      [origin @ ''/gw/deepseek/v1'', origin @ ''/gw/openrouter/api/v1'', origin @ ''/gw/ollama/v1'']]"
  by (simp add: snippets_def exportedBase_def List.map_filter_def startsWith_def guideKey_def)

lemma wizard_bases:
  "exportedBase (wizardSnippet origin issued ! 1) = Some (origin @ ''/gw/anthropic'')"
  "exportedBase (wizardSnippet origin issued ! 5) = Some (origin @ ''/gw/openai/v1'')"
  by (simp_all add: wizardSnippet_def exportedBase_def startsWith_def Let_def)

definition guideCalls :: "(provider \<times> string \<times> string) list" where
  "guideCalls =
     [(ANTHROPIC, ''/gw/anthropic'', ''/v1/messages''), (OPENAI, ''/gw/openai/v1'', ''/chat/completions''),
      (DEEPSEEK, ''/gw/deepseek/v1'', ''/chat/completions''), (OPENROUTER, ''/gw/openrouter/api/v1'', ''/chat/completions''),
      (OLLAMA, ''/gw/ollama/v1'', ''/chat/completions'')]"

lemma guide_reaches_unified_address:
  "(p, base, suffix) \<in> set guideCalls \<Longrightarrow>
   base @ suffix = ''/gw/'' @ toLowerCase (providerName p) @ upstreamPath p m False \<longleftrightarrow> p \<noteq> OPENROUTER"
  by (auto simp: guideCalls_def upstreamPath_def slug_text)

lemma openrouter_guide_doubles_api:
  "map uc_url (answerCalls (serve demoServer ''u'' (messagesRequest ''/gw/openrouter/api/v1/chat/completions'')))
   = [''https://openrouter.ai/api/api/v1/chat/completions'']
   \<and> url (buildUpstream (getAdapter (d_parse demoDeps) OPENROUTER) (upstreamPath OPENROUTER m False) \<lparr>secret = Some ''sk'', baseUrl = None\<rparr>)
     = ''https://openrouter.ai/api/v1/chat/completions''"
proof
  let ?h = "messagesRequest ''/gw/openrouter/api/v1/chat/completions''"
  let ?rq = "handlerRequest (genReqId ''u'') ?h ''openrouter'' ''api/v1/chat/completions''"
  have "serve demoServer ''u'' ?h = Handled (handleNative demoDeps ?rq)"
    using serve_native [of demoServer ?h OPENROUTER "''api/v1/chat/completions''" "[]"] by (simp add: slug_text ALL_METHODS_def)
  moreover have "subPath ?rq = ''/api/v1/chat/completions''"
    using subPath_kept [of ?h "''/gw/openrouter/''" "''api/v1/chat/completions''" "[]"] by simp
  moreover have "providerOfSlug ''openrouter'' = Some OPENROUTER" using providerOfSlug_name [of OPENROUTER] by (simp add: slug_text)
  ultimately show "map uc_url (answerCalls (serve demoServer ''u'' ?h)) = [''https://openrouter.ai/api/api/v1/chat/completions'']"
    using demo_sent [of "''openrouter''" OPENROUTER]
    by (simp add: answerCalls_def baseOr_def openrouterAdapter_def createOpenAiCompatibleAdapter_def)
  show "url (buildUpstream (getAdapter (d_parse demoDeps) OPENROUTER) (upstreamPath OPENROUTER m False) \<lparr>secret = Some ''sk'', baseUrl = None\<rparr>)
     = ''https://openrouter.ai/api/v1/chat/completions''"
    by (simp add: native_base upstreamPath_def baseOr_def openrouterAdapter_def createOpenAiCompatibleAdapter_def)
qed

text \<open>
  An escape in the path is not kept: the handler reads the decoded segments, so an escaped question mark starts a query upstream.
\<close>

lemma escaped_path_changes:
  "serve demoServer ''u'' (messagesRequest ''/gw/gemini/v1/a%3Fb'')
     = Handled (handleNative demoDeps (handlerRequest ''req_u'' (messagesRequest ''/gw/gemini/v1/a%3Fb'') ''gemini'' ''v1/a?b''))
   \<and> subPath (handlerRequest ''req_u'' (messagesRequest ''/gw/gemini/v1/a%3Fb'') ''gemini'' ''v1/a?b'') = ''/v1/a?b''"
  by (simp add: serve_def routedPath_def routeOf_def literal_segments ALL_METHODS_def overLimit_def routeLimit_def runRoute_def
      genReqId_def subPath_def startsWith_def)

text \<open>The plugin's answer: 429, and a delay in whole seconds that is not before the window ends.\<close>

lemma limitProblem_delay: "lc_ttl c \<le> 1000 * lp_retryAfterSeconds (limitProblem c) \<and> 1000 * lp_retryAfterSeconds (limitProblem c) < lc_ttl c + 1000"
  by (simp add: limitProblem_def) linarith

end
