(* ===== verification/WebQuery.thy ===== *)
theory WebQuery
  imports WebReports
begin

text \<open>
  The query strings that the web interface writes (\<open>explorerQuery\<close> and \<open>pricingApi.catalog\<close> of
  \<open>apps/web/src/api/endpoints.ts\<close>) with the language's \<open>URLSearchParams\<close>, and what the API's analytics routes make of them.
  Texts are bytes of UTF-8, which is what the encoding works on.
\<close>

section \<open>Query strings\<close>

definition alnum :: "char \<Rightarrow> bool" where
  "alnum c \<longleftrightarrow> (let n = of_char c :: nat in (48 \<le> n \<and> n \<le> 57) \<or> (65 \<le> n \<and> n \<le> 90) \<or> (97 \<le> n \<and> n \<le> 122))"

definition hexUpper :: "nat \<Rightarrow> char" where
  "hexUpper d = (if d < 10 then char_of (48 + d) else char_of (55 + d))"

text \<open>The form encoding of one byte, and of a list of fields (\<open>URLSearchParams.toString()\<close>).\<close>

definition formByte :: "char \<Rightarrow> string" where
  "formByte c =
     (if alnum c \<or> c \<in> set ''*-._'' then [c] else if c = CHR '' '' then ''+''
      else [CHR ''%'', hexUpper (of_char c div 16), hexUpper (of_char c mod 16)])"

definition formText :: "string \<Rightarrow> string" where
  "formText s = concat (map formByte s)"

definition formQuery :: "(string \<times> string) list \<Rightarrow> string" where
  "formQuery kvs = joinWith ''&'' (map (\<lambda>(k, v). formText k @ ''='' @ formText v) kvs)"

text \<open>\<open>explorerQuery(p)\<close>: entries that are null or empty are left out; numbers are texts already.\<close>

definition explorerQuery :: "(string \<times> string option) list \<Rightarrow> string" where
  "explorerQuery p =
     formQuery (fold (\<lambda>(k, v) usp. if given v then AList.update k (the v) usp else usp) p [])"

definition cursorPart :: "string option \<Rightarrow> string" where
  "cursorPart cursor = (if given cursor then ''&cursor='' @ the cursor else [])"

definition catalogQuery :: "string option \<Rightarrow> string option \<Rightarrow> string" where
  "catalogQuery p instant =
     (let usp = (if given p then [(''provider'', the p)] else []) @ (if given instant then [(''at'', the instant)] else []);
          qs = formQuery usp
      in if qs = [] then [] else ''?'' @ qs)"

text \<open>The reader of the same encoding (\<open>new URLSearchParams(text)\<close>).\<close>

definition fromHex :: "char \<Rightarrow> nat option" where
  "fromHex c =
     (let n = of_char c :: nat in
      if 48 \<le> n \<and> n \<le> 57 then Some (n - 48) else if 65 \<le> n \<and> n \<le> 70 then Some (n - 55)
      else if 97 \<le> n \<and> n \<le> 102 then Some (n - 87) else None)"

fun percentDecode :: "string \<Rightarrow> string" where
  "percentDecode [] = []"
| "percentDecode (c # s) =
     (if c = CHR ''+'' then CHR '' '' # percentDecode s
      else if c = CHR ''%'' then
        (case s of
           a # b # rest \<Rightarrow>
             (case (fromHex a, fromHex b) of
                (Some x, Some y) \<Rightarrow> char_of (16 * x + y) # percentDecode rest
              | _ \<Rightarrow> c # percentDecode s)
         | _ \<Rightarrow> c # percentDecode s)
      else c # percentDecode s)"

definition readField :: "string \<Rightarrow> string \<times> string" where
  "readField s = (percentDecode (takeWhile (\<lambda>c. c \<noteq> CHR ''='') s), percentDecode (tl (dropWhile (\<lambda>c. c \<noteq> CHR ''='') s)))"

definition readForm :: "string \<Rightarrow> (string \<times> string) list" where
  "readForm s = map readField (filter (\<lambda>p. p \<noteq> []) (splitOn CHR ''&'' s))"

lemma fromHex_upper: "d < 16 \<Longrightarrow> fromHex (hexUpper d) = Some d"
  by (auto simp: fromHex_def hexUpper_def Let_def)

lemma formByte_marks: "alnum CHR ''+'' = False" "alnum CHR ''%'' = False" "alnum CHR ''&'' = False" "alnum CHR ''='' = False"
  by (simp_all add: alnum_def)

lemma byte_nibbles: "(of_char c :: nat) div 16 < 16" "(of_char c :: nat) mod 16 < 16"
proof -
  have "(of_char c :: nat) < 16 * 16" by simp
  then show "(of_char c :: nat) div 16 < 16" by (rule less_mult_imp_div_less)
qed simp

lemma decode_byte: "percentDecode (formByte c @ s) = c # percentDecode s"
proof -
  let ?n = "of_char c :: nat"
  have "char_of (16 * (?n div 16) + ?n mod 16) = c" by simp
  moreover have "fromHex (hexUpper (?n div 16)) = Some (?n div 16)" "fromHex (hexUpper (?n mod 16)) = Some (?n mod 16)"
    by (auto intro!: fromHex_upper byte_nibbles)
  ultimately have "percentDecode (CHR ''%'' # hexUpper (?n div 16) # hexUpper (?n mod 16) # s) = c # percentDecode s" by simp
  moreover have "c \<noteq> CHR ''+'' \<and> c \<noteq> CHR ''%''" if "alnum c \<or> c \<in> set ''*-._''" using that by (auto simp: formByte_marks)
  ultimately show ?thesis by (simp add: formByte_def)
qed

lemma decode_text: "percentDecode (formText s) = s"
  by (induction s) (simp_all add: formText_def decode_byte)

lemma alnum_upper: "d < 16 \<Longrightarrow> alnum (hexUpper d)"
  by (auto simp: hexUpper_def alnum_def Let_def)

lemma formByte_chars: "x \<in> set (formByte c) \<Longrightarrow> alnum x \<or> x \<in> set ''*-._+%''"
proof -
  have "alnum (hexUpper (of_char c div 16))" "alnum (hexUpper (of_char c mod 16))" by (auto intro!: alnum_upper byte_nibbles)
  then show "x \<in> set (formByte c) \<Longrightarrow> ?thesis" by (auto simp: formByte_def split: if_splits)
qed

lemma formText_marks: "CHR ''&'' \<notin> set (formText s)" "CHR ''='' \<notin> set (formText s)"
  using formByte_chars [of "CHR ''&''"] formByte_chars [of "CHR ''=''"] by (auto simp: formText_def formByte_marks)

lemma readField_text: "readField (formText k @ ''='' @ formText v) = (k, v)"
proof -
  have "takeWhile (\<lambda>c. c \<noteq> CHR ''='') (formText k @ CHR ''='' # formText v) = formText k"
       "dropWhile (\<lambda>c. c \<noteq> CHR ''='') (formText k @ CHR ''='' # formText v) = CHR ''='' # formText v"
    using formText_marks(2) [of k] by (auto simp: takeWhile_append dropWhile_append intro: takeWhile_eq_all_conv [THEN iffD2])
  then show ?thesis by (simp add: readField_def decode_text)
qed

text \<open>Whatever the names and values are, the reader finds them again.\<close>

lemma readForm_query: "readForm (formQuery kvs) = kvs"
proof (cases kvs)
  case Nil
  then show ?thesis by (simp add: readForm_def formQuery_def)
next
  case (Cons kv rest)
  let ?f = "\<lambda>(k, v). formText k @ ''='' @ formText v"
  have "splitOn CHR ''&'' (formQuery kvs) = map ?f kvs"
    unfolding formQuery_def using Cons by (intro splitOn_joinWith) (auto simp: formText_marks)
  moreover have "filter (\<lambda>p. p \<noteq> []) (map ?f kvs) = map ?f kvs" by (auto simp: filter_id_conv)
  moreover have "map readField (map ?f kvs) = kvs" by (induction kvs) (auto simp: readField_text [simplified])
  ultimately show ?thesis by (simp add: readForm_def)
qed

section \<open>The requests of the analytics page (AnalyticsPage.tsx)\<close>

fun metricName :: "metric \<Rightarrow> string" where
  "metricName MCost = ''cost''"
| "metricName MRequests = ''requests''"
| "metricName MTokens = ''tokens''"
| "metricName MErrors = ''errors''"

fun granularityName :: "granularity \<Rightarrow> string" where
  "granularityName GHour = ''hour''"
| "granularityName GDay = ''day''"
| "granularityName GWeek = ''week''"
| "granularityName GMonth = ''month''"

text \<open>
  \<open>params\<close>: the two days of the picker, from the start of the first to the end of the last in the browser's time zone
  (\<open>startOfDay\<close>, \<open>endOfDay\<close> of the date library), and the provider when one is chosen.
\<close>

definition pageParams :: "(millis \<Rightarrow> millis) \<Rightarrow> (millis \<Rightarrow> millis) \<Rightarrow> millis \<times> millis \<Rightarrow> provider option \<Rightarrow> (string \<times> string option) list" where
  "pageParams startOfDay endOfDay days p =
     [(''from'', Some (toISOString (startOfDay (fst days)))), (''to'', Some (toISOString (endOfDay (snd days))))]
     @ (case p of None \<Rightarrow> [] | Some x \<Rightarrow> [(''provider'', Some (providerName x))])"

definition timeseriesParams :: "(string \<times> string option) list \<Rightarrow> metric \<Rightarrow> granularity \<Rightarrow> dimension \<Rightarrow> (string \<times> string option) list" where
  "timeseriesParams params m g d =
     params @ [(''metric'', Some (metricName m)), (''granularity'', Some (granularityName g)), (''groupBy'', Some (dimensionName d))]"

definition breakdownParams :: "(string \<times> string option) list \<Rightarrow> dimension \<Rightarrow> (string \<times> string option) list" where
  "breakdownParams params d = params @ [(''groupBy'', Some (dimensionName d)), (''limit'', Some ''100'')]"

text \<open>The fields of the analytics schemas, picked out of \<open>request.query\<close>.\<close>

definition explorerFields :: "(string \<times> string) list \<Rightarrow> explorer_query" where
  "explorerFields q = (let f = map_of q in
     \<lparr>xq_from = f ''from'', xq_to = f ''to'', xq_projectId = f ''projectId'', xq_teamId = f ''teamId'', xq_userId = f ''userId'',
      xq_provider = f ''provider'', xq_model = f ''model'', xq_metric = f ''metric'', xq_granularity = f ''granularity'',
      xq_groupBy = f ''groupBy'', xq_limit = f ''limit''\<rparr>)"

section \<open>What the page asks for is what is computed\<close>

definition texts :: "(string \<times> string option) list \<Rightarrow> (string \<times> string) list" where
  "texts p = map (\<lambda>(k, v). (k, the v)) (filter (given \<circ> snd) p)"

lemma update_fresh: "k \<notin> fst ` set m \<Longrightarrow> AList.update k v m = m @ [(k, v)]"
  by (induction m) auto

text \<open>Distinct names are written in their order.\<close>

lemma explorerQuery_distinct:
  assumes "distinct (map fst p)"
  shows "explorerQuery p = formQuery (texts p)"
proof -
  have "fst ` set m \<inter> fst ` set p = {} \<Longrightarrow>
      fold (\<lambda>(k, v) usp. if given v then AList.update k (the v) usp else usp) p m = m @ texts p" for m
    using assms
    by (induction p arbitrary: m) (auto simp: texts_def update_fresh)
  from this [of "[]"] show ?thesis by (simp add: explorerQuery_def)
qed

lemma iso_nonempty: "toISOString t \<noteq> []"
  by (simp add: toISOString_def Let_def split: prod.split)

lemma names_nonempty: "metricName m \<noteq> []" "granularityName g \<noteq> []" "dimensionName d \<noteq> []" "providerName p \<noteq> []"
  by (cases m; simp) (cases g; cases d; cases p; simp)+

lemmas page_texts = given_def iso_nonempty names_nonempty

lemma pageParams_texts:
  "texts (pageParams f g days p) =
     [(''from'', toISOString (f (fst days))), (''to'', toISOString (g (snd days)))] @ (case p of None \<Rightarrow> [] | Some x \<Rightarrow> [(''provider'', providerName x)])"
  by (simp add: texts_def pageParams_def page_texts split: option.splits)

lemma timeseries_query:
  "explorerQuery (timeseriesParams (pageParams f e days p) m g d) =
   formQuery (texts (pageParams f e days p) @ [(''metric'', metricName m), (''granularity'', granularityName g), (''groupBy'', dimensionName d)])"
  by (subst explorerQuery_distinct)
    (auto simp: timeseriesParams_def pageParams_def texts_def page_texts split: option.splits)

lemma breakdown_query:
  "explorerQuery (breakdownParams (pageParams f e days p) d) =
   formQuery (texts (pageParams f e days p) @ [(''groupBy'', dimensionName d), (''limit'', ''100'')])"
  by (subst explorerQuery_distinct)
    (auto simp: breakdownParams_def pageParams_def texts_def page_texts split: option.splits)

lemma names_read: "map_of METRICS (metricName m) = Some m" "map_of GRANULARITIES (granularityName g) = Some g"
    "map_of DIMENSIONS (dimensionName d) = Some d" "map_of (map (map_prod id Some) DIMENSIONS) (dimensionName d) = Some (Some d)"
  by (cases m; simp add: METRICS_def) (cases g; cases d; simp add: GRANULARITIES_def DIMENSIONS_def)+


text \<open>How the provider chosen on the page comes out as a filter.\<close>

definition pageFilters :: "provider option \<Rightarrow> explorer_filters" where
  "pageFilters p = \<lparr>xf_projectId = None, xf_teamId = None, xf_userId = None, xf_provider = p, xf_model = None\<rparr>"

lemma page_filterFields:
  assumes "toDate (toISOString (f (fst days))) = Some a" "toDate (toISOString (g (snd days))) = Some b"
    "fst ` set rest \<inter> {''from'', ''to'', ''projectId'', ''teamId'', ''userId'', ''provider'', ''model''} = {}"
  shows "filterFields toDate zUuid (explorerFields (texts (pageParams f g days p) @ rest)) = Some (a, b, pageFilters p)"
proof -
  have none: "map_of rest k = None" if "k \<in> {''from'', ''to'', ''projectId'', ''teamId'', ''userId'', ''provider'', ''model''}" for k
  proof -
    have "k \<notin> fst ` set rest" using assms(3) that by blast
    then show ?thesis by (simp add: map_of_eq_None_iff)
  qed
  show ?thesis using assms(1,2)
    by (simp add: filterFields_def explorerFields_def Let_def pageParams_texts pageFilters_def none split: option.splits)
qed

text \<open>
  The analytics page is answered for what is chosen on it. When the API's framework reads form encoding back, and
  \<open>Date\<close> reads the ISO texts of the two instants back, the time series and the breakdown requests of the page are never
  refused as invalid: every viewer gets the metric, granularity, grouping, range and provider that the page shows.
\<close>

lemma page_request_understood:
  assumes "\<And>kvs. distinct (map fst kvs) \<Longrightarrow> readQuery (formQuery kvs) = kvs"
    and "toDate (toISOString (f (fst days))) = Some a" "toDate (toISOString (g (snd days))) = Some b" "toNum ''100'' = Some 100"
    and "P = pageParams f g days p"
  shows "getTimeseries rnd toDate zUuid user ws (explorerFields (readQuery (explorerQuery (timeseriesParams P m gr d)))) l base
      = guarded VIEWER user ws base (\<lambda>u ctx. (base, Inr (queryTimeseries rnd base l m gr (Some d) (explorerParams ctx u (a, b, pageFilters p)))))
    \<and> getBreakdown rnd toNum toDate zUuid user ws (explorerFields (readQuery (explorerQuery (breakdownParams P d)))) l base
      = guarded VIEWER user ws base (\<lambda>u ctx. (base, Inr (queryBreakdown rnd base l d 100 (explorerParams ctx u (a, b, pageFilters p)))))"
proof -
  let ?t = "texts P @ [(''metric'', metricName m), (''granularity'', granularityName gr), (''groupBy'', dimensionName d)]"
  let ?b = "texts P @ [(''groupBy'', dimensionName d), (''limit'', ''100'')]"
  have keys: "fst ` set (texts P) \<subseteq> {''from'', ''to'', ''provider''}" "distinct (map fst ?t)" "distinct (map fst ?b)"
    using assms(5) by (auto simp: pageParams_texts split: option.splits)
  have "readQuery (explorerQuery (timeseriesParams P m gr d)) = ?t" "readQuery (explorerQuery (breakdownParams P d)) = ?b"
    using assms(1) keys(2,3) assms(5) by (simp_all only: timeseries_query breakdown_query)
  moreover have "filterFields toDate zUuid (explorerFields ?t) = Some (a, b, pageFilters p)"
      "filterFields toDate zUuid (explorerFields ?b) = Some (a, b, pageFilters p)"
    unfolding assms(5) by (rule page_filterFields [where f = f and g = g and days = days]; simp add: assms(2,3))+
  moreover have "xq_metric (explorerFields ?t) = Some (metricName m)" "xq_granularity (explorerFields ?t) = Some (granularityName gr)"
      "xq_groupBy (explorerFields ?t) = Some (dimensionName d)" "xq_groupBy (explorerFields ?b) = Some (dimensionName d)"
      "xq_limit (explorerFields ?b) = Some ''100''"
    using assms(5) by (simp_all add: explorerFields_def Let_def pageParams_texts split: option.splits)
  ultimately show ?thesis
    using assms(4) by (simp add: getTimeseries_def getBreakdown_def enumParam_def names_read countParam_def isInteger_def)
qed

lemma page_request_understood_witness:
  "let P = pageParams id id (86400000, 172799999) (Some OPENAI) in
   getTimeseries id (map_of [(toISOString 86400000, 86400000), (toISOString 172799999, 172799999)]) (\<lambda>_. True) (Some demo_user) ''acme''
     (explorerFields (readForm (explorerQuery (timeseriesParams P MCost GDay ByModel)))) l member_db
   = (member_db, Inr (queryTimeseries id member_db l MCost GDay (Some ByModel)
       (explorerParams w1_context demo_user (86400000, 172799999, pageFilters (Some OPENAI)))))"
proof -
  let ?d = "map_of [(toISOString 86400000, 86400000), (toISOString 172799999, 172799999)]"
  have guard: "workspaceGuard (workspaces member_db) (wmembers member_db) VIEWER (Some demo_user) ''acme'' = Inr w1_context"
    by (simp add: member_db_def demo_defs guard_defs w1_context_def)
  have "toISOString 86400000 \<noteq> toISOString 172799999" using toISOString_inj [of 86400000 172799999] by auto
  then have "?d (toISOString (id (fst (86400000, 172799999 :: millis)))) = Some 86400000"
      "?d (toISOString (id (snd (86400000 :: millis, 172799999)))) = Some 172799999"
    by simp_all
  from page_request_understood [where readQuery = readForm and toDate = ?d and f = id and g = id and days = "(86400000, 172799999)"
      and toNum = "\<lambda>_. Some 100" and p = "Some OPENAI" and m = MCost and gr = GDay and d = ByModel and rnd = id
      and zUuid = "\<lambda>_. True" and user = "Some demo_user" and ws = "''acme''" and l = l and base = member_db, OF readForm_query this refl refl]
  show ?thesis by (simp add: Let_def guarded_def guard)
qed

text \<open>
  The picker's days are those of the browser, the daily rollups those of UTC. Five hours west of UTC, a single chosen day
  shows the daily counters of the next one, and never those of the day chosen.
\<close>

definition localDay :: "millis \<Rightarrow> millis \<Rightarrow> int" where
  "localDay offset t = (t + offset) div DAY_MS"

definition localStart :: "millis \<Rightarrow> millis \<Rightarrow> millis" where
  "localStart offset t = localDay offset t * DAY_MS - offset"

lemma west_of_utc_shows_next_day:
  assumes "buildWhere w (localStart (-18000000) t) (localStart (-18000000) t + DAY_MS - 1) fs scope ((b, k), r)"
    and "b = d * DAY_MS"
  shows "d = localDay (-18000000) t + 1"
proof -
  from assms have "localDay (-18000000) t * DAY_MS + 18000000 \<le> d * DAY_MS" "d * DAY_MS < localDay (-18000000) t * DAY_MS + 18000000 + DAY_MS"
    by (auto simp: buildWhere_def localStart_def split: prod.splits)
  then show ?thesis by (simp add: DAY_MS_def)
qed

end
