(* ===== verification/WebApi.thy ===== *)
theory WebApi
  imports WebClient WebQuery
begin

text \<open>
  The calls of the web interface (\<open>apps/web/src/api/endpoints.ts\<close>) against the routes that the API registers
  (\<open>server.ts\<close> and \<open>modules/\<close>). An \<^term>\<open>endpoint\<close> is what a function of
  \<open>endpoints.ts\<close> passes to \<open>api\<close> or, for the export file, to \<open>downloadAuthed\<close>.
\<close>

section \<open>The callers (endpoints.ts)\<close>

text \<open>
  One constructor per function of \<open>authApi\<close>, \<open>adminApi\<close>, \<open>wsApi\<close>, \<open>membersApi\<close>, \<open>inviteApi\<close> and \<open>pricingApi\<close>; the
  download address comes with the file name its page chooses.
\<close>

datatype auth_call =
    Auth_register json
  | Auth_login json
  | Auth_logout
  | Auth_me

datatype admin_call =
    Admin_stats
  | Admin_workspaces
  | Admin_timeseries

datatype ws_call =
    Ws_list
  | Ws_projects string
  | Ws_timeseries string "(string \<times> string option) list"
  | Ws_breakdown string "(string \<times> string option) list"
  | Ws_createProject string json
  | Ws_projectsByStatus string string
  | Ws_updateProject string string json
  | Ws_deleteProject string string
  | Ws_teams string
  | Ws_team string string
  | Ws_createTeam string json
  | Ws_deleteTeam string string
  | Ws_addTeamMember string string json
  | Ws_updateTeamMember string string string string
  | Ws_removeTeamMember string string string
  | Ws_credentials string
  | Ws_createCredential string json
  | Ws_testCredential string string
  | Ws_updateCredential string string json
  | Ws_deleteCredential string string
  | Ws_keys string
  | Ws_issueKey string json
  | Ws_updateKey string string json
  | Ws_revokeKey string string
  | Ws_summary string int
  | Ws_events string "string option"
  | Ws_createExport string json
  | Ws_exports string
  | Ws_exportDownload string string string

datatype members_call =
    Members_list string
  | Members_invitations string
  | Members_invite string json
  | Members_inviteLink string string
  | Members_revokeInvite string string
  | Members_updateMember string string json
  | Members_removeMember string string

datatype invite_call =
    Invite_inspect string
  | Invite_accept string json

datatype pricing_call =
    Pricing_catalog "string option" "string option"
  | Pricing_overrides string
  | Pricing_createOverride string json
  | Pricing_updateOverride string string json
  | Pricing_deleteOverride string string
  | Pricing_unpriced string

datatype api_call = AuthApi auth_call | AdminApi admin_call | WsApi ws_call | MembersApi members_call | InviteApi invite_call | PricingApi pricing_call

fun authEndpoint :: "auth_call \<Rightarrow> call_kind \<times> string" where
  "authEndpoint (Auth_register body) = (ApiCall (Some ''POST'') (Some body), ''/auth/register'')"
| "authEndpoint (Auth_login body) = (ApiCall (Some ''POST'') (Some body), ''/auth/login'')"
| "authEndpoint Auth_logout = (ApiCall (Some ''POST'') None, ''/auth/logout'')"
| "authEndpoint Auth_me = (ApiCall None None, ''/auth/me'')"

fun adminEndpoint :: "admin_call \<Rightarrow> call_kind \<times> string" where
  "adminEndpoint Admin_stats = (ApiCall None None, ''/admin/stats'')"
| "adminEndpoint Admin_workspaces = (ApiCall None None, ''/admin/workspaces'')"
| "adminEndpoint Admin_timeseries = (ApiCall None None, ''/admin/timeseries'')"

fun wsEndpoint :: "ws_call \<Rightarrow> call_kind \<times> string" where
  "wsEndpoint Ws_list = (ApiCall None None, ''/workspaces'')"
| "wsEndpoint (Ws_projects ws) = (ApiCall None None, ''/workspaces/'' @ ws @ ''/projects'')"
| "wsEndpoint (Ws_timeseries ws ps) = (ApiCall None None, ''/workspaces/'' @ ws @ ''/analytics/timeseries?'' @ explorerQuery ps)"
| "wsEndpoint (Ws_breakdown ws ps) = (ApiCall None None, ''/workspaces/'' @ ws @ ''/analytics/breakdown?'' @ explorerQuery ps)"
| "wsEndpoint (Ws_createProject ws body) = (ApiCall (Some ''POST'') (Some body), ''/workspaces/'' @ ws @ ''/projects'')"
| "wsEndpoint (Ws_projectsByStatus ws st) = (ApiCall None None, ''/workspaces/'' @ ws @ ''/projects?status='' @ st)"
| "wsEndpoint (Ws_updateProject ws i body) = (ApiCall (Some ''PATCH'') (Some body), ''/workspaces/'' @ ws @ ''/projects/'' @ i)"
| "wsEndpoint (Ws_deleteProject ws i) = (ApiCall (Some ''DELETE'') None, ''/workspaces/'' @ ws @ ''/projects/'' @ i)"
| "wsEndpoint (Ws_teams ws) = (ApiCall None None, ''/workspaces/'' @ ws @ ''/teams'')"
| "wsEndpoint (Ws_team ws i) = (ApiCall None None, ''/workspaces/'' @ ws @ ''/teams/'' @ i)"
| "wsEndpoint (Ws_createTeam ws body) = (ApiCall (Some ''POST'') (Some body), ''/workspaces/'' @ ws @ ''/teams'')"
| "wsEndpoint (Ws_deleteTeam ws i) = (ApiCall (Some ''DELETE'') None, ''/workspaces/'' @ ws @ ''/teams/'' @ i)"
| "wsEndpoint (Ws_addTeamMember ws t body) = (ApiCall (Some ''POST'') (Some body), ''/workspaces/'' @ ws @ ''/teams/'' @ t @ ''/members'')"
| "wsEndpoint (Ws_updateTeamMember ws t u role) = (ApiCall (Some ''PATCH'') (Some (JObj [(''role'', JStr role)])), ''/workspaces/'' @ ws @ ''/teams/'' @ t @ ''/members/'' @ u)"
| "wsEndpoint (Ws_removeTeamMember ws t u) = (ApiCall (Some ''DELETE'') None, ''/workspaces/'' @ ws @ ''/teams/'' @ t @ ''/members/'' @ u)"
| "wsEndpoint (Ws_credentials ws) = (ApiCall None None, ''/workspaces/'' @ ws @ ''/credentials'')"
| "wsEndpoint (Ws_createCredential ws body) = (ApiCall (Some ''POST'') (Some body), ''/workspaces/'' @ ws @ ''/credentials'')"
| "wsEndpoint (Ws_testCredential ws i) = (ApiCall (Some ''POST'') None, ''/workspaces/'' @ ws @ ''/credentials/'' @ i @ ''/test'')"
| "wsEndpoint (Ws_updateCredential ws i body) = (ApiCall (Some ''PATCH'') (Some body), ''/workspaces/'' @ ws @ ''/credentials/'' @ i)"
| "wsEndpoint (Ws_deleteCredential ws i) = (ApiCall (Some ''DELETE'') None, ''/workspaces/'' @ ws @ ''/credentials/'' @ i)"
| "wsEndpoint (Ws_keys ws) = (ApiCall None None, ''/workspaces/'' @ ws @ ''/keys'')"
| "wsEndpoint (Ws_issueKey ws body) = (ApiCall (Some ''POST'') (Some body), ''/workspaces/'' @ ws @ ''/keys'')"
| "wsEndpoint (Ws_updateKey ws i body) = (ApiCall (Some ''PATCH'') (Some body), ''/workspaces/'' @ ws @ ''/keys/'' @ i)"
| "wsEndpoint (Ws_revokeKey ws i) = (ApiCall (Some ''POST'') None, ''/workspaces/'' @ ws @ ''/keys/'' @ i @ ''/revoke'')"
| "wsEndpoint (Ws_summary ws days) = (ApiCall None None, ''/workspaces/'' @ ws @ ''/analytics/summary?days='' @ showInt days)"
| "wsEndpoint (Ws_events ws cursor) = (ApiCall None None, ''/workspaces/'' @ ws @ ''/usage/events?limit=50'' @ cursorPart cursor)"
| "wsEndpoint (Ws_createExport ws body) = (ApiCall (Some ''POST'') (Some body), ''/workspaces/'' @ ws @ ''/exports'')"
| "wsEndpoint (Ws_exports ws) = (ApiCall None None, ''/workspaces/'' @ ws @ ''/exports'')"
| "wsEndpoint (Ws_exportDownload ws i filename) = (DownloadCall filename, ''/api/v1/workspaces/'' @ ws @ ''/exports/'' @ i @ ''/download'')"

fun membersEndpoint :: "members_call \<Rightarrow> call_kind \<times> string" where
  "membersEndpoint (Members_list ws) = (ApiCall None None, ''/workspaces/'' @ ws @ ''/members'')"
| "membersEndpoint (Members_invitations ws) = (ApiCall None None, ''/workspaces/'' @ ws @ ''/invitations'')"
| "membersEndpoint (Members_invite ws body) = (ApiCall (Some ''POST'') (Some body), ''/workspaces/'' @ ws @ ''/invitations'')"
| "membersEndpoint (Members_inviteLink ws i) = (ApiCall (Some ''POST'') None, ''/workspaces/'' @ ws @ ''/invitations/'' @ i @ ''/link'')"
| "membersEndpoint (Members_revokeInvite ws i) = (ApiCall (Some ''DELETE'') None, ''/workspaces/'' @ ws @ ''/invitations/'' @ i)"
| "membersEndpoint (Members_updateMember ws u body) = (ApiCall (Some ''PATCH'') (Some body), ''/workspaces/'' @ ws @ ''/members/'' @ u)"
| "membersEndpoint (Members_removeMember ws u) = (ApiCall (Some ''DELETE'') None, ''/workspaces/'' @ ws @ ''/members/'' @ u)"

fun inviteEndpoint :: "invite_call \<Rightarrow> call_kind \<times> string" where
  "inviteEndpoint (Invite_inspect token) = (ApiCall None None, ''/auth/invitations/'' @ token)"
| "inviteEndpoint (Invite_accept token body) = (ApiCall (Some ''POST'') (Some body), ''/auth/invitations/'' @ token @ ''/accept'')"

fun pricingEndpoint :: "pricing_call \<Rightarrow> call_kind \<times> string" where
  "pricingEndpoint (Pricing_catalog p instant) = (ApiCall None None, ''/pricing/models'' @ catalogQuery p instant)"
| "pricingEndpoint (Pricing_overrides ws) = (ApiCall None None, ''/workspaces/'' @ ws @ ''/pricing/overrides'')"
| "pricingEndpoint (Pricing_createOverride ws body) = (ApiCall (Some ''POST'') (Some body), ''/workspaces/'' @ ws @ ''/pricing/overrides'')"
| "pricingEndpoint (Pricing_updateOverride ws i body) = (ApiCall (Some ''PATCH'') (Some body), ''/workspaces/'' @ ws @ ''/pricing/overrides/'' @ i)"
| "pricingEndpoint (Pricing_deleteOverride ws i) = (ApiCall (Some ''DELETE'') None, ''/workspaces/'' @ ws @ ''/pricing/overrides/'' @ i)"
| "pricingEndpoint (Pricing_unpriced ws) = (ApiCall None None, ''/workspaces/'' @ ws @ ''/pricing/unpriced'')"

fun endpoint :: "api_call \<Rightarrow> call_kind \<times> string" where
  "endpoint (AuthApi c) = authEndpoint c"
| "endpoint (AdminApi c) = adminEndpoint c"
| "endpoint (WsApi c) = wsEndpoint c"
| "endpoint (MembersApi c) = membersEndpoint c"
| "endpoint (InviteApi c) = inviteEndpoint c"
| "endpoint (PricingApi c) = pricingEndpoint c"


section \<open>The routes (modules)\<close>

text \<open>The pre-handlers of a route: none, \<open>authenticate\<close>, the super-admin guard, or the workspace guard at a role.\<close>

datatype route_guard = Public | SignedIn | SuperAdmin | AtLeast workspace_role

definition authRoutes :: "(string \<times> string \<times> route_guard) list" where
  "authRoutes =
    [(''POST'', ''/auth/register'', Public),
     (''POST'', ''/auth/login'', Public),
     (''POST'', ''/auth/refresh'', Public),
     (''POST'', ''/auth/logout'', Public),
     (''GET'', ''/auth/me'', SignedIn)]"

definition adminRoutes :: "(string \<times> string \<times> route_guard) list" where
  "adminRoutes =
    [(''GET'', ''/admin/stats'', SuperAdmin),
     (''GET'', ''/admin/timeseries'', SuperAdmin),
     (''GET'', ''/admin/workspaces'', SuperAdmin)]"

definition orgRoutes :: "(string \<times> string \<times> route_guard) list" where
  "orgRoutes =
    [(''GET'', ''/workspaces'', SignedIn),
     (''GET'', ''/workspaces/:ws'', AtLeast VIEWER),
     (''GET'', ''/workspaces/:ws/projects'', AtLeast VIEWER),
     (''POST'', ''/workspaces/:ws/projects'', AtLeast ADMIN),
     (''PATCH'', ''/workspaces/:ws/projects/:id'', AtLeast ADMIN),
     (''DELETE'', ''/workspaces/:ws/projects/:id'', AtLeast ADMIN)]"

definition teamRoutes :: "(string \<times> string \<times> route_guard) list" where
  "teamRoutes =
    [(''GET'', ''/workspaces/:ws/teams'', AtLeast VIEWER),
     (''POST'', ''/workspaces/:ws/teams'', AtLeast ADMIN),
     (''GET'', ''/workspaces/:ws/teams/:teamId'', AtLeast VIEWER),
     (''PATCH'', ''/workspaces/:ws/teams/:teamId'', AtLeast VIEWER),
     (''DELETE'', ''/workspaces/:ws/teams/:teamId'', AtLeast ADMIN),
     (''POST'', ''/workspaces/:ws/teams/:teamId/members'', AtLeast VIEWER),
     (''PATCH'', ''/workspaces/:ws/teams/:teamId/members/:userId'', AtLeast VIEWER),
     (''DELETE'', ''/workspaces/:ws/teams/:teamId/members/:userId'', AtLeast VIEWER)]"

definition credentialRoutes :: "(string \<times> string \<times> route_guard) list" where
  "credentialRoutes =
    [(''GET'', ''/workspaces/:ws/credentials'', AtLeast ADMIN),
     (''POST'', ''/workspaces/:ws/credentials'', AtLeast ADMIN),
     (''POST'', ''/workspaces/:ws/credentials/:id/test'', AtLeast ADMIN),
     (''PATCH'', ''/workspaces/:ws/credentials/:id'', AtLeast ADMIN),
     (''DELETE'', ''/workspaces/:ws/credentials/:id'', AtLeast ADMIN)]"

definition keyRoutes :: "(string \<times> string \<times> route_guard) list" where
  "keyRoutes =
    [(''GET'', ''/workspaces/:ws/keys'', AtLeast MEMBER),
     (''POST'', ''/workspaces/:ws/keys'', AtLeast MEMBER),
     (''PATCH'', ''/workspaces/:ws/keys/:keyId'', AtLeast MEMBER),
     (''POST'', ''/workspaces/:ws/keys/:keyId/revoke'', AtLeast MEMBER)]"

definition analyticsRoutes :: "(string \<times> string \<times> route_guard) list" where
  "analyticsRoutes =
    [(''GET'', ''/workspaces/:ws/analytics/summary'', AtLeast VIEWER),
     (''GET'', ''/workspaces/:ws/usage/events'', AtLeast VIEWER),
     (''GET'', ''/workspaces/:ws/analytics/timeseries'', AtLeast VIEWER),
     (''GET'', ''/workspaces/:ws/analytics/breakdown'', AtLeast VIEWER)]"

definition exportRoutes :: "(string \<times> string \<times> route_guard) list" where
  "exportRoutes =
    [(''POST'', ''/workspaces/:ws/exports'', AtLeast VIEWER),
     (''GET'', ''/workspaces/:ws/exports'', AtLeast VIEWER),
     (''GET'', ''/workspaces/:ws/exports/:id'', AtLeast VIEWER),
     (''GET'', ''/workspaces/:ws/exports/:id/download'', AtLeast VIEWER)]"

definition invitationRoutes :: "(string \<times> string \<times> route_guard) list" where
  "invitationRoutes =
    [(''GET'', ''/workspaces/:ws/members'', AtLeast VIEWER),
     (''GET'', ''/workspaces/:ws/invitations'', AtLeast ADMIN),
     (''POST'', ''/workspaces/:ws/invitations'', AtLeast ADMIN),
     (''POST'', ''/workspaces/:ws/invitations/:id/link'', AtLeast ADMIN),
     (''DELETE'', ''/workspaces/:ws/invitations/:id'', AtLeast ADMIN),
     (''PATCH'', ''/workspaces/:ws/members/:userId'', AtLeast ADMIN),
     (''DELETE'', ''/workspaces/:ws/members/:userId'', AtLeast VIEWER),
     (''GET'', ''/auth/invitations/:token'', Public),
     (''POST'', ''/auth/invitations/:token/accept'', Public)]"

definition pricingRoutes :: "(string \<times> string \<times> route_guard) list" where
  "pricingRoutes =
    [(''GET'', ''/pricing/models'', SignedIn),
     (''GET'', ''/workspaces/:ws/pricing/overrides'', AtLeast VIEWER),
     (''POST'', ''/workspaces/:ws/pricing/overrides'', AtLeast ADMIN),
     (''PATCH'', ''/workspaces/:ws/pricing/overrides/:id'', AtLeast ADMIN),
     (''DELETE'', ''/workspaces/:ws/pricing/overrides/:id'', AtLeast ADMIN),
     (''GET'', ''/workspaces/:ws/pricing/unpriced'', AtLeast ADMIN)]"

text \<open>The modules in the order of \<open>server.ts\<close>, under the prefix of their registration.\<close>

definition apiRoutes :: "(string \<times> string \<times> route_guard) list" where
  "apiRoutes = map (\<lambda>(m, p, g). (m, ''/api/v1'' @ p, g))
     ([(''GET'', ''/meta/version'', Public)] @ authRoutes @ adminRoutes @ orgRoutes @ teamRoutes @ credentialRoutes
      @ keyRoutes @ analyticsRoutes @ exportRoutes @ invitationRoutes @ pricingRoutes)"

text \<open>What it means that an address is an instance of a pattern, segment by segment, with the values of its parameters.\<close>

fun bindSegments :: "string list \<Rightarrow> string list \<Rightarrow> string list option" where
  "bindSegments [] [] = Some []"
| "bindSegments (p # ps) (s # ss) =
     (if startsWith p '':'' then (if s = [] then None else map_option ((#) s) (bindSegments ps ss))
      else if p = s then bindSegments ps ss else None)"
| "bindSegments _ _ = None"

definition pathOf :: "string \<Rightarrow> string" where
  "pathOf address = takeWhile (\<lambda>c. c \<noteq> CHR ''?'') address"

definition routeParams :: "string \<Rightarrow> string \<Rightarrow> string list option" where
  "routeParams pattern address = bindSegments (splitOn CHR ''/'' pattern) (splitOn CHR ''/'' (pathOf address))"

text \<open>The routes that a request is an instance of, with the parameters' values.\<close>

definition routesFor :: "web_request \<Rightarrow> ((string \<times> string \<times> route_guard) \<times> string list) list" where
  "routesFor r = [(x, the (routeParams (fst (snd x)) (wr_url r))). x \<leftarrow> apiRoutes,
     fst x = wr_method r \<and> routeParams (fst (snd x)) (wr_url r) \<noteq> None]"

text \<open>Slugs, UUIDs and base64url tokens are made of these.\<close>

definition plainChar :: "char \<Rightarrow> bool" where
  "plainChar c \<longleftrightarrow> alnum c \<or> c = CHR ''-'' \<or> c = CHR ''_''"

definition plainSegment :: "string \<Rightarrow> bool" where
  "plainSegment s \<longleftrightarrow> s \<noteq> [] \<and> list_all plainChar s"

section \<open>Every call has its route\<close>

text \<open>The identifiers that the address of a call is built from, in order.\<close>

fun authArgs :: "auth_call \<Rightarrow> string list" where
  "authArgs (Auth_register _) = []"
| "authArgs (Auth_login _) = []"
| "authArgs Auth_logout = []"
| "authArgs Auth_me = []"

fun adminArgs :: "admin_call \<Rightarrow> string list" where
  "adminArgs Admin_stats = []"
| "adminArgs Admin_workspaces = []"
| "adminArgs Admin_timeseries = []"

fun wsArgs :: "ws_call \<Rightarrow> string list" where
  "wsArgs Ws_list = []"
| "wsArgs (Ws_projects ws) = [ws]"
| "wsArgs (Ws_timeseries ws _) = [ws]"
| "wsArgs (Ws_breakdown ws _) = [ws]"
| "wsArgs (Ws_createProject ws _) = [ws]"
| "wsArgs (Ws_projectsByStatus ws _) = [ws]"
| "wsArgs (Ws_updateProject ws i _) = [ws, i]"
| "wsArgs (Ws_deleteProject ws i) = [ws, i]"
| "wsArgs (Ws_teams ws) = [ws]"
| "wsArgs (Ws_team ws i) = [ws, i]"
| "wsArgs (Ws_createTeam ws _) = [ws]"
| "wsArgs (Ws_deleteTeam ws i) = [ws, i]"
| "wsArgs (Ws_addTeamMember ws t _) = [ws, t]"
| "wsArgs (Ws_updateTeamMember ws t u _) = [ws, t, u]"
| "wsArgs (Ws_removeTeamMember ws t u) = [ws, t, u]"
| "wsArgs (Ws_credentials ws) = [ws]"
| "wsArgs (Ws_createCredential ws _) = [ws]"
| "wsArgs (Ws_testCredential ws i) = [ws, i]"
| "wsArgs (Ws_updateCredential ws i _) = [ws, i]"
| "wsArgs (Ws_deleteCredential ws i) = [ws, i]"
| "wsArgs (Ws_keys ws) = [ws]"
| "wsArgs (Ws_issueKey ws _) = [ws]"
| "wsArgs (Ws_updateKey ws i _) = [ws, i]"
| "wsArgs (Ws_revokeKey ws i) = [ws, i]"
| "wsArgs (Ws_summary ws _) = [ws]"
| "wsArgs (Ws_events ws _) = [ws]"
| "wsArgs (Ws_createExport ws _) = [ws]"
| "wsArgs (Ws_exports ws) = [ws]"
| "wsArgs (Ws_exportDownload ws i _) = [ws, i]"

fun membersArgs :: "members_call \<Rightarrow> string list" where
  "membersArgs (Members_list ws) = [ws]"
| "membersArgs (Members_invitations ws) = [ws]"
| "membersArgs (Members_invite ws _) = [ws]"
| "membersArgs (Members_inviteLink ws i) = [ws, i]"
| "membersArgs (Members_revokeInvite ws i) = [ws, i]"
| "membersArgs (Members_updateMember ws u _) = [ws, u]"
| "membersArgs (Members_removeMember ws u) = [ws, u]"

fun inviteArgs :: "invite_call \<Rightarrow> string list" where
  "inviteArgs (Invite_inspect token) = [token]"
| "inviteArgs (Invite_accept token _) = [token]"

fun pricingArgs :: "pricing_call \<Rightarrow> string list" where
  "pricingArgs (Pricing_catalog _ _) = []"
| "pricingArgs (Pricing_overrides ws) = [ws]"
| "pricingArgs (Pricing_createOverride ws _) = [ws]"
| "pricingArgs (Pricing_updateOverride ws i _) = [ws, i]"
| "pricingArgs (Pricing_deleteOverride ws i) = [ws, i]"
| "pricingArgs (Pricing_unpriced ws) = [ws]"

fun pathArgs :: "api_call \<Rightarrow> string list" where
  "pathArgs (AuthApi c) = authArgs c"
| "pathArgs (AdminApi c) = adminArgs c"
| "pathArgs (WsApi c) = wsArgs c"
| "pathArgs (MembersApi c) = membersArgs c"
| "pathArgs (InviteApi c) = inviteArgs c"
| "pathArgs (PricingApi c) = pricingArgs c"


lemma plainChar_not [simp]: "\<not> plainChar CHR ''/''" "\<not> plainChar CHR ''?''"
  by (simp_all add: plainChar_def alnum_def)

lemma plainSegment_chars:
  assumes "plainSegment s"
  shows "s \<noteq> []" "CHR ''/'' \<notin> set s" "CHR ''?'' \<notin> set s"
  using assms by (auto simp: plainSegment_def list_all_iff dest: bspec)

lemma pathOf_app [simp]: "CHR ''?'' \<notin> set s \<Longrightarrow> pathOf (s @ t) = s @ pathOf t"
  by (induction s) (auto simp: pathOf_def)

lemma pathOf_Cons [simp]: "pathOf (c # t) = (if c = CHR ''?'' then [] else c # pathOf t)" "pathOf [] = []"
  by (simp_all add: pathOf_def)

lemma pathOf_plain [simp]: "CHR ''?'' \<notin> set s \<Longrightarrow> pathOf s = s"
  using pathOf_app [of s "[]"] by simp

text \<open>The route table with its patterns split.\<close>

definition routeSegs :: "((string \<times> string \<times> route_guard) \<times> string list) list" where
  "routeSegs = map (\<lambda>x. (x, splitOn CHR ''/'' (fst (snd x)))) apiRoutes"

definition tryRoute :: "string \<Rightarrow> string list \<Rightarrow> (string \<times> string \<times> route_guard) \<times> string list \<Rightarrow> ((string \<times> string \<times> route_guard) \<times> string list) list" where
  "tryRoute method segs e =
     (if fst (fst e) = method then (case bindSegments (snd e) segs of None \<Rightarrow> [] | Some args \<Rightarrow> [(fst e, args)]) else [])"

lemma routesFor_segs:
  "routesFor r = concat (map (tryRoute (wr_method r) (splitOn CHR ''/'' (pathOf (wr_url r)))) routeSegs)"
proof -
  have "concat (map (\<lambda>x. if fst x = wr_method r \<and> routeParams (fst (snd x)) (wr_url r) \<noteq> None
                          then [(x, the (routeParams (fst (snd x)) (wr_url r)))] else []) xs)
      = concat (map (tryRoute (wr_method r) (splitOn CHR ''/'' (pathOf (wr_url r)))) (map (\<lambda>x. (x, splitOn CHR ''/'' (fst (snd x)))) xs))"
    for xs :: "(string \<times> string \<times> route_guard) list"
    by (induction xs) (auto simp: tryRoute_def routeParams_def split: option.splits)
  then show ?thesis by (simp add: routesFor_def routeSegs_def)
qed

lemmas route_lists = apiRoutes_def authRoutes_def adminRoutes_def orgRoutes_def teamRoutes_def credentialRoutes_def
  keyRoutes_def analyticsRoutes_def exportRoutes_def invitationRoutes_def pricingRoutes_def

lemmas routeSegs_table = routeSegs_def [unfolded route_lists, simplified]

definition requestFor :: "(json \<Rightarrow> string) \<Rightarrow> string option \<Rightarrow> api_call \<Rightarrow> web_request" where
  "requestFor stringify token c = requestOf stringify token \<lparr>wc_kind = fst (endpoint c), wc_path = snd (endpoint c), wc_phase = Waiting False\<rparr>"

text \<open>The calls that name a workspace.\<close>

definition scoped :: "api_call \<Rightarrow> bool" where
  "scoped c =
     (case c of WsApi Ws_list \<Rightarrow> False | WsApi _ \<Rightarrow> True | MembersApi _ \<Rightarrow> True
      | PricingApi (Pricing_catalog _ _) \<Rightarrow> False | PricingApi _ \<Rightarrow> True | _ \<Rightarrow> False)"

definition oneRoute :: "api_call \<Rightarrow> web_request \<Rightarrow> string list \<Rightarrow> bool" where
  "oneRoute c r args \<longleftrightarrow> (\<exists>m p g. routesFor r = [((m, p, g), args)] \<and> (\<exists>role. g = AtLeast role) = scoped c)"

lemmas to_route = oneRoute_def scoped_def requestFor_def requestOf_def apiRequest_def downloadRequest_def routesFor_segs plainSegment_chars splitOn_no_sep splitOn_append_sep

lemma catalogQuery_question: "catalogQuery p instant = [] \<or> (\<exists>qs. catalogQuery p instant = CHR ''?'' # qs)"
  by (simp add: catalogQuery_def Let_def)

lemma pathOf_catalog: "pathOf (catalogQuery p instant) = []"
  using catalogQuery_question [of p instant] by auto

lemma auth_route: "oneRoute (AuthApi c) (requestFor stringify token (AuthApi c)) (authArgs c)"
  by (cases c; simp add: to_route; simp add: routeSegs_table tryRoute_def startsWith_def)

lemma admin_route: "oneRoute (AdminApi c) (requestFor stringify token (AdminApi c)) (adminArgs c)"
  by (cases c; simp add: to_route; simp add: routeSegs_table tryRoute_def startsWith_def)

lemma invite_route: "list_all plainSegment (inviteArgs c) \<Longrightarrow> oneRoute (InviteApi c) (requestFor stringify token (InviteApi c)) (inviteArgs c)"
  by (cases c; simp add: to_route; simp add: routeSegs_table tryRoute_def startsWith_def plainSegment_chars)

lemma pricing_route: "list_all plainSegment (pricingArgs c) \<Longrightarrow> oneRoute (PricingApi c) (requestFor stringify token (PricingApi c)) (pricingArgs c)"
  by (cases c; simp add: to_route pathOf_catalog; simp add: routeSegs_table tryRoute_def startsWith_def plainSegment_chars)

lemma members_route: "list_all plainSegment (membersArgs c) \<Longrightarrow> oneRoute (MembersApi c) (requestFor stringify token (MembersApi c)) (membersArgs c)"
  by (cases c; simp add: to_route; simp add: routeSegs_table tryRoute_def startsWith_def plainSegment_chars)

lemma ws_route: "list_all plainSegment (wsArgs c) \<Longrightarrow> oneRoute (WsApi c) (requestFor stringify token (WsApi c)) (wsArgs c)"
  by (cases c; simp add: to_route; simp add: routeSegs_table tryRoute_def startsWith_def plainSegment_chars)

text \<open>
  C30. Client and server agree on the addresses. Whatever call the web interface makes, with identifiers that are slugs, UUIDs
  or tokens, exactly one route of the API matches its method and address, it binds the identifiers the call was given, in
  their order, and it is behind the workspace guard exactly when the call names a workspace.
\<close>

theorem calls_reach_one_route:
  assumes "list_all plainSegment (pathArgs c)"
  shows "\<exists>m p g. routesFor (requestFor stringify token c) = [((m, p, g), pathArgs c)] \<and> (\<exists>role. g = AtLeast role) = scoped c"
proof -
  have "oneRoute c (requestFor stringify token c) (pathArgs c)"
    using assms by (cases c) (simp_all add: auth_route admin_route invite_route pricing_route members_route ws_route)
  then show ?thesis by (simp add: oneRoute_def)
qed

theorem calls_reach_one_route_witness:
  "\<exists>m p g. routesFor (requestFor (\<lambda>_. []) (Some ''t'') (WsApi (Ws_revokeKey ''acme'' ''k-1''))) = [((m, p, g), [''acme'', ''k-1''])]
     \<and> (\<exists>role. g = AtLeast role) = True"
proof -
  have "list_all plainSegment (pathArgs (WsApi (Ws_revokeKey ''acme'' ''k-1'')))"
    by (simp add: plainSegment_def plainChar_def alnum_def)
  from calls_reach_one_route [OF this, of "\<lambda>_. []" "Some ''t''"] show ?thesis by (simp add: scoped_def)
qed

end
