(* ===== verification/Listings.thy ===== *)
theory Listings
  imports Members Exports
begin

text \<open>
  Routes of the API that only read and that no other theory holds: the members and pending invitations of a workspace
  (\<open>modules/invitations.ts\<close>), the caller's workspaces (\<open>modules/org.ts\<close>) and one export job (\<open>modules/exports.ts\<close>).
  Rows come by time of creation, which is the order of the tables; the times themselves are not columns of the model.
\<close>

section \<open>Members and invitations (invitations.ts)\<close>

record member_view =
  mv_id :: string
  mv_name :: string
  mv_email :: string
  mv_status :: user_status
  mv_role :: workspace_role

definition listMembers :: "authed_user option \<Rightarrow> string \<Rightarrow> database \<Rightarrow> database \<times> (api_error + member_view list)" where
  "listMembers user ws base =
     guarded VIEWER user ws base (\<lambda>u ctx.
       (base, Inr [\<lparr>mv_id = us_id x, mv_name = us_name x, mv_email = us_email x, mv_status = us_status x, mv_role = wm_role m\<rparr>.
                   m \<leftarrow> wmembers base, wm_workspaceId m = ctx_workspaceId ctx, x \<leftarrow> users base, us_id x = wm_userId m]))"

record invitation_row =
  ir_id :: string
  ir_email :: string
  ir_role :: workspace_role
  ir_expiresAt :: millis

definition listInvitations :: "millis \<Rightarrow> authed_user option \<Rightarrow> string \<Rightarrow> database \<Rightarrow> database \<times> (api_error + invitation_row list)" where
  "listInvitations now user ws base =
     guarded ADMIN user ws base (\<lambda>u ctx.
       (base, Inr (map (\<lambda>v. \<lparr>ir_id = iv_id v, ir_email = iv_email v, ir_role = iv_role v, ir_expiresAt = iv_expiresAt v\<rparr>)
          (rev (filter (\<lambda>v. iv_workspaceId v = ctx_workspaceId ctx \<and> acceptedAt v = None \<and> now < iv_expiresAt v) (invitations base))))))"

section \<open>Workspaces (org.ts)\<close>

definition listWorkspaces :: "authed_user option \<Rightarrow> database \<Rightarrow> api_error + ((string \<times> string \<times> string) \<times> workspace_role) list" where
  "listWorkspaces user base =
     (case user of
        None \<Rightarrow> Inl (Domain (UnauthorizedError ''Authentication required''))
      | Some u \<Rightarrow>
          Inr [((ws_id w, ws_name w, ws_slug w), wm_role m). m \<leftarrow> wmembers base, w \<leftarrow> workspaces base,
                 wm_userId m = au_id u \<and> ws_id w = wm_workspaceId m \<and> ws_deletedAt w = None])"

text \<open>\<open>findUniqueOrThrow\<close>: a workspace that is gone between the guard and the read is an internal error.\<close>

definition showWorkspace ::
  "authed_user option \<Rightarrow> string \<Rightarrow> database \<Rightarrow> database \<times> (api_error + (string \<times> string \<times> string) \<times> workspace_role)" where
  "showWorkspace user ws base =
     guarded VIEWER user ws base (\<lambda>u ctx.
       (base, case find (\<lambda>w. ws_id w = ctx_workspaceId ctx) (workspaces base) of
                None \<Rightarrow> Inl Internal
              | Some w \<Rightarrow> Inr ((ws_id w, ws_name w, ws_slug w), ctx_role ctx)))"

section \<open>One export (exports.ts)\<close>

definition showExport :: "workspace_context \<Rightarrow> authed_user \<Rightarrow> string \<Rightarrow> export_store \<Rightarrow> domain_error + export_view" where
  "showExport ctx u jobId st = (case findJob ctx u jobId st of Inl e \<Rightarrow> Inl e | Inr job \<Rightarrow> Inr (serializeExport job))"

section \<open>What the answers are good for\<close>

lemma guarded_answer:
  assumes "guarded r user ws base h = (base', Inr v)"
  obtains u ctx where "user = Some u" "workspaceGuard (workspaces base) (wmembers base) r (Some u) ws = Inr ctx" "h u ctx = (base', Inr v)"
  using assms by (auto simp: guarded_def split: option.splits sum.splits)

lemma find_exists: "x \<in> set xs \<Longrightarrow> P x \<Longrightarrow> \<exists>y. find P xs = Some y \<and> P y"
  by (induction xs) auto

text \<open>An admin can get a fresh link for every invitation that is listed, and withdraw it.\<close>

lemma listed_invitation_usable:
  assumes "listInvitations now user ws base = (base, Inr rows)" "row \<in> set rows"
  shows "(\<exists>base' v. relink publicUrl now minted user ws (ir_id row) base = (base', Inr v) \<and> ivv_id v = ir_id row)
    \<and> (\<exists>base'. withdraw user ws (ir_id row) base = (base', Inr ()) \<and> ir_id row \<notin> iv_id ` set (filter
          (\<lambda>v. acceptedAt v = None \<and> (\<exists>u ctx. user = Some u \<and> workspaceGuard (workspaces base) (wmembers base) ADMIN (Some u) ws = Inr ctx
             \<and> iv_workspaceId v = ctx_workspaceId ctx)) (invitations base')))"
  using assms(1) unfolding listInvitations_def
proof (rule guarded_answer, goal_cases)
  case (1 u ctx)
  then obtain v where v: "v \<in> set (invitations base)" "iv_id v = ir_id row" "iv_workspaceId v = ctx_workspaceId ctx" "Members.pending now v"
    using assms(2) by (auto simp: Members.pending_def)
  from find_exists [of v _ "\<lambda>v. iv_id v = ir_id row \<and> iv_workspaceId v = ctx_workspaceId ctx \<and> Members.pending now v"] v
  obtain y where y: "find (\<lambda>v. iv_id v = ir_id row \<and> iv_workspaceId v = ctx_workspaceId ctx \<and> Members.pending now v) (invitations base) = Some y"
      "iv_id y = ir_id row" by blast
  have "countWhere (\<lambda>v. iv_id v = ir_id row \<and> iv_workspaceId v = ctx_workspaceId ctx \<and> acceptedAt v = None) (invitations base) \<noteq> 0"
    using v by (auto simp: countWhere_def Members.pending_def filter_empty_conv)
  with 1(1,2) y show ?case
    by (auto simp: relink_def withdraw_def guarded_def invitationView_def deleteWhere_def Let_def)
qed

text \<open>The workspaces listed are the memberships of the profile.\<close>

lemma listed_workspaces_are_memberships:
  assumes "me superAdmins (au_id u) base = Inr v"
  shows "listWorkspaces (Some u) base = Inr (me_memberships v)"
  using assms by (auto simp: me_def listWorkspaces_def split: option.splits)

end
