(* ===== verification/WebPages.thy ===== *)
theory WebPages
  imports WebApp Credentials Overrides Listings
begin

text \<open>
  Pages of the web interface that decide something (\<open>apps/web/src/features\<close>): who is offered which action, how the
  dialogs fill their forms from what the API answered and turn them into requests again, when a freshly issued key
  leaves the screen. Rendering is left out; a form's values are records, a dialog's React state is a record with one
  function per event. The second half composes the pages with the routes of the API.
\<close>

section \<open>Members (MembersPage.tsx)\<close>

text \<open>The viewer's role, from the memberships of the session; without one, a viewer's.\<close>

definition viewerRole :: "auth_state \<Rightarrow> string \<Rightarrow> workspace_role" where
  "viewerRole a ws = (case find (\<lambda>m. slugOf m = ws) (au_memberships a) of Some m \<Rightarrow> snd m | None \<Rightarrow> VIEWER)"

definition isViewerAdmin :: "auth_state \<Rightarrow> string \<Rightarrow> bool" where
  "isViewerAdmin a ws \<longleftrightarrow> viewerRole a ws = ADMIN \<or> viewerRole a ws = OWNER"

definition isViewer :: "auth_state \<Rightarrow> string \<Rightarrow> bool" where
  "isViewer a uid \<longleftrightarrow> map_option fst (au_user a) = Some uid"

text \<open>The role cell: a tag, or a selection of roles; the action cell: nothing, a disabled button, or one that works.\<close>

datatype role_cell = RoleTag workspace_role | RoleSelect "string list"
datatype action_cell = NoAction | Disabled_remove | Offered string

definition roleCell :: "auth_state \<Rightarrow> string \<Rightarrow> member_view \<Rightarrow> role_cell" where
  "roleCell a ws row =
     (if \<not> isViewerAdmin a ws \<or> mv_role row = OWNER \<or> isViewer a (mv_id row) then RoleTag (mv_role row)
      else RoleSelect [''ADMIN'', ''MEMBER'', ''VIEWER''])"

definition actionCell :: "auth_state \<Rightarrow> string \<Rightarrow> member_view \<Rightarrow> action_cell" where
  "actionCell a ws row =
     (if \<not> isViewer a (mv_id row) \<and> \<not> isViewerAdmin a ws then NoAction
      else if mv_role row = OWNER then Disabled_remove
      else Offered (if isViewer a (mv_id row) then ''Leave workspace'' else ''Remove''))"

section \<open>Issuing a key (KeysPage.tsx)\<close>

text \<open>What the form gives; only active credentials can be selected.\<close>

record issue_form =
  if_projectId :: string
  if_name :: string
  if_userId :: "string option"
  if_credentials :: "string list option"

definition credentialOptions :: "credential_view list \<Rightarrow> string list" where
  "credentialOptions cs = map cv_id (filter (\<lambda>c. cv_status c = CredActive) cs)"

text \<open>The request, with the defaults of the API's schema for the fields the form does not have.\<close>

definition issueBody :: "issue_form \<Rightarrow> issue_body" where
  "issueBody f =
     \<lparr>ib_projectId = if_projectId f, ib_name = if_name f, ib_userId = if_userId f, ib_providers = [],
      ib_credentials = orElse (if_credentials f) [], ib_models = [], ib_rpm = None, ib_expiresAt = None\<rparr>"

record issue_modal =
  im_open :: bool
  im_issued :: "string option"
  im_acknowledged :: bool
  im_pending :: bool

text \<open>
  The events of the dialog. The form is shown only while no key is; its button does nothing while a request is pending,
  and the answer may arrive after the dialog was closed.
\<close>

datatype modal_event = OpenModal | Submit | Created string | Rejected | Tick bool | Done | Cancel

definition closeModal :: "issue_modal \<Rightarrow> issue_modal" where
  "closeModal m = m\<lparr>im_open := False, im_issued := None, im_acknowledged := False\<rparr>"

fun modalStep :: "modal_event \<Rightarrow> issue_modal \<Rightarrow> issue_modal" where
  "modalStep OpenModal m = m\<lparr>im_open := True\<rparr>"
| "modalStep Submit m = (if im_open m \<and> im_issued m = None \<and> \<not> im_pending m then m\<lparr>im_pending := True\<rparr> else m)"
| "modalStep (Created k) m = (if im_pending m then m\<lparr>im_pending := False, im_issued := Some k\<rparr> else m)"
| "modalStep Rejected m = m\<lparr>im_pending := False\<rparr>"
| "modalStep (Tick b) m = (if im_open m \<and> im_issued m \<noteq> None then m\<lparr>im_acknowledged := b\<rparr> else m)"
| "modalStep Done m = (if im_open m \<and> im_issued m \<noteq> None \<and> im_acknowledged m then closeModal m else m)"
| "modalStep Cancel m = (if im_open m \<and> (im_issued m = None \<or> im_acknowledged m) then closeModal m else m)"

definition initialModal :: issue_modal where
  "initialModal = \<lparr>im_open = False, im_issued = None, im_acknowledged = False, im_pending = False\<rparr>"

definition runModal :: "modal_event list \<Rightarrow> issue_modal" where
  "runModal es = fold modalStep es initialModal"

section \<open>Editing a key (KeysPage.tsx)\<close>

record key_form =
  kf_name :: string
  kf_credentials :: "string list option"
  kf_rpm :: "int option"
  kf_expiresAt :: "millis option"

definition keyForm :: "key_view \<Rightarrow> key_form" where
  "keyForm v = \<lparr>kf_name = kv_name v, kf_credentials = Some (kv_credentials v), kf_rpm = kv_rpm v, kf_expiresAt = kv_expiresAt v\<rparr>"

definition keyPatch :: "key_form \<Rightarrow> key_patch" where
  "keyPatch f =
     \<lparr>kp_name = Some (kf_name f), kp_credentials = Some (orElse (kf_credentials f) []), kp_models = None,
      kp_rpm = Some (kf_rpm f), kp_expiresAt = Some (kf_expiresAt f)\<rparr>"

section \<open>Credentials (ProvidersPage.tsx)\<close>

definition togglePatch :: "credential_view \<Rightarrow> credential_patch" where
  "togglePatch c =
     \<lparr>cp_status = Some (if cv_status c = CredActive then ''DISABLED'' else ''ACTIVE''), cp_isDefault = False, cp_name = None,
      cp_secret = None, cp_baseUrl = None\<rparr>"

record credential_form =
  cf_name :: string
  cf_secret :: "string option"
  cf_baseUrl :: "string option"

text \<open>The form to add one; it always sends the provider, and never asks to be the default.\<close>

definition addBody :: "provider \<Rightarrow> credential_form \<Rightarrow> credential_body" where
  "addBody p f =
     \<lparr>cb_provider = providerName p, cb_name = cf_name f, cb_secret = cf_secret f, cb_baseUrl = cf_baseUrl f, cb_models = [],
      cb_isDefault = False\<rparr>"

definition credentialForm :: "credential_view \<Rightarrow> credential_form" where
  "credentialForm c = \<lparr>cf_name = cv_name c, cf_secret = None, cf_baseUrl = cv_baseUrl c\<rparr>"

text \<open>An empty address clears the override, except for Ollama, where it is not sent; an empty secret is not sent.\<close>

definition editPatch :: "credential_view \<Rightarrow> credential_form \<Rightarrow> credential_patch" where
  "editPatch c f =
     \<lparr>cp_status = None, cp_isDefault = False, cp_name = Some (cf_name f),
      cp_secret = (if givenText (cf_secret f) then cf_secret f else None),
      cp_baseUrl = (if givenText (cf_baseUrl f) then Some (cf_baseUrl f) else if cv_provider c = OLLAMA then None else Some None)\<rparr>"

section \<open>Price overrides (PricingPage.tsx)\<close>

text \<open>What the tab is editing: nothing, a new override, or a row; the editor is given the row, or null.\<close>

datatype editing = NewOverride | EditRow override_view

definition editorRow :: "editing option \<Rightarrow> override_view option" where
  "editorRow e = (case e of Some (EditRow row) \<Rightarrow> Some row | _ \<Rightarrow> None)"

definition editorOpen :: "editing option \<Rightarrow> bool" where
  "editorOpen e \<longleftrightarrow> editorRow e \<noteq> None"

text \<open>The form of an existing row: provider and pattern are disabled fields, but part of the values.\<close>

definition overrideForm :: "override_view \<Rightarrow> override_patch" where
  "overrideForm v =
     \<lparr>op_provider = Some (providerName (ov_provider v)), op_modelPattern = Some (ov_modelPattern v),
      op_input = Some (ov_prices v ! 0), op_output = Some (ov_prices v ! 1), op_cacheRead = Some (ov_prices v ! 2),
      op_cacheWrite = Some (ov_prices v ! 3)\<rparr>"

section \<open>The onboarding wizard (DashboardPage.tsx, OnboardingWizard.tsx)\<close>

text \<open>The first step, from the answers about credentials (an error counts as none) and keys.\<close>

definition wizardStart :: "api_error + 'c list \<Rightarrow> 'k list \<Rightarrow> nat" where
  "wizardStart creds ks =
     (if ks \<noteq> [] then 3 else if (case creds of Inl e \<Rightarrow> [] | Inr cs \<Rightarrow> cs) \<noteq> [] then 1 else 0)"

datatype wizard_event = CredentialSaved | ProjectCreated | KeyIssued string

definition wizardStep :: "wizard_event \<Rightarrow> nat \<times> string option \<Rightarrow> nat \<times> string option" where
  "wizardStep e s =
     (case (e, fst s) of
        (CredentialSaved, n) \<Rightarrow> if n = 0 then (1, snd s) else s
      | (ProjectCreated, n) \<Rightarrow> if n = 1 then (2, snd s) else s
      | (KeyIssued k, n) \<Rightarrow> if n = 2 then (3, Some k) else s)"

text \<open>The request of its first step asks to be the default.\<close>

definition wizardCredential :: "provider \<Rightarrow> credential_form \<Rightarrow> credential_body" where
  "wizardCredential p f = (addBody p f)\<lparr>cb_isDefault := True\<rparr>"

section \<open>Teams, exports, invitations\<close>

text \<open>What \<open>TeamDetailPage.tsx\<close> offers: members who are not in the team, and active projects that the team does not own.\<close>

definition addableUsers :: "string list \<Rightarrow> member_view list \<Rightarrow> member_view list" where
  "addableUsers memberIds ms = filter (\<lambda>m. mv_id m \<notin> set memberIds) ms"

definition assignableProjects :: "string list \<Rightarrow> project list \<Rightarrow> project list" where
  "assignableProjects ownedIds ps = filter (\<lambda>p. pj_id p \<notin> set ownedIds \<and> pj_status p = ProjectActive) ps"

text \<open>\<open>ExportsDrawer.tsx\<close>: the interval of polling, if any, and whether a download is offered.\<close>

definition pollInterval :: "export_view list \<Rightarrow> nat option" where
  "pollInterval js = (if list_ex (\<lambda>j. xv_status j = PENDING \<or> xv_status j = RUNNING) js then Some 2000 else None)"

definition offersDownload :: "export_view \<Rightarrow> bool" where
  "offersDownload j \<longleftrightarrow> xv_status j = DONE"

text \<open>Where \<open>AcceptInvitePage.tsx\<close> goes after an invitation was accepted, and \<open>LoginPage\<close> after a login.\<close>

definition acceptTarget :: "auth_state \<Rightarrow> string \<Rightarrow> string" where
  "acceptTarget a slug = (if au_status a = Authenticated then ''/'' @ slug else ''/login?next=/'' @ slug)"

definition loginTarget :: "string \<Rightarrow> string" where
  "loginTarget search = ''/''"

section \<open>An issued key stays until it is acknowledged\<close>

lemma runModal_snoc: "runModal (es @ [e]) = modalStep e (runModal es)"
  by (simp add: runModal_def)

definition shownSince :: "modal_event list \<Rightarrow> string \<Rightarrow> modal_event list \<Rightarrow> bool" where
  "shownSince es k later \<longleftrightarrow> (\<exists>before. es = before @ Created k # later)"

lemma shownSince_snoc: "shownSince es k later \<Longrightarrow> shownSince (es @ [e]) k (later @ [e])"
  by (auto simp: shownSince_def)

text \<open>While a request is pending no key is shown; a tick needs a key, and was made since that key came.\<close>

definition modalOk :: "modal_event list \<Rightarrow> bool" where
  "modalOk es \<longleftrightarrow>
     (let m = runModal es in
      (im_pending m \<longrightarrow> im_issued m = None) \<and> (im_issued m = None \<longrightarrow> \<not> im_acknowledged m)
      \<and> (\<forall>k. im_issued m = Some k \<longrightarrow> (\<exists>later. shownSince es k later \<and> (im_acknowledged m \<longrightarrow> Tick True \<in> set later))))"

lemma modalOk_run: "modalOk es"
proof (induction es rule: rev_induct)
  case Nil
  then show ?case by (simp add: modalOk_def runModal_def initialModal_def)
next
  case (snoc e es)
  let ?m = "runModal es"
  from snoc have ok: "im_pending ?m \<longrightarrow> im_issued ?m = None" "im_issued ?m = None \<longrightarrow> \<not> im_acknowledged ?m"
    "\<And>k. im_issued ?m = Some k \<Longrightarrow> \<exists>later. shownSince es k later \<and> (im_acknowledged ?m \<longrightarrow> Tick True \<in> set later)"
    by (auto simp: modalOk_def Let_def)
  have kept: "\<exists>later. shownSince (es @ [e]) k later \<and> (im_acknowledged ?m \<longrightarrow> Tick True \<in> set later)" if "im_issued ?m = Some k" for k
    using ok(3) [OF that] shownSince_snoc by fastforce
  have came: "shownSince (es @ [Created k]) k []" for k by (simp add: shownSince_def)
  have ticked: "\<exists>later. shownSince (es @ [Tick b]) k later \<and> (b \<longrightarrow> Tick True \<in> set later)" if "im_issued ?m = Some k" for k b
    using ok(3) [OF that] shownSince_snoc [of es k _ "Tick b"] by force
  show ?case
    using ok(1,2) kept came ticked
    by (cases e) (auto simp: modalOk_def Let_def runModal_snoc closeModal_def split: if_splits)
qed

text \<open>
  A new key is not lost on the page. In every run of the dialog, with answers arriving at any time, a key on display is
  replaced by nothing else, and it leaves the screen only by the user closing the dialog after having ticked, since that
  key appeared, that it is stored; and an answer to a request always gets displayed.
\<close>

lemma issued_key_stays_shown:
  assumes "m = runModal es" "m' = modalStep e m"
  shows "(im_issued m = Some k \<and> im_issued m' \<noteq> Some k \<longrightarrow>
            im_issued m' = None \<and> (e = Done \<or> e = Cancel) \<and> (\<exists>before later. es = before @ Created k # later \<and> Tick True \<in> set later))
       \<and> (im_pending m \<and> e = Created k \<longrightarrow> im_issued m = None \<and> im_issued m' = Some k)"
proof -
  have ok: "im_pending m \<longrightarrow> im_issued m = None"
    and ticked: "im_issued m = Some k \<Longrightarrow> im_acknowledged m \<Longrightarrow> \<exists>before later. es = before @ Created k # later \<and> Tick True \<in> set later"
    using modalOk_run [of es] assms(1) unfolding modalOk_def Let_def shownSince_def by blast+
  show ?thesis using ok ticked unfolding assms(2)
    by (cases e) (simp_all add: closeModal_def split: if_splits)
qed

lemma issued_key_stays_shown_witness:
  "im_issued (modalStep Done (runModal [OpenModal, Submit, Cancel, Created ''k'', OpenModal, Tick True])) = None
   \<and> (\<exists>before later. [OpenModal, Submit, Cancel, Created ''k'', OpenModal, Tick True] = before @ Created ''k'' # later \<and> Tick True \<in> set later)"
proof -
  let ?es = "[OpenModal, Submit, Cancel, Created ''k'', OpenModal, Tick True]"
  have "im_issued (runModal ?es) = Some ''k''" "im_issued (modalStep Done (runModal ?es)) \<noteq> Some ''k''"
    by (simp_all add: runModal_def initialModal_def closeModal_def)
  with issued_key_stays_shown [OF refl refl, of ?es "''k''" Done] show ?thesis by blast
qed

section \<open>Saving an untouched dialog\<close>

lemma stripZeros_pad: "padEnd (length s) CHR ''0'' (stripZeros s) = s"
proof -
  let ?z = "takeWhile (\<lambda>c. c = CHR ''0'') (rev s)" and ?r = "dropWhile (\<lambda>c. c = CHR ''0'') (rev s)"
  have z: "?z = replicate (length ?z) CHR ''0''" by (rule replicate_eqI) (auto dest: set_takeWhileD)
  have split: "s = rev ?r @ rev ?z" by (metis rev_append rev_rev_ident takeWhile_dropWhile_id)
  then have "length s = length ?r + length ?z" by (metis add.commute length_append length_rev takeWhile_dropWhile_id)
  moreover have "rev ?z = replicate (length ?z) CHR ''0''" using z by (metis rev_replicate)
  ultimately show ?thesis using split by (simp add: padEnd_def stripZeros_def)
qed

lemma stripZeros_digits: "list_all isDigit s \<Longrightarrow> list_all isDigit (stripZeros s)"
  by (auto simp: stripZeros_def list_all_iff dest: set_dropWhileD)

lemma stripZeros_length: "length (stripZeros s) \<le> length s"
  by (simp add: stripZeros_def) (metis length_dropWhile_le length_rev)

text \<open>A price that the API prints is read back as the same price.\<close>

lemma microString_reads:
  assumes "0 \<le> m"
  shows "priceText (microString m) \<and> decimalMicros (microString m) = m"
proof (cases "nat m mod 10 ^ 6 = 0")
  case True
  then have "nat m div 10 ^ 6 * 10 ^ 6 = nat m" using div_mult_mod_eq [of "nat m" "10 ^ 6"] by simp
  then have "int (nat m div 10 ^ 6) * 1000000 = m" using assms by (auto dest: arg_cong [where f = int])
  with True show ?thesis
    by (simp add: microString_def decimalString_def priceText_def decimalMicros_def padEnd_def)
next
  case False
  let ?frac = "nat m mod 10 ^ 6"
  let ?p = "padStart 6 CHR ''0'' (showNat ?frac)" and ?f = "stripZeros (padStart 6 CHR ''0'' (showNat ?frac))"
  have len: "length ?p = 6" by (simp add: length_showNat)
  have pad: "padEnd 6 CHR ''0'' ?f = ?p" using stripZeros_pad [of ?p] len by simp
  have "digitsVal ?p \<noteq> 0" using False by simp
  then have "?f \<noteq> []" using pad by (metis append_Nil digitsVal_zeros padEnd_def)
  moreover have "list_all isDigit ?f" by (intro stripZeros_digits) simp
  ultimately have match: "matchDecimal (showNat (nat m div 10 ^ 6) @ CHR ''.'' # ?f) = Some (showNat (nat m div 10 ^ 6), Some ?f)"
    by (intro matchDecimal_point) simp_all
  have "int (nat m div 10 ^ 6) * 1000000 + int ?frac = m" using assms by (simp add: zdiv_int zmod_int)
  moreover have "microString m = showNat (nat m div 10 ^ 6) @ CHR ''.'' # ?f"
    using False by (simp add: microString_def decimalString_def Let_def)
  ultimately show ?thesis using match pad stripZeros_length [of ?p] len
    by (simp add: priceText_def decimalMicros_def)
qed

lemma updateWhere_same: "(\<And>x. x \<in> set xs \<Longrightarrow> P x \<Longrightarrow> f x = x) \<Longrightarrow> updateWhere P f xs = xs"
  by (auto simp: updateWhere_def intro: map_idI)

lemma remdups_covered: "set xs \<subseteq> set ys \<Longrightarrow> distinct ys \<Longrightarrow> remdups (xs @ ys) = ys"
  by (induction xs) (auto simp: distinct_remdups_id)

lemma uniq_again: "uniq (uniq (xs @ ys) @ ys) = uniq (xs @ ys)"
proof -
  have "remdups (rev ys @ rev (uniq (xs @ ys))) = rev (uniq (xs @ ys))"
    by (rule remdups_covered) simp_all
  then show ?thesis by (simp add: uniq_def)
qed

lemma issueKey_answer:
  assumes "issueKey zUuid now kid minted user ws b base = (base', Inr (v, token))"
  obtains u ctx ps where "user = Some u" "workspaceGuard (workspaces base) (wmembers base) MEMBER (Some u) ws = Inr ctx"
    "issueSchema zUuid b" "ib_userId b = None \<or> the (ib_userId b) = [] \<or> the (ib_userId b) = au_id u \<or> isAdmin ctx"
    "resolveProviderAllowlist (credentials base) (ctx_workspaceId ctx) (ib_credentials b) (List.map_filter providerOf (ib_providers b)) = Inr ps"
    "insertKey (newKey now kid minted (ctx_workspaceId ctx) (orElse (ib_userId b) (au_id u)) ps b) base = Some base'"
    "v = keyView (newKey now kid minted (ctx_workspaceId ctx) (orElse (ib_userId b) (au_id u)) ps b)"
  using assms unfolding issueKey_def
  by (elim guarded_answer) (auto simp: Let_def split: if_splits option.splits sum.splits intro: that)

lemma find_last: "\<forall>x\<in>set xs. \<not> P x \<Longrightarrow> P y \<Longrightarrow> find P (xs @ [y]) = Some y"
  by (induction xs) auto

text \<open>
  C22. Saving the dialog of a key unchanged changes nothing. Whatever a key was issued with, opening its edit dialog on what
  the API answered and saving it at once is accepted for whoever issued it, and leaves every key as it is.
\<close>

theorem untouched_key_edit:
  assumes issued: "issueKey zUuid now kid minted user ws b base = (base', Inr (v, token))"
    and fresh: "kid \<notin> vk_id ` set (virtualKeys base)" and "\<not> zUuid []"
  shows "\<exists>cmds. patchKey zUuid user ws kid (keyPatch (keyForm v)) base' = (base', Inr (v, cmds))"
proof -
  from issued obtain u ctx ps where u: "user = Some u" and guard: "workspaceGuard (workspaces base) (wmembers base) MEMBER (Some u) ws = Inr ctx"
    and schema: "issueSchema zUuid b"
    and self: "ib_userId b = None \<or> the (ib_userId b) = [] \<or> the (ib_userId b) = au_id u \<or> isAdmin ctx"
    and ps: "resolveProviderAllowlist (credentials base) (ctx_workspaceId ctx) (ib_credentials b) (List.map_filter providerOf (ib_providers b)) = Inr ps"
    and ins: "insertKey (newKey now kid minted (ctx_workspaceId ctx) (orElse (ib_userId b) (au_id u)) ps b) base = Some base'"
    and v: "v = keyView (newKey now kid minted (ctx_workspaceId ctx) (orElse (ib_userId b) (au_id u)) ps b)"
    by (rule issueKey_answer)
  let ?wsid = "ctx_workspaceId ctx"
  define k where "k = newKey now kid minted ?wsid (orElse (ib_userId b) (au_id u)) ps b"
  have base': "base' = base\<lparr>virtualKeys := virtualKeys base @ [k]\<rparr>"
    and rpm: "case ib_rpm b of None \<Rightarrow> True | Some n \<Rightarrow> n < 2147483648"
    using ins by (auto simp: insertKey_def k_def newKey_def split: if_splits)
  have again: "resolveProviderAllowlist (credentials base) ?wsid (ib_credentials b) ps = Inr ps"
    using ps by (auto simp: resolveProviderAllowlist_def Let_def uniq_again split: if_splits)
  have found: "find (\<lambda>x. vk_id x = kid \<and> vk_workspaceId x = ?wsid) (virtualKeys base') = Some k"
    unfolding base' using fresh by (auto intro!: find_last simp: k_def newKey_def)
  have patch: "patchSchema zUuid (keyPatch (keyForm v))"
    using schema by (auto simp: patchSchema_def keyPatch_def keyForm_def v issueSchema_def keyView_def newKey_def orElse_def allowlistsOk_def split: option.splits)
  have own: "vk_userId k = au_id u \<or> isAdmin ctx"
    using self schema assms(3) by (auto simp: k_def newKey_def orElse_def issueSchema_def split: option.splits)
  have same: "patchFields (keyPatch (keyForm v)) (Some ps) k = k"
    by (simp add: patchFields_def keyPatch_def keyForm_def v k_def keyView_def newKey_def orElse_def)
  have rows: "updateWhere (\<lambda>x. vk_id x = kid) (patchFields (keyPatch (keyForm v)) (Some ps)) (virtualKeys base') = virtualKeys base'"
    using fresh same by (intro updateWhere_same) (auto simp: base')
  show ?thesis
    using guard found patch own rows again same rpm
    by (auto simp: patchKey_def guarded_def u base' ownedKey_def keyPatch_def keyForm_def v [folded k_def] keyView_def k_def newKey_def orElse_def split: option.splits)
qed
theorem untouched_key_edit_witness:
  "\<exists>cmds. patchKey (\<lambda>x. x \<noteq> []) (Some demo_user) ''acme'' ''k1'' (keyPatch (keyForm (keyView demo_key))) (demo_db\<lparr>virtualKeys := [demo_key]\<rparr>)
     = (demo_db\<lparr>virtualKeys := [demo_key]\<rparr>, Inr (keyView demo_key, cmds))"
proof -
  have "''k1'' \<notin> vk_id ` set (virtualKeys demo_db)" by (simp add: demo_defs)
  from untouched_key_edit [OF demo_issue this] show ?thesis by simp
qed

lemma createCredential_answer:
  assumes "createCredential isUrl seal toBytes iv ring now cid user ws b base = (base', Inr v)"
  obtains u ctx p cleared c where "user = Some u" "workspaceGuard (workspaces base) (wmembers base) ADMIN (Some u) ws = Inr ctx"
    "nameOk (cb_name b)" "pred_option isUrl (cb_baseUrl b)" "p = OLLAMA \<longrightarrow> givenText (cb_baseUrl b)"
    "base' = base\<lparr>credentials := cleared @ [c]\<rparr>" "v = credentialView c" "cr_id c = cid" "cr_workspaceId c = ctx_workspaceId ctx"
    "cr_provider c = p" "cr_name c = cb_name b" "cr_baseUrl c = cb_baseUrl b" "cr_id ` set cleared = cr_id ` set (credentials base)"
proof -
  have kept: "cr_id ` set (clearDefault w p cs) = cr_id ` set cs" for w p cs
  proof -
    have "map cr_id (clearDefault w p cs) = map cr_id cs" by (simp add: clearDefault_def updateWhere_def)
    then show ?thesis by (metis set_map)
  qed
  define cleared where "cleared = (\<lambda>(ctx :: workspace_context) p. if cb_isDefault b then clearDefault (ctx_workspaceId ctx) p (credentials base) else credentials base)"
  from assms [unfolded createCredential_def] show thesis
  proof (rule guarded_answer, goal_cases)
    case (1 u ctx)
    from 1(3) obtain p where p: "credentialSchema isUrl b = Some p" by (cases "credentialSchema isUrl b") auto
    have oll: "p = OLLAMA \<longrightarrow> givenText (cb_baseUrl b)"
      using 1(3) p by (auto split: if_split_asm)
    obtain env where env: "sealSecret seal toBytes iv ring (cb_secret b) = Inr env"
      using 1(3) p by (cases "sealSecret seal toBytes iv ring (cb_secret b)") (auto simp: Let_def split: if_split_asm)
    obtain c where c: "base' = base\<lparr>credentials := cleared ctx p @ [c]\<rparr>" "v = credentialView c" "cr_id c = cid"
        "cr_workspaceId c = ctx_workspaceId ctx" "cr_provider c = p" "cr_name c = cb_name b" "cr_baseUrl c = cb_baseUrl b"
      using 1(3) p env unfolding cleared_def by (simp add: Let_def split: if_split_asm) fastforce+
    have "cr_id ` set (cleared ctx p) = cr_id ` set (credentials base)" by (simp add: cleared_def kept)
    moreover have "nameOk (cb_name b)" "pred_option isUrl (cb_baseUrl b)"
      using p by (auto simp: credentialSchema_def split: if_split_asm option.split_asm)
    ultimately show thesis using that 1(1,2) oll c by blast
  qed
qed

text \<open>
  Saving the drawer of a credential unchanged changes nothing. Whatever a credential was created with, opening its edit
  drawer on what the API answered and saving it at once is accepted for the same admin, even when no master key is
  configured any more, and leaves every credential as it is: the secret, the address and the default stay.
\<close>

lemma untouched_credential_edit:
  assumes "createCredential isUrl seal toBytes iv ring now cid user ws b base = (base', Inr v)"
    and fresh: "cid \<notin> cr_id ` set (credentials base)" and noUrl: "\<not> isUrl []"
  shows "patchCredential isUrl seal2 toBytes2 iv2 ring2 user ws cid (editPatch v (credentialForm v)) base' = (base', Inr v)"
proof -
  from assms(1) obtain u ctx p cleared c where u: "user = Some u"
    and guard: "workspaceGuard (workspaces base) (wmembers base) ADMIN (Some u) ws = Inr ctx"
    and name: "nameOk (cb_name b)" and url: "pred_option isUrl (cb_baseUrl b)" and ollama: "p = OLLAMA \<longrightarrow> givenText (cb_baseUrl b)"
    and base': "base' = base\<lparr>credentials := cleared @ [c]\<rparr>" and v: "v = credentialView c" "cr_id c = cid"
      "cr_workspaceId c = ctx_workspaceId ctx" "cr_provider c = p" "cr_name c = cb_name b" "cr_baseUrl c = cb_baseUrl b"
    and ids: "cr_id ` set cleared = cr_id ` set (credentials base)"
    by (rule createCredential_answer)
  let ?p = "editPatch v (credentialForm v)"
  have found: "findCredential cid ctx base' = Inr c"
  proof -
    have "\<forall>x\<in>set cleared. \<not> (cr_id x = cid \<and> cr_workspaceId x = ctx_workspaceId ctx)" using fresh ids by (metis imageI)
    then show ?thesis using v(2,3) by (simp add: findCredential_def base' find_last)
  qed
  have given: "givenText (cb_baseUrl b) \<longleftrightarrow> cb_baseUrl b \<noteq> None"
    using url noUrl by (auto simp: givenText_def split: option.splits)
  have schema: "credentialPatchSchema isUrl ?p"
    using name url v by (auto simp: credentialPatchSchema_def editPatch_def credentialForm_def credentialView_def secretOk_def givenText_def split: option.splits)
  have same: "patchCredentialFields ?p None c = c"
    using given v ollama by (cases "cb_baseUrl b")
      (auto simp: patchCredentialFields_def editPatch_def credentialForm_def credentialView_def orElse_def givenText_def)
  have rows: "updateWhere (\<lambda>x. cr_id x = cid) (patchCredentialFields ?p None) (credentials base') = credentials base'"
    using fresh same ids by (intro updateWhere_same) (force simp: base')
  have fields: "cp_secret ?p = None" "\<not> cp_isDefault ?p" "\<not> (cr_provider c = OLLAMA \<and> cp_baseUrl ?p = Some None)"
    using ollama v by (auto simp: editPatch_def credentialForm_def credentialView_def givenText_def split: option.splits)
  show ?thesis
    using guard found schema rows same fields
    by (auto simp: patchCredential_def guarded_def u base' sealSecret_def givenText_def v(1) Let_def)
qed

definition ollama_body :: credential_body where
  "ollama_body = wizardCredential OLLAMA \<lparr>cf_name = ''Default'', cf_secret = None, cf_baseUrl = Some ''http://o''\<rparr>"

definition ollama_credential :: credential where
  "ollama_credential = \<lparr>cr_id = ''c9'', cr_workspaceId = ''w1'', cr_provider = OLLAMA, cr_name = ''Default'', encryptedSecret = None,
     secretLast4 = None, cr_baseUrl = Some ''http://o'', cr_modelAllowlist = [], isDefault = True, cr_status = CredActive, cr_createdAt = 7\<rparr>"

lemma ollama_created:
  "createCredential (\<lambda>x. x \<noteq> []) seal toBytes iv None 7 ''c9'' (Some demo_user) ''acme'' ollama_body demo_db
   = (demo_db\<lparr>credentials := credentials demo_db @ [ollama_credential]\<rparr>, Inr (credentialView ollama_credential))"
proof -
  have "providerOf ''OLLAMA'' = Some OLLAMA" using providerOf_name [of OLLAMA] by simp
  then have "credentialSchema (\<lambda>x. x \<noteq> []) ollama_body = Some OLLAMA"
    by (simp add: ollama_body_def wizardCredential_def addBody_def credentialSchema_def nameOk_def secretOk_def)
  then show ?thesis
    by (simp add: createCredential_def demo_defs guard_defs ollama_body_def wizardCredential_def addBody_def
        givenText_def sealSecret_def clearDefault_def updateWhere_def sameSlot_def countWhere_def ollama_credential_def Let_def)
qed

lemma untouched_credential_edit_witness:
  "patchCredential (\<lambda>x. x \<noteq> []) seal toBytes iv None (Some demo_user) ''acme'' ''c9''
     (editPatch (credentialView ollama_credential) (credentialForm (credentialView ollama_credential)))
     (demo_db\<lparr>credentials := credentials demo_db @ [ollama_credential]\<rparr>)
   = (demo_db\<lparr>credentials := credentials demo_db @ [ollama_credential]\<rparr>, Inr (credentialView ollama_credential))"
proof -
  have "''c9'' \<notin> cr_id ` set (credentials demo_db)" by (simp add: demo_defs)
  from untouched_credential_edit [OF ollama_created this] show ?thesis by simp
qed

text \<open>The same for the editor of a price override, whose disabled fields are sent along: it is no renaming.\<close>

lemma untouched_override_edit:
  assumes "createOverride now oid user ws b base = (base', Inr v)" and fresh: "oid \<notin> po_id ` set (overrideRows base)"
  shows "patchOverride user ws oid (overrideForm v) base' = (base', Inr v)"
  using assms(1) unfolding createOverride_def
proof (rule guarded_answer, goal_cases)
  case (1 u ctx)
  from 1(3) obtain p where p: "overrideSchema b = Some p" by (cases "overrideSchema b") auto
  define row where "row = \<lparr>po_id = oid, po_workspaceId = ctx_workspaceId ctx, po_provider = p, po_modelPattern = ob_modelPattern b,
     po_input = decimalMicros (ob_input b), po_output = decimalMicros (ob_output b),
     po_cacheRead = decimalMicros (orElse (ob_cacheRead b) ''0''),
     po_cacheWrite = decimalMicros (orElse (ob_cacheWrite b) ''0''), po_createdAt = now\<rparr>"
  have fits: "overrideFits row" and base': "base' = base\<lparr>overrideRows := overrideRows base @ [row]\<rparr>" and v: "v = overrideView row"
    using 1(3) p by (auto simp: row_def Let_def split: if_split_asm)
  let ?p = "overrideForm v"
  have money: "priceText (microString m) \<and> decimalMicros (microString m) = m" if "m \<in> set [po_input row, po_output row, po_cacheRead row, po_cacheWrite row]" for m
    using that fits by (auto simp: overrideFits_def columnFits_def intro!: microString_reads)
  have same: "patchOverrideFields ?p row = row"
    using money by (simp add: patchOverrideFields_def overrideForm_def v overrideView_def orElse_def Let_def)
  have schema: "overridePatchSchema ?p"
    using money p by (auto simp: overridePatchSchema_def overrideForm_def v overrideView_def overrideSchema_def row_def split: if_split_asm)
  have found: "find (\<lambda>x. po_id x = oid \<and> po_workspaceId x = ctx_workspaceId ctx) (overrideRows base') = Some row"
    unfolding base' using fresh by (auto intro!: find_last simp: row_def)
  have rows: "updateWhere (\<lambda>x. po_id x = oid) (patchOverrideFields ?p) (overrideRows base') = overrideRows base'"
    using fresh same by (intro updateWhere_same) (auto simp: base')
  show ?case
    using 1(1,2) found schema rows same fits
    by (simp add: patchOverride_def guarded_def base' v Let_def)
qed

text \<open>Disabling a credential and enabling it again, or the other way round, restores it.\<close>

lemma toggle_twice:
  assumes "v = credentialView c" "c' = patchCredentialFields (togglePatch v) None c"
  shows "patchCredentialFields (togglePatch (credentialView c')) None c' = c"
  using assms by (cases "cr_status c")
    (simp_all add: patchCredentialFields_def togglePatch_def credentialView_def statusOf_def orElse_def)

section \<open>What is offered is accepted\<close>

lemma find_map_filter: "find P (map f (filter C xs)) = map_option f (find (\<lambda>x. C x \<and> P (f x)) xs)"
  by (induction xs) auto

lemma find_only:
  assumes "m \<in> set xs" "P m" "\<And>x. x \<in> set xs \<Longrightarrow> P x \<Longrightarrow> x = m"
  shows "find P xs = Some m"
proof (cases "find P xs")
  case None
  with assms(1,2) show ?thesis by (auto simp: find_None_iff)
next
  case (Some x)
  then have "x \<in> set xs" "P x" by (auto simp: find_Some_iff)
  with assms Some show ?thesis by simp
qed

lemma memberships_product:
  "[((ws_id w, ws_name w, ws_slug w), wm_role m). m \<leftarrow> ms, w \<leftarrow> ws, wm_userId m = uid \<and> ws_id w = wm_workspaceId m \<and> ws_deletedAt w = None]
   = map (\<lambda>(m, w). ((ws_id w, ws_name w, ws_slug w), wm_role m))
       (filter (\<lambda>(m, w). wm_userId m = uid \<and> ws_id w = wm_workspaceId m \<and> ws_deletedAt w = None) (List.product ms ws))"
proof (induction ms)
  case (Cons m ms)
  have "[((ws_id w, ws_name w, ws_slug w), wm_role m). w \<leftarrow> ws, wm_userId m = uid \<and> ws_id w = wm_workspaceId m \<and> ws_deletedAt w = None]
      = map (\<lambda>(m, w). ((ws_id w, ws_name w, ws_slug w), wm_role m))
          (filter (\<lambda>(m, w). wm_userId m = uid \<and> ws_id w = wm_workspaceId m \<and> ws_deletedAt w = None) (map (Pair m) ws))"
    by (induction ws) auto
  with Cons show ?case by simp
qed simp

text \<open>The role the page goes by is the role the guard finds, for an address with the workspace's slug.\<close>

lemma viewerRole_guard:
  assumes "\<not> isUuid ws" "me superAdmins (au_id u) base = Inr v"
    and "workspaceGuard (workspaces base) (wmembers base) VIEWER (Some u) ws = Inr ctx"
  shows "viewerRole (loadMe v a) ws = ctx_role ctx"
proof -
  let ?C = "\<lambda>(m, w). wm_userId m = au_id u \<and> ws_id w = wm_workspaceId m \<and> ws_deletedAt w = None"
  have "(\<lambda>x. ?C x \<and> slugOf ((\<lambda>(m, w). ((ws_id w, ws_name w, ws_slug w), wm_role m)) x) = ws) = guardMatches (au_id u) ws"
    using assms(1) by (auto simp: guardMatches_def slugOf_def fun_eq_iff)
  then have "find (\<lambda>m. slugOf m = ws) (me_memberships v)
      = map_option (\<lambda>(m, w). ((ws_id w, ws_name w, ws_slug w), wm_role m)) (find (guardMatches (au_id u) ws) (List.product (wmembers base) (workspaces base)))"
    using assms(2) by (auto simp: me_def memberships_product find_map_filter split: option.splits)
  with assms(3) show ?thesis
    by (auto simp: viewerRole_def loadMe_def workspaceGuard_def split: option.splits if_splits)
qed

lemma guard_raise:
  assumes "workspaceGuard W M VIEWER (Some u) ws = Inr ctx" "r \<le> ctx_role ctx"
  shows "workspaceGuard W M r (Some u) ws = Inr ctx"
  using assms by (auto simp: workspaceGuard_def hasMinimumRole_iff split: option.splits if_splits)


text \<open>
  C23. The members page offers only what the API accepts. For a signed-in member of the workspace, on a row of the members
  list and with the memberships as \<open>/auth/me\<close> answered them, every role in the selection of the row can be given to that
  member, and the Remove or Leave button removes exactly that member.
\<close>

theorem offered_member_actions_accepted:
  assumes ok: "membersOk base" "\<not> isUuid ws" and session: "me superAdmins (au_id u) base = Inr v" "a = loadMe v before"
    and row: "listMembers (Some u) ws base = (base, Inr rows)" "row \<in> set rows"
  shows "\<exists>wsid. (\<forall>opts r. roleCell a ws row = RoleSelect opts \<and> r \<in> set opts \<longrightarrow>
              (\<exists>m role. grantableRole r = Some role \<and> updateMember (Some u) ws (mv_id row) r base = (setRole wsid (mv_id row) role base, Inr m)))
          \<and> (\<forall>label. actionCell a ws row = Offered label \<longrightarrow>
              removeMember (Some u) ws (mv_id row) base = (dropMember wsid (mv_id row) base, Inr ()))"
proof -
  from row(1) obtain ctx where guard: "workspaceGuard (workspaces base) (wmembers base) VIEWER (Some u) ws = Inr ctx"
    and rows: "row \<in> set [\<lparr>mv_id = us_id x, mv_name = us_name x, mv_email = us_email x, mv_status = us_status x, mv_role = wm_role m\<rparr>.
                   m \<leftarrow> wmembers base, wm_workspaceId m = ctx_workspaceId ctx, x \<leftarrow> users base, us_id x = wm_userId m]"
    using row(2) by (auto simp: listMembers_def guarded_def split: option.splits sum.splits)
  let ?wsid = "ctx_workspaceId ctx"
  from rows obtain m where m: "m \<in> set (wmembers base)" "isMember ?wsid (mv_id row) m" "wm_role m = mv_role row"
    by (auto simp: isMember_def split: if_splits)
  have only: "find (isMember ?wsid (mv_id row)) (wmembers base) = Some m"
    using m ok(1) by (intro find_only) (auto simp: isMember_key membersOk_def distinct_map inj_on_def)
  have target: "targetMember msg ?wsid (mv_id row) base = Inr m" if "mv_role row \<noteq> OWNER" for msg
    using that m only by (simp add: targetMember_def)
  have role: "viewerRole a ws = ctx_role ctx" using viewerRole_guard [OF ok(2) session(1) guard] session(2) by simp
  have self: "isViewer a uid \<longleftrightarrow> uid = au_id u" for uid
    using session by (auto simp: isViewer_def loadMe_def me_def find_Some_iff split: option.splits)
  have admin: "isViewerAdmin a ws \<longleftrightarrow> ADMIN \<le> ctx_role ctx"
    by (cases "ctx_role ctx") (simp_all add: isViewerAdmin_def role less_eq_workspace_role_def)
  have "updateMember (Some u) ws (mv_id row) r base = (setRole ?wsid (mv_id row) rl base, Inr (m\<lparr>wm_role := rl\<rparr>))"
    if "roleCell a ws row = RoleSelect opts" "grantableRole r = Some rl" for opts r rl
    using that guard_raise [OF guard, of ADMIN] admin target
    by (auto simp: roleCell_def updateMember_def guarded_def split: if_splits)
  moreover have "\<exists>rl. grantableRole r = Some rl" if "roleCell a ws row = RoleSelect opts" "r \<in> set opts" for opts r
    using that by (auto simp: roleCell_def grantableRole_def split: if_splits)
  moreover have "removeMember (Some u) ws (mv_id row) base = (dropMember ?wsid (mv_id row) base, Inr ())"
    if "actionCell a ws row = Offered label" for label
    using that guard admin self target
    by (auto simp: actionCell_def removeMember_def guarded_def hasMinimumRole_iff split: if_splits)
  ultimately show ?thesis by (intro exI [of _ ?wsid]) blast
qed

text \<open>Alice, an admin, and Bob.\<close>

definition crew_db :: database where
  "crew_db = demo_db\<lparr>wmembers := [alice, member_row ''u2'' MEMBER],
     users := users demo_db @ [\<lparr>us_id = ''u2'', us_email = ''b'', us_passwordHash = None, us_name = ''Bob'', us_status = UserActive\<rparr>]\<rparr>"

definition bob_row :: member_view where
  "bob_row = \<lparr>mv_id = ''u2'', mv_name = ''Bob'', mv_email = ''b'', mv_status = UserActive, mv_role = MEMBER\<rparr>"

theorem offered_member_actions_accepted_witness:
  "\<exists>wsid m. updateMember (Some demo_user) ''acme'' ''u2'' ''VIEWER'' crew_db = (setRole wsid ''u2'' VIEWER crew_db, Inr m)
     \<and> removeMember (Some demo_user) ''acme'' ''u2'' crew_db = (dropMember wsid ''u2'' crew_db, Inr ())"
proof -
  have ok: "membersOk crew_db" "\<not> isUuid ''acme''"
    by (simp_all add: membersOk_def memberKey_def crew_db_def member_row_def demo_defs isUuid_def)
  obtain v where v: "me [] (au_id demo_user) crew_db = Inr v" "me_memberships v = [((''w1'', ''Acme'', ''acme''), ADMIN)]" "fst (me_user v) = ''u1''"
    by (simp add: me_def crew_db_def member_row_def demo_defs)
  obtain rows where rows: "listMembers (Some demo_user) ''acme'' crew_db = (crew_db, Inr rows)" "bob_row \<in> set rows"
    by (simp add: listMembers_def crew_db_def member_row_def demo_defs guard_defs bob_row_def)
  let ?a = "loadMe v initialAuth"
  have "roleCell ?a ''acme'' bob_row = RoleSelect [''ADMIN'', ''MEMBER'', ''VIEWER'']" "actionCell ?a ''acme'' bob_row = Offered ''Remove''"
    using v(2,3) by (simp_all add: roleCell_def actionCell_def isViewerAdmin_def isViewer_def viewerRole_def loadMe_def slugOf_def bob_row_def)
  note cells = this
  have bob: "grantableRole ''VIEWER'' = Some VIEWER" "mv_id bob_row = ''u2''" by (simp_all add: grantableRole_def bob_row_def)
  obtain wsid where
    1: "\<And>opts r. roleCell ?a ''acme'' bob_row = RoleSelect opts \<and> r \<in> set opts \<Longrightarrow>
          \<exists>m role. grantableRole r = Some role \<and> updateMember (Some demo_user) ''acme'' ''u2'' r crew_db = (setRole wsid ''u2'' role crew_db, Inr m)"
    and 2: "\<And>label. actionCell ?a ''acme'' bob_row = Offered label \<Longrightarrow> removeMember (Some demo_user) ''acme'' ''u2'' crew_db = (dropMember wsid ''u2'' crew_db, Inr ())"
    using offered_member_actions_accepted [OF ok v(1) refl rows, where before = initialAuth] unfolding bob(2) by blast
  have "\<exists>m. updateMember (Some demo_user) ''acme'' ''u2'' ''VIEWER'' crew_db = (setRole wsid ''u2'' VIEWER crew_db, Inr m)"
    using 1 [of _ "''VIEWER''", OF conjI, OF cells(1)] bob(1) by simp
  with 2 [OF cells(2)] show ?thesis by blast
qed

section \<open>Gaps\<close>

text \<open>The button for a new override opens nothing: the editor takes the missing row for a closed dialog.\<close>

lemma new_override_never_opens: "editorOpen e \<longleftrightarrow> (\<exists>row. e = Some (EditRow row))"
  by (auto simp: editorOpen_def editorRow_def split: option.splits editing.splits)

text \<open>
  The dashboard's comment says that a member without access to credentials starts the wizard at the key step. The list of
  credentials is refused, which counts as none: such a member starts at the first step, whose request is always refused.
\<close>

lemma member_starts_at_refused_step:
  assumes "workspaceGuard (workspaces base) (wmembers base) VIEWER (Some u) ws = Inr ctx" "ctx_role ctx < ADMIN"
  shows "wizardStart (snd (listCredentials (Some u) ws base)) [] = 0"
    and "\<exists>e. createCredential isUrl seal toBytes iv ring now cid (Some u) ws (wizardCredential p f) base = (base, Inl (Domain (ForbiddenError e)))"
  using assms
  by (auto simp: wizardStart_def listCredentials_def createCredential_def guarded_def workspaceGuard_def hasMinimumRole_iff not_le
      split: option.splits if_splits)

text \<open>A finished export is offered for download for as long as it is listed, and refused once it has expired.\<close>

lemma expired_download_offered:
  assumes "findJob ctx u jobId st = Inr job" "ej_status job = DONE" "ej_expiresAt job = Some t" "t < now"
  shows "offersDownload (serializeExport job) \<and> (\<exists>what. downloadExport ctx u jobId now st = Inl (NotFoundError what None))"
  using assms by (auto simp: offersDownload_def serializeExport_def downloadExport_def)

text \<open>The drawer stops asking when every listed job has ended, which a run of the worker without faults sees to.\<close>

lemma polling_stops:
  "pollInterval (map serializeExport js) = None \<longleftrightarrow> (\<forall>j\<in>set js. ej_status j = DONE \<or> ej_status j = FAILED)"
proof -
  have "\<not> (s = PENDING \<or> s = RUNNING) \<longleftrightarrow> s = DONE \<or> s = FAILED" for s by (cases s) auto
  then show ?thesis by (auto simp: pollInterval_def serializeExport_def list_ex_iff)
qed

text \<open>The selection labelled as unassigned projects offers those of other teams, and takes them away.\<close>

lemma other_teams_project_offered:
  assumes "p \<in> set ps" "pj_status p = ProjectActive" "pj_teamId p = Some other" "pj_id p \<notin> set ownedIds"
  shows "p \<in> set (assignableProjects ownedIds ps)"
  using assms by (simp add: assignableProjects_def)

text \<open>Who accepts an invitation without being signed in is sent to the login with the workspace as the next page; the login forgets it.\<close>

lemma login_forgets_next: "au_status a \<noteq> Authenticated \<Longrightarrow> acceptTarget a slug = ''/login'' @ ''?next=/'' @ slug \<and> loginTarget (''?next=/'' @ slug) = ''/''"
  by (simp add: acceptTarget_def loginTarget_def)

end
