(* ===== verification/Spec2Isabelle.thy ===== *)
theory Spec2Isabelle
  imports Housekeeping Pricing PriceSource Unified RateLimit Sink Uuid Members Credentials Projects Overrides Analytics Admin Licensing WebSession WebApp WebReports Startup GatewayRoutes WebApi WebPages
begin

text \<open>
  TokenLedger: a gateway that forwards requests to model providers and meters them, a worker that counts
  the metered events, an HTTP API that administers workspaces, members, keys and credentials, and a web interface.
  This library models the program logic of these as HOL functions and proves what makes them correct.

  How the parts interact. A client calls the gateway (\<open>apps/gateway\<close>) with a virtual key. The key store resolves it
  (through two caches in front of Postgres), the rate limiter admits it, the credential store finds the provider
  credential, the request is forwarded, the response is streamed back while a tap observes the token usage, and one
  usage event per request is priced and put on a Redis stream by the sink. The worker (\<open>apps/worker\<close>) reads the
  stream in batches, stores each event once and adds it to hourly and daily rollups, exports CSV files, prunes
  old rows and reconciles rollups with events. The API (\<open>apps/api\<close>) keeps the tables the gateway reads, and tells
  the gateways' caches when a key has changed. The web interface (\<open>apps/web\<close>) calls the API with a short-lived access
  token that it renews from a session cookie.

  Theories, by part of the program:

  \<^item> \<open>Prelude\<close>: strings, decimal numerals, money at eight decimals, ordered maps, and their lemmas.
  \<^item> \<open>Shared\<close>: \<open>packages/shared/src\<close> enums, errors, roles (\<open>instantiation\<close> of \<open>linorder\<close>), CSV cells with a reader.
  \<^item> \<open>Uuid\<close>: \<open>uuidv7\<close> of \<open>packages/shared/src/uuid.ts\<close> on bytes.
  \<^item> \<open>Pricing\<close>: \<open>packages/pricing/src\<close>, matching of price entries and cost in pico-dollars.
  \<^item> \<open>Auth\<close>: \<open>packages/auth/src\<close>, tokens, envelope encryption, password hashes, access tokens.
  \<^item> \<open>Json\<close>, \<open>Utf8\<close>: the parts of the language runtime that the code relies on (value access, coercions, decoding of bytes).
  \<^item> \<open>Providers\<close>, \<open>Translate\<close>: \<open>packages/providers/src\<close>, the adapters with their stream observers (locale \<open>stream_observer\<close>) and
    the translation between the OpenAI, Anthropic and Gemini formats.
  \<^item> \<open>GatewayCore\<close>: \<open>proxy/core.ts\<close>, key extraction, headers, the frame tap, the event finalizer, key authorization.
  \<^item> \<open>RateLimit\<close>, \<open>Sink\<close>, \<open>PriceSource\<close>, \<open>KeyStores\<close>: \<open>ratelimit.ts\<close> (locale \<open>fixed_window\<close>), \<open>sink.ts\<close> as a step relation,
    \<open>pricing.ts\<close> and the model list (locale \<open>pricing_source\<close>), \<open>stores/\<close> (locales \<open>key_store\<close> and \<open>cached_keys\<close>).
  \<^item> \<open>Pipeline\<close>, \<open>Unified\<close>: \<open>proxy/pipeline.ts\<close> and \<open>proxy/unified.ts\<close>, the two request handlers, stage by stage.
  \<^item> \<open>Dates\<close>, \<open>Rollups\<close>, \<open>Ingest\<close>: \<open>ingest/\<close> of the worker, truncation to UTC hours and days, grouping of events, the
    transactional batch (\<open>persist.ts\<close>) and the consumer loop (\<open>consumer.ts\<close>) as a step function over a stream.
  \<^item> \<open>Exports\<close>, \<open>Housekeeping\<close>: \<open>modules/exports.ts\<close> with \<open>jobs/export-csv.ts\<close> (every way a run can
    fail is an argument of it), and \<open>jobs/retention.ts\<close>, \<open>jobs/reconcile.ts\<close>; \<open>Doubles\<close>: rounding to the numbers of JavaScript,
    in which reconciliation compares.
  \<^item> \<open>Guards\<close>: \<open>plugins/guards.ts\<close>, authentication and the workspace guard.
  \<^item> \<open>Tables\<close>: rows of \<open>schema.prisma\<close>, queries, the error handler of \<open>server.ts\<close>, routes behind the guards.
  \<^item> \<open>Sessions\<close>, \<open>Members\<close>, \<open>Keys\<close>, \<open>Credentials\<close>: \<open>modules/auth.ts\<close>, \<open>modules/invitations.ts\<close> (with \<open>lib/mailer.ts\<close>),
    \<open>modules/keys.ts\<close>, \<open>modules/credentials.ts\<close>. A refresh of a session runs statement by statement among other requests
    (\<open>advanceRefresh\<close>, \<open>auth_step\<close>).
  \<^item> \<open>Teams\<close>, \<open>Projects\<close>, \<open>Overrides\<close>: \<open>modules/teams.ts\<close>, the project routes of \<open>modules/org.ts\<close>, and the
    workspace price overrides of \<open>modules/pricing.ts\<close>.
  \<^item> \<open>Analytics\<close>, \<open>Admin\<close>: the dashboards of \<open>modules/analytics.ts\<close> and \<open>modules/analytics-query.ts\<close> and the platform
    figures of \<open>modules/admin.ts\<close>, as functions of the worker's ledger.
  \<^item> \<open>Licensing\<close>: \<open>ee/licensing/src\<close>.
  \<^item> \<open>Startup\<close>: \<open>packages/config/src\<close>, \<open>config.ts\<close> and \<open>main.ts\<close> of the programs (key ring, stores, dispatch of jobs, shutdown),
    the health checks, and the workspace-scoped database client of \<open>packages/db/src/index.ts\<close>.
  \<^item> \<open>GatewayRoutes\<close>: the routes of the gateway's \<open>server.ts\<close> around both handlers, and the addresses that \<open>SetupPage.tsx\<close> and
    the wizard tell users to configure.
  \<^item> \<open>WebClient\<close>, \<open>WebSession\<close>: \<open>api/client.ts\<close> of \<open>apps/web\<close> as a state machine of interleaved calls, and its composition
    with the refreshes of \<open>Sessions\<close>, executed statement by statement, and the browser's cookie.
  \<^item> \<open>WebApp\<close>, \<open>WebReports\<close>: \<open>auth-context.tsx\<close> and the routes of \<open>App.tsx\<close>, and the CSV exports, chart data and
    searches of \<open>AnalyticsPage.tsx\<close>, \<open>PlatformReports.tsx\<close> and \<open>PlatformTenants.tsx\<close>.
  \<^item> \<open>WebQuery\<close>, \<open>WebApi\<close>: \<open>api/endpoints.ts\<close>, the query strings it writes (with a reader) and every call it makes, against
    the route table that \<open>server.ts\<close> and \<open>modules/\<close> of the API register.
  \<^item> \<open>WebPages\<close>: the decisions of the pages under \<open>features/\<close>, offered actions, the forms and requests of the dialogs, the dialog
    of a new key as a state machine, the steps of the wizard; \<open>Listings\<close>: the reads of the API that they show.

  Conventions. Effects are explicit: a handler takes the database (or the component's state) and returns the new one with
  a result, \<open>Inl\<close> an error and \<open>Inr\<close> a value; errors that leave writes behind return the written state. A table is a list
  of rows in insertion order. Time, random bytes, identifiers, digests, ciphers and the outcome of calls to Redis, Postgres
  or a provider are arguments. A text is a list of characters, one per byte of its UTF-8 form; lengths agree with
  the program's on ASCII text, and non-ASCII literals are written out as bytes.
  A SQL transaction is atomic. Statements outside one are separate steps in the session refresh and in the lemmas
  that exhibit a race; the other handlers of the API are modelled as running one after the other.

  What the lemmas show. Each theory first gives the code's definitions, then the facts about single operations, then
  the invariants of their step relations, then the properties, numbered C1 and up, with their witnesses, and
  finally lemmas that exhibit behaviour that differs from what the code or its comments promise.
  The money path: cost is exact rounded down (\<open>Pricing\<close>), attributed once per request (\<open>GatewayCore\<close>, \<open>Pipeline\<close>),
  not lost by the sink except as counted (\<open>Sink\<close>), conserved by storage and, up to the six decimals that a rollup
  column keeps, by the rollups (\<open>Rollups\<close>, \<open>Ingest\<close>), and shown by the dashboards without loss (\<open>Analytics\<close>, \<open>Admin\<close>);
  a workspace's own price is what its requests are charged (\<open>Overrides\<close>).
  The access path: only members pass the guard (\<open>Guards\<close>), a session token that is presented twice ends its family (\<open>Sessions\<close>), workspaces keep an owner
  (\<open>Members\<close>), keys and credentials do what they were created for (\<open>Keys\<close>, \<open>Credentials\<close>), and the gateway sends
  nothing upstream without an authorized key (\<open>Pipeline\<close>, \<open>Unified\<close>), with bounded staleness (\<open>KeyStores\<close>); an address
  under a provider's name reaches that provider with path and query kept (\<open>GatewayRoutes\<close>).
  In the browser every call settles (\<open>WebClient\<close>), a tab that has its cookie to itself is never taken for a thief (\<open>WebSession\<close>),
  redirects end (\<open>WebApp\<close>), what is exported reads back (\<open>WebReports\<close>), every call meets exactly one route (\<open>WebApi\<close>), and
  the dialogs composed with the API change nothing when they are saved untouched and offer only what is accepted (\<open>WebPages\<close>).

  Conditions. Properties that follow the worker's history take identifiers without the separator of its grouping key
  (the columns demand uuids) and, where they speak of exact agreement with stored events, batches that name no event twice, since a repeated
  message is counted twice; properties of the cost take whole token counts and prices that are decimals, since the
  calculator raises on others. Each is stated with the property, and a lemma shows what happens without it.

  Bounds and fuel. Loops are structural or have a termination measure; only the endless loops of the worker and
  the sink are step functions, and the properties quantify over their histories. Limits of the code (rate limits,
  buffer of the sink, body sizes, page and batch sizes, lifetimes) are the code's constants.

  Not modelled. The rendering of the web interface (tables, charts, messages, styles) and the checks of its form library;
  \<open>packages/telemetry\<close>, plugin registration and logging; seed data and development scripts.
  SMTP delivery, the queue library's scheduling, the HTTP server and the generated database client are external.
\<close>

end
